(* ===== verification/Prelude.thy ===== *)
theory Prelude
  imports Main "HOL-Library.Word" "HOL-Library.Code_Target_Numeral"
begin

text \<open>
  Shared vocabulary of the development: the type names the components use, Go's 64-bit
  signed arithmetic on \<open>int\<close> with the wrap-around written out, association lists as
  Go maps whose iteration order does not matter, and the generic list facts the component
  proofs use. Facts go into the collections \<open>codec\<close> (printing, parsing, splitting)
  and \<open>amap\<close> (association-list maps).
\<close>

named_theorems codec \<open>printing, parsing and splitting of strings\<close>
named_theorems amap \<open>association lists used as Go maps\<close>

section \<open>64-bit signed integers\<close>

text \<open>
  Go's \<open>int64\<close> (and \<open>int\<close>, 64 bits on every platform the daemon ships for) is an
  \<open>int\<close> in the range \<open>in64\<close>; an operation that may leave the range is wrapped
  with \<open>wrap64\<close>, as the language does.
\<close>

definition in64 :: "int \<Rightarrow> bool" where
  "in64 x \<longleftrightarrow> - (2 ^ 63) \<le> x \<and> x < 2 ^ 63"

definition wrap64 :: "int \<Rightarrow> int" where
  "wrap64 x = (x + 2 ^ 63) mod 2 ^ 64 - 2 ^ 63"

lemma wrap64_id [simp]: "in64 x \<Longrightarrow> wrap64 x = x"
  by (simp add: in64_def wrap64_def)

lemma in64_wrap64 [simp]: "in64 (wrap64 x)"
  by (simp add: in64_def wrap64_def)

text \<open>Go's integer division truncates towards zero.\<close>

definition go_div :: "int \<Rightarrow> int \<Rightarrow> int" where
  "go_div a b = sgn a * sgn b * (\<bar>a\<bar> div \<bar>b\<bar>)"

lemma go_div_pos: "0 \<le> a \<Longrightarrow> 0 < b \<Longrightarrow> go_div a b = a div b"
  by (cases "a = 0") (auto simp: go_div_def)

section \<open>Lists\<close>

lemma length_filter_split: "length (filter P xs) + length (filter (\<lambda>x. \<not> P x) xs) = length xs"
  by (induction xs) auto

lemma takeWhile_dropWhile_sorted:
  "sorted xs \<Longrightarrow> dropWhile (\<lambda>t. t < c) xs = filter (\<lambda>t. c \<le> t) (xs :: int list)"
proof (induction xs)
  case (Cons x xs)
  then show ?case by (auto intro!: filter_True [symmetric] dest: order_trans)
qed simp

lemma find_Some_iff2: "find P xs = Some x \<Longrightarrow> x \<in> set xs \<and> P x"
  by (induction xs) (auto split: if_splits)

lemma find_ex_iff: "(\<exists>y. find P xs = Some y) \<longleftrightarrow> (\<exists>x \<in> set xs. P x)"
  by (induction xs) auto

lemma find_append: "find P (xs @ ys) = (case find P xs of None \<Rightarrow> find P ys | Some x \<Rightarrow> Some x)"
  by (induction xs) auto

lemma find_map: "find P (map f xs) = map_option f (find (P \<circ> f) xs)"
  by (induction xs) auto

lemma find_filter: "find P (filter Q xs) = find (\<lambda>x. Q x \<and> P x) xs"
  by (induction xs) auto

lemma foldl_max_mem:
  fixes f :: "'a \<Rightarrow> 'b :: linorder"
  shows "foldl (\<lambda>w d. if f d > f w then d else w) a xs \<in> insert a (set xs)"
  by (induction xs arbitrary: a) (simp, fastforce)

lemma foldl_max_ge:
  fixes f :: "'a \<Rightarrow> 'b :: linorder"
  assumes "x \<in> insert a (set xs)"
  shows "f x \<le> f (foldl (\<lambda>w d. if f d > f w then d else w) a xs)"
  using assms
proof (induction xs arbitrary: a x)
  case (Cons y ys)
  have step: "f a \<le> f (if f y > f a then y else a)" "f y \<le> f (if f y > f a then y else a)"
    by auto
  have ge: "f (if f y > f a then y else a)
      \<le> f (foldl (\<lambda>w d. if f d > f w then d else w) (if f y > f a then y else a) ys)"
    by (rule Cons.IH) simp
  show ?case
  proof (cases "x \<in> set ys")
    case True
    then show ?thesis using Cons.IH [of x] by simp
  next
    case False
    with Cons.prems have "x = a \<or> x = y" by auto
    then have "f x \<le> f (if f y > f a then y else a)" using step by auto
    from order_trans [OF this ge] show ?thesis by simp
  qed
qed simp

section \<open>Go maps as association lists\<close>

text \<open>
  A Go map whose size or iteration matters is an association list with distinct keys
  (\<open>amap_wf\<close>): lookup is \<open>map_of\<close>, \<open>m[k] = v\<close> is \<open>aput\<close>, \<open>delete(m, k)\<close> is
  \<open>adel\<close>, a deletion loop over the map is \<open>filter\<close>. The order of the list is not
  observable through these.
\<close>

type_synonym ('k, 'v) amap = "('k \<times> 'v) list"

definition amap_wf :: "('k, 'v) amap \<Rightarrow> bool" where
  "amap_wf m \<longleftrightarrow> distinct (map fst m)"

definition adel :: "'k \<Rightarrow> ('k, 'v) amap \<Rightarrow> ('k, 'v) amap" where
  "adel k m = filter (\<lambda>kv. fst kv \<noteq> k) m"

definition aput :: "'k \<Rightarrow> 'v \<Rightarrow> ('k, 'v) amap \<Rightarrow> ('k, 'v) amap" where
  "aput k v m = (k, v) # adel k m"

lemma map_of_filter_fst: "map_of (filter (\<lambda>kv. P (fst kv)) m) k = (if P k then map_of m k else None)"
  by (induction m) auto

lemma map_of_adel [amap, simp]: "map_of (adel k m) = (map_of m)(k := None)"
proof
  show "map_of (adel k m) k' = ((map_of m)(k := None)) k'" for k'
    by (simp add: adel_def map_of_filter_fst [of "\<lambda>x. x \<noteq> k"])
qed

lemma map_of_aput [amap, simp]: "map_of (aput k v m) = (map_of m)(k \<mapsto> v)"
  by (simp add: aput_def)

lemma amap_wf_Nil [simp]: "amap_wf []"
  by (simp add: amap_wf_def)

lemma amap_wf_filter [simp, intro]: "amap_wf m \<Longrightarrow> amap_wf (filter P m)"
  by (induction m) (auto simp: amap_wf_def)

lemma amap_wf_adel [simp, intro]: "amap_wf m \<Longrightarrow> amap_wf (adel k m)"
  by (simp add: adel_def amap_wf_filter)

lemma fst_adel [simp]: "fst ` set (adel k m) = fst ` set m - {k}"
  by (auto simp: adel_def)

lemma amap_wf_aput [simp, intro]: "amap_wf m \<Longrightarrow> amap_wf (aput k v m)"
  using amap_wf_adel [of m k] fst_adel [of k m] by (auto simp: aput_def amap_wf_def)

lemma adel_absent: "map_of m k = None \<Longrightarrow> adel k m = m"
  by (induction m) (auto simp: adel_def split: if_splits)

lemma length_adel_le: "length (adel k m) \<le> length m"
  by (simp add: adel_def)

lemma length_aput_absent: "map_of m k = None \<Longrightarrow> length (aput k v m) = Suc (length m)"
  by (simp add: aput_def adel_absent)

lemma length_adel_present: "amap_wf m \<Longrightarrow> map_of m k = Some v \<Longrightarrow> Suc (length (adel k m)) = length m"
proof (induction m)
  case (Cons kv m)
  show ?case
  proof (cases "fst kv = k")
    case True
    with Cons.prems have "map_of m k = None"
      by (auto simp: amap_wf_def map_of_eq_None_iff image_image)
    then have "adel k m = m" by (rule adel_absent)
    with True show ?thesis by (simp add: adel_def)
  next
    case False
    with Cons show ?thesis by (cases kv) (simp add: adel_def amap_wf_def)
  qed
qed simp

lemma length_aput_present: "amap_wf m \<Longrightarrow> map_of m k = Some v0 \<Longrightarrow> length (aput k v m) = length m"
  using length_adel_present [of m k v0] by (simp add: aput_def)

lemma map_of_filter_wf:
  "amap_wf m \<Longrightarrow> map_of (filter (\<lambda>kv. P (fst kv) (snd kv)) m) k =
     (case map_of m k of None \<Rightarrow> None | Some v \<Rightarrow> if P k v then Some v else None)"
proof (induction m)
  case (Cons kv m)
  obtain a v where kv: "kv = (a, v)" by (cases kv)
  show ?case
  proof (cases "a = k")
    case True
    with Cons.prems kv have none: "map_of m k = None"
      by (auto simp: amap_wf_def map_of_eq_None_iff image_image)
    with Cons kv True show ?thesis by (auto simp: amap_wf_def)
  next
    case False
    with Cons kv show ?thesis by (auto simp: amap_wf_def)
  qed
qed simp

section \<open>Reachable states\<close>

text \<open>
  The states a component can reach from an initial one by its steps, and the contract of
  an invariant: it holds initially and every step keeps it.
\<close>

inductive reachable :: "('s \<Rightarrow> bool) \<Rightarrow> ('s \<Rightarrow> 's \<Rightarrow> bool) \<Rightarrow> 's \<Rightarrow> bool"
  for init :: "'s \<Rightarrow> bool" and step :: "'s \<Rightarrow> 's \<Rightarrow> bool"
where
  reachable_init: "init s \<Longrightarrow> reachable init step s"
| reachable_step: "reachable init step s \<Longrightarrow> step s s' \<Longrightarrow> reachable init step s'"

locale invariant_system =
  fixes init :: "'s \<Rightarrow> bool" and step :: "'s \<Rightarrow> 's \<Rightarrow> bool" and inv :: "'s \<Rightarrow> bool"
  assumes inv_init: "init s \<Longrightarrow> inv s"
    and inv_step: "inv s \<Longrightarrow> step s s' \<Longrightarrow> inv s'"
begin

lemma reachable_inv: "reachable init step s \<Longrightarrow> inv s"
  by (induction rule: reachable.induct) (auto intro: inv_init inv_step)

end

end
