(* ===== verification/Go_Strings.thy ===== *)
theory Go_Strings
  imports Prelude
begin

text \<open>
  What the sources use of Go's \<open>strings\<close> and \<open>strconv\<close> packages. A Go string is a byte
  sequence, here \<open>string\<close> (a list of 8-bit \<open>char\<close>s). \<open>Split\<close>/\<open>Join\<close> with a one-byte
  separator, \<open>TrimSpace\<close> over the UTF-8 encodings of the Unicode spaces, \<open>FormatInt\<close>,
  \<open>ParseInt\<close>, \<open>ParseUint\<close>, and the laws the codecs above them rest on: splitting undoes
  joining, parsing undoes formatting.
\<close>

section \<open>strings.Split and strings.Join\<close>

fun split :: "char \<Rightarrow> string \<Rightarrow> string list" where
  "split c [] = [[]]"
| "split c (x # xs) =
     (if x = c then [] # split c xs
      else case split c xs of [] \<Rightarrow> [[x]] | w # ws \<Rightarrow> (x # w) # ws)"

fun join :: "char \<Rightarrow> string list \<Rightarrow> string" where
  "join c [] = []"
| "join c [w] = w"
| "join c (w # v # ws) = w @ c # join c (v # ws)"

lemma split_not_Nil [simp]: "split c s \<noteq> []"
  by (induction s) (auto split: list.splits)

lemma join_split [codec, simp]: "join c (split c s) = s"
proof (induction s)
  case (Cons x xs)
  obtain w ws where w: "split c xs = w # ws"
    by (cases "split c xs") auto
  with Cons show ?case by (cases ws) auto
qed simp

lemma split_no_sep: "c \<notin> set s \<Longrightarrow> split c s = [s]"
  by (induction s) auto

lemma split_append_sep: "c \<notin> set w \<Longrightarrow> split c (w @ c # s) = w # split c s"
  by (induction w) auto

lemma split_join [codec]:
  "ws \<noteq> [] \<Longrightarrow> \<forall>w \<in> set ws. c \<notin> set w \<Longrightarrow> split c (join c ws) = ws"
  by (induction c ws rule: join.induct) (auto simp: split_no_sep split_append_sep)

lemma split_mem_no_sep: "w \<in> set (split c s) \<Longrightarrow> c \<notin> set w"
proof (induction s arbitrary: w)
  case (Cons x xs)
  then show ?case by (fastforce split: if_splits list.splits)
qed auto

lemma split_eq_iff: "split c s = ws \<longleftrightarrow> ws \<noteq> [] \<and> (\<forall>w \<in> set ws. c \<notin> set w) \<and> s = join c ws"
  using split_join split_mem_no_sep by auto

lemma set_split_subset: "w \<in> set (split c s) \<Longrightarrow> set w \<subseteq> set s"
proof (induction s arbitrary: w)
  case (Cons x xs)
  then show ?case by (fastforce split: if_splits list.splits)
qed auto

section \<open>strings.TrimSpace, prefixes, Contains, Index\<close>

text \<open>
  The UTF-8 encodings of the runes \<open>unicode.IsSpace\<close> holds for. A space is at the front
  (at the end) of a string exactly when one of these is a prefix (a suffix) of its bytes.
\<close>

definition ws_encodings :: "nat list list" where
  "ws_encodings =
     [[9], [10], [11], [12], [13], [32], [194, 133], [194, 160], [225, 154, 128],
      [226, 128, 128], [226, 128, 129], [226, 128, 130], [226, 128, 131], [226, 128, 132],
      [226, 128, 133], [226, 128, 134], [226, 128, 135], [226, 128, 136], [226, 128, 137],
      [226, 128, 138], [226, 128, 168], [226, 128, 169], [226, 128, 175], [226, 129, 159],
      [227, 128, 128]]"

definition ws_runes :: "string list" where
  "ws_runes = map (map char_of) ws_encodings"

fun is_prefix :: "'a list \<Rightarrow> 'a list \<Rightarrow> bool" where
  "is_prefix [] s = True"
| "is_prefix (x # xs) [] = False"
| "is_prefix (x # xs) (y # ys) = (x = y \<and> is_prefix xs ys)"

lemma is_prefix_iff: "is_prefix p s \<longleftrightarrow> (\<exists>t. s = p @ t)"
  by (induction p s rule: is_prefix.induct) auto

function trim_front :: "string list \<Rightarrow> string \<Rightarrow> string" where
  "trim_front rs s =
     (case find (\<lambda>r. r \<noteq> [] \<and> is_prefix r s) rs of None \<Rightarrow> s | Some r \<Rightarrow> trim_front rs (drop (length r) s))"
  by pat_completeness auto
termination
  by (relation "measure (\<lambda>(rs, s). length s)")
     (auto dest!: find_Some_iff2 simp: is_prefix_iff)

declare trim_front.simps [simp del]

definition trim_space :: "string \<Rightarrow> string" where
  "trim_space s = rev (trim_front (map rev ws_runes) (rev (trim_front ws_runes s)))"

text \<open>A string whose bytes are all graphic ASCII is left alone by \<open>TrimSpace\<close>.\<close>

definition graphic :: "char \<Rightarrow> bool" where
  "graphic c \<longleftrightarrow> 33 \<le> (of_char c :: nat) \<and> (of_char c :: nat) \<le> 126"

lemma ws_runes_not_graphic: "r \<in> set ws_runes \<Longrightarrow> \<exists>c \<in> set r. \<not> graphic c"
  by (auto simp: ws_runes_def ws_encodings_def graphic_def)

lemma trim_front_graphic:
  assumes "\<forall>r \<in> set rs. \<exists>c \<in> set r. \<not> graphic c" and "\<forall>c \<in> set s. graphic c"
  shows "trim_front rs s = s"
proof -
  have "find (\<lambda>r. r \<noteq> [] \<and> is_prefix r s) rs = None"
    using assms by (fastforce simp: find_None_iff is_prefix_iff)
  then show ?thesis by (simp add: trim_front.simps)
qed

lemma trim_space_graphic [codec]: "\<forall>c \<in> set s. graphic c \<Longrightarrow> trim_space s = s"
  using ws_runes_not_graphic by (simp add: trim_space_def trim_front_graphic)

lemma trim_front_suffix: "\<exists>t. s = t @ trim_front rs s"
proof (induction rs s rule: trim_front.induct)
  case (1 rs s)
  show ?case
  proof (cases "find (\<lambda>r. r \<noteq> [] \<and> is_prefix r s) rs")
    case (Some r)
    from 1 [OF Some] obtain t where "drop (length r) s = t @ trim_front rs (drop (length r) s)" by blast
    then have "s = (take (length r) s @ t) @ trim_front rs (drop (length r) s)"
      using append_take_drop_id [of "length r" s] by simp
    moreover from Some have "trim_front rs s = trim_front rs (drop (length r) s)"
      by (simp add: trim_front.simps [of rs s])
    ultimately show ?thesis by metis
  qed (simp add: trim_front.simps)
qed

text \<open>Trimming twice is trimming once.\<close>

lemma trim_front_done: "find (\<lambda>r. r \<noteq> [] \<and> is_prefix r (trim_front rs s)) rs = None"
proof (induction rs s rule: trim_front.induct)
  case (1 rs s)
  show ?case
  proof (cases "find (\<lambda>r. r \<noteq> [] \<and> is_prefix r s) rs")
    case None
    then show ?thesis by (simp add: trim_front.simps [of rs s])
  next
    case (Some r)
    with 1 [OF Some] show ?thesis by (simp add: trim_front.simps [of rs s])
  qed
qed

lemma trim_front_id: "find (\<lambda>r. r \<noteq> [] \<and> is_prefix r s) rs = None \<Longrightarrow> trim_front rs s = s"
  by (simp add: trim_front.simps)

lemma trim_space_idem [simp]: "trim_space (trim_space s) = trim_space s"
proof -
  let ?u = "trim_front ws_runes s"
  let ?v = "trim_front (map rev ws_runes) (rev ?u)"
  obtain t where "rev ?u = t @ ?v" using trim_front_suffix by blast
  then have "?u = rev ?v @ rev t" by (metis rev_append rev_rev_ident)
  then have "is_prefix r (rev ?v) \<Longrightarrow> is_prefix r ?u" for r by (metis append_assoc is_prefix_iff)
  then have "find (\<lambda>r. r \<noteq> [] \<and> is_prefix r (rev ?v)) ws_runes = None"
    using trim_front_done [of ws_runes s] by (fastforce simp: find_None_iff)
  then have "trim_front ws_runes (rev ?v) = rev ?v" by (rule trim_front_id)
  moreover have "trim_front (map rev ws_runes) ?v = ?v" by (intro trim_front_id trim_front_done)
  ultimately show ?thesis by (simp add: trim_space_def)
qed

lemma set_trim_space: "set (trim_space s) \<subseteq> set s"
proof -
  have sub: "set (trim_front rs t) \<subseteq> set t" for rs t
    using trim_front_suffix [of t rs] by (metis set_append Un_upper2)
  show ?thesis
    using sub [of "map rev ws_runes" "rev (trim_front ws_runes s)"] sub [of ws_runes s]
    by (auto simp: trim_space_def)
qed

text \<open>\<open>strings.Contains s p\<close>: \<open>p\<close> occurs in \<open>s\<close>.\<close>

fun contains :: "string \<Rightarrow> string \<Rightarrow> bool" where
  "contains [] p = (p = [])"
| "contains (x # xs) p = (is_prefix p (x # xs) \<or> contains xs p)"

lemma contains_iff: "contains s p \<longleftrightarrow> (\<exists>a b. s = a @ p @ b)"
proof (induction s p rule: contains.induct)
  case (2 x xs p)
  have "(\<exists>a b. x # xs = a @ p @ b) \<longleftrightarrow> is_prefix p (x # xs) \<or> (\<exists>a b. xs = a @ p @ b)"
    unfolding is_prefix_iff by (metis append_Cons append_Nil list.exhaust list.inject)
  with 2 show ?case by simp
qed simp

fun index_byte :: "char \<Rightarrow> string \<Rightarrow> nat option" where
  "index_byte c [] = None"
| "index_byte c (x # xs) = (if x = c then Some 0 else map_option Suc (index_byte c xs))"

lemma index_byte_None: "index_byte c s = None \<longleftrightarrow> c \<notin> set s"
  by (induction s) auto

lemma index_byte_Some: "index_byte c s = Some i \<Longrightarrow> i < length s \<and> s ! i = c \<and> c \<notin> set (take i s)"
  by (induction s arbitrary: i) (auto split: if_splits)

lemma index_byte_append: "c \<notin> set w \<Longrightarrow> index_byte c (w @ c # s) = Some (length w)"
  by (induction w) auto

section \<open>strconv\<close>

definition digit_char :: "nat \<Rightarrow> char" where
  "digit_char d = (if d < 10 then char_of (48 + d) else char_of (87 + d))"

definition digit_val :: "char \<Rightarrow> nat option" where
  "digit_val c = (let n = of_char c :: nat in
     if 48 \<le> n \<and> n \<le> 57 then Some (n - 48)
     else if 97 \<le> n \<and> n \<le> 122 then Some (n - 87)
     else if 65 \<le> n \<and> n \<le> 90 then Some (n - 55)
     else None)"

text \<open>\<open>strconv.FormatInt(i, base)\<close>, \<open>strconv.Itoa\<close>, \<open>strconv.FormatUint\<close>.\<close>

function format_nat :: "nat \<Rightarrow> nat \<Rightarrow> string" where
  "format_nat b n =
     (if b < 2 \<or> n < b then [digit_char n] else format_nat b (n div b) @ [digit_char (n mod b)])"
  by pat_completeness auto
termination
  by (relation "measure snd") (auto intro: div_less_dividend)

declare format_nat.simps [simp del]

definition format_int :: "nat \<Rightarrow> int \<Rightarrow> string" where
  "format_int b i = (if i < 0 then CHR ''-'' # format_nat b (nat (- i)) else format_nat b (nat i))"

text \<open>\<open>strconv.ParseUint(s, base, bits)\<close> and \<open>strconv.ParseInt\<close>; any error is \<open>None\<close>.\<close>

fun parse_digits :: "nat \<Rightarrow> nat \<Rightarrow> string \<Rightarrow> nat option" where
  "parse_digits b acc [] = Some acc"
| "parse_digits b acc (c # cs) =
     (case digit_val c of None \<Rightarrow> None
      | Some d \<Rightarrow> if d < b then parse_digits b (acc * b + d) cs else None)"

definition parse_uint :: "nat \<Rightarrow> nat \<Rightarrow> string \<Rightarrow> nat option" where
  "parse_uint b bits s =
     (if s = [] then None
      else case parse_digits b 0 s of None \<Rightarrow> None | Some n \<Rightarrow> if n < 2 ^ bits then Some n else None)"

definition parse_int :: "nat \<Rightarrow> nat \<Rightarrow> string \<Rightarrow> int option" where
  "parse_int b bits s =
     (case s of [] \<Rightarrow> None
      | c # cs \<Rightarrow>
        (let neg = (c = CHR ''-''); body = (if c = CHR ''+'' \<or> c = CHR ''-'' then cs else s) in
         if body = [] then None
         else case parse_digits b 0 body of None \<Rightarrow> None
           | Some n \<Rightarrow>
             if neg then (if n \<le> 2 ^ (bits - 1) then Some (- int n) else None)
             else (if n < 2 ^ (bits - 1) then Some (int n) else None)))"

lemma digit_val_char: "d < 36 \<Longrightarrow> digit_val (digit_char d) = Some d"
  by (auto simp: digit_val_def digit_char_def Let_def of_char_of)

lemma digit_char_ascii:
  "d < 36 \<Longrightarrow> of_char (digit_char d) = (if d < 10 then 48 + d else 87 + d :: nat)"
  by (auto simp: digit_char_def of_char_of)

lemma parse_digits_append:
  "parse_digits b acc (xs @ ys) = (case parse_digits b acc xs of None \<Rightarrow> None | Some n \<Rightarrow> parse_digits b n ys)"
  by (induction b acc xs rule: parse_digits.induct) (auto split: option.splits)

lemma parse_format_nat [codec]:
  assumes "2 \<le> b" and "b \<le> 36"
  shows "parse_digits b 0 (format_nat b n) = Some n"
proof (induction n rule: less_induct)
  case (less n)
  show ?case
  proof (cases "n < b")
    case True
    with assms show ?thesis by (simp add: format_nat.simps [of b n] digit_val_char)
  next
    case False
    with assms have "n div b < n" by (simp add: div_less_dividend)
    then have "parse_digits b 0 (format_nat b (n div b)) = Some (n div b)" by (rule less.IH)
    moreover have "n mod b < b" using assms by simp
    moreover from this have "n mod b < 36" using assms by linarith
    ultimately show ?thesis using False assms
      by (simp add: format_nat.simps [of b n] parse_digits_append digit_val_char)
  qed
qed

definition numeric :: "char \<Rightarrow> bool" where
  "numeric c \<longleftrightarrow> (48 \<le> (of_char c :: nat) \<and> (of_char c :: nat) \<le> 57)
     \<or> (97 \<le> (of_char c :: nat) \<and> (of_char c :: nat) \<le> 122)"

lemma digit_char_numeric: "d < 36 \<Longrightarrow> numeric (digit_char d)"
  by (auto simp: numeric_def digit_char_ascii)

lemma format_nat_numeric:
  assumes "2 \<le> b" and "b \<le> 36"
  shows "\<forall>c \<in> set (format_nat b n). numeric c"
proof (induction n rule: less_induct)
  case (less n)
  show ?case
  proof (cases "n < b")
    case True
    with assms show ?thesis by (simp add: format_nat.simps [of b n] digit_char_numeric)
  next
    case False
    with assms have "n div b < n" by (simp add: div_less_dividend)
    then have "\<forall>c \<in> set (format_nat b (n div b)). numeric c" by (rule less.IH)
    moreover have "n mod b < 36" using assms mod_less_divisor [of b n] by linarith
    ultimately show ?thesis using False assms
      by (simp add: format_nat.simps [of b n] digit_char_numeric)
  qed
qed

lemma format_nat_not_Nil [simp]: "format_nat b n \<noteq> []"
  by (subst format_nat.simps) simp

lemma numeric_punct: "numeric c \<Longrightarrow> c \<noteq> CHR ''.'' \<and> c \<noteq> CHR '':'' \<and> c \<noteq> CHR ''~'' \<and> c \<noteq> CHR ''+'' \<and> c \<noteq> CHR ''-'' \<and> graphic c"
  by (auto simp: numeric_def graphic_def)

lemma format_int_chars:
  assumes "2 \<le> b" and "b \<le> 36" and "c \<in> set (format_int b i)"
  shows "c \<noteq> CHR ''.'' \<and> c \<noteq> CHR '':'' \<and> c \<noteq> CHR ''~'' \<and> graphic c"
proof -
  have minus: "graphic (CHR ''-'')" by (simp add: graphic_def)
  from assms have "c = CHR ''-'' \<or> numeric c"
    using format_nat_numeric by (auto simp: format_int_def split: if_splits)
  with minus show ?thesis using numeric_punct by auto
qed

lemma format_int_not_Nil [simp]: "format_int b i \<noteq> []"
  by (simp add: format_int_def)

lemma format_nat_hd: "2 \<le> b \<Longrightarrow> b \<le> 36 \<Longrightarrow> \<exists>c cs. format_nat b n = c # cs \<and> numeric c"
  using format_nat_numeric [of b n] by (cases "format_nat b n") auto

theorem parse_format_int [codec]:
  assumes b: "2 \<le> b" "b \<le> 36" and i: "in64 i"
  shows "parse_int b 64 (format_int b i) = Some i"
proof (cases "i < 0")
  case True
  have "nat (- i) \<le> 2 ^ 63"
  proof -
    have "- i \<le> 2 ^ 63" using i by (simp add: in64_def)
    then show ?thesis by (simp add: nat_le_iff)
  qed
  with True b show ?thesis
    by (simp add: parse_int_def format_int_def parse_format_nat)
next
  case False
  obtain c cs where c: "format_nat b (nat i) = c # cs" "numeric c"
    using format_nat_hd [OF b] by blast
  have lt: "nat i < 2 ^ 63" using i False by (simp add: in64_def nat_less_iff)
  have "parse_digits b 0 (c # cs) = Some (nat i)"
    using parse_format_nat [OF b, of "nat i"] c by simp
  with False c lt numeric_punct [OF c(2)] show ?thesis
    by (simp add: parse_int_def format_int_def)
qed

lemma parse_int_in64: "parse_int b 64 s = Some i \<Longrightarrow> in64 i"
  by (auto simp: parse_int_def in64_def Let_def split: list.splits option.splits if_splits)

lemma parse_uint_format [codec]:
  "2 \<le> b \<Longrightarrow> b \<le> 36 \<Longrightarrow> n < 2 ^ bits \<Longrightarrow> parse_uint b bits (format_nat b n) = Some n"
  by (simp add: parse_uint_def parse_format_nat)

lemma parse_uint_bound: "parse_uint b bits s = Some n \<Longrightarrow> n < 2 ^ bits"
  by (auto simp: parse_uint_def split: option.splits if_splits)

text \<open>
  \<open>strings.ToLower\<close> and \<open>strings.ToUpper\<close> on ASCII text (country codes, host names,
  organisation names as the databases spell them); other bytes stay as they are.
\<close>

definition lower_char :: "char \<Rightarrow> char" where
  "lower_char c = (let n = of_char c :: nat in if 65 \<le> n \<and> n \<le> 90 then char_of (n + 32) else c)"

definition upper_char :: "char \<Rightarrow> char" where
  "upper_char c = (let n = of_char c :: nat in if 97 \<le> n \<and> n \<le> 122 then char_of (n - 32) else c)"

definition to_lower :: "string \<Rightarrow> string" where
  "to_lower s = map lower_char s"

definition to_upper :: "string \<Rightarrow> string" where
  "to_upper s = map upper_char s"

text \<open>
  \<open>strings.EqualFold\<close> against an ASCII string: case is ignored, and two other characters
  fold to an ASCII letter, the long s (U+017F) and the Kelvin sign (U+212A).
\<close>

fun fold_ascii :: "string \<Rightarrow> string" where
  "fold_ascii [] = []"
| "fold_ascii (c # cs) =
     (if is_prefix (map char_of [197, 191 :: nat]) (c # cs) then CHR ''s'' # fold_ascii (drop 1 cs)
      else if is_prefix (map char_of [226, 132, 170 :: nat]) (c # cs) then CHR ''k'' # fold_ascii (drop 2 cs)
      else lower_char c # fold_ascii cs)"

definition equal_fold :: "string \<Rightarrow> string \<Rightarrow> bool" where
  "equal_fold s t \<longleftrightarrow> fold_ascii s = fold_ascii t"

text \<open>\<open>strings.TrimPrefix\<close>, and \<open>strings.SplitN\<close> with a one-byte separator.\<close>

definition trim_prefix :: "string \<Rightarrow> string \<Rightarrow> string" where
  "trim_prefix s p = (if is_prefix p s then drop (length p) s else s)"

lemma trim_prefix_append [simp]: "trim_prefix (p @ s) p = s"
  by (auto simp: trim_prefix_def is_prefix_iff)

lemma length_trim_prefix: "length (trim_prefix s p) \<le> length s"
  by (simp add: trim_prefix_def)

definition split_n :: "char \<Rightarrow> nat \<Rightarrow> string \<Rightarrow> string list" where
  "split_n c n s =
     (let ws = split c s in if length ws \<le> n then ws else take (n - 1) ws @ [join c (drop (n - 1) ws)])"

text \<open>\<open>strings.Index\<close>.\<close>

fun index_str :: "string \<Rightarrow> string \<Rightarrow> nat option" where
  "index_str sub [] = (if sub = [] then Some 0 else None)"
| "index_str sub (c # cs) = (if is_prefix sub (c # cs) then Some 0 else map_option Suc (index_str sub cs))"

end
