(* ===== verification/Patterns.thy ===== *)
theory Patterns
  imports Go_Strings
begin

text \<open>
  How an operator's pattern is read (\<open>admin/internal/settings/pattern.go\<close>): a marker in
  front makes the rest literal, exact or a host with its subdomains; without one the text
  is a regular expression. And the release numbers presets carry
  (\<open>admin/internal/nginxconf/version.go\<close>). The regular expression engine is the argument
  \<open>mtch\<close> (\<open>mtch p s\<close>: \<open>p\<close> compiles and matches \<open>s\<close>).
\<close>

section \<open>Pattern markers\<close>

definition ContainsMarker :: string where
  "ContainsMarker = ''contains:''"

definition ExactMarker :: string where
  "ExactMarker = ''exact:''"

definition SubdomainMarker :: string where
  "SubdomainMarker = ''subdomain:''"

lemmas marker_defs = ContainsMarker_def ExactMarker_def SubdomainMarker_def

datatype PatternMode = ModeRegex | ModeContains | ModeExact | ModeSubdomain

definition PatternModeOf :: "string \<Rightarrow> PatternMode" where
  "PatternModeOf p =
     (if is_prefix ContainsMarker p then ModeContains
      else if is_prefix ExactMarker p then ModeExact
      else if is_prefix SubdomainMarker p then ModeSubdomain
      else ModeRegex)"

definition IsLiteralPattern :: "string \<Rightarrow> bool" where
  "IsLiteralPattern p \<longleftrightarrow> PatternModeOf p \<noteq> ModeRegex"

definition PatternText :: "string \<Rightarrow> string" where
  "PatternText p = trim_prefix (trim_prefix (trim_prefix p ContainsMarker) ExactMarker) SubdomainMarker"

text \<open>\<open>regexp.QuoteMeta\<close>: a backslash before every character of the regular expression syntax.\<close>

definition meta_chars :: string where
  "meta_chars = CHR 0x5C # ''.+*?()|[]{}^$''"

definition QuoteMeta :: "string \<Rightarrow> string" where
  "QuoteMeta s = concat (map (\<lambda>c. if c \<in> set meta_chars then [CHR 0x5C, c] else [c]) s)"

definition PatternRegex :: "string \<Rightarrow> string" where
  "PatternRegex p =
     (let mode = PatternModeOf p; q = QuoteMeta (PatternText p) in
      if mode = ModeRegex then p
      else if mode = ModeExact then ''^'' @ q @ ''$''
      else if mode = ModeSubdomain then ''^(?:.+'' @ [CHR 0x5C] @ ''.)?'' @ q @ ''$''
      else q)"

fun marker_of :: "PatternMode \<Rightarrow> string" where
  "marker_of ModeContains = ContainsMarker"
| "marker_of ModeExact = ExactMarker"
| "marker_of ModeSubdomain = SubdomainMarker"
| "marker_of ModeRegex = []"

definition MakePatternWithMode :: "string \<Rightarrow> PatternMode \<Rightarrow> string" where
  "MakePatternWithMode text0 mode = marker_of mode @ PatternText text0"

lemma PatternText_shorter: "PatternModeOf p \<noteq> ModeRegex \<Longrightarrow> length (PatternText p) < length p"
proof -
  have *: "length (trim_prefix s m) < length s" if "is_prefix m s" "m \<noteq> []" for s m :: string
    using that by (auto simp: is_prefix_iff)
  have c: "length (trim_prefix p ContainsMarker) \<le> length p"
    and e: "length (trim_prefix (trim_prefix p ContainsMarker) ExactMarker) \<le> length (trim_prefix p ContainsMarker)"
    and u: "length (PatternText p) \<le> length (trim_prefix (trim_prefix p ContainsMarker) ExactMarker)"
    by (simp_all add: length_trim_prefix PatternText_def)
  assume "PatternModeOf p \<noteq> ModeRegex"
  then consider "is_prefix ContainsMarker p" | "\<not> is_prefix ContainsMarker p" "is_prefix ExactMarker p"
    | "\<not> is_prefix ContainsMarker p" "\<not> is_prefix ExactMarker p" "is_prefix SubdomainMarker p"
    by (auto simp: PatternModeOf_def split: if_splits)
  then show ?thesis
  proof cases
    case 1
    with * [of ContainsMarker p] c e u show ?thesis by (simp add: ContainsMarker_def)
  next
    case 2
    then have "trim_prefix p ContainsMarker = p" by (simp add: trim_prefix_def)
    with 2 * [of ExactMarker p] e u show ?thesis by (simp add: ExactMarker_def)
  next
    case 3
    then have "PatternText p = trim_prefix p SubdomainMarker" by (simp add: trim_prefix_def PatternText_def)
    with 3 * [of SubdomainMarker p] show ?thesis by (simp add: SubdomainMarker_def)
  qed
qed

text \<open>The loop of \<open>NormalizePattern\<close>: markers are stripped until none is left.\<close>

function strip_markers :: "string \<Rightarrow> string" where
  "strip_markers t = (if PatternModeOf t \<noteq> ModeRegex then strip_markers (PatternText t) else t)"
  by pat_completeness auto
termination
  by (relation "measure length") (simp_all add: PatternText_shorter)

declare strip_markers.simps [simp del]

definition NormalizePattern :: "string \<Rightarrow> string" where
  "NormalizePattern p =
     (let mode = PatternModeOf p in
      if mode = ModeRegex then p
      else let t = strip_markers p in if t = [] then [] else MakePatternWithMode t mode)"

text \<open>\<open>matchedRegex\<close> of \<open>handlers/playground.go\<close>.\<close>

definition matchedRegex :: "(string \<Rightarrow> string \<Rightarrow> bool) \<Rightarrow> string \<Rightarrow> string \<Rightarrow> bool" where
  "matchedRegex mtch pat s =
     mtch (''(?i)'' @ trim_prefix (trim_prefix (PatternRegex pat) ''~*'') ''~'') s"

section \<open>Release numbers\<close>

definition parseVer :: "string \<Rightarrow> (int \<times> int \<times> int) \<times> bool" where
  "parseVer v0 =
     (let v = trim_prefix (trim_space v0) ''v'';
          v = takeWhile (\<lambda>c. c \<noteq> CHR ''-'' \<and> c \<noteq> CHR ''+'') v
      in if v = [] then ((0, 0, 0), False)
         else let parts = split_n (CHR ''.'') 3 v in
           case parse_int 10 64 (parts ! 0) of None \<Rightarrow> ((0, 0, 0), False)
           | Some maj \<Rightarrow>
             if length parts > 1
             then (case parse_int 10 64 (parts ! 1) of None \<Rightarrow> ((maj, 0, 0), False)
                   | Some mn \<Rightarrow>
                     if length parts > 2
                     then (case parse_int 10 64 (parts ! 2) of None \<Rightarrow> ((maj, mn, 0), False)
                           | Some pt \<Rightarrow> ((maj, mn, pt), True))
                     else ((maj, mn, 0), True))
             else ((maj, 0, 0), True))"

definition VersionLess :: "string \<Rightarrow> string \<Rightarrow> bool" where
  "VersionLess a b =
     (let (am, an, ap) = fst (parseVer a); (bm, bn, bp) = fst (parseVer b)
      in if am \<noteq> bm then am < bm else if an \<noteq> bn then an < bn else ap < bp)"

definition VersionParseable :: "string \<Rightarrow> bool" where
  "VersionParseable v = snd (parseVer v)"

definition PresetIsNew :: "string \<Rightarrow> string \<Rightarrow> bool" where
  "PresetIsNew seenVer addedIn = (if \<not> VersionParseable seenVer then False else VersionLess seenVer addedIn)"

section \<open>Lemmas\<close>

lemma PatternText_regex: "PatternModeOf t = ModeRegex \<Longrightarrow> PatternText t = t"
  by (auto simp: PatternModeOf_def PatternText_def trim_prefix_def split: if_splits)

lemma mode_of_marked: "PatternModeOf (marker_of m @ t) = (if m = ModeRegex then PatternModeOf t else m)"
  by (cases m) (simp_all add: PatternModeOf_def marker_defs)

lemma text_of_marked:
  assumes "PatternModeOf t = ModeRegex"
  shows "PatternText (marker_of m @ t) = t"
proof -
  have t: "trim_prefix t ExactMarker = t" "trim_prefix t SubdomainMarker = t" "trim_prefix t ContainsMarker = t"
    using assms by (auto simp: PatternModeOf_def trim_prefix_def split: if_splits)
  have e: "trim_prefix (ExactMarker @ t) ContainsMarker = ExactMarker @ t"
    and s: "trim_prefix (SubdomainMarker @ t) ContainsMarker = SubdomainMarker @ t"
           "trim_prefix (SubdomainMarker @ t) ExactMarker = SubdomainMarker @ t"
    by (simp_all add: trim_prefix_def marker_defs)
  show ?thesis by (cases m) (simp_all add: PatternText_def t e s)
qed

lemma strip_markers_regex: "PatternModeOf (strip_markers t) = ModeRegex"
proof (induction t rule: strip_markers.induct)
  case (1 t)
  then show ?case by (subst strip_markers.simps) simp
qed

lemma strip_markers_id: "PatternModeOf t = ModeRegex \<Longrightarrow> strip_markers t = t"
  by (subst strip_markers.simps) simp

lemma strip_markers_marked: "PatternModeOf t = ModeRegex \<Longrightarrow> strip_markers (marker_of m @ t) = t"
  by (subst strip_markers.simps) (simp add: mode_of_marked text_of_marked strip_markers_id)

section \<open>Properties\<close>

text \<open>
  a normalised pattern carries the reading of the pattern it came from, and at most one
  marker: what is left after it is the bare text, found by stripping every marker, and
  normalising again changes nothing. A marker with nothing after it becomes no pattern.\<close>

lemma NormalizePattern_one_marker:
  "NormalizePattern (NormalizePattern p) = NormalizePattern p
   \<and> (NormalizePattern p = [] \<or> PatternModeOf (NormalizePattern p) = PatternModeOf p)
   \<and> PatternText (NormalizePattern p) = strip_markers p
   \<and> PatternModeOf (PatternText (NormalizePattern p)) = ModeRegex"
proof (cases "PatternModeOf p = ModeRegex")
  case True
  then show ?thesis by (simp add: NormalizePattern_def PatternText_regex strip_markers_id)
next
  case False
  let ?t = "strip_markers p"
  have t: "PatternModeOf ?t = ModeRegex" by (rule strip_markers_regex)
  have n: "NormalizePattern p = (if ?t = [] then [] else marker_of (PatternModeOf p) @ ?t)"
    using False t by (simp add: NormalizePattern_def MakePatternWithMode_def PatternText_regex)
  have empty: "PatternModeOf [] = ModeRegex"
    by (simp add: PatternModeOf_def marker_defs)
  show ?thesis
  proof (cases "?t = []")
    case True
    then show ?thesis
      using n empty by (simp add: NormalizePattern_def PatternText_regex)
  next
    case nonempty: False
    have "NormalizePattern (marker_of (PatternModeOf p) @ ?t) = marker_of (PatternModeOf p) @ ?t"
      using False t nonempty
      by (simp add: NormalizePattern_def mode_of_marked strip_markers_marked MakePatternWithMode_def PatternText_regex)
    then show ?thesis
      using False nonempty n t by (simp add: mode_of_marked text_of_marked)
  qed
qed

end
