(* ===== verification/Settings.thy ===== *)
theory Settings
  imports Patterns
begin

text \<open>
  The part of \<open>settings.Settings\<close> (\<open>admin/internal/settings/settings.go\<close>) the decision
  path reads, and the resolvers that turn a stored value into the effective one: challenge
  chains, country and network rules, ban sources, posture and header tiers, rate-limit
  zones. A YAML pointer is an option, a Go map an association list. Compiled patterns are
  read only through whether they match, so a pattern list is matched by the argument
  \<open>re\<close> (\<open>re p s\<close>: the pattern \<open>p\<close> compiles and matches \<open>s\<close>). The built-in tables
  (hosting providers, preset groups) are arguments too.
\<close>

section \<open>Chains\<close>

definition RateChallengeCaptchaOnly :: string where
  "RateChallengeCaptchaOnly = ''captcha_only''"

definition RateChallengePoWOnly :: string where
  "RateChallengePoWOnly = ''pow_only''"

definition RateChallengePoWThenCaptcha :: string where
  "RateChallengePoWThenCaptcha = ''pow_then_captcha''"

definition RateChallengeDeny :: string where
  "RateChallengeDeny = ''deny''"

definition GeoActionSkip :: string where
  "GeoActionSkip = ''skip''"

lemmas chain_defs =
  RateChallengeCaptchaOnly_def RateChallengePoWOnly_def RateChallengePoWThenCaptcha_def RateChallengeDeny_def GeoActionSkip_def

definition IsValidRateChallengeMode :: "string \<Rightarrow> bool" where
  "IsValidRateChallengeMode mode \<longleftrightarrow>
     mode \<in> set [RateChallengeCaptchaOnly, RateChallengePoWOnly, RateChallengePoWThenCaptcha, RateChallengeDeny]"

definition IsValidGeoAction :: "string \<Rightarrow> bool" where
  "IsValidGeoAction a \<longleftrightarrow>
     a \<in> set ['''', GeoActionSkip, RateChallengePoWOnly, RateChallengeCaptchaOnly, RateChallengePoWThenCaptcha, RateChallengeDeny]"

text \<open>\<open>nginxconf.ChainEndsInCaptcha\<close>.\<close>

definition ChainEndsInCaptcha :: "string \<Rightarrow> bool" where
  "ChainEndsInCaptcha chMode \<longleftrightarrow> chMode = RateChallengeCaptchaOnly \<or> chMode = RateChallengePoWThenCaptcha"

section \<open>Ban sources\<close>

record BansConfig =
  ManualDefaultAction :: string

definition or_default :: "string \<Rightarrow> string \<Rightarrow> string" where
  "or_default v fallback = (let v = trim_space v in if v = '''' then fallback else v)"

definition Bans_ResolveAction :: "BansConfig \<Rightarrow> string \<Rightarrow> string \<Rightarrow> string" where
  "Bans_ResolveAction b source honeypotDefault =
     (if source = ''honeypot'' then or_default honeypotDefault RateChallengePoWThenCaptcha
      else if source = ''manual'' then or_default (ManualDefaultAction b) RateChallengePoWThenCaptcha
      else RateChallengeDeny)"

section \<open>Exempt paths\<close>

record BypassPath =
  bp_Path :: string
  bp_Disabled :: bool
  bp_Site :: string

text \<open>An empty site applies to every host; order is preserved.\<close>

definition filterExemptPaths :: "BypassPath list \<Rightarrow> string \<Rightarrow> BypassPath list" where
  "filterExemptPaths rows site = filter (\<lambda>p. bp_Site p = [] \<or> bp_Site p = site) rows"

section \<open>Countries\<close>

record GeoRule =
  gr_Country :: string
  gr_Action :: string
  gr_Enabled :: bool
  gr_RatePerMin :: "int option"

record GeoConfig =
  geo_DefaultAction :: string
  geo_DefaultRuleAction :: string
  geo_DefaultRatePerMin :: int
  geo_Rules :: "GeoRule list"
  geo_ExemptPaths :: "BypassPath list"

definition Geo_ResolvedDefaultAction :: "GeoConfig \<Rightarrow> string" where
  "Geo_ResolvedDefaultAction g = (if geo_DefaultAction g = '''' then GeoActionSkip else geo_DefaultAction g)"

definition Geo_ResolvedDefaultRuleAction :: "GeoConfig \<Rightarrow> string" where
  "Geo_ResolvedDefaultRuleAction g =
     (if geo_DefaultRuleAction g = '''' then RateChallengePoWThenCaptcha else geo_DefaultRuleAction g)"

definition Geo_EffectiveRatePerMin :: "GeoConfig \<Rightarrow> int option \<Rightarrow> int" where
  "Geo_EffectiveRatePerMin g override = (case override of Some n \<Rightarrow> n | None \<Rightarrow> geo_DefaultRatePerMin g)"

definition Geo_LookupRule :: "GeoConfig \<Rightarrow> string \<Rightarrow> GeoRule option" where
  "Geo_LookupRule g country = find (\<lambda>r. gr_Enabled r \<and> gr_Country r = country) (geo_Rules g)"

record GeoRateRule =
  grr_Country :: string
  grr_RatePerMin :: int
  grr_Action :: string

definition geo_rate_rule :: "GeoConfig \<Rightarrow> GeoRule \<Rightarrow> GeoRateRule option" where
  "geo_rate_rule g r =
     (let cc = to_upper (trim_space (gr_Country r)) in
      if \<not> gr_Enabled r \<or> cc = '''' then None
      else let rate = Geo_EffectiveRatePerMin g (gr_RatePerMin r) in
        if rate \<le> 0 then None
        else let act = trim_space (gr_Action r) in
          Some \<lparr>grr_Country = cc, grr_RatePerMin = rate,
                grr_Action = (if act = '''' then Geo_ResolvedDefaultRuleAction g else act)\<rparr>)"

definition Geo_RateRules :: "GeoConfig \<Rightarrow> GeoRateRule list" where
  "Geo_RateRules g = List.map_filter (geo_rate_rule g) (geo_Rules g)"

section \<open>Networks\<close>

record HostingProvider =
  hp_ID :: string
  hp_OrgPatterns :: "string list"
  hp_ASNs :: "nat list"

record AsnRule =
  ar_ASN :: nat
  ar_Org :: string
  ar_Action :: string
  ar_RatePerMin :: "int option"
  ar_Enabled :: bool

record AsnProviderSel =
  ap_ID :: string
  ap_Action :: string
  ap_RatePerMin :: "int option"
  ap_Enabled :: bool

record AsnConfig =
  asn_DefaultAction :: string
  asn_DefaultRuleAction :: string
  asn_DefaultRatePerMin :: int
  asn_Providers :: "AsnProviderSel list"
  asn_Rules :: "AsnRule list"
  asn_ExemptPaths :: "BypassPath list"

definition OrgMatchesAny :: "string \<Rightarrow> string list \<Rightarrow> bool" where
  "OrgMatchesAny org patterns =
     (if org = '''' then False
      else let low = to_lower org in list_ex (\<lambda>p. p \<noteq> '''' \<and> contains low (to_lower p)) patterns)"

definition HostingProvider_Matches :: "HostingProvider \<Rightarrow> nat \<Rightarrow> string \<Rightarrow> bool" where
  "HostingProvider_Matches hp asn org =
     (if asn \<noteq> 0 \<and> asn \<in> set (hp_ASNs hp) then True else OrgMatchesAny org (hp_OrgPatterns hp))"

definition HostingProviderByID :: "HostingProvider list \<Rightarrow> string \<Rightarrow> HostingProvider option" where
  "HostingProviderByID catalog i = find (\<lambda>hp. hp_ID hp = i) catalog"

definition Asn_ResolvedDefaultAction :: "AsnConfig \<Rightarrow> string" where
  "Asn_ResolvedDefaultAction a = (if asn_DefaultAction a = '''' then GeoActionSkip else asn_DefaultAction a)"

definition Asn_ResolvedDefaultRuleAction :: "AsnConfig \<Rightarrow> string" where
  "Asn_ResolvedDefaultRuleAction a =
     (if asn_DefaultRuleAction a = '''' then RateChallengePoWThenCaptcha else asn_DefaultRuleAction a)"

definition Asn_effectiveRate :: "AsnConfig \<Rightarrow> int option \<Rightarrow> int" where
  "Asn_effectiveRate a override = (case override of Some n \<Rightarrow> n | None \<Rightarrow> asn_DefaultRatePerMin a)"

definition asn_resolve_raw :: "AsnConfig \<Rightarrow> string \<Rightarrow> string" where
  "asn_resolve_raw a raw = (if trim_space raw = '''' then Asn_ResolvedDefaultRuleAction a else raw)"

text \<open>The three passes of \<open>ResolveRule\<close>: exact number, organisation, catalog provider.\<close>

definition Asn_ResolveRule :: "HostingProvider list \<Rightarrow> AsnConfig \<Rightarrow> nat \<Rightarrow> string \<Rightarrow> (string \<times> int) option" where
  "Asn_ResolveRule catalog a asn org =
     (case (if asn \<noteq> 0 then find (\<lambda>r. ar_Enabled r \<and> ar_ASN r = asn \<and> ar_Org r = '''') (asn_Rules a) else None) of
        Some r \<Rightarrow> Some (asn_resolve_raw a (ar_Action r), Asn_effectiveRate a (ar_RatePerMin r))
      | None \<Rightarrow>
        (case find (\<lambda>r. ar_Enabled r \<and> ar_Org r \<noteq> '''' \<and> OrgMatchesAny org [ar_Org r]) (asn_Rules a) of
           Some r \<Rightarrow> Some (asn_resolve_raw a (ar_Action r), Asn_effectiveRate a (ar_RatePerMin r))
         | None \<Rightarrow>
           (case find (\<lambda>p. ap_Enabled p \<and>
                   (case HostingProviderByID catalog (ap_ID p) of None \<Rightarrow> False
                    | Some hp \<Rightarrow> HostingProvider_Matches hp asn org)) (asn_Providers a) of
              Some p \<Rightarrow> Some (asn_resolve_raw a (ap_Action p), Asn_effectiveRate a (ap_RatePerMin p))
            | None \<Rightarrow> None)))"

definition Asn_ResolveAction :: "HostingProvider list \<Rightarrow> AsnConfig \<Rightarrow> nat \<Rightarrow> string \<Rightarrow> string option" where
  "Asn_ResolveAction catalog a asn org = map_option fst (Asn_ResolveRule catalog a asn org)"

record AsnRateRule =
  arr_ASN :: nat
  arr_Org :: string
  arr_RatePerMin :: int
  arr_Action :: string

text \<open>Every enabled rule or provider with a positive rate; a provider gives one entry per name and number.\<close>

definition Asn_RateRules :: "HostingProvider list \<Rightarrow> AsnConfig \<Rightarrow> AsnRateRule list" where
  "Asn_RateRules catalog a =
     map (\<lambda>r. \<lparr>arr_ASN = ar_ASN r, arr_Org = ar_Org r, arr_RatePerMin = Asn_effectiveRate a (ar_RatePerMin r), arr_Action = asn_resolve_raw a (ar_Action r)\<rparr>)
       (filter (\<lambda>r. ar_Enabled r \<and> (ar_ASN r \<noteq> 0 \<or> ar_Org r \<noteq> []) \<and> Asn_effectiveRate a (ar_RatePerMin r) > 0) (asn_Rules a))
     @ concat (map (\<lambda>p. case HostingProviderByID catalog (ap_ID p) of None \<Rightarrow> []
         | Some hp \<Rightarrow>
             (let entry = (\<lambda>n org. \<lparr>arr_ASN = n, arr_Org = org, arr_RatePerMin = Asn_effectiveRate a (ap_RatePerMin p), arr_Action = asn_resolve_raw a (ap_Action p)\<rparr>)
              in map (entry 0) (hp_OrgPatterns hp) @ map (\<lambda>n. entry n []) (hp_ASNs hp)))
       (filter (\<lambda>p. ap_Enabled p \<and> \<not> Asn_effectiveRate a (ap_RatePerMin p) \<le> 0) (asn_Providers a)))"

section \<open>Crawler authentication\<close>

record CrawlerVerifyConfig =
  cv_Enabled :: bool
  cv_ForgedAction :: string
  cv_DisabledCrawlers :: "string list"

definition CrawlerActive :: "CrawlerVerifyConfig \<Rightarrow> string \<Rightarrow> bool" where
  "CrawlerActive c name \<longleftrightarrow> \<not> list_ex (\<lambda>d. equal_fold (trim_space d) name) (cv_DisabledCrawlers c)"

definition ResolvedForgedAction :: "CrawlerVerifyConfig \<Rightarrow> string" where
  "ResolvedForgedAction c =
     (if cv_ForgedAction c = '''' \<or> \<not> IsValidGeoAction (cv_ForgedAction c) \<or> cv_ForgedAction c = GeoActionSkip
      then RateChallengePoWThenCaptcha else cv_ForgedAction c)"

section \<open>Posture and header tiers\<close>

record GlobalConfig =
  g_KnownBrowserAction :: string
  g_UnknownUAAction :: string
  g_StaleBrowserChallenge :: bool
  g_StaleBrowserAction :: string
  g_HeaderIntegrity :: bool
  g_HeaderIntegrityAction :: string
  g_UATLSConsistencyDisabled :: bool
  g_UATLSConsistencyAction :: string

definition DefaultStaleBrowserAction :: string where
  "DefaultStaleBrowserAction = RateChallengePoWThenCaptcha"

definition StaleBrowserEnabled :: "GlobalConfig \<Rightarrow> bool" where
  "StaleBrowserEnabled g \<longleftrightarrow> g_StaleBrowserChallenge g"

definition StaleBrowserResolvedAction :: "GlobalConfig \<Rightarrow> string" where
  "StaleBrowserResolvedAction g =
     (if IsValidRateChallengeMode (g_StaleBrowserAction g) then g_StaleBrowserAction g else DefaultStaleBrowserAction)"

definition HeaderIntegrityResolvedAction :: "GlobalConfig \<Rightarrow> string" where
  "HeaderIntegrityResolvedAction g =
     (if g_HeaderIntegrityAction g \<in> set [RateChallengePoWOnly, RateChallengeCaptchaOnly, RateChallengePoWThenCaptcha]
      then g_HeaderIntegrityAction g else RateChallengePoWThenCaptcha)"

definition UATLSEnabled :: "GlobalConfig \<Rightarrow> bool" where
  "UATLSEnabled g \<longleftrightarrow> \<not> g_UATLSConsistencyDisabled g"

definition UATLSResolvedAction :: "GlobalConfig \<Rightarrow> string" where
  "UATLSResolvedAction g =
     (if g_UATLSConsistencyAction g \<in> set [RateChallengePoWOnly, RateChallengeCaptchaOnly, RateChallengePoWThenCaptcha]
      then g_UATLSConsistencyAction g else RateChallengeCaptchaOnly)"

section \<open>The community feed\<close>

record CommunityBansConfig =
  cb_SubscribeMode :: string
  cb_Action :: string

definition DefaultCommunityBansAction :: string where
  "DefaultCommunityBansAction = RateChallengePoWThenCaptcha"

definition CommunityBans_ResolvedAction :: "CommunityBansConfig \<Rightarrow> string" where
  "CommunityBans_ResolvedAction c =
     (let a = trim_space (cb_Action c) in
      if a = '''' \<or> \<not> IsValidRateChallengeMode a then DefaultCommunityBansAction else a)"

definition ResolvedSubscribeMode :: "CommunityBansConfig \<Rightarrow> string" where
  "ResolvedSubscribeMode c =
     (if cb_SubscribeMode c \<in> set [''fetch'', ''fetch_apply'', ''off''] then cb_SubscribeMode c else ''off'')"

definition SubscribeActive :: "CommunityBansConfig \<Rightarrow> bool" where
  "SubscribeActive c \<longleftrightarrow> ResolvedSubscribeMode c \<noteq> ''off''"

definition ApplyActive :: "CommunityBansConfig \<Rightarrow> bool" where
  "ApplyActive c \<longleftrightarrow> ResolvedSubscribeMode c = ''fetch_apply''"

section \<open>Rate-limit zones\<close>

definition RateLimitKeyIP :: string where
  "RateLimitKeyIP = ''ip''"

definition RateLimitKeyJA4 :: string where
  "RateLimitKeyJA4 = ''ja4''"

definition RateLimitKeyIPAndJA4 :: string where
  "RateLimitKeyIPAndJA4 = ''ip+ja4''"

lemmas key_defs = RateLimitKeyIP_def RateLimitKeyJA4_def RateLimitKeyIPAndJA4_def

record RateLimitValues =
  rv_Name :: string
  rv_RequestsPerMin :: int
  rv_Burst :: int
  rv_WindowSec :: int
  rv_ChallengeMode :: string

definition Values_ResolvedWindowSec :: "RateLimitValues \<Rightarrow> int" where
  "Values_ResolvedWindowSec v = (if rv_WindowSec v \<le> 0 then 60 else rv_WindowSec v)"

definition Values_ResolvedChallengeMode :: "RateLimitValues \<Rightarrow> string" where
  "Values_ResolvedChallengeMode v =
     (if \<not> IsValidRateChallengeMode (rv_ChallengeMode v) then RateChallengePoWThenCaptcha else rv_ChallengeMode v)"

record RateZone =
  rz_Name :: string
  rz_RequestsPerMin :: int
  rz_Burst :: int
  rz_WindowSec :: int
  rz_PathPatterns :: "string list"
  rz_ChallengeMode :: string
  rz_Site :: string
  rz_Disabled :: bool
  rz_Key :: string

text \<open>\<open>re\<close> stands for the case-insensitive regular expression match of a path pattern.\<close>

definition MatchPath :: "(string \<Rightarrow> string \<Rightarrow> bool) \<Rightarrow> RateZone \<Rightarrow> string \<Rightarrow> bool" where
  "MatchPath re z path =
     (if rz_PathPatterns z = [] then True
      else list_ex (\<lambda>p. p \<noteq> '''' \<and> re p path) (rz_PathPatterns z))"

record AxisLimitConfig =
  al_Enabled :: bool
  al_RequestsPerMin :: int
  al_Burst :: int
  al_WindowSec :: int
  al_ChallengeMode :: string

definition zeroAxisLimit :: AxisLimitConfig where
  "zeroAxisLimit = \<lparr>al_Enabled = False, al_RequestsPerMin = 0, al_Burst = 0, al_WindowSec = 0, al_ChallengeMode = ''''\<rparr>"

definition AxisLimit_IsZero :: "AxisLimitConfig \<Rightarrow> bool" where
  "AxisLimit_IsZero j \<longleftrightarrow> j = zeroAxisLimit"

record RateLimitConfig =
  rl_Key :: string
  rl_Default :: RateLimitValues
  rl_Zones :: "RateZone list"
  rl_IPLimit :: AxisLimitConfig
  rl_JA4Limit :: AxisLimitConfig
  rl_IPJA4Limit :: AxisLimitConfig

definition IsValidRateLimitKey :: "string \<Rightarrow> bool" where
  "IsValidRateLimitKey k \<longleftrightarrow> k \<in> set [RateLimitKeyIP, RateLimitKeyJA4, RateLimitKeyIPAndJA4]"

definition ResolvedKey :: "RateLimitConfig \<Rightarrow> string" where
  "ResolvedKey c = (if rl_Key c = '''' then RateLimitKeyIP else rl_Key c)"

definition ZoneKeyResolved :: "RateLimitConfig \<Rightarrow> RateZone \<Rightarrow> string" where
  "ZoneKeyResolved c z = (if IsValidRateLimitKey (rz_Key z) then rz_Key z else ResolvedKey c)"

definition AxisZoneName :: "string \<Rightarrow> string" where
  "AxisZoneName kind =
     (if kind = RateLimitKeyJA4 then ''unmask_rate_ja4''
      else if kind = RateLimitKeyIPAndJA4 then ''unmask_rate_ipja4'' else ''unmask_rate_ip'')"

definition AxisSeedRPM :: "string \<Rightarrow> int" where
  "AxisSeedRPM kind = (if kind = RateLimitKeyJA4 then 600 else 100)"

record AxisRow =
  ax_Kind :: string
  ax_Primary :: bool
  ax_On :: bool
  ax_RequestsPerMin :: int
  ax_Burst :: int
  ax_WindowSec :: int
  ax_ChallengeMode :: string

definition blankAxisRow :: "string \<Rightarrow> AxisRow" where
  "blankAxisRow kind = \<lparr>ax_Kind = kind, ax_Primary = False, ax_On = False, ax_RequestsPerMin = 0, ax_Burst = 0,
     ax_WindowSec = 0, ax_ChallengeMode = ''''\<rparr>"

text \<open>
  The index map of the code sends an unknown key kind to row 0 (the zero value of a missing
  key), so an invalid stored key counts as the address row.
\<close>

definition axis_index :: "string \<Rightarrow> nat" where
  "axis_index kind = (if kind = RateLimitKeyJA4 then 1 else if kind = RateLimitKeyIPAndJA4 then 2 else 0)"

definition apply_axis :: "AxisLimitConfig \<Rightarrow> AxisRow \<Rightarrow> AxisRow" where
  "apply_axis st r =
     (if AxisLimit_IsZero st then r
      else r\<lparr>ax_On := al_Enabled st, ax_RequestsPerMin := al_RequestsPerMin st, ax_Burst := al_Burst st,
             ax_WindowSec := al_WindowSec st, ax_ChallengeMode := al_ChallengeMode st\<rparr>)"

definition mark_first :: "nat list \<Rightarrow> AxisRow list \<Rightarrow> AxisRow list" where
  "mark_first order rows =
     (case find (\<lambda>i. ax_On (rows ! i)) order of None \<Rightarrow> rows
      | Some i \<Rightarrow> rows[i := (rows ! i)\<lparr>ax_Primary := True\<rparr>])"

definition DefaultAxisRows :: "RateLimitConfig \<Rightarrow> AxisRow list" where
  "DefaultAxisRows c =
     (let d = rl_Default c;
          p = axis_index (ResolvedKey c);
          rows0 = [blankAxisRow RateLimitKeyIP, blankAxisRow RateLimitKeyJA4, blankAxisRow RateLimitKeyIPAndJA4];
          rows1 = rows0[p := (rows0 ! p)\<lparr>ax_On := True, ax_RequestsPerMin := rv_RequestsPerMin d, ax_Burst := rv_Burst d,
                    ax_WindowSec := rv_WindowSec d, ax_ChallengeMode := rv_ChallengeMode d\<rparr>];
          rows2 = [apply_axis (rl_IPLimit c) (rows1 ! 0), apply_axis (rl_JA4Limit c) (rows1 ! 1),
                   apply_axis (rl_IPJA4Limit c) (rows1 ! 2)];
          rows3 = (if list_ex ax_On rows2 then rows2
                   else rows2[p := (let r = rows2 ! p in
                     r\<lparr>ax_On := True,
                       ax_RequestsPerMin := (if ax_RequestsPerMin r = 0 then rv_RequestsPerMin d else ax_RequestsPerMin r)\<rparr>)])
      in mark_first [0, 2, 1] rows3)"

record ResolvedRateZone = RateLimitValues +
  rrz_Key :: string

definition zone_applies :: "(string \<Rightarrow> string \<Rightarrow> bool) \<Rightarrow> string \<Rightarrow> string \<Rightarrow> RateZone \<Rightarrow> bool" where
  "zone_applies re path site z \<longleftrightarrow>
     \<not> rz_Disabled z \<and> (rz_Site z = '''' \<or> rz_Site z = site) \<and> MatchPath re z path"

definition custom_zone :: "RateLimitConfig \<Rightarrow> RateZone \<Rightarrow> ResolvedRateZone" where
  "custom_zone c z = \<lparr>rv_Name = rz_Name z, rv_RequestsPerMin = rz_RequestsPerMin z, rv_Burst = rz_Burst z,
     rv_WindowSec = rz_WindowSec z, rv_ChallengeMode = rz_ChallengeMode z, rrz_Key = ZoneKeyResolved c z\<rparr>"

definition default_zone :: "string \<Rightarrow> string \<Rightarrow> AxisRow \<Rightarrow> ResolvedRateZone" where
  "default_zone defName primaryMode row =
     \<lparr>rv_Name = (if ax_Primary row then defName else AxisZoneName (ax_Kind row)),
      rv_RequestsPerMin = (if ax_RequestsPerMin row \<le> 0 then AxisSeedRPM (ax_Kind row) else ax_RequestsPerMin row),
      rv_Burst = ax_Burst row, rv_WindowSec = ax_WindowSec row,
      rv_ChallengeMode = (if \<not> ax_Primary row \<and> ax_ChallengeMode row = '''' then primaryMode else ax_ChallengeMode row),
      rrz_Key = ax_Kind row\<rparr>"

definition primary_mode :: "AxisRow list \<Rightarrow> string" where
  "primary_mode rows = foldl (\<lambda>m row. if ax_Primary row then ax_ChallengeMode row else m) '''' rows"

definition ResolveZonesAll :: "(string \<Rightarrow> string \<Rightarrow> bool) \<Rightarrow> RateLimitConfig \<Rightarrow> string \<Rightarrow> string \<Rightarrow> ResolvedRateZone list" where
  "ResolveZonesAll re c path site =
     (let rows = DefaultAxisRows c;
          defName = (if rv_Name (rl_Default c) = '''' then ''unmask_rate'' else rv_Name (rl_Default c));
          pm = primary_mode rows
      in map (custom_zone c) (filter (zone_applies re path site) (rl_Zones c))
         @ map (default_zone defName pm) (filter (\<lambda>row. ax_On row \<and> ax_Primary row) rows)
         @ map (default_zone defName pm) (filter (\<lambda>row. ax_On row \<and> \<not> ax_Primary row) rows))"

section \<open>User-agent and fingerprint lists\<close>

record ChallengeTargetsConfig =
  ct_DisabledPresets :: "string list"
  ct_Extra :: "string list"
  ct_ExtraDisabled :: "bool list"
  ct_ExtraAction :: "string list"
  ct_DefaultAction :: string
  ct_PresetAction :: "(string \<times> string) list"

record SearchBotsConfig =
  sb_Extra :: "string list"
  sb_ExtraDisabled :: "bool list"
  sb_UpstreamGroupMode :: "(string \<times> string) list"
  sb_UpstreamPatternMode :: "(string \<times> string) list"
  sb_UpstreamGroupAction :: "(string \<times> string) list"

record JA4VerdictExtraRule =
  je_Pattern :: string
  je_Verdict :: string
  je_Action :: string

record JA4VerdictsConfig =
  jv_DisabledPresets :: "string list"
  jv_Extra :: "JA4VerdictExtraRule list"
  jv_ExtraDisabled :: "bool list"
  jv_DefaultAction :: string
  jv_PresetAction :: "(string \<times> string) list"
  jv_ExtraAction :: "string list"

text \<open>A missing key of a Go map reads as the zero value.\<close>

definition str_at :: "(string \<times> string) list \<Rightarrow> string \<Rightarrow> string" where
  "str_at m k = (case map_of m k of Some v \<Rightarrow> v | None \<Rightarrow> '''')"

definition UABlacklistChain :: "ChallengeTargetsConfig \<Rightarrow> RateLimitConfig \<Rightarrow> string" where
  "UABlacklistChain ct rl =
     (let act = trim_space (ct_DefaultAction ct) in
      if IsValidRateChallengeMode act then act else Values_ResolvedChallengeMode (rl_Default rl))"

definition JA4DefaultChain :: "JA4VerdictsConfig \<Rightarrow> RateLimitConfig \<Rightarrow> string" where
  "JA4DefaultChain jv rl =
     (let act = trim_space (jv_DefaultAction jv) in
      if IsValidRateChallengeMode act then act else Values_ResolvedChallengeMode (rl_Default rl))"

subsection \<open>Group modes of the upstream crawler list (\<open>classify\<close>)\<close>

definition DefaultGroupMode :: "string \<Rightarrow> string" where
  "DefaultGroupMode cat =
     (if cat \<in> set [''scanner'', ''http-library'', ''browser-automation''] then ''black'' else ''white'')"

definition valid_mode :: "string \<Rightarrow> bool" where
  "valid_mode v \<longleftrightarrow> v \<in> set [''white'', ''black'', ''none'']"

definition ResolveGroupMode :: "string \<Rightarrow> (string \<times> string) list \<Rightarrow> string" where
  "ResolveGroupMode cat overrides =
     (case map_of overrides cat of
        Some v \<Rightarrow> if valid_mode v then v else DefaultGroupMode cat
      | None \<Rightarrow> DefaultGroupMode cat)"

definition ResolvePatternMode :: "string \<Rightarrow> string \<Rightarrow> (string \<times> string) list \<Rightarrow> (string \<times> string) list \<Rightarrow> string" where
  "ResolvePatternMode cat pattern groupModes patternModes =
     (let v = str_at patternModes pattern in if valid_mode v then v else ResolveGroupMode cat groupModes)"

subsection \<open>The chain of a bot fingerprint (\<open>nginxconf/ja4_action.go\<close>)\<close>

record JA4Rule =
  jr_Pattern :: string
  jr_Verdict :: string
  jr_Action :: string

record JA4VerdictGroup =
  jg_ID :: string
  jg_Rules :: "JA4Rule list"
  jg_AddedIn :: string

definition ja4PresetAction :: "JA4VerdictGroup list \<Rightarrow> string \<Rightarrow> JA4VerdictsConfig \<Rightarrow> string" where
  "ja4PresetAction groups verdict jv =
     (if jv_PresetAction jv = [] then ''''
      else case find (\<lambda>g. list_ex (\<lambda>r. jr_Verdict r = verdict) (jg_Rules g)) groups of
        None \<Rightarrow> ''''
      | Some g \<Rightarrow> trim_space (str_at (jv_PresetAction jv) (jg_ID g)))"

definition row_disabled :: "bool list \<Rightarrow> nat \<Rightarrow> bool" where
  "row_disabled ds i \<longleftrightarrow> i < length ds \<and> ds ! i"

definition ja4ExtraAction :: "string \<Rightarrow> JA4VerdictsConfig \<Rightarrow> string" where
  "ja4ExtraAction verdict jv =
     (case find (\<lambda>i. je_Verdict (jv_Extra jv ! i) = verdict \<and> \<not> row_disabled (jv_ExtraDisabled jv) i
                   \<and> i < length (jv_ExtraAction jv)) [0..<length (jv_Extra jv)] of
        None \<Rightarrow> ''''
      | Some i \<Rightarrow> trim_space (jv_ExtraAction jv ! i))"

definition ResolveJA4VerdictAction :: "JA4VerdictGroup list \<Rightarrow> string \<Rightarrow> JA4VerdictsConfig \<Rightarrow> string" where
  "ResolveJA4VerdictAction groups verdict jv =
     (if verdict = '''' then ''''
      else foldl (\<lambda>out act. if IsValidRateChallengeMode act then act else out) ''''
             [trim_space (jv_DefaultAction jv), ja4PresetAction groups verdict jv, ja4ExtraAction verdict jv])"

definition EffectiveJA4BotChain :: "JA4VerdictGroup list \<Rightarrow> string \<Rightarrow> JA4VerdictsConfig \<Rightarrow> RateLimitConfig \<Rightarrow> string" where
  "EffectiveJA4BotChain groups verdict jv rl =
     (let act = ResolveJA4VerdictAction groups verdict jv in if act \<noteq> '''' then act else JA4DefaultChain jv rl)"

subsection \<open>Protected-path modes (\<open>nginxconf/protected.go\<close>)\<close>

definition IsValidProtectedMode :: "string \<Rightarrow> bool" where
  "IsValidProtectedMode m \<longleftrightarrow> m = ''pow'' \<or> m = ''captcha'' \<or> m = ''pow_then_captcha''"

definition ModeEndsInCaptcha :: "string \<Rightarrow> bool" where
  "ModeEndsInCaptcha mode \<longleftrightarrow> mode = ''captcha'' \<or> mode = ''pow_then_captcha''"

definition ResolveProtectedMode :: "string \<Rightarrow> string \<Rightarrow> string" where
  "ResolveProtectedMode mode defaultMode =
     (if IsValidProtectedMode mode then mode
      else if IsValidProtectedMode defaultMode then defaultMode else ''pow_then_captcha'')"

definition ChModeForProtectedMode :: "string \<Rightarrow> string" where
  "ChModeForProtectedMode mode =
     (if mode = ''pow'' then RateChallengePoWOnly
      else if mode = ''pow_then_captcha'' then RateChallengePoWThenCaptcha
      else RateChallengeCaptchaOnly)"

section \<open>Lemmas\<close>

lemma primary_of_blank:
  "ax_Primary (apply_axis st r) = ax_Primary r" "\<not> ax_Primary (blankAxisRow kind)"
  by (simp_all add: apply_axis_def blankAxisRow_def)

lemma kind_of_blank:
  "ax_Kind (apply_axis st r) = ax_Kind r" "ax_Kind (blankAxisRow kind) = kind"
  by (simp_all add: apply_axis_def blankAxisRow_def)

text \<open>Before the primary row is marked: three rows, none marked, one of them on.\<close>

lemma force_on:
  assumes "p < length rows" "\<And>r. ax_Kind (f r) = ax_Kind r" "\<And>r. ax_Primary (f r) = ax_Primary r" "\<And>r. ax_On (f r)"
    and "list_all (\<lambda>r. \<not> ax_Primary r) rows"
  defines "rows' \<equiv> (if list_ex ax_On rows then rows else rows[p := f (rows ! p)])"
  shows "map ax_Kind rows' = map ax_Kind rows" "list_all (\<lambda>r. \<not> ax_Primary r) rows'" "list_ex ax_On rows'"
proof -
  show "map ax_Kind rows' = map ax_Kind rows"
    using assms(1,2) by (auto simp: rows'_def map_update list_update_same_conv)
  show "list_all (\<lambda>r. \<not> ax_Primary r) rows'"
    using assms(1,3,5) by (auto simp: rows'_def list_all_length nth_list_update)
  show "list_ex ax_On rows'"
    using assms(1,4) by (auto simp: rows'_def list_ex_length intro!: exI [of _ p])
qed

lemma DefaultAxisRows_shape:
  "\<exists>rows. DefaultAxisRows c = mark_first [0, 2, 1] rows \<and> list_all (\<lambda>r. \<not> ax_Primary r) rows \<and> list_ex ax_On rows
     \<and> map ax_Kind rows = [RateLimitKeyIP, RateLimitKeyJA4, RateLimitKeyIPAndJA4]"
proof -
  let ?p = "axis_index (ResolvedKey c)"
  let ?d = "rl_Default c"
  let ?rows0 = "[blankAxisRow RateLimitKeyIP, blankAxisRow RateLimitKeyJA4, blankAxisRow RateLimitKeyIPAndJA4]"
  let ?rows1 = "?rows0[?p := (?rows0 ! ?p)\<lparr>ax_On := True, ax_RequestsPerMin := rv_RequestsPerMin ?d, ax_Burst := rv_Burst ?d,
                    ax_WindowSec := rv_WindowSec ?d, ax_ChallengeMode := rv_ChallengeMode ?d\<rparr>]"
  let ?rows2 = "[apply_axis (rl_IPLimit c) (?rows1 ! 0), apply_axis (rl_JA4Limit c) (?rows1 ! 1), apply_axis (rl_IPJA4Limit c) (?rows1 ! 2)]"
  let ?f = "\<lambda>r. r\<lparr>ax_On := True, ax_RequestsPerMin := (if ax_RequestsPerMin r = 0 then rv_RequestsPerMin ?d else ax_RequestsPerMin r)\<rparr>"
  have p: "?p = 0 \<or> ?p = 1 \<or> ?p = 2"
    by (cases "ResolvedKey c = RateLimitKeyJA4"; cases "ResolvedKey c = RateLimitKeyIPAndJA4") (simp_all add: axis_index_def)
  have unmarked: "list_all (\<lambda>r. \<not> ax_Primary r) ?rows2"
    using p by (auto simp: primary_of_blank)
  have kinds: "map ax_Kind ?rows2 = [RateLimitKeyIP, RateLimitKeyJA4, RateLimitKeyIPAndJA4]"
    using p by (auto simp: kind_of_blank)
  have "?p < length ?rows2" using p by auto
  from force_on [OF this, of ?f, OF _ _ _ unmarked] kinds show ?thesis
    by (intro exI [of _ "if list_ex ax_On ?rows2 then ?rows2 else ?rows2[?p := ?f (?rows2 ! ?p)]"])
       (simp only: DefaultAxisRows_def Let_def, simp)
qed

lemma mark_first_one:
  assumes "list_all (\<lambda>r. \<not> ax_Primary r) rows" "list_ex ax_On rows" "length rows = 3"
  shows "\<exists>row. filter ax_Primary (mark_first [0, 2, 1] rows) = [row] \<and> ax_On row"
proof -
  obtain a b d where "rows = [a, b, d]"
    using assms(3) by (auto simp: length_Suc_conv eval_nat_numeral)
  with assms show ?thesis by (auto simp: mark_first_def)
qed

lemma mark_first_kinds: "r \<in> set (mark_first order rows) \<Longrightarrow> ax_Kind r \<in> set (map ax_Kind rows)"
proof -
  assume r: "r \<in> set (mark_first order rows)"
  have "map ax_Kind (rows[i := (rows ! i)\<lparr>ax_Primary := True\<rparr>]) = map ax_Kind rows" for i
    by (cases "i < length rows") (simp_all add: map_update list_update_same_conv list_update_beyond)
  then have "map ax_Kind (mark_first order rows) = map ax_Kind rows"
    by (simp add: mark_first_def split: option.split)
  with r show ?thesis by (metis image_eqI image_set)
qed

lemma primary_mode_of:
  assumes "filter ax_Primary rows = [row]"
  shows "primary_mode rows = ax_ChallengeMode row"
proof -
  have "primary_mode rows = (case rev (filter ax_Primary rows) of [] \<Rightarrow> [] | r # rs \<Rightarrow> ax_ChallengeMode r)" for rows
    by (induction rows rule: rev_induct) (simp_all add: primary_mode_def)
  with assms show ?thesis by simp
qed

lemma default_zone_rate: "rv_RequestsPerMin (default_zone nm pm row) > 0"
  by (auto simp: default_zone_def AxisSeedRPM_def)

section \<open>Properties\<close>

text \<open>
  C31: whatever is stored, exactly one of the three default axes is the primary one and it
  is on, and its zone is among the zones of every request: the list the forward-auth check
  indexes is never empty. Every default zone counts against a positive rate.\<close>

theorem ResolveZonesAll_has_primary:
  "\<exists>row zs. filter ax_Primary (DefaultAxisRows c) = [row] \<and> ax_On row
     \<and> ResolveZonesAll re c path site
       = map (custom_zone c) (filter (zone_applies re path site) (rl_Zones c))
         @ default_zone (if rv_Name (rl_Default c) = [] then ''unmask_rate'' else rv_Name (rl_Default c)) (ax_ChallengeMode row) row # zs
     \<and> list_all (\<lambda>z. rv_RequestsPerMin z > 0) zs \<and> ax_Kind row \<in> {RateLimitKeyIP, RateLimitKeyJA4, RateLimitKeyIPAndJA4}"
proof -
  obtain rows where rows: "DefaultAxisRows c = mark_first [0, 2, 1] rows"
    and none: "list_all (\<lambda>r. \<not> ax_Primary r) rows" and on: "list_ex ax_On rows"
    and kinds: "map ax_Kind rows = [RateLimitKeyIP, RateLimitKeyJA4, RateLimitKeyIPAndJA4]"
    using DefaultAxisRows_shape [of c] by (elim exE conjE) (rule that)
  have "length rows = 3" using arg_cong [OF kinds, of length] by simp
  then obtain row where row: "filter ax_Primary (DefaultAxisRows c) = [row]" "ax_On row"
    using mark_first_one [OF none on] rows by auto
  have "set (filter ax_Primary (DefaultAxisRows c)) = {row}"
    using row(1) by simp
  then have "row \<in> set (DefaultAxisRows c)"
    unfolding set_filter by blast
  then have kind: "ax_Kind row \<in> {RateLimitKeyIP, RateLimitKeyJA4, RateLimitKeyIPAndJA4}"
    using mark_first_kinds [of row "[0, 2, 1]" rows] kinds rows by simp
  have "filter (\<lambda>r. ax_On r \<and> ax_Primary r) (DefaultAxisRows c) = filter ax_On (filter ax_Primary (DefaultAxisRows c))"
    by (simp add: filter_filter conj_commute)
  then have one: "filter (\<lambda>r. ax_On r \<and> ax_Primary r) (DefaultAxisRows c) = [row]"
    using row by simp
  show ?thesis
    unfolding ResolveZonesAll_def Let_def one primary_mode_of [OF row(1)]
    using row kind by (fastforce simp: list_all_iff default_zone_rate)
qed

end
