(* ===== verification/Go_Utf8.thy ===== *)
theory Go_Utf8
  imports Prelude
begin

text \<open>
  What the source uses of \<open>unicode/utf8\<close> and of ranging over a string: the byte width of
  the first rune (a byte that starts no valid encoding is a rune of its own), the rune
  count, and the cut of a string to its first runes. The main fact is that joining two
  strings never adds runes.
\<close>

definition byte :: "char \<Rightarrow> nat" where
  "byte c = of_char c"

text \<open>The next \<open>k\<close> bytes are there, the first in \<open>lo..hi\<close>, the others continuation bytes.\<close>

definition conts :: "nat \<Rightarrow> nat \<Rightarrow> nat \<Rightarrow> string \<Rightarrow> bool" where
  "conts k lo hi s \<longleftrightarrow>
     k \<le> length s \<and> list_all (\<lambda>c. 128 \<le> byte c \<and> byte c \<le> 191) (take k s) \<and> lo \<le> byte (hd s) \<and> byte (hd s) \<le> hi"

text \<open>What a leading byte asks for: how many more bytes, and the range of the next one.\<close>

definition rune_class :: "nat \<Rightarrow> (nat \<times> nat \<times> nat) option" where
  "rune_class n =
     (if 194 \<le> n \<and> n \<le> 223 then Some (1, 128, 191)
      else if n = 224 then Some (2, 160, 191)
      else if n = 237 then Some (2, 128, 159)
      else if 225 \<le> n \<and> n \<le> 239 then Some (2, 128, 191)
      else if n = 240 then Some (3, 144, 191)
      else if 241 \<le> n \<and> n \<le> 243 then Some (3, 128, 191)
      else if n = 244 then Some (3, 128, 143)
      else None)"

fun rune_len :: "string \<Rightarrow> nat" where
  "rune_len [] = 0"
| "rune_len (b # s) =
     (case rune_class (byte b) of
        Some (k, lo, hi) \<Rightarrow> if conts k lo hi s then Suc k else 1
      | None \<Rightarrow> 1)"

lemma rune_class_pos: "rune_class n = Some (k, lo, hi) \<Longrightarrow> 0 < k"
  by (auto simp: rune_class_def split: if_splits)

lemma rune_len_pos: "s \<noteq> [] \<Longrightarrow> 0 < rune_len s"
  by (cases s) (auto split: option.splits)

function rune_count :: "string \<Rightarrow> nat" where
  "rune_count s = (if s = [] then 0 else Suc (rune_count (drop (rune_len s) s)))"
  by pat_completeness auto
termination
  by (relation "measure length") (auto simp: rune_len_pos)

declare rune_count.simps [simp del]

text \<open>The byte position at which the \<open>n\<close>-th rune starts.\<close>

function rune_pos :: "nat \<Rightarrow> string \<Rightarrow> nat" where
  "rune_pos n s = (if n = 0 \<or> s = [] then 0 else rune_len s + rune_pos (n - 1) (drop (rune_len s) s))"
  by pat_completeness auto
termination
  by (relation "measure (\<lambda>(n, s). length s)") (auto simp: rune_len_pos)

declare rune_pos.simps [simp del]

lemma conts_append: "k \<le> length s \<Longrightarrow> 0 < k \<Longrightarrow> conts k lo hi (s @ t) = conts k lo hi s"
proof -
  assume k: "k \<le> length s" "0 < k"
  then have "take k (s @ t) = take k s" by simp
  moreover have "hd (s @ t) = hd s" using k by (cases s) auto
  ultimately show ?thesis using k by (simp add: conts_def)
qed

lemma conts_length: "conts k lo hi s \<Longrightarrow> k \<le> length s"
  by (simp add: conts_def)

lemma rune_len_le: "rune_len s \<le> length s"
  by (cases s) (auto split: option.splits dest!: conts_length)

lemma rune_len_append:
  assumes "rune_len (a @ b) \<le> length a" "a \<noteq> []"
  shows "rune_len a = rune_len (a @ b)"
proof -
  obtain x s where a: "a = x # s" using assms(2) by (cases a) auto
  show ?thesis
  proof (cases "rune_class (byte x)")
    case (Some t)
    obtain k lo hi where t: "t = (k, lo, hi)" by (cases t)
    have "conts k lo hi (s @ b) = conts k lo hi s"
    proof (cases "k \<le> length s")
      case True
      then show ?thesis using conts_append rune_class_pos Some t by blast
    next
      case False
      then have "\<not> conts k lo hi s" using conts_length by blast
      moreover have "\<not> conts k lo hi (s @ b)" using assms(1) False Some t a by (auto split: if_splits)
      ultimately show ?thesis by simp
    qed
    then show ?thesis using a Some t by simp
  qed (simp add: a)
qed

lemma rune_count_Cons: "s \<noteq> [] \<Longrightarrow> rune_count s = Suc (rune_count (drop (rune_len s) s))"
  by (simp add: rune_count.simps [of s])

lemma rune_count_Nil [simp]: "rune_count [] = 0"
  by (simp add: rune_count.simps)

lemma rune_len_cont: "128 \<le> byte c \<Longrightarrow> byte c \<le> 191 \<Longrightarrow> rune_len (c # s) = 1"
  by (simp add: rune_class_def)

text \<open>Continuation bytes out of place are runes of their own.\<close>

lemma rune_count_conts:
  "list_all (\<lambda>c. 128 \<le> byte c \<and> byte c \<le> 191) (take k s) \<Longrightarrow> k \<le> length s \<Longrightarrow> rune_count s = k + rune_count (drop k s)"
proof (induction k arbitrary: s)
  case (Suc k)
  then obtain c t where s: "s = c # t" by (cases s) auto
  with Suc.prems have "rune_len s = 1" by (simp add: rune_class_def)
  then have "rune_count s = Suc (rune_count t)" using s by (simp add: rune_count_Cons)
  also have "rune_count t = k + rune_count (drop k t)" using Suc s by (intro Suc.IH) auto
  finally show ?case using s by simp
qed simp

text \<open>The bytes after the first of a rune are continuation bytes.\<close>

lemma rune_len_tail:
  "s \<noteq> [] \<Longrightarrow> list_all (\<lambda>c. 128 \<le> byte c \<and> byte c \<le> 191) (take (rune_len s - 1) (tl s))"
proof -
  assume "s \<noteq> []"
  then obtain b t where s: "s = b # t" by (cases s) auto
  show ?thesis unfolding s by (auto simp: conts_def split: option.splits)
qed

lemma rune_count_append: "rune_count (a @ b) \<le> rune_count a + rune_count b"
proof (induction a rule: rune_count.induct)
  case (1 a)
  show ?case
  proof (cases "a = []")
    case ne: False
    let ?w = "rune_len (a @ b)"
    show ?thesis
    proof (cases "?w \<le> length a")
      case True
      then have w: "rune_len a = ?w" using rune_len_append ne by blast
      have "rune_count (a @ b) = Suc (rune_count (drop ?w a @ b))" using ne True by (simp add: rune_count_Cons)
      also have "\<dots> \<le> Suc (rune_count (drop ?w a) + rune_count b)" using "1.IH" [OF ne] w by simp
      also have "\<dots> = rune_count a + rune_count b" using ne w by (simp add: rune_count_Cons)
      finally show ?thesis .
    next
      case False
      let ?k = "?w - length a"
      have wl: "?w \<le> length a + length b" using rune_len_le [of "a @ b"] by simp
      have "take (?w - 1) (tl (a @ b)) = tl a @ take ?k b" using ne False by (cases a) auto
      then have "list_all (\<lambda>c. 128 \<le> byte c \<and> byte c \<le> 191) (take ?k b)"
        using rune_len_tail [of "a @ b"] ne by (simp add: list_all_append)
      then have b: "rune_count b = ?k + rune_count (drop ?k b)" using wl by (intro rune_count_conts) auto
      have "rune_count (a @ b) = Suc (rune_count (drop ?k b))" using ne False by (simp add: rune_count_Cons)
      moreover have "0 < rune_count a" using ne by (simp add: rune_count_Cons)
      ultimately show ?thesis using b by linarith
    qed
  qed simp
qed

lemma rune_count_take: "n \<le> rune_count s \<Longrightarrow> rune_count (take (rune_pos n s) s) \<le> n"
proof (induction n s rule: rune_pos.induct)
  case (1 n s)
  show ?case
  proof (cases "n = 0 \<or> s = []")
    case True
    then show ?thesis by (auto simp: rune_pos.simps [of n s])
  next
    case False
    let ?w = "rune_len s"
    have "rune_count (take (rune_pos (n - 1) (drop ?w s)) (drop ?w s)) \<le> n - 1"
      using 1 False by (simp add: rune_count_Cons)
    moreover have "take (rune_pos n s) s = take ?w s @ take (rune_pos (n - 1) (drop ?w s)) (drop ?w s)"
      using False rune_len_le [of s] by (subst rune_pos.simps) (simp add: take_add)
    moreover have "rune_count (take ?w s) \<le> 1"
    proof -
      have "take ?w s \<noteq> []" using False rune_len_pos [of s] by simp
      moreover have "rune_len (take ?w s) = ?w"
        using rune_len_append [of "take ?w s" "drop ?w s"] rune_len_le [of s] calculation by simp
      ultimately show ?thesis by (simp add: rune_count_Cons)
    qed
    moreover have "rune_count (take ?w s @ x) \<le> rune_count (take ?w s) + rune_count x" for x
      by (rule rune_count_append)
    ultimately have "rune_count (take (rune_pos n s) s) \<le> 1 + (n - 1)" by (metis (no_types) add_mono le_trans)
    then show ?thesis using False by simp
  qed
qed

lemma rune_count_le_length: "rune_count s \<le> length s"
proof (induction s rule: rune_count.induct)
  case (1 s)
  show ?case
  proof (cases "s = []")
    case False
    then have "rune_count (drop (rune_len s) s) \<le> length (drop (rune_len s) s)" by (rule 1)
    then show ?thesis using False rune_len_pos [of s] rune_len_le [of s] by (simp add: rune_count_Cons)
  qed simp
qed

end
