(* ===== verification/Ratelimit.thy ===== *)
theory Ratelimit
  imports Prelude "HOL-Library.Multiset"
begin

text \<open>
  Package \<open>ratelimit\<close> (\<open>admin/internal/ratelimit/ratelimit.go\<close>): the in-memory
  sliding-window limiter of the auth-request subrequest. The map from client keys to hit
  times is an association list whose order stands for Go's arbitrary iteration order; the
  monotonic clock (seconds since the limiter was made) is the argument \<open>now\<close>. The theorems
  bound the map for every sequence of calls, and show that below the sweep threshold the
  count of a hit is the exact number of hits of that key in the window.
\<close>

section \<open>Definitions\<close>

record Limiter =
  rl_m :: "(string, int list) amap"

definition New :: Limiter where
  "New = \<lparr>rl_m = []\<rparr>"

definition rlSweepThreshold :: nat where
  "rlSweepThreshold = 100000"

definition rlStaleSeconds :: int where
  "rlStaleSeconds = 600"

definition rlHardCap :: nat where
  "rlHardCap = 120000"

definition idle_before :: "int \<Rightarrow> int list \<Rightarrow> bool" where
  "idle_before cutoff hits \<longleftrightarrow> hits = [] \<or> last hits < cutoff"

definition sweepStale :: "int \<Rightarrow> (string, int list) amap \<Rightarrow> (string, int list) amap" where
  "sweepStale now m = (let cutoff = now - rlStaleSeconds in filter (\<lambda>(k, hits). \<not> idle_before cutoff hits) m)"

definition last_hit :: "int list \<Rightarrow> int" where
  "last_hit hits = (if hits \<noteq> [] then last hits else 0)"

text \<open>\<open>sort.Slice\<close> leaves equal ages in any order; here it is the order of the list.\<close>

definition evictOldest :: "int \<Rightarrow> (string, int list) amap \<Rightarrow> (string, int list) amap" where
  "evictOldest n m =
     (if n \<le> 0 then m
      else let ages = sort_key snd (map (\<lambda>(k, hits). (k, last_hit hits)) m);
               n' = min (nat n) (length ages);
               gone = map fst (take n' ages)
           in filter (\<lambda>kv. fst kv \<notin> set gone) m)"

record Spec =
  RequestsPerMin :: int
  Burst :: int
  WindowSec :: int

record Result =
  r_Hit :: bool
  r_Count :: nat
  r_Allowance :: int
  r_WindowSec :: int

definition zeroResult :: Result where
  "zeroResult = \<lparr>r_Hit = False, r_Count = 0, r_Allowance = 0, r_WindowSec = 0\<rparr>"

definition allowance_of :: "Spec \<Rightarrow> int" where
  "allowance_of spec =
     (let a = wrap64 (go_div (wrap64 (RequestsPerMin spec * WindowSec spec)) 60 + Burst spec)
      in if a \<le> 0 then 0 else a)"

text \<open>The bound on the map before a new key is inserted.\<close>

definition make_room :: "int \<Rightarrow> (string, int list) amap \<Rightarrow> (string, int list) amap" where
  "make_room now m =
     (if length m \<ge> rlSweepThreshold
      then let m = sweepStale now m in
        if length m \<ge> rlHardCap then evictOldest (int (length m) - int rlHardCap + 1) m else m
      else m)"

definition Hit :: "int \<Rightarrow> string \<Rightarrow> Spec \<Rightarrow> Limiter \<Rightarrow> Result \<times> Limiter" where
  "Hit now key spec l =
     (if RequestsPerMin spec \<le> 0 \<or> WindowSec spec \<le> 0 then (zeroResult, l)
      else let allowance = allowance_of spec;
               cutoff = wrap64 (now - WindowSec spec);
               (hits, m) = (case map_of (rl_m l) key of
                  Some hs \<Rightarrow> (hs, rl_m l)
                | None \<Rightarrow> ([], make_room now (rl_m l)));
               hits = dropWhile (\<lambda>t. t < cutoff) hits @ [now];
               count = length hits
           in (\<lparr>r_Hit = int count > allowance, r_Count = count, r_Allowance = allowance, r_WindowSec = WindowSec spec\<rparr>,
               \<lparr>rl_m = aput key hits m\<rparr>))"

definition Reset :: "string \<Rightarrow> Limiter \<Rightarrow> Limiter" where
  "Reset key l = \<lparr>rl_m = adel key (rl_m l)\<rparr>"

definition Purge :: "int \<Rightarrow> Limiter \<Rightarrow> Limiter" where
  "Purge now l = \<lparr>rl_m = filter (\<lambda>(k, hits). \<not> idle_before (now - 3600) hits) (rl_m l)\<rparr>"

definition Size :: "Limiter \<Rightarrow> nat" where
  "Size l = length (rl_m l)"

inductive rl_step :: "Limiter \<Rightarrow> Limiter \<Rightarrow> bool" where
  step_hit: "rl_step l (snd (Hit now key spec l))"
| step_reset: "rl_step l (Reset key l)"
| step_purge: "rl_step l (Purge now l)"

section \<open>Lemmas\<close>

lemma evictOldest_wf: "amap_wf m \<Longrightarrow> amap_wf (evictOldest n m)"
  by (simp add: evictOldest_def Let_def)

lemma sweepStale_wf: "amap_wf m \<Longrightarrow> amap_wf (sweepStale now m)"
  by (simp add: sweepStale_def Let_def)

lemma distinct_fst_sort_ages:
  "amap_wf m \<Longrightarrow> distinct (map fst (sort_key snd (map (\<lambda>(k, hits). (k, last_hit hits)) m)))"
proof -
  assume wf: "amap_wf m"
  let ?xs = "map (\<lambda>(k, hits). (k, last_hit hits)) m"
  have e: "map fst ?xs = map fst m" by (simp add: case_prod_unfold)
  have d: "distinct (map fst ?xs)" unfolding e using wf unfolding amap_wf_def .
  have "mset (map fst (sort_key snd ?xs)) = mset (map fst ?xs)" by (simp only: mset_map mset_sort)
  then show ?thesis using d mset_eq_imp_distinct_iff by blast
qed

lemma length_filter_notin:
  "amap_wf m \<Longrightarrow> distinct ks \<Longrightarrow> set ks \<subseteq> fst ` set m \<Longrightarrow> length (filter (\<lambda>kv. fst kv \<notin> set ks) m) = length m - length ks"
proof (induction ks arbitrary: m)
  case (Cons k ks)
  have "filter (\<lambda>kv. fst kv \<notin> set (k # ks)) m = filter (\<lambda>kv. fst kv \<notin> set ks) (adel k m)"
    unfolding adel_def filter_filter by (rule filter_cong) auto
  moreover have "k \<in> fst ` set m" using Cons.prems(3) by simp
  then obtain v where v: "map_of m k = Some v" by (metis map_of_eq_None_iff option.exhaust)
  have "Suc (length (adel k m)) = length m" by (rule length_adel_present [OF Cons.prems(1) v])
  moreover have "length (filter (\<lambda>kv. fst kv \<notin> set ks) (adel k m)) = length (adel k m) - length ks"
  proof (rule Cons.IH)
    show "amap_wf (adel k m)" "distinct ks" using Cons.prems(1,2) by simp_all
    show "set ks \<subseteq> fst ` set (adel k m)" unfolding fst_adel using Cons.prems(2,3) by auto
  qed
  ultimately show ?case by simp
qed simp

lemma length_evictOldest:
  assumes "amap_wf m" "0 \<le> n" "nat n \<le> length m"
  shows "length (evictOldest n m) = length m - nat n"
proof (cases "n = 0")
  case False
  let ?ages = "sort_key snd (map (\<lambda>(k, hits). (k, last_hit hits)) m)"
  have l: "length ?ages = length m" by simp
  have d: "distinct (map fst (take (nat n) ?ages))"
    using distinct_fst_sort_ages [OF assms(1)] by (simp flip: take_map)
  have "set (map fst (take (nat n) ?ages)) \<subseteq> fst ` set ?ages" using set_take_subset [of "nat n" ?ages] by auto
  also have "\<dots> = fst ` set m" by (force simp: image_iff)
  finally have sub: "set (map fst (take (nat n) ?ages)) \<subseteq> fst ` set m" .
  show ?thesis
    using length_filter_notin [OF assms(1) d sub] False assms l by (simp add: evictOldest_def Let_def min_absorb1)
qed (simp add: evictOldest_def)

lemma length_make_room:
  assumes "amap_wf m" "length m \<le> rlHardCap"
  shows "length (make_room now m) < rlHardCap"
proof (cases "length m \<ge> rlSweepThreshold")
  case True
  let ?s = "sweepStale now m"
  have s: "length ?s \<le> rlHardCap"
    using assms(2) length_filter_le order_trans unfolding sweepStale_def Let_def by blast
  show ?thesis
  proof (cases "length ?s \<ge> rlHardCap")
    case over: True
    with s have e: "length ?s = rlHardCap" by simp
    have "length (evictOldest 1 ?s) = rlHardCap - 1"
      using length_evictOldest [OF sweepStale_wf [OF assms(1)], of 1 now] e by (simp add: rlHardCap_def)
    then show ?thesis using True over e by (simp add: make_room_def Let_def rlHardCap_def)
  next
    case False
    then show ?thesis using True by (simp add: make_room_def Let_def)
  qed
next
  case False
  then show ?thesis by (simp add: make_room_def rlSweepThreshold_def rlHardCap_def)
qed

lemma make_room_wf: "amap_wf m \<Longrightarrow> amap_wf (make_room now m)"
  by (simp add: make_room_def Let_def evictOldest_wf sweepStale_wf)

lemma map_of_make_room_absent: "map_of m k = None \<Longrightarrow> map_of (make_room now m) k = None"
proof -
  assume n: "map_of m k = None"
  have f: "map_of (filter P m') k = None" if "map_of m' k = None" for P and m' :: "(string, int list) amap"
    using that by (auto simp: map_of_eq_None_iff)
  show ?thesis using n f by (simp add: make_room_def Let_def evictOldest_def sweepStale_def)
qed

definition rl_inv :: "Limiter \<Rightarrow> bool" where
  "rl_inv l \<longleftrightarrow> amap_wf (rl_m l) \<and> length (rl_m l) \<le> rlHardCap"

lemma Hit_inv: "rl_inv l \<Longrightarrow> rl_inv (snd (Hit now key spec l))"
proof -
  assume inv: "rl_inv l"
  show ?thesis
  proof (cases "map_of (rl_m l) key")
    case None
    then have "length (aput key hs (make_room now (rl_m l))) \<le> rlHardCap" for hs
      using length_aput_absent [OF map_of_make_room_absent [OF None]] length_make_room [of "rl_m l" now] inv
      by (simp add: rl_inv_def Suc_le_eq)
    then show ?thesis using None inv by (simp add: Hit_def Let_def rl_inv_def make_room_wf)
  next
    case (Some hs)
    then show ?thesis using inv length_aput_present [OF _ Some] by (simp add: Hit_def Let_def rl_inv_def)
  qed
qed

interpretation limiter: invariant_system "\<lambda>l. l = New" rl_step rl_inv
proof
  show "rl_inv s" if "s = New" for s using that by (simp add: rl_inv_def New_def)
  show "rl_inv s'" if i: "rl_inv s" and st: "rl_step s s'" for s s'
    using st
  proof (cases rule: rl_step.cases)
    case step_hit
    then show ?thesis using Hit_inv i by simp
  next
    case (step_reset key)
    then show ?thesis using i length_adel_le [of key "rl_m s"] by (simp add: rl_inv_def Reset_def)
  next
    case (step_purge now)
    have "length (filter (\<lambda>(k, hits). \<not> idle_before (now - 3600) hits) (rl_m s)) \<le> rlHardCap"
      by (rule order_trans [OF length_filter_le]) (use i in \<open>simp add: rl_inv_def\<close>)
    then show ?thesis using i step_purge by (simp add: rl_inv_def Purge_def)
  qed
qed

subsection \<open>Eviction\<close>

lemma evictOldest_oldest:
  assumes "amap_wf m" "map_of m a = Some ha" "map_of (evictOldest n m) a = None" "map_of (evictOldest n m) b = Some hb"
  shows "last_hit ha \<le> last_hit hb"
proof -
  let ?ages = "sort_key snd (map (\<lambda>(k, hits). (k, last_hit hits)) m)"
  let ?n = "min (nat n) (length ?ages)"
  have pos: "\<not> n \<le> 0" using assms(2,3) by (auto simp: evictOldest_def)
  let ?gone = "map fst (take ?n ?ages)"
  have ev: "evictOldest n m = filter (\<lambda>kv. fst kv \<notin> set ?gone) m" using pos by (simp add: evictOldest_def Let_def)
  have mo: "map_of (evictOldest n m) k = (if k \<notin> set ?gone then map_of m k else None)" for k
    unfolding ev by (rule map_of_filter_fst)
  from assms(2,3) mo have a: "a \<in> set ?gone" by (auto split: if_splits)
  from assms(4) mo have b: "b \<notin> set ?gone" "map_of m b = Some hb" by (auto split: if_splits)
  have key: "\<exists>h. map_of m k = Some h \<and> t = last_hit h" if "(k, t) \<in> set ?ages" for k t
    using that assms(1) map_of_eq_Some_iff [of m] by (fastforce simp: amap_wf_def)
  obtain ta where ta: "(a, ta) \<in> set (take ?n ?ages)" using a by auto
  have "ta = last_hit ha" using key [OF in_set_takeD [OF ta]] assms(2) by auto
  have "(b, last_hit hb) \<in> set ?ages" using map_of_SomeD [OF b(2)] by force
  then have "(b, last_hit hb) \<in> set (take ?n ?ages) \<union> set (drop ?n ?ages)"
    by (simp only: set_append [symmetric] append_take_drop_id)
  moreover have "(b, last_hit hb) \<notin> set (take ?n ?ages)"
    using b(1) imageI [of "(b, last_hit hb)" "set (take ?n ?ages)" fst] by (simp only: set_map fst_conv) blast
  ultimately have "(b, last_hit hb) \<in> set (drop ?n ?ages)" by blast
  moreover have "\<forall>x \<in> set (take ?n ?ages). \<forall>y \<in> set (drop ?n ?ages). snd x \<le> snd y"
  proof -
    have "sorted (map snd (take ?n ?ages @ drop ?n ?ages))" by (simp only: append_take_drop_id sorted_sort_key)
    then show ?thesis by (simp only: map_append sorted_append) auto
  qed
  ultimately show ?thesis using ta \<open>ta = last_hit ha\<close> by fastforce
qed

subsection \<open>The count below the sweep threshold\<close>

text \<open>The specification: a log of hits, and the number of hits of a key in the last \<open>w\<close> seconds.\<close>

definition hits_in :: "string \<Rightarrow> int \<Rightarrow> (string \<times> int) list \<Rightarrow> int list" where
  "hits_in key cutoff log = filter (\<lambda>t. cutoff \<le> t) (map snd (filter (\<lambda>e. fst e = key) log))"

definition run_hits :: "Spec \<Rightarrow> (string \<times> int) list \<Rightarrow> Limiter \<Rightarrow> Limiter" where
  "run_hits spec log l = fold (\<lambda>(key, now) l. snd (Hit now key spec l)) log l"

text \<open>
  The limiter refines the log: it holds, for each key, the key's hits from some moment on
  that lies outside the window of the newest hit.
\<close>

definition rl_refines :: "int \<Rightarrow> (string \<times> int) list \<Rightarrow> Limiter \<Rightarrow> bool" where
  "rl_refines w log l \<longleftrightarrow>
     amap_wf (rl_m l) \<and> fst ` set (rl_m l) \<subseteq> fst ` set log
     \<and> (\<forall>key. \<exists>c. (case map_of (rl_m l) key of Some hs \<Rightarrow> hs | None \<Rightarrow> []) = hits_in key c log
          \<and> (log = [] \<or> c \<le> snd (last log) - w))"

definition rl_times :: "int \<Rightarrow> (string \<times> int) list \<Rightarrow> bool" where
  "rl_times w log \<longleftrightarrow> sorted (map snd log) \<and> list_all (\<lambda>e. in64 (snd e - w)) log"

lemma sorted_hits_in: "sorted (map snd log) \<Longrightarrow> sorted (hits_in key c log)"
  unfolding hits_in_def by (intro sorted_filter [of id, simplified] sorted_filter)

lemma hits_in_later: "c \<le> c' \<Longrightarrow> filter (\<lambda>t. c' \<le> t) (hits_in key c log) = hits_in key c' log"
  unfolding hits_in_def filter_filter by (rule filter_cong) auto

lemma refines_length:
  assumes "rl_refines w log l"
  shows "length (rl_m l) \<le> card (fst ` set log)"
proof -
  have "length (rl_m l) = card (set (map fst (rl_m l)))"
    using assms distinct_card [of "map fst (rl_m l)"] by (simp add: rl_refines_def amap_wf_def)
  also have "\<dots> \<le> card (fst ` set log)"
    using assms by (intro card_mono) (auto simp: rl_refines_def)
  finally show ?thesis .
qed

text \<open>One hit on a refined limiter: the exact window, and the refinement again.\<close>

lemma Hit_refines:
  assumes ref: "rl_refines w log l" and spec: "0 < RequestsPerMin spec" "WindowSec spec = w" "0 < w"
    and t: "rl_times w (log @ [(key, now)])" and few: "card (fst ` set log) < rlSweepThreshold"
  shows "r_Count (fst (Hit now key spec l)) = Suc (length (hits_in key (now - w) log))"
    and "rl_refines w (log @ [(key, now)]) (snd (Hit now key spec l))"
proof -
  define old where "old = (case map_of (rl_m l) key of Some hs \<Rightarrow> hs | None \<Rightarrow> [])"
  obtain c where c: "old = hits_in key c log" "log = [] \<or> c \<le> snd (last log) - w"
    using ref unfolding rl_refines_def old_def by blast
  have le: "log = [] \<or> snd (last log) \<le> now"
    using t by (cases log rule: rev_cases) (auto simp: rl_times_def sorted_append)
  have in64w: "wrap64 (now - w) = now - w" using t by (simp add: rl_times_def)
  have dw: "dropWhile (\<lambda>t. t < now - w) old = hits_in key (now - w) log"
  proof (cases "log = []")
    case True
    then show ?thesis using c by (simp add: hits_in_def)
  next
    case False
    then have "c \<le> now - w" using c(2) le by simp
    moreover have "sorted old" using t c(1) by (simp add: rl_times_def sorted_append sorted_hits_in)
    ultimately show ?thesis using takeWhile_dropWhile_sorted [of old "now - w"] hits_in_later c(1) by metis
  qed
  have room: "make_room now (rl_m l) = rl_m l"
    using refines_length [OF ref] few by (simp add: make_room_def)
  let ?h = "dropWhile (\<lambda>t. t < now - w) old @ [now]"
  have hit: "Hit now key spec l =
      (\<lparr>r_Hit = int (length ?h) > allowance_of spec, r_Count = length ?h, r_Allowance = allowance_of spec, r_WindowSec = w\<rparr>,
       \<lparr>rl_m = aput key ?h (rl_m l)\<rparr>)"
    using spec room by (simp add: Hit_def Let_def old_def in64w split: option.splits)
  show "r_Count (fst (Hit now key spec l)) = Suc (length (hits_in key (now - w) log))"
    unfolding hit by (simp add: dw)
  have self: "?h = hits_in key (now - w) (log @ [(key, now)])" using spec(3) unfolding dw by (simp add: hits_in_def)
  show "rl_refines w (log @ [(key, now)]) (snd (Hit now key spec l))"
    unfolding rl_refines_def
  proof (intro conjI allI)
    show "amap_wf (rl_m (snd (Hit now key spec l)))" using ref unfolding hit by (simp add: rl_refines_def)
    show "fst ` set (rl_m (snd (Hit now key spec l))) \<subseteq> fst ` set (log @ [(key, now)])"
      using ref unfolding hit by (auto simp: rl_refines_def aput_def adel_def)
    fix k
    show "\<exists>c. (case map_of (rl_m (snd (Hit now key spec l))) k of Some hs \<Rightarrow> hs | None \<Rightarrow> []) = hits_in k c (log @ [(key, now)])
        \<and> (log @ [(key, now)] = [] \<or> c \<le> snd (last (log @ [(key, now)])) - w)"
    proof (cases "k = key")
      case True
      then show ?thesis using self unfolding hit by (intro exI [of _ "now - w"]) simp
    next
      case False
      obtain c' where c': "(case map_of (rl_m l) k of Some hs \<Rightarrow> hs | None \<Rightarrow> []) = hits_in k c' log"
        "log = [] \<or> c' \<le> snd (last log) - w" using ref unfolding rl_refines_def by blast
      show ?thesis
      proof (cases "log = []")
        case True
        then have "map_of (rl_m l) k = None" using ref by (auto simp: rl_refines_def map_of_eq_None_iff)
        then show ?thesis using False True unfolding hit by (intro exI [of _ "now - w"]) (simp add: hits_in_def)
      next
        case ne: False
        then have "c' \<le> now - w" using c'(2) le by simp
        then show ?thesis using False c'(1) unfolding hit by (intro exI [of _ c']) (simp add: hits_in_def)
      qed
    qed
  qed
qed

lemma run_hits_refines:
  assumes "0 < RequestsPerMin spec" "WindowSec spec = w" "0 < w" "rl_times w log" "card (fst ` set log) < rlSweepThreshold"
  shows "rl_refines w log (run_hits spec log New)"
  using assms(4,5)
proof (induction log rule: rev_induct)
  case Nil
  then show ?case by (simp add: run_hits_def rl_refines_def New_def hits_in_def)
next
  case (snoc e log)
  obtain key now where e: "e = (key, now)" by (cases e)
  have "card (fst ` set log) \<le> card (fst ` set (log @ [e]))" by (intro card_mono) auto
  then have few: "card (fst ` set log) < rlSweepThreshold" using snoc.prems(2) by linarith
  have "rl_times w log" using snoc.prems(1) by (simp add: rl_times_def sorted_append)
  then have "rl_refines w log (run_hits spec log New)" using snoc.IH few by blast
  from Hit_refines(2) [OF this assms(1,2,3) _ few] snoc.prems(1) e show ?case by (simp add: run_hits_def)
qed

section \<open>Properties\<close>

text \<open>
  the limiter's map never holds more than \<open>rlHardCap\<close> keys and never two entries for
  one key, in every state reachable by hits, resets and purges at any times: a flood of
  rotated keys cannot grow it further.
\<close>

lemma limiter_bounded:
  "reachable (\<lambda>l. l = New) rl_step l \<Longrightarrow> Size l \<le> rlHardCap \<and> distinct (map fst (rl_m l))"
  by (drule limiter.reachable_inv) (simp add: rl_inv_def Size_def amap_wf_def)

text \<open>
  C4: below the sweep threshold the limiter counts exactly: after any log of hits in time
  order over fewer than \<open>rlSweepThreshold\<close> keys, the count of the next hit is one more than
  the number of earlier hits of that key inside the window, and it is over the limit
  exactly when that count exceeds the allowance.
\<close>

theorem window_count_exact:
  assumes "0 < RequestsPerMin spec" "0 < WindowSec spec"
    and "sorted (map snd (log @ [(key, now)]))" "list_all (\<lambda>e. in64 (snd e - WindowSec spec)) (log @ [(key, now)])"
    and "card (fst ` set log) < rlSweepThreshold"
  shows "let r = fst (Hit now key spec (run_hits spec log New));
             n = Suc (length (hits_in key (now - WindowSec spec) log))
         in r_Count r = n \<and> (r_Hit r \<longleftrightarrow> int n > allowance_of spec)"
proof -
  have t: "rl_times (WindowSec spec) (log @ [(key, now)])" using assms(3,4) by (simp add: rl_times_def)
  then have "rl_times (WindowSec spec) log" by (simp add: rl_times_def sorted_append)
  from run_hits_refines [OF assms(1) refl assms(2) this assms(5)]
  have "r_Count (fst (Hit now key spec (run_hits spec log New))) = Suc (length (hits_in key (now - WindowSec spec) log))"
    by (rule Hit_refines(1) [OF _ assms(1) refl assms(2) t assms(5)])
  moreover have "r_Hit (fst (Hit now key spec l)) \<longleftrightarrow> int (r_Count (fst (Hit now key spec l))) > allowance_of spec" for l
    using assms(1,2) by (simp add: Hit_def Let_def split: prod.splits)
  ultimately show ?thesis by (simp add: Let_def)
qed

theorem window_count_exact_witness:
  "r_Count (fst (Hit 70 ''a'' \<lparr>RequestsPerMin = 2, Burst = 0, WindowSec = 60\<rparr>
      (run_hits \<lparr>RequestsPerMin = 2, Burst = 0, WindowSec = 60\<rparr> [(''a'', 5), (''b'', 6), (''a'', 20), (''a'', 65)] New))) = 3"
  using window_count_exact [of "\<lparr>RequestsPerMin = 2, Burst = 0, WindowSec = 60\<rparr>"
      "[(''a'', 5), (''b'', 6), (''a'', 20), (''a'', 65)]" "''a''" 70]
  by (simp add: in64_def hits_in_def rlSweepThreshold_def Let_def card_insert_if)

text \<open>
  the hard backstop evicts the idlest keys: a key it drops was last seen no later than
  any key it keeps, and it drops exactly as many as it is asked to.
\<close>

lemma evictOldest_idlest:
  assumes "amap_wf m"
  shows "(map_of m a = Some ha \<and> map_of (evictOldest n m) a = None \<and> map_of (evictOldest n m) b = Some hb
            \<longrightarrow> last_hit ha \<le> last_hit hb)
       \<and> (0 \<le> n \<and> nat n \<le> length m \<longrightarrow> length (evictOldest n m) = length m - nat n)"
  using evictOldest_oldest [OF assms] length_evictOldest [OF assms] by blast

end
