(* ===== verification/Axes.thy ===== *)
theory Axes
  imports Settings Go_Utf8 Ratelimit
begin

text \<open>
  The decision axes of the forward-auth check (\<open>admin/internal/handlers/auth_check.go\<close>,
  \<open>grade_gate.go\<close>): each turns the request and the settings into at most one vote, and
  \<open>pickStrongest\<close> takes the harshest. What the daemon reads of its built-in tables, of
  the crawler lists and of its regular expressions is the record \<open>Catalog\<close>; what it
  reads of the user agent is \<open>Classify\<close>. A vote is an option; the network axes thread
  the rate limiter; the honeypot axis also returns the ban it records.
\<close>

section \<open>Severities\<close>

datatype axisSeverity = sevPass | sevPoWOnly | sevCaptchaOnly | sevPoWThenCaptcha | sevDeny

fun sev_rank :: "axisSeverity \<Rightarrow> nat" where
  "sev_rank sevPass = 0"
| "sev_rank sevPoWOnly = 1"
| "sev_rank sevCaptchaOnly = 2"
| "sev_rank sevPoWThenCaptcha = 3"
| "sev_rank sevDeny = 4"

lemma sev_rank_inj: "sev_rank a = sev_rank b \<longleftrightarrow> a = b"
  by (cases a; cases b) simp_all

instantiation axisSeverity :: linorder
begin

definition less_eq_axisSeverity :: "axisSeverity \<Rightarrow> axisSeverity \<Rightarrow> bool" where
  "a \<le> b \<longleftrightarrow> sev_rank a \<le> sev_rank b"

definition less_axisSeverity :: "axisSeverity \<Rightarrow> axisSeverity \<Rightarrow> bool" where
  "a < b \<longleftrightarrow> sev_rank a < sev_rank b"

instance
  by standard (auto simp: less_eq_axisSeverity_def less_axisSeverity_def sev_rank_inj)

end

record axisDecision =
  d_sev :: axisSeverity
  d_reason :: string
  d_chMode :: string

definition severityFromAction :: "string \<Rightarrow> axisSeverity" where
  "severityFromAction s =
     (if s = '''' \<or> s = ''pass'' \<or> s = GeoActionSkip then sevPass
      else if s = RateChallengePoWOnly then sevPoWOnly
      else if s = RateChallengeCaptchaOnly then sevCaptchaOnly
      else if s = RateChallengePoWThenCaptcha then sevPoWThenCaptcha
      else if s = RateChallengeDeny then sevDeny
      else sevPass)"

fun chModeFromSeverity :: "axisSeverity \<Rightarrow> string" where
  "chModeFromSeverity sevPoWOnly = RateChallengePoWOnly"
| "chModeFromSeverity sevCaptchaOnly = RateChallengeCaptchaOnly"
| "chModeFromSeverity sevPoWThenCaptcha = RateChallengePoWThenCaptcha"
| "chModeFromSeverity sevPass = ''''"
| "chModeFromSeverity sevDeny = ''''"

definition strongest :: "axisDecision list \<Rightarrow> axisDecision" where
  "strongest decisions =
     foldl (\<lambda>winner d. if d_sev d > d_sev winner then d else winner)
       \<lparr>d_sev = sevPass, d_reason = '''', d_chMode = ''''\<rparr> decisions"

definition pickStrongest :: "axisDecision list \<Rightarrow> axisDecision \<times> string list" where
  "pickStrongest decisions =
     (let winner = strongest decisions in
      if d_sev winner = sevPass then (winner, [])
      else (winner, map d_reason (filter (\<lambda>d. \<not> (d_sev d = sevPass \<or> d_reason d = d_reason winner)) decisions)))"

text \<open>The vote an action gives: its severity and, for a challenge, its chain.\<close>

definition vote :: "string \<Rightarrow> string \<Rightarrow> axisDecision" where
  "vote act reason = (let s = severityFromAction act in \<lparr>d_sev = s, d_reason = reason, d_chMode = chModeFromSeverity s\<rparr>)"

definition deny_vote :: "string \<Rightarrow> axisDecision" where
  "deny_vote reason = \<lparr>d_sev = sevDeny, d_reason = reason, d_chMode = ''''\<rparr>"

section \<open>Built-in tables and user-agent facts\<close>

record ChallengeTargetGroup =
  tg_ID :: string
  tg_Patterns :: "string list"
  tg_AddedIn :: string

record ProtectedPathRule =
  pr_Pattern :: string
  pr_Mode :: string

record ProtectedPathPresetGroup =
  pg_ID :: string
  pg_Rules :: "ProtectedPathRule list"

record ProtectedPath =
  pp_Path :: string
  pp_Mode :: string
  pp_Site :: string
  pp_Disabled :: bool

record ProtectedPathsConfig =
  pc_EnabledPresets :: "string list"
  pc_PresetMode :: "(string \<times> string) list"
  pc_DefaultMode :: string
  pc_Paths :: "ProtectedPath list"

record BypassPathsConfig =
  bc_EnabledPresets :: "string list"
  bc_DisabledPresets :: "string list"
  bc_Paths :: "BypassPath list"

record HoneypotURL =
  hu_Path :: string
  hu_Title :: string
  hu_Action :: string
  hu_Disabled :: bool
  hu_Site :: string

record HoneypotConfig =
  hc_DisabledPresets :: "string list"
  hc_EnabledPresets :: "string list"
  hc_URLs :: "HoneypotURL list"
  hc_DefaultAction :: string
  hc_PresetAction :: "(string \<times> string) list"

record Nginx =
  n_SearchBots :: SearchBotsConfig
  n_ChallengeTargets :: ChallengeTargetsConfig
  n_JA4Verdicts :: JA4VerdictsConfig
  n_ProtectedPaths :: ProtectedPathsConfig
  n_Geo :: GeoConfig
  n_Asn :: AsnConfig
  n_Bans :: BansConfig
  n_BypassPaths :: BypassPathsConfig
  n_Honeypot :: HoneypotConfig
  n_CrawlerVerify :: CrawlerVerifyConfig
  n_UpgradeReviewPolicy :: string
  n_EnforcementReviewedVersion :: string

record Settings =
  s_Nginx :: Nginx
  s_Global :: GlobalConfig
  s_RateLimit :: RateLimitConfig
  s_CommunityBans :: CommunityBansConfig

text \<open>
  The built-in tables, the upstream crawler list (category, patterns), the
  crawlers with a published reverse DNS (name, text of the user agent), and the regular
  expression engine: \<open>c_match p s\<close>, \<open>p\<close> compiles and matches somewhere in \<open>s\<close>.
\<close>

record BypassPathRule =
  br_Pattern :: string
  br_Site :: string

record BypassPathGroup =
  bg_ID :: string
  bg_Rules :: "BypassPathRule list"
  bg_DefaultOn :: bool
  bg_SafeMethodsOnly :: bool

record HoneypotGroup =
  hg_ID :: string
  hg_Label :: string
  hg_Patterns :: "string list"
  hg_AddedIn :: string
  hg_DefaultOnIn :: string
  hg_OptIn :: bool

record Catalog =
  c_HostingProviders :: "HostingProvider list"
  c_ChallengeTargetGroups :: "ChallengeTargetGroup list"
  c_JA4VerdictGroups :: "JA4VerdictGroup list"
  c_ProtectedGroups :: "ProtectedPathPresetGroup list"
  c_UpstreamRescueList :: "(string \<times> string list) list"
  c_BypassPathGroups :: "BypassPathGroup list"
  c_HoneypotGroups :: "HoneypotGroup list"
  c_Crawlers :: "(string \<times> string) list"
  c_match :: "string \<Rightarrow> string \<Rightarrow> bool"

text \<open>A pattern as \<open>matchedRegex\<close> reads it, and an expression taken case-insensitively as it is.\<close>

definition c_re :: "Catalog \<Rightarrow> string \<Rightarrow> string \<Rightarrow> bool" where
  "c_re c p s = matchedRegex (c_match c) p s"

definition c_rex :: "Catalog \<Rightarrow> string \<Rightarrow> string \<Rightarrow> bool" where
  "c_rex c p s = c_match c (''(?i)'' @ p) s"

text \<open>A preset newer than the reviewed release is held under the review policy.\<close>

definition ResolvedUpgradeReviewPolicy :: "Nginx \<Rightarrow> string" where
  "ResolvedUpgradeReviewPolicy n = (if n_UpgradeReviewPolicy n = ''review'' then ''review'' else ''apply'')"

definition EnforcementHeld :: "Nginx \<Rightarrow> string \<Rightarrow> bool" where
  "EnforcementHeld n addedIn =
     (if ResolvedUpgradeReviewPolicy n \<noteq> ''review'' then False
      else PresetIsNew (n_EnforcementReviewedVersion n) addedIn)"

text \<open>
  \<open>search_ai\<close>: \<open>classify.IsBot\<close> calls the pair a search or AI crawler; the majors are the
  version tokens of the user agent (0: none); the rest is the resolved baseline of the tiers.
\<close>

record Classify =
  k_search_ai :: "string \<Rightarrow> string \<Rightarrow> bool"
  k_IsKnownBrowser :: "string \<Rightarrow> bool"
  k_ChromeMajor :: "string \<Rightarrow> int"
  k_FirefoxMajor :: "string \<Rightarrow> int"
  k_curChrome :: int
  k_curFirefox :: int
  k_ESR :: "int list"
  k_lagChrome :: int
  k_lagFirefox :: int

definition IsStaleBrowser :: "Classify \<Rightarrow> string \<Rightarrow> bool" where
  "IsStaleBrowser k ua =
     (if k_curChrome k > 0 \<and> k_lagChrome k > 0 \<and> k_ChromeMajor k ua > 0
      then k_curChrome k - k_ChromeMajor k ua \<ge> k_lagChrome k
      else if k_curFirefox k > 0 \<and> k_lagFirefox k > 0 \<and> k_FirefoxMajor k ua > 0
      then (if list_ex (\<lambda>esr. esr > 0 \<and> k_FirefoxMajor k ua = esr) (k_ESR k) then False
            else k_curFirefox k - k_FirefoxMajor k ua \<ge> k_lagFirefox k)
      else False)"

definition SecCHUAMinChromeMajor :: int where
  "SecCHUAMinChromeMajor = 89"

section \<open>List lookups\<close>

definition preset_on :: "Nginx \<Rightarrow> string list \<Rightarrow> string \<Rightarrow> string \<Rightarrow> bool" where
  "preset_on n disabled i addedIn \<longleftrightarrow> i \<notin> set (map trim_space disabled) \<and> \<not> EnforcementHeld n addedIn"

definition lookupJA4Verdict :: "Catalog \<Rightarrow> string \<Rightarrow> Nginx \<Rightarrow> string \<times> string \<times> string" where
  "lookupJA4Verdict c ja4 n =
     (let jv = n_JA4Verdicts n in if ja4 = '''' then ('''', ''ok'', '''')
      else case List.find (\<lambda>(g, r). c_re c (jr_Pattern r) ja4)
          (concat (map (\<lambda>g. map (\<lambda>r. (g, r)) (jg_Rules g))
             (filter (\<lambda>g. preset_on n (jv_DisabledPresets jv) (jg_ID g) (jg_AddedIn g)) (c_JA4VerdictGroups c)))) of
        Some (g, r) \<Rightarrow> (jr_Verdict r, jr_Action r, ''preset:'' @ jg_ID g)
      | None \<Rightarrow>
        (case find (\<lambda>i. \<not> row_disabled (jv_ExtraDisabled jv) i \<and> c_re c (je_Pattern (jv_Extra jv ! i)) ja4)
               [0..<length (jv_Extra jv)] of
           Some i \<Rightarrow> (je_Verdict (jv_Extra jv ! i), je_Action (jv_Extra jv ! i), ''extra'')
         | None \<Rightarrow> ('''', ''ok'', '''')))"

definition matchJA4 :: "Catalog \<Rightarrow> string \<Rightarrow> Nginx \<Rightarrow> string \<times> string" where
  "matchJA4 c ja4 n = (case lookupJA4Verdict c ja4 n of (v, a, s) \<Rightarrow> (v, a))"

text \<open>The result of \<open>lookupUAListed\<close>: the list name, the category, the pinned chain.\<close>

definition action_at :: "string list \<Rightarrow> nat \<Rightarrow> string" where
  "action_at as i = (if i < length as then as ! i else '''')"

definition lookupUAListed :: "Catalog \<Rightarrow> string \<Rightarrow> Nginx \<Rightarrow> string \<times> string \<times> string" where
  "lookupUAListed c ua n =
     (let sb = n_SearchBots n; ct = n_ChallengeTargets n in
      if ua = '''' then ('''', '''', '''')
      else if list_ex (\<lambda>i. \<not> row_disabled (sb_ExtraDisabled sb) i \<and> c_re c (sb_Extra sb ! i) ua) [0..<length (sb_Extra sb)]
      then (''extra'', ''search_ai'', '''')
      else case find (\<lambda>g. preset_on n (ct_DisabledPresets ct) (tg_ID g) (tg_AddedIn g)
                 \<and> list_ex (\<lambda>p. c_re c p ua) (tg_Patterns g)) (c_ChallengeTargetGroups c) of
        Some g \<Rightarrow> (tg_ID g, ''challenge'', trim_space (str_at (ct_PresetAction ct) (tg_ID g)))
      | None \<Rightarrow>
        (case find (\<lambda>i. \<not> row_disabled (ct_ExtraDisabled ct) i \<and> c_re c (ct_Extra ct ! i) ua) [0..<length (ct_Extra ct)] of
           Some i \<Rightarrow> (''extra'', ''challenge'', trim_space (action_at (ct_ExtraAction ct) i))
         | None \<Rightarrow>
           (case find (\<lambda>(cat, pats). list_ex (\<lambda>p.
                    ResolvePatternMode cat p (sb_UpstreamGroupMode sb) (sb_UpstreamPatternMode sb) = ''black'' \<and> c_re c p ua) pats)
                  (c_UpstreamRescueList c) of
              Some (cat, pats) \<Rightarrow> (cat, ''challenge'', trim_space (str_at (sb_UpstreamGroupAction sb) cat))
            | None \<Rightarrow> ('''', '''', ''''))))"

definition anyUADenyConfigured :: "Nginx \<Rightarrow> bool" where
  "anyUADenyConfigured n =
     (let ct = n_ChallengeTargets n; deny = (\<lambda>a. trim_space a = RateChallengeDeny) in
      deny (ct_DefaultAction ct) \<or> list_ex deny (ct_ExtraAction ct)
      \<or> list_ex (deny \<circ> snd) (ct_PresetAction ct) \<or> list_ex (deny \<circ> snd) (sb_UpstreamGroupAction (n_SearchBots n)))"

definition denies :: "ChallengeTargetsConfig \<Rightarrow> string \<Rightarrow> bool" where
  "denies ct act = (let act = trim_space act in (if act = '''' then trim_space (ct_DefaultAction ct) else act) = RateChallengeDeny)"

text \<open>The scan of \<open>hardDenyUA\<close> behind its precheck.\<close>

definition hardDenyScan :: "Catalog \<Rightarrow> string \<Rightarrow> Nginx \<Rightarrow> bool" where
  "hardDenyScan c ua n =
     (let ct = n_ChallengeTargets n; sb = n_SearchBots n in
      list_ex (\<lambda>g. preset_on n (ct_DisabledPresets ct) (tg_ID g) (tg_AddedIn g)
          \<and> denies ct (str_at (ct_PresetAction ct) (tg_ID g)) \<and> list_ex (\<lambda>p. c_re c p ua) (tg_Patterns g))
        (c_ChallengeTargetGroups c)
      \<or> list_ex (\<lambda>i. \<not> row_disabled (ct_ExtraDisabled ct) i \<and> denies ct (action_at (ct_ExtraAction ct) i)
          \<and> c_re c (ct_Extra ct ! i) ua) [0..<length (ct_Extra ct)]
      \<or> list_ex (\<lambda>(cat, pats). denies ct (str_at (sb_UpstreamGroupAction sb) cat)
          \<and> list_ex (\<lambda>p. ResolvePatternMode cat p (sb_UpstreamGroupMode sb) (sb_UpstreamPatternMode sb) = ''black''
               \<and> c_re c p ua) pats)
        (c_UpstreamRescueList c))"

definition hardDenyUA :: "Catalog \<Rightarrow> string \<Rightarrow> Nginx \<Rightarrow> bool" where
  "hardDenyUA c ua n = (if \<not> anyUADenyConfigured n then False else hardDenyScan c ua n)"

definition protectedModeForOrig :: "Catalog \<Rightarrow> ProtectedPathsConfig \<Rightarrow> string \<Rightarrow> string \<Rightarrow> string" where
  "protectedModeForOrig c pc site orig0 =
     (if orig0 = '''' then ''''
      else let orig = (case index_byte (CHR ''?'') orig0 of Some i \<Rightarrow> take i orig0 | None \<Rightarrow> orig0) in
        case List.find (\<lambda>(g, r). c_rex c (pr_Pattern r) orig)
            (concat (map (\<lambda>g. map (\<lambda>r. (g, r)) (pg_Rules g))
               (filter (\<lambda>g. pg_ID g \<in> set (pc_EnabledPresets pc)) (c_ProtectedGroups c)))) of
          Some (g, r) \<Rightarrow>
            (case map_of (pc_PresetMode pc) (pg_ID g) of
               Some m \<Rightarrow> if IsValidProtectedMode m then m else ResolveProtectedMode (pr_Mode r) (pc_DefaultMode pc)
             | None \<Rightarrow> ResolveProtectedMode (pr_Mode r) (pc_DefaultMode pc))
        | None \<Rightarrow>
            (case find (\<lambda>row. (pp_Site row = '''' \<or> pp_Site row = site) \<and> \<not> pp_Disabled row \<and> c_rex c (PatternRegex (pp_Path row)) orig)
                   (pc_Paths pc) of
               Some row \<Rightarrow> ResolveProtectedMode (pp_Mode row) (pc_DefaultMode pc)
             | None \<Rightarrow> ''''))"

section \<open>The grade gate (\<open>grade_gate.go\<close>)\<close>

definition uaRequiresCaptchaGrade :: "Catalog \<Rightarrow> string \<Rightarrow> Settings \<Rightarrow> bool" where
  "uaRequiresCaptchaGrade c ua cfg =
     (if ua = '''' then False
      else case lookupUAListed c ua (s_Nginx cfg) of (listed, category, action) \<Rightarrow>
        if listed = '''' \<or> category \<noteq> ''challenge'' then False
        else let act = trim_space action;
                 act = (if act = '''' then UABlacklistChain (n_ChallengeTargets (s_Nginx cfg)) (s_RateLimit cfg) else act)
             in act = RateChallengeCaptchaOnly \<or> act = RateChallengePoWThenCaptcha)"

definition ja4NeedsCaptchaGrade :: "Catalog \<Rightarrow> string \<Rightarrow> string \<Rightarrow> Settings \<Rightarrow> bool" where
  "ja4NeedsCaptchaGrade c verdict action cfg =
     (if action \<noteq> ''bot'' \<or> verdict = '''' then False
      else ChainEndsInCaptcha (EffectiveJA4BotChain (c_JA4VerdictGroups c) verdict (n_JA4Verdicts (s_Nginx cfg)) (s_RateLimit cfg)))"

definition requestNeedsCaptchaGrade :: "Catalog \<Rightarrow> string \<Rightarrow> string \<Rightarrow> string \<Rightarrow> Settings \<Rightarrow> bool" where
  "requestNeedsCaptchaGrade c ua uri site cfg =
     (if uaRequiresCaptchaGrade c ua cfg then True
      else ModeEndsInCaptcha (protectedModeForOrig c (n_ProtectedPaths (s_Nginx cfg)) site uri))"

definition posturePick :: "Classify \<Rightarrow> string \<Rightarrow> GlobalConfig \<Rightarrow> string \<times> bool" where
  "posturePick k ua g =
     (let pick = (if k_IsKnownBrowser k ua then g_KnownBrowserAction g else g_UnknownUAAction g);
          pick = (if pick = '''' then RateChallengePoWOnly else pick)
      in if StaleBrowserEnabled g \<and> pick \<noteq> RateChallengeDeny \<and> IsStaleBrowser k ua
         then (StaleBrowserResolvedAction g, True) else (pick, False))"

definition postureNeedsCaptchaGrade :: "Catalog \<Rightarrow> Classify \<Rightarrow> string \<Rightarrow> Settings \<Rightarrow> bool" where
  "postureNeedsCaptchaGrade c k ua cfg =
     (case lookupUAListed c ua (s_Nginx cfg) of (listed, category, a) \<Rightarrow>
        if listed \<noteq> '''' \<and> category = ''challenge'' then False
        else ChainEndsInCaptcha (fst (posturePick k ua (s_Global cfg))))"

definition gradeSatisfies :: "string \<Rightarrow> bool" where
  "gradeSatisfies have \<longleftrightarrow> have = ''captcha''"

section \<open>The axes\<close>

definition forgedCrawlerDecision :: "CrawlerVerifyConfig \<Rightarrow> string \<Rightarrow> axisDecision" where
  "forgedCrawlerDecision cfg crawler =
     (let reason = ''crawler:forged:'' @ crawler; act = ResolvedForgedAction cfg in
      if act = RateChallengeDeny then deny_vote reason else vote act reason)"

definition geoDecideForCountry :: "string \<Rightarrow> GeoConfig \<Rightarrow> (axisDecision \<times> int) option" where
  "geoDecideForCountry country geo =
     (if country = '''' then None
      else let (act, rate) =
             (case Geo_LookupRule geo country of
                Some rule \<Rightarrow>
                  (if trim_space (gr_Action rule) = '''' then Geo_ResolvedDefaultRuleAction geo else gr_Action rule,
                   Geo_EffectiveRatePerMin geo (gr_RatePerMin rule))
              | None \<Rightarrow> (Geo_ResolvedDefaultAction geo, 0))
           in if act = '''' \<or> act = GeoActionSkip then None
              else if act = RateChallengeDeny then Some (deny_vote (''geo:'' @ country @ '':deny''), rate)
              else Some (vote act (''geo:'' @ country @ '':'' @ act), rate))"

definition net_spec :: "int \<Rightarrow> Spec" where
  "net_spec rate = \<lparr>RequestsPerMin = rate, Burst = 0, WindowSec = 60\<rparr>"

definition applyNetRate :: "int \<Rightarrow> axisDecision \<Rightarrow> string \<Rightarrow> int \<Rightarrow> Limiter option \<Rightarrow> axisDecision option \<times> Limiter option" where
  "applyNetRate now d netKey rate rl =
     (if rate \<le> 0 then (Some d, rl)
      else case rl of None \<Rightarrow> (None, rl)
        | Some l \<Rightarrow>
          (let (res, l') = Hit now (''netrate|'' @ netKey) (net_spec rate) l in
           if \<not> r_Hit res then (None, Some l')
           else (Some (d\<lparr>d_reason := netKey @ '':rate>'' @ format_int 10 rate @ trim_prefix (d_reason d) netKey\<rparr>), Some l')))"

text \<open>What the address databases know of the client; a database that is not loaded is \<open>None\<close>.\<close>

record IPInfo =
  i_Country :: "string option"
  i_ASN :: "(nat \<times> string) option"

definition country_of :: "IPInfo \<Rightarrow> string" where
  "country_of i = (case i_Country i of None \<Rightarrow> '''' | Some cc \<Rightarrow> to_upper (trim_space cc))"

definition geoDecide :: "int \<Rightarrow> IPInfo \<Rightarrow> GeoConfig \<Rightarrow> Limiter option \<Rightarrow> axisDecision option \<times> Limiter option" where
  "geoDecide now info geo rl =
     (case i_Country info of None \<Rightarrow> (None, rl)
      | Some cc \<Rightarrow>
        (case geoDecideForCountry (country_of info) geo of None \<Rightarrow> (None, rl)
         | Some (d, rate) \<Rightarrow> applyNetRate now d (''geo:'' @ country_of info) rate rl))"

definition asnResolve :: "HostingProvider list \<Rightarrow> nat \<Rightarrow> string \<Rightarrow> AsnConfig \<Rightarrow> (axisDecision \<times> string \<times> int) option" where
  "asnResolve catalog asn org cfg =
     (if asn = 0 \<and> org = '''' then None
      else case Asn_ResolveRule catalog cfg asn org of None \<Rightarrow> None
        | Some (act, r) \<Rightarrow>
          (let netKey = ''asn:'' @ (if asn \<noteq> 0 then ''AS'' @ format_nat 10 asn else org) in
           if act = '''' \<or> act = GeoActionSkip then None
           else if act = RateChallengeDeny then Some (deny_vote (netKey @ '':deny''), netKey, r)
           else Some (vote act (netKey @ '':'' @ act), netKey, r)))"

definition asnDecideFor :: "HostingProvider list \<Rightarrow> nat \<Rightarrow> string \<Rightarrow> AsnConfig \<Rightarrow> axisDecision option" where
  "asnDecideFor catalog asn org cfg = map_option fst (asnResolve catalog asn org cfg)"

definition asnDecide :: "int \<Rightarrow> HostingProvider list \<Rightarrow> IPInfo \<Rightarrow> AsnConfig \<Rightarrow> Limiter option \<Rightarrow> axisDecision option \<times> Limiter option" where
  "asnDecide now catalog info cfg rl =
     (case i_ASN info of None \<Rightarrow> (None, rl)
      | Some (asn, org) \<Rightarrow>
        (case asnResolve catalog asn org cfg of None \<Rightarrow> (None, rl)
         | Some (d, netKey, rate) \<Rightarrow> applyNetRate now d netKey rate rl))"

definition axisNeedsCaptchaGrade :: "HostingProvider list \<Rightarrow> nat \<Rightarrow> string \<Rightarrow> string \<Rightarrow> bool \<Rightarrow> bool \<Rightarrow> Nginx \<Rightarrow> bool" where
  "axisNeedsCaptchaGrade catalog asn org country asnExempt geoExempt n =
     ((\<not> asnExempt \<and> (case Asn_ResolveRule catalog (n_Asn n) asn org of
          Some (act, rate) \<Rightarrow> rate = 0 \<and> ChainEndsInCaptcha act | None \<Rightarrow> False))
      \<or> (\<not> geoExempt \<and> (case geoDecideForCountry country (n_Geo n) of
          Some (d, rate) \<Rightarrow> rate = 0 \<and> ChainEndsInCaptcha (d_chMode d) | None \<Rightarrow> False)))"

definition axisNeedsCaptchaGradeFor :: "HostingProvider list \<Rightarrow> IPInfo \<Rightarrow> bool \<Rightarrow> bool \<Rightarrow> Nginx \<Rightarrow> bool" where
  "axisNeedsCaptchaGradeFor catalog info asnExempt geoExempt n =
     (let (asn, org) = (case i_ASN info of Some p \<Rightarrow> p | None \<Rightarrow> (0, ''''));
          country = country_of info
      in if asn = 0 \<and> org = '''' \<and> country = '''' then False
         else axisNeedsCaptchaGrade catalog asn org country asnExempt geoExempt n)"

subsection \<open>Honeypot\<close>

record HoneypotTrip =
  t_Scheme :: string
  t_Host :: string
  t_URI :: string
  t_Rule :: string

definition ellipsis :: string where
  "ellipsis = map char_of [226, 128, 166 :: nat]"

definition cutRunes :: "string \<Rightarrow> int \<Rightarrow> string" where
  "cutRunes s n =
     (if int (rune_count s) \<le> n then s
      else if n - 1 < 0 then s
      else take (rune_pos (nat (n - 1)) s) s @ ellipsis)"

definition honeypotReason :: "HoneypotTrip \<Rightarrow> string" where
  "honeypotReason t =
     (let host = cutRunes (trim_space (t_Host t)) 48;
          rule = cutRunes (trim_space (t_Rule t)) 80;
          lead = (if rule = '''' then 4 else int (rune_count rule) + 2);
          uri = cutRunes (trim_space (t_URI t)) (255 - 14 - lead - 8 - int (rune_count host))
      in if uri = '''' then (if host = '''' then ''honeypot'' else ''honeypot on '' @ host)
         else let url = host @ uri;
                  scheme = to_lower (trim_space (t_Scheme t));
                  url = (if host \<noteq> '''' \<and> (scheme = ''http'' \<or> scheme = ''https'') then scheme @ ''://'' @ url else url)
              in if rule = '''' then ''hit '' @ url else rule @ '': '' @ url)"

record honeypotRule =
  hr_re :: "string \<Rightarrow> bool"
  hr_action :: string
  hr_name :: string

definition matchHoneypot :: "string \<Rightarrow> honeypotRule list \<Rightarrow> (string \<times> string) option" where
  "matchHoneypot uri rules = map_option (\<lambda>h. (hr_action h, hr_name h)) (find (\<lambda>h. hr_re h uri) rules)"

record BanAdd =
  ba_ip :: string
  ba_source :: string
  ba_reason :: string
  ba_action :: string

text \<open>
  \<open>TripBannable\<close>: whether a trip may ban its client, from Sec-Fetch-Site, Sec-Fetch-Dest
  and the host of the Referer.
\<close>

definition TripBannable :: "string \<Rightarrow> string \<Rightarrow> string \<Rightarrow> bool" where
  "TripBannable sfs sfd refHost =
     (if sfs \<in> set [''cross-site'', ''same-site'', ''same-origin''] then False
      else if sfd \<notin> set ['''', ''document'', ''empty''] then False
      else refHost = '''')"

definition honeypotDecide :: "bool \<Rightarrow> string \<Rightarrow> honeypotRule list \<Rightarrow> string \<Rightarrow> string \<Rightarrow> string \<Rightarrow> string \<Rightarrow> bool
    \<Rightarrow> (axisDecision \<times> BanAdd option) option" where
  "honeypotDecide hasBanMgr uri rules defaultAction ip host scheme bannable =
     (case matchHoneypot uri rules of None \<Rightarrow> None
      | Some (presetAct, rule) \<Rightarrow>
        (let ban = (if hasBanMgr \<and> bannable
               then Some \<lparr>ba_ip = ip, ba_source = ''honeypot'',
                 ba_reason = ''auth_request: '' @ honeypotReason \<lparr>t_Scheme = scheme, t_Host = host, t_URI = uri, t_Rule = rule\<rparr>,
                 ba_action = presetAct\<rparr>
               else None);
             act = trim_space presetAct;
             act = (if act = '''' then trim_space defaultAction else act)
         in if act = RateChallengeDeny then Some (deny_vote ''honeypot:deny'', ban)
            else let act = (if \<not> IsValidRateChallengeMode act then RateChallengePoWThenCaptcha else act)
                 in Some (vote act (''honeypot:'' @ act), ban)))"

subsection \<open>Bans, protected paths, headers, feed, fingerprint, user agent\<close>

definition banDecideFromSource :: "string \<Rightarrow> string \<Rightarrow> Nginx \<Rightarrow> axisDecision" where
  "banDecideFromSource rowAction src n =
     (let act = trim_space rowAction;
          act = (if act = '''' then Bans_ResolveAction (n_Bans n) src (hc_DefaultAction (n_Honeypot n)) else act)
      in if act = RateChallengeDeny then deny_vote (''ban:'' @ src @ '':deny'')
         else let act = (if \<not> IsValidRateChallengeMode act then RateChallengePoWThenCaptcha else act)
              in vote act (''ban:'' @ src @ '':'' @ act))"

definition matchPath :: "string \<Rightarrow> (string \<Rightarrow> bool) list \<Rightarrow> bool" where
  "matchPath uri rules = list_ex (\<lambda>re. re uri) rules"

definition protectedDecide :: "Catalog \<Rightarrow> string \<Rightarrow> (string \<Rightarrow> bool) list \<Rightarrow> Settings \<Rightarrow> string \<Rightarrow> axisDecision option" where
  "protectedDecide c uri protected cfg site =
     (if \<not> matchPath uri protected then None
      else let chMode = ChModeForProtectedMode (protectedModeForOrig c (n_ProtectedPaths (s_Nginx cfg)) site uri)
           in Some \<lparr>d_sev = severityFromAction chMode, d_reason = ''protected-path'', d_chMode = chMode\<rparr>)"

definition headerDecide :: "Classify \<Rightarrow> string \<Rightarrow> string \<Rightarrow> string \<Rightarrow> bool \<Rightarrow> GlobalConfig \<Rightarrow> axisDecision option" where
  "headerDecide k ua secChUA scheme modernHTTP g =
     (if \<not> g_HeaderIntegrity g then None
      else let major = k_ChromeMajor k ua in
        if major = 0 then None
        else if major < SecCHUAMinChromeMajor then None
        else if scheme \<noteq> ''https'' \<or> \<not> modernHTTP then None
        else if trim_space secChUA \<noteq> '''' then None
        else Some (vote (HeaderIntegrityResolvedAction g) ''header:no_sch_ua''))"

definition escalationNeedsCaptchaGrade :: "Classify \<Rightarrow> string \<Rightarrow> string \<Rightarrow> string \<Rightarrow> bool \<Rightarrow> Settings \<Rightarrow> bool" where
  "escalationNeedsCaptchaGrade k ua secChUA scheme modernHTTP cfg =
     (let g = s_Global cfg in
      if StaleBrowserEnabled g \<and> ChainEndsInCaptcha (StaleBrowserResolvedAction g) \<and> IsStaleBrowser k ua then True
      else headerDecide k ua secChUA scheme modernHTTP g \<noteq> None \<and> ChainEndsInCaptcha (HeaderIntegrityResolvedAction g))"

text \<open>\<open>m.Hit(ip, ja4)\<close> of the feed is the argument \<open>feed\<close>: the kind of entry hit, if any.\<close>

definition communityBansDecide :: "string option \<Rightarrow> Settings \<Rightarrow> axisDecision option" where
  "communityBansDecide feed cfg =
     (if \<not> ApplyActive (s_CommunityBans cfg) then None
      else case feed of None \<Rightarrow> None
        | Some kind \<Rightarrow>
          (let act = CommunityBans_ResolvedAction (s_CommunityBans cfg); reason = ''community_bans:'' @ kind in
           if act = RateChallengeDeny then Some (deny_vote reason) else Some (vote act reason)))"

definition ja4Decide :: "Catalog \<Rightarrow> string \<Rightarrow> string \<Rightarrow> Settings \<Rightarrow> axisDecision option" where
  "ja4Decide c ja4Action ja4Verdict cfg =
     (if ja4Action \<noteq> ''bot'' then None
      else let act = EffectiveJA4BotChain (c_JA4VerdictGroups c) ja4Verdict (n_JA4Verdicts (s_Nginx cfg)) (s_RateLimit cfg) in
        if act = RateChallengeDeny then Some (deny_vote (''ja4:'' @ ja4Verdict @ '':deny''))
        else Some (vote act (''ja4:'' @ ja4Verdict)))"

text \<open>\<open>rangeUA\<close>: the user agents whose rescue rides their vendor's address ranges (none: feature inert).\<close>

definition search_ai_rescued :: "Classify \<Rightarrow> string \<Rightarrow> string \<Rightarrow> (string \<Rightarrow> bool) option \<Rightarrow> bool" where
  "search_ai_rescued k ua ja4Action rangeUA \<longleftrightarrow>
     k_search_ai k ua ja4Action \<and> (case rangeUA of None \<Rightarrow> True | Some re \<Rightarrow> \<not> re ua)"

definition uaDecide :: "Catalog \<Rightarrow> Classify \<Rightarrow> string \<Rightarrow> string \<Rightarrow> Settings \<Rightarrow> (string \<Rightarrow> bool) option \<Rightarrow> axisDecision" where
  "uaDecide c k ua ja4Action cfg rangeUA =
     (if search_ai_rescued k ua ja4Action rangeUA then \<lparr>d_sev = sevPass, d_reason = ''ua:search_ai'', d_chMode = ''''\<rparr>
      else case lookupUAListed c ua (s_Nginx cfg) of (listed, category, rowAct) \<Rightarrow>
        if listed \<noteq> '''' \<and> category = ''challenge''
        then let act = UABlacklistChain (n_ChallengeTargets (s_Nginx cfg)) (s_RateLimit cfg);
                 act = (if IsValidRateChallengeMode rowAct then rowAct else act)
             in vote act (''ua:target:'' @ listed)
        else case posturePick k ua (s_Global cfg) of (pick, stale) \<Rightarrow>
          if pick = ''pass''
          then \<lparr>d_sev = sevPass, d_reason = (if k_IsKnownBrowser k ua then ''human'' else ''ua:unknown''), d_chMode = ''''\<rparr>
          else let tag = (if k_IsKnownBrowser k ua then ''ua:browser'' else ''ua:unknown'');
                   reason = (if stale then ''ua:stale_browser:'' @ pick else tag @ '':'' @ pick)
               in vote pick reason)"

definition isSearchBotUA :: "Catalog \<Rightarrow> Classify \<Rightarrow> string \<Rightarrow> string \<Rightarrow> Nginx \<Rightarrow> (string \<Rightarrow> bool) option \<Rightarrow> bool" where
  "isSearchBotUA c k ua ja4Action n rangeUA =
     (if search_ai_rescued k ua ja4Action rangeUA then True
      else case lookupUAListed c ua n of (listed, category, a) \<Rightarrow> listed \<noteq> '''' \<and> category = ''search_ai'')"

section \<open>An example configuration\<close>

text \<open>
  A small installation for concrete runs: one trap group, one protected row, one crawler
  group, and an engine that reads an expression as text, anchored at both ends by
  \<open>^\<close> and \<open>$\<close>, found anywhere without them.
\<close>

definition lit_match :: "string \<Rightarrow> string \<Rightarrow> bool" where
  "lit_match p s =
     (let q = trim_prefix p ''(?i)'' in
      if q \<noteq> [] \<and> hd q = CHR ''^'' \<and> last q = CHR ''$'' then s = butlast (tl q) else contains s q)"

definition exCatalog :: Catalog where
  "exCatalog = \<lparr>c_HostingProviders = [], c_ChallengeTargetGroups = [\<lparr>tg_ID = ''tools'', tg_Patterns = [''curl''], tg_AddedIn = ''v0.1''\<rparr>],
     c_JA4VerdictGroups = [], c_ProtectedGroups = [], c_UpstreamRescueList = [], c_BypassPathGroups = [],
     c_HoneypotGroups = [\<lparr>hg_ID = ''env'', hg_Label = ''Dotfiles (.env)'', hg_Patterns = [''/.env''], hg_AddedIn = ''v0.1'',
        hg_DefaultOnIn = [], hg_OptIn = False\<rparr>],
     c_Crawlers = [(''Googlebot'', ''googlebot'')],
     c_match = lit_match\<rparr>"

definition exSettings :: Settings where
  "exSettings = \<lparr>
     s_Nginx = \<lparr>
       n_SearchBots = \<lparr>sb_Extra = [], sb_ExtraDisabled = [], sb_UpstreamGroupMode = [], sb_UpstreamPatternMode = [], sb_UpstreamGroupAction = []\<rparr>,
       n_ChallengeTargets = \<lparr>ct_DisabledPresets = [], ct_Extra = [], ct_ExtraDisabled = [], ct_ExtraAction = [], ct_DefaultAction = [],
          ct_PresetAction = [(''tools'', ''pow_only'')]\<rparr>,
       n_JA4Verdicts = \<lparr>jv_DisabledPresets = [], jv_Extra = [], jv_ExtraDisabled = [], jv_DefaultAction = [], jv_PresetAction = [], jv_ExtraAction = []\<rparr>,
       n_ProtectedPaths = \<lparr>pc_EnabledPresets = [], pc_PresetMode = [], pc_DefaultMode = [],
          pc_Paths = [\<lparr>pp_Path = ''exact:/login'', pp_Mode = ''captcha'', pp_Site = [], pp_Disabled = False\<rparr>]\<rparr>,
       n_Geo = \<lparr>geo_DefaultAction = [], geo_DefaultRuleAction = [], geo_DefaultRatePerMin = 0, geo_Rules = [], geo_ExemptPaths = []\<rparr>,
       n_Asn = \<lparr>asn_DefaultAction = [], asn_DefaultRuleAction = [], asn_DefaultRatePerMin = 0, asn_Providers = [], asn_Rules = [], asn_ExemptPaths = []\<rparr>,
       n_Bans = \<lparr>ManualDefaultAction = []\<rparr>,
       n_BypassPaths = \<lparr>bc_EnabledPresets = [], bc_DisabledPresets = [], bc_Paths = []\<rparr>,
       n_Honeypot = \<lparr>hc_DisabledPresets = [], hc_EnabledPresets = [],
          hc_URLs = [\<lparr>hu_Path = ''contains:/trap'', hu_Title = ''Trap'', hu_Action = ''deny'', hu_Disabled = False, hu_Site = []\<rparr>],
          hc_DefaultAction = [], hc_PresetAction = []\<rparr>,
       n_CrawlerVerify = \<lparr>cv_Enabled = False, cv_ForgedAction = [], cv_DisabledCrawlers = []\<rparr>,
       n_UpgradeReviewPolicy = [], n_EnforcementReviewedVersion = []\<rparr>,
     s_Global = \<lparr>g_KnownBrowserAction = ''pass'', g_UnknownUAAction = [], g_StaleBrowserChallenge = True, g_StaleBrowserAction = ''captcha_only'',
        g_HeaderIntegrity = False, g_HeaderIntegrityAction = [], g_UATLSConsistencyDisabled = True, g_UATLSConsistencyAction = []\<rparr>,
     s_RateLimit = \<lparr>rl_Key = [], rl_Default = \<lparr>rv_Name = [], rv_RequestsPerMin = 60, rv_Burst = 0, rv_WindowSec = 0, rv_ChallengeMode = []\<rparr>,
        rl_Zones = [], rl_IPLimit = zeroAxisLimit, rl_JA4Limit = zeroAxisLimit, rl_IPJA4Limit = zeroAxisLimit\<rparr>,
     s_CommunityBans = \<lparr>cb_SubscribeMode = [], cb_Action = []\<rparr>\<rparr>"

definition exClassify :: Classify where
  "exClassify = \<lparr>k_search_ai = (\<lambda>ua act. contains ua ''Googlebot''), k_IsKnownBrowser = (\<lambda>ua. contains ua ''Mozilla''),
     k_ChromeMajor = (\<lambda>ua. if contains ua ''Chrome/100'' then 100 else 0), k_FirefoxMajor = (\<lambda>ua. 0),
     k_curChrome = 140, k_curFirefox = 140, k_ESR = [], k_lagChrome = 10, k_lagFirefox = 10\<rparr>"

section \<open>Lemmas\<close>

lemmas vote_defs = vote_def deny_vote_def Let_def

lemma strongest_mem: "strongest ds \<in> insert \<lparr>d_sev = sevPass, d_reason = [], d_chMode = []\<rparr> (set ds)"
  unfolding strongest_def using foldl_max_mem [of d_sev] by blast

lemma strongest_ge: "d \<in> set ds \<Longrightarrow> d_sev d \<le> d_sev (strongest ds)"
  unfolding strongest_def by (rule foldl_max_ge) simp

lemma sevPass_least: "sevPass \<le> s"
  by (simp add: less_eq_axisSeverity_def)

lemma severity_roundtrip: "severityFromAction (chModeFromSeverity s) = (if s = sevDeny then sevPass else s)"
  by (cases s) (simp_all add: severityFromAction_def chain_defs)

lemma severity_captcha_chain:
  "ChainEndsInCaptcha act \<Longrightarrow> severityFromAction act \<in> {sevCaptchaOnly, sevPoWThenCaptcha}"
  by (auto simp: ChainEndsInCaptcha_def severityFromAction_def chain_defs)

lemma chain_of_severity: "ChainEndsInCaptcha (chModeFromSeverity s) \<longleftrightarrow> s \<in> {sevCaptchaOnly, sevPoWThenCaptcha}"
  by (cases s) (simp_all add: ChainEndsInCaptcha_def chain_defs)

text \<open>The winner is the first vote at its severity.\<close>

lemma strongest_snoc: "strongest (ds @ [d]) = (if d_sev d > d_sev (strongest ds) then d else strongest ds)"
  by (simp add: strongest_def)

lemma strongest_first: "d_sev (strongest ds) = sevPass \<or> find (\<lambda>d. d_sev d = d_sev (strongest ds)) ds = Some (strongest ds)"
proof (induction ds rule: rev_induct)
  case Nil
  then show ?case by (simp add: strongest_def)
next
  case (snoc d ds)
  show ?case
  proof (cases "d_sev d > d_sev (strongest ds)")
    case True
    then have "find (\<lambda>e. d_sev e = d_sev d) ds = None"
      unfolding find_None_iff using strongest_ge [of _ ds] by (metis leD)
    with True show ?thesis by (simp add: strongest_snoc find_append)
  next
    case False
    with snoc show ?thesis by (auto simp: strongest_snoc find_append)
  qed
qed

lemma pickStrongest_fst: "fst (pickStrongest ds) = strongest ds"
  by (simp add: pickStrongest_def Let_def)

text \<open>A deny read from a row is a deny the precheck sees.\<close>

lemma denies_cases: "denies ct act \<longleftrightarrow> trim_space act = RateChallengeDeny \<or> (trim_space act = [] \<and> trim_space (ct_DefaultAction ct) = RateChallengeDeny)"
  by (auto simp: denies_def Let_def chain_defs)

lemma str_at_cases: "str_at m k = [] \<or> str_at m k \<in> snd ` set m"
  by (auto simp: str_at_def dest!: map_of_SomeD split: option.split) (metis image_eqI snd_conv)

lemma trim_space_Nil: "trim_space [] = []"
  by code_simp

lemma denies_str_at:
  "denies ct (str_at m k) \<Longrightarrow> trim_space (ct_DefaultAction ct) = RateChallengeDeny \<or> list_ex (\<lambda>p. trim_space (snd p) = RateChallengeDeny) m"
  using str_at_cases [of m k] by (auto simp: denies_cases trim_space_Nil list_ex_iff chain_defs) (metis snd_conv)

lemma denies_action_at:
  "denies ct (action_at as i) \<Longrightarrow> trim_space (ct_DefaultAction ct) = RateChallengeDeny \<or> list_ex (\<lambda>a. trim_space a = RateChallengeDeny) as"
  by (auto simp: denies_cases action_at_def trim_space_Nil list_ex_length chain_defs split: if_splits)

lemma scan_configured: "hardDenyScan c ua n \<Longrightarrow> anyUADenyConfigured n"
proof -
  assume "hardDenyScan c ua n"
  then consider k where "denies (n_ChallengeTargets n) (str_at (ct_PresetAction (n_ChallengeTargets n)) k)"
    | i where "denies (n_ChallengeTargets n) (action_at (ct_ExtraAction (n_ChallengeTargets n)) i)"
    | k where "denies (n_ChallengeTargets n) (str_at (sb_UpstreamGroupAction (n_SearchBots n)) k)"
    unfolding hardDenyScan_def Let_def list_ex_iff by auto
  then show ?thesis
    by cases (auto simp: anyUADenyConfigured_def Let_def o_def dest!: denies_str_at denies_action_at)
qed

text \<open>A text cut to \<open>n\<close> runes has at most \<open>n\<close>.\<close>

lemma rune_count_cutRunes: "1 \<le> n \<Longrightarrow> int (rune_count (cutRunes s n)) \<le> n"
proof -
  assume n: "1 \<le> n"
  have e: "rune_count ellipsis = 1" by code_simp
  show ?thesis
  proof (cases "int (rune_count s) \<le> n")
    case False
    then have "nat (n - 1) \<le> rune_count s" by linarith
    from rune_count_take [OF this] rune_count_append [of "take (rune_pos (nat (n - 1)) s) s" ellipsis] False n e
    show ?thesis by (simp add: cutRunes_def)
  qed (simp add: cutRunes_def)
qed

lemma rune_count_app: "rune_count a \<le> i \<Longrightarrow> rune_count b \<le> j \<Longrightarrow> rune_count (a @ b) \<le> i + j"
  using rune_count_append [of a b] by linarith

text \<open>Every vote's chain is the chain of its severity.\<close>

definition vote_ok :: "axisDecision \<Rightarrow> bool" where
  "vote_ok d \<longleftrightarrow> d_chMode d = chModeFromSeverity (d_sev d)"

lemma vote_ok_vote [simp]: "vote_ok (vote act r)" "vote_ok (deny_vote r)"
  by (simp_all add: vote_ok_def vote_defs)

lemma vote_ok_strongest: "\<forall>d \<in> set ds. vote_ok d \<Longrightarrow> vote_ok (strongest ds)"
  using strongest_mem [of ds] by (auto simp: vote_ok_def)

section \<open>Properties\<close>

text \<open>
  \<open>pickStrongest\<close> returns a vote no other vote exceeds, and it is the first one at its
  severity; with no vote above \<open>pass\<close> it is a pass.\<close>

lemma pickStrongest_first_harshest:
  "list_all (\<lambda>d. d_sev d \<le> d_sev (fst (pickStrongest ds))) ds
   \<and> (d_sev (fst (pickStrongest ds)) = sevPass
      \<or> find (\<lambda>d. d_sev d = d_sev (fst (pickStrongest ds))) ds = Some (fst (pickStrongest ds)))"
  using strongest_first [of ds] by (auto simp: pickStrongest_fst list_all_iff strongest_ge)

text \<open>
  the cheap precheck of \<open>hardDenyUA\<close> never hides a denial: its answer is the answer of
  the full scan, for every user agent and every stored configuration.\<close>

lemma hardDenyUA_precheck_sound: "hardDenyUA c ua n = hardDenyScan c ua n"
  using scan_configured [of c ua n] by (auto simp: hardDenyUA_def)

text \<open>
  the reason of a trap's ban, prefix included, is at most 255 characters, the width of
  its column, whatever host, rule and URI the client and the operator chose.\<close>

lemma honeypot_reason_fits: "rune_count (''auth_request: '' @ honeypotReason t) \<le> 255"
proof -
  let ?host = "cutRunes (trim_space (t_Host t)) 48"
  let ?rule = "cutRunes (trim_space (t_Rule t)) 80"
  let ?lead = "if ?rule = [] then 4 else int (rune_count ?rule) + 2"
  let ?n = "255 - 14 - ?lead - 8 - int (rune_count ?host)"
  let ?uri = "cutRunes (trim_space (t_URI t)) ?n"
  have host: "int (rune_count ?host) \<le> 48" and rule: "int (rune_count ?rule) \<le> 80"
    using rune_count_cutRunes [of 48] rune_count_cutRunes [of 80] by simp_all
  then have "?lead \<le> 82" by simp
  with host have uri: "int (rune_count ?uri) \<le> ?n" by (intro rune_count_cutRunes) linarith
  have lits: "rune_count ''auth_request: '' = 14" "rune_count ''honeypot'' = 8" "rune_count ''honeypot on '' = 12"
    "rune_count ''hit '' = 4" "rune_count '': '' = 2" "rune_count ''://'' = 3" "rune_count ''http'' = 4" "rune_count ''https'' = 5"
    by code_simp+
  let ?scheme = "to_lower (trim_space (t_Scheme t))"
  let ?url = "if ?host \<noteq> [] \<and> (?scheme = ''http'' \<or> ?scheme = ''https'') then ?scheme @ ''://'' @ ?host @ ?uri else ?host @ ?uri"
  have "rune_count (?host @ ?uri) \<le> rune_count ?host + rune_count ?uri"
    by (rule rune_count_append)
  moreover have "rune_count (?scheme @ ''://'' @ ?host @ ?uri) \<le> 8 + rune_count (?host @ ?uri)"
    if "?scheme = ''http'' \<or> ?scheme = ''https''"
  proof -
    have "rune_count (?scheme @ ''://'') \<le> 8"
      using that rune_count_append [of ?scheme "''://''"] lits by auto
    from rune_count_app [OF this order_refl, of "?host @ ?uri"] show ?thesis by simp
  qed
  ultimately have url: "int (rune_count ?url) \<le> 255 - 14 - ?lead"
    using uri by (auto split: if_splits)
  have "int (rune_count (honeypotReason t)) \<le> 255 - 14"
  proof (cases "?uri = []")
    case True
    then show ?thesis
      using host rune_count_append [of "''honeypot on ''" ?host] lits by (simp add: honeypotReason_def Let_def)
  next
    case False
    define u where "u = ?url"
    have reason: "honeypotReason t = (if ?rule = [] then ''hit '' @ u else ?rule @ '': '' @ u)"
      using False by (simp add: honeypotReason_def Let_def u_def)
    have u: "int (rune_count u) \<le> 255 - 14 - ?lead" using url by (simp only: u_def)
    show ?thesis
    proof (cases "?rule = []")
      case True
      with u have "rune_count u \<le> 237" by simp
      moreover have "rune_count (honeypotReason t) = rune_count (''hit '' @ u)" using reason True by simp
      ultimately show ?thesis using rune_count_append [of "''hit ''" u] lits(4) by linarith
    next
      case False
      then have "rune_count u + rune_count ?rule + 2 \<le> 241" using u by simp
      moreover have "rune_count ('': '' @ u) \<le> 2 + rune_count u" using rune_count_append [of "'': ''" u] lits(5) by linarith
      ultimately show ?thesis using rune_count_append [of ?rule "'': '' @ u"] False by (simp only: reason if_False)
    qed
  qed
  then show ?thesis
    using rune_count_append [of "''auth_request: ''" "honeypotReason t"] lits(1) by simp
qed

end
