(* ===== verification/Matchers.thy ===== *)
theory Matchers
  imports Axes
begin

text \<open>
  The per-site matcher lists of the forward-auth check (\<open>bypassMatchers\<close> in
  \<open>handlers/auth_check.go\<close>), the preset resolvers they are built from
  (\<open>nginxconf/bypass_path.go\<close>, \<open>enforcement_review.go\<close>) and the trap resolver of the
  native wire (\<open>nginxconf/honeypot_action.go\<close>). A compiled expression is the predicate it
  decides; an expression that does not compile decides nothing, as its missing entry does.
  The address allowlist and the patterns of range-verified crawlers are arguments.
\<close>

section \<open>Definitions\<close>

definition HoneypotGroup_Name :: "HoneypotGroup \<Rightarrow> string" where
  "HoneypotGroup_Name g =
     trim_space (case index_str '' ('' (hg_Label g) of
       Some i \<Rightarrow> if i > 0 then take i (hg_Label g) else hg_Label g
     | None \<Rightarrow> hg_Label g)"

definition HoneypotURLName :: "HoneypotURL \<Rightarrow> string" where
  "HoneypotURLName u =
     (let t = trim_space (hu_Title u) in if t \<noteq> [] then t else trim_space (PatternText (hu_Path u)))"

definition HoneypotGroupHeld :: "Nginx \<Rightarrow> HoneypotGroup \<Rightarrow> bool" where
  "HoneypotGroupHeld n g =
     (if hg_OptIn g then False
      else if hg_DefaultOnIn g \<noteq> []
      then hg_ID g \<notin> set (hc_EnabledPresets (n_Honeypot n)) \<and> EnforcementHeld n (hg_DefaultOnIn g)
      else EnforcementHeld n (hg_AddedIn g))"

text \<open>The groups the loops of both wires do not skip.\<close>

definition honeypot_group_on :: "Nginx \<Rightarrow> HoneypotGroup \<Rightarrow> bool" where
  "honeypot_group_on n g \<longleftrightarrow>
     (if hg_OptIn g then hg_ID g \<in> set (hc_EnabledPresets (n_Honeypot n))
      else hg_ID g \<notin> set (hc_DisabledPresets (n_Honeypot n)))
     \<and> \<not> HoneypotGroupHeld n g"

record HoneypotMatch =
  hm_Action :: string
  hm_Rule :: string

definition ResolveHoneypotRule :: "Catalog \<Rightarrow> string \<Rightarrow> string \<Rightarrow> Nginx \<Rightarrow> HoneypotMatch option" where
  "ResolveHoneypotRule c uri site n =
     (if trim_space uri = [] then None
      else case find (\<lambda>g. honeypot_group_on n g \<and> list_ex (\<lambda>p. c_rex c p uri) (hg_Patterns g)) (c_HoneypotGroups c) of
        Some g \<Rightarrow> Some \<lparr>hm_Action = trim_space (str_at (hc_PresetAction (n_Honeypot n)) (hg_ID g)), hm_Rule = HoneypotGroup_Name g\<rparr>
      | None \<Rightarrow>
        (case find (\<lambda>u. \<not> hu_Disabled u \<and> \<not> (hu_Site u \<noteq> [] \<and> hu_Site u \<noteq> site) \<and> trim_space (hu_Path u) \<noteq> []
                 \<and> c_rex c (PatternRegex (trim_space (hu_Path u))) uri) (hc_URLs (n_Honeypot n)) of
           Some u \<Rightarrow> Some \<lparr>hm_Action = trim_space (hu_Action u), hm_Rule = HoneypotURLName u\<rparr>
         | None \<Rightarrow> None))"

definition ResolveHoneypotAction :: "Catalog \<Rightarrow> string \<Rightarrow> string \<Rightarrow> Nginx \<Rightarrow> string option" where
  "ResolveHoneypotAction c uri site n = map_option hm_Action (ResolveHoneypotRule c uri site n)"

definition EffectiveBypassPathPresets :: "Catalog \<Rightarrow> string list \<Rightarrow> string list \<Rightarrow> string list" where
  "EffectiveBypassPathPresets c enabled disabled =
     map bg_ID (filter (\<lambda>g. bg_ID g \<in> set (map trim_space enabled)
         \<or> (bg_DefaultOn g \<and> bg_ID g \<notin> set (map trim_space disabled))) (c_BypassPathGroups c))"

record pathMatchers =
  m_bypass :: "(string \<Rightarrow> bool) list"
  m_bypassSafe :: "(string \<Rightarrow> bool) list"
  m_geoExempt :: "(string \<Rightarrow> bool) list"
  m_asnExempt :: "(string \<Rightarrow> bool) list"
  m_honeypot :: "honeypotRule list"
  m_protected :: "(string \<Rightarrow> bool) list"
  m_ipBypass :: "string \<Rightarrow> bool"
  m_rangeVerifiedUA :: "(string \<Rightarrow> bool) option"
  m_notifPreviewUA :: "(string \<Rightarrow> bool) option"

fun join_str :: "string \<Rightarrow> string list \<Rightarrow> string" where
  "join_str sep [] = []"
| "join_str sep [x] = x"
| "join_str sep (x # y # xs) = x @ sep @ join_str sep (y # xs)"

definition alternation :: "Catalog \<Rightarrow> string list \<Rightarrow> (string \<Rightarrow> bool) option" where
  "alternation c pats =
     (if pats = [] then None else Some (c_rex c (''(?:'' @ join_str '')|(?:'' pats @ '')'')))"

definition NotificationPreviewTag :: string where
  "NotificationPreviewTag = ''notification-preview''"

definition notif_patterns :: "Catalog \<Rightarrow> SearchBotsConfig \<Rightarrow> string list" where
  "notif_patterns c sb =
     (case map_of (c_UpstreamRescueList c) NotificationPreviewTag of None \<Rightarrow> []
      | Some pats \<Rightarrow> filter (\<lambda>p. p \<noteq> [] \<and>
          ResolvePatternMode NotificationPreviewTag p (sb_UpstreamGroupMode sb) (sb_UpstreamPatternMode sb) = ''white'') pats)"

text \<open>The rules of the enabled bypass presets for this site, by whether they pass safe methods only.\<close>

definition bypass_preset_rules :: "Catalog \<Rightarrow> Nginx \<Rightarrow> string \<Rightarrow> bool \<Rightarrow> string list" where
  "bypass_preset_rules c n site safe =
     concat (map (\<lambda>g. map br_Pattern (filter (\<lambda>r. \<not> (br_Site r \<noteq> [] \<and> br_Site r \<noteq> site)) (bg_Rules g)))
       (filter (\<lambda>g. bg_ID g \<in> set (EffectiveBypassPathPresets c (bc_EnabledPresets (n_BypassPaths n)) (bc_DisabledPresets (n_BypassPaths n)))
            \<and> bg_SafeMethodsOnly g = safe) (c_BypassPathGroups c)))"

definition compileExemptRows :: "Catalog \<Rightarrow> BypassPath list \<Rightarrow> (string \<Rightarrow> bool) list" where
  "compileExemptRows c rows = map (\<lambda>p. c_match c (PatternRegex (bp_Path p))) (filter (\<lambda>p. \<not> bp_Disabled p) rows)"

definition compile_honeypots :: "Catalog \<Rightarrow> Nginx \<Rightarrow> string \<Rightarrow> honeypotRule list" where
  "compile_honeypots c n site =
     concat (map (\<lambda>g. map (\<lambda>p. \<lparr>hr_re = c_rex c p, hr_action = trim_space (str_at (hc_PresetAction (n_Honeypot n)) (hg_ID g)),
                              hr_name = HoneypotGroup_Name g\<rparr>) (hg_Patterns g))
             (filter (honeypot_group_on n) (c_HoneypotGroups c)))
     @ map (\<lambda>u. \<lparr>hr_re = c_rex c (PatternRegex (hu_Path u)), hr_action = trim_space (hu_Action u), hr_name = HoneypotURLName u\<rparr>)
         (filter (\<lambda>u. (hu_Site u = [] \<or> hu_Site u = site) \<and> \<not> hu_Disabled u) (hc_URLs (n_Honeypot n)))"

definition compile_protected :: "Catalog \<Rightarrow> ProtectedPathsConfig \<Rightarrow> string \<Rightarrow> (string \<Rightarrow> bool) list" where
  "compile_protected c pc site =
     concat (map (\<lambda>g. map (\<lambda>r. c_rex c (pr_Pattern r)) (pg_Rules g))
       (filter (\<lambda>g. pg_ID g \<in> set (pc_EnabledPresets pc)) (c_ProtectedGroups c)))
     @ map (\<lambda>row. c_rex c (PatternRegex (pp_Path row)))
         (filter (\<lambda>row. (pp_Site row = [] \<or> pp_Site row = site) \<and> \<not> pp_Disabled row) (pc_Paths pc))"

definition bypassMatchers :: "Catalog \<Rightarrow> Nginx \<Rightarrow> string \<Rightarrow> (string \<Rightarrow> bool) \<Rightarrow> string list \<Rightarrow> pathMatchers" where
  "bypassMatchers c n site ipBypass rangePats =
     \<lparr>m_bypass = map (c_match c) (bypass_preset_rules c n site False)
        @ compileExemptRows c (filterExemptPaths (bc_Paths (n_BypassPaths n)) site),
      m_bypassSafe = map (c_match c) (bypass_preset_rules c n site True),
      m_geoExempt = compileExemptRows c (filterExemptPaths (geo_ExemptPaths (n_Geo n)) site),
      m_asnExempt = compileExemptRows c (filterExemptPaths (asn_ExemptPaths (n_Asn n)) site),
      m_honeypot = compile_honeypots c n site,
      m_protected = compile_protected c (n_ProtectedPaths n) site,
      m_ipBypass = ipBypass,
      m_rangeVerifiedUA = alternation c rangePats,
      m_notifPreviewUA = alternation c (notif_patterns c (n_SearchBots n))\<rparr>"

section \<open>Lemmas\<close>

lemma bypassMatchers_sel [simp]:
  "m_honeypot (bypassMatchers c n site ipb rp) = compile_honeypots c n site"
  "m_protected (bypassMatchers c n site ipb rp) = compile_protected c (n_ProtectedPaths n) site"
  "m_ipBypass (bypassMatchers c n site ipb rp) = ipb"
  by (simp_all add: bypassMatchers_def)

lemma find_in_groups:
  assumes h: "\<And>g p. h (mk g p) = k g"
  shows "map_option h (find Q (concat (map (\<lambda>g. map (mk g) (ps g)) gs))) =
         map_option k (find (\<lambda>g. list_ex (\<lambda>p. Q (mk g p)) (ps g)) gs)"
proof (induction gs)
  case (Cons g gs)
  show ?case
  proof (cases "find Q (map (mk g) (ps g))")
    case None
    then have "\<not> list_ex (\<lambda>p. Q (mk g p)) (ps g)"
      by (auto simp: find_None_iff list_ex_iff)
    with None Cons show ?thesis by (simp add: find_append)
  next
    case (Some y)
    then have "y \<in> set (map (mk g) (ps g))" "Q y"
      by (auto simp: find_Some_iff)
    then obtain p where "p \<in> set (ps g)" "y = mk g p" "Q (mk g p)"
      by auto
    then have "list_ex (\<lambda>p. Q (mk g p)) (ps g)"
      by (auto simp: list_ex_iff)
    with Some \<open>y = mk g p\<close> show ?thesis by (simp add: find_append h)
  qed
qed simp

section \<open>Properties\<close>

text \<open>
  the trap a request springs is the same on both wires. For a non-blank URI and custom
  rows whose path is stored trimmed and non-empty, the first compiled rule that matches on
  the forward-auth wire carries the action and the name that the resolver of the native
  wire returns, and one finds a trap exactly when the other does.\<close>

lemma honeypot_wires_agree:
  assumes "trim_space uri \<noteq> []"
    and "\<forall>u \<in> set (hc_URLs (n_Honeypot n)). hu_Path u \<noteq> [] \<and> trim_space (hu_Path u) = hu_Path u"
  shows "matchHoneypot uri (m_honeypot (bypassMatchers c n site ipb rp)) =
         map_option (\<lambda>m. (hm_Action m, hm_Rule m)) (ResolveHoneypotRule c uri site n)"
proof -
  let ?presets = "find (\<lambda>g. honeypot_group_on n g \<and> list_ex (\<lambda>p. c_rex c p uri) (hg_Patterns g)) (c_HoneypotGroups c)"
  let ?group = "\<lambda>g. (trim_space (str_at (hc_PresetAction (n_Honeypot n)) (hg_ID g)), HoneypotGroup_Name g)"
  have rows: "find (\<lambda>u. (hu_Site u = [] \<or> hu_Site u = site) \<and> \<not> hu_Disabled u \<and> c_rex c (PatternRegex (hu_Path u)) uri)
        (hc_URLs (n_Honeypot n)) =
      find (\<lambda>u. \<not> hu_Disabled u \<and> \<not> (hu_Site u \<noteq> [] \<and> hu_Site u \<noteq> site) \<and> trim_space (hu_Path u) \<noteq> []
        \<and> c_rex c (PatternRegex (trim_space (hu_Path u))) uri) (hc_URLs (n_Honeypot n))"
    using assms(2) by (intro find_cong) auto
  have presets: "map_option (\<lambda>h. (hr_action h, hr_name h))
      (find (\<lambda>h. hr_re h uri) (concat (map (\<lambda>g. map (\<lambda>p. \<lparr>hr_re = c_rex c p,
         hr_action = trim_space (str_at (hc_PresetAction (n_Honeypot n)) (hg_ID g)), hr_name = HoneypotGroup_Name g\<rparr>)
           (hg_Patterns g)) (filter (honeypot_group_on n) (c_HoneypotGroups c))))) = map_option ?group ?presets"
    by (subst find_in_groups [where k = ?group]) (simp_all add: find_filter)
  show ?thesis
  proof (cases ?presets)
    case None
    with presets have "find (\<lambda>h. hr_re h uri) (concat (map (\<lambda>g. map (\<lambda>p. \<lparr>hr_re = c_rex c p,
         hr_action = trim_space (str_at (hc_PresetAction (n_Honeypot n)) (hg_ID g)), hr_name = HoneypotGroup_Name g\<rparr>)
           (hg_Patterns g)) (filter (honeypot_group_on n) (c_HoneypotGroups c)))) = None"
      by simp
    with None assms(1) rows show ?thesis
      by (simp add: matchHoneypot_def compile_honeypots_def ResolveHoneypotRule_def find_append find_map find_filter o_def
            split: option.splits)
  next
    case (Some g)
    with presets obtain h where "find (\<lambda>h. hr_re h uri) (concat (map (\<lambda>g. map (\<lambda>p. \<lparr>hr_re = c_rex c p,
         hr_action = trim_space (str_at (hc_PresetAction (n_Honeypot n)) (hg_ID g)), hr_name = HoneypotGroup_Name g\<rparr>)
           (hg_Patterns g)) (filter (honeypot_group_on n) (c_HoneypotGroups c)))) = Some h" "(hr_action h, hr_name h) = ?group g"
      by auto
    with Some assms(1) show ?thesis
      by (simp add: matchHoneypot_def compile_honeypots_def ResolveHoneypotRule_def find_append)
  qed
qed

end
