(* ===== verification/Go_Crypto.thy ===== *)
theory Go_Crypto
  imports Go_Strings
begin

text \<open>
  What the sources use of Go's \<open>crypto\<close>, \<open>encoding/hex\<close> and \<open>hash/fnv\<close> packages, as
  executable functions on byte strings: SHA-1 and SHA-256 (FIPS 180-4), HMAC (RFC 2104),
  HKDF with one output block (RFC 5869), hexadecimal encoding and 64-bit FNV-1a. The laws
  are the ones a format built on them needs: the lengths of digests and that hexadecimal
  text carries no separator. No cryptographic strength is assumed anywhere; where a
  property of the program rests on it, the theorem exhibits the colliding inputs instead.
\<close>

unbundle bit_operations_syntax

section \<open>Words, bytes and padding\<close>

type_synonym u32 = "32 word"

definition rotr32 :: "nat \<Rightarrow> u32 \<Rightarrow> u32" where
  "rotr32 n x = drop_bit n x OR push_bit (32 - n) x"

definition rotl32 :: "nat \<Rightarrow> u32 \<Rightarrow> u32" where
  "rotl32 n x = push_bit n x OR drop_bit (32 - n) x"

definition be32 :: "u32 \<Rightarrow> string" where
  "be32 x = map (\<lambda>i. char_of (unat (drop_bit i x))) [24, 16, 8, 0]"

definition byte32 :: "char \<Rightarrow> u32" where
  "byte32 c = word_of_nat (of_char c)"

definition word_be :: "char \<Rightarrow> char \<Rightarrow> char \<Rightarrow> char \<Rightarrow> u32" where
  "word_be a b c d = push_bit 24 (byte32 a) OR push_bit 16 (byte32 b) OR push_bit 8 (byte32 c) OR byte32 d"

fun words_of :: "string \<Rightarrow> u32 list" where
  "words_of (a # b # c # d # cs) = word_be a b c d # words_of cs"
| "words_of cs = []"

text \<open>Merkle-Damgard padding with a 64-bit big-endian bit length, 64-byte blocks.\<close>

definition md_pad :: "string \<Rightarrow> string" where
  "md_pad msg = (let n = length msg; z = (119 - n mod 64) mod 64 in
     msg @ char_of (128::nat) # replicate z (char_of (0::nat))
       @ be32 (word_of_nat (8 * n div 2 ^ 32)) @ be32 (word_of_nat (8 * n)))"

fun blocks_of :: "nat \<Rightarrow> u32 list \<Rightarrow> u32 list list" where
  "blocks_of 0 ws = []"
| "blocks_of (Suc k) ws = take 16 ws # blocks_of k (drop 16 ws)"

definition md_blocks :: "string \<Rightarrow> u32 list list" where
  "md_blocks msg = (let p = md_pad msg in blocks_of (length p div 64) (words_of p))"

section \<open>SHA-256\<close>

definition sha256_k :: "u32 list" where
  "sha256_k =
    [1116352408, 1899447441, 3049323471, 3921009573, 961987163, 1508970993,
     2453635748, 2870763221, 3624381080, 310598401, 607225278, 1426881987,
     1925078388, 2162078206, 2614888103, 3248222580, 3835390401, 4022224774,
     264347078, 604807628, 770255983, 1249150122, 1555081692, 1996064986,
     2554220882, 2821834349, 2952996808, 3210313671, 3336571891, 3584528711,
     113926993, 338241895, 666307205, 773529912, 1294757372, 1396182291,
     1695183700, 1986661051, 2177026350, 2456956037, 2730485921, 2820302411,
     3259730800, 3345764771, 3516065817, 3600352804, 4094571909, 275423344,
     430227734, 506948616, 659060556, 883997877, 958139571, 1322822218,
     1537002063, 1747873779, 1955562222, 2024104815, 2227730452, 2361852424,
     2428436474, 2756734187, 3204031479, 3329325298]"

definition sha256_h0 :: "u32 list" where
  "sha256_h0 =
    [1779033703, 3144134277, 1013904242, 2773480762, 1359893119, 2600822924,
     528734635, 1541459225]"

fun sha256_sched :: "nat \<Rightarrow> u32 list \<Rightarrow> u32 list" where
  "sha256_sched 0 ws = []"
| "sha256_sched (Suc k) ws = (case ws of [] \<Rightarrow> [] | w0 # _ \<Rightarrow>
     (let w1 = ws ! 1; w9 = ws ! 9; w14 = ws ! 14;
          s0 = rotr32 7 w1 XOR rotr32 18 w1 XOR drop_bit 3 w1;
          s1 = rotr32 17 w14 XOR rotr32 19 w14 XOR drop_bit 10 w14
      in w0 # sha256_sched k (tl ws @ [w0 + s0 + w9 + s1])))"

fun sha256_rounds :: "(u32 \<times> u32) list \<Rightarrow> u32 \<Rightarrow> u32 \<Rightarrow> u32 \<Rightarrow> u32 \<Rightarrow> u32 \<Rightarrow> u32 \<Rightarrow> u32 \<Rightarrow> u32 \<Rightarrow> u32 list" where
  "sha256_rounds [] a b c d e f g h = [a, b, c, d, e, f, g, h]"
| "sha256_rounds ((k, w) # kws) a b c d e f g h =
     (let s1 = rotr32 6 e XOR rotr32 11 e XOR rotr32 25 e;
          ch = (e AND f) XOR (NOT e AND g);
          t1 = h + s1 + ch + k + w;
          s0 = rotr32 2 a XOR rotr32 13 a XOR rotr32 22 a;
          maj = (a AND b) XOR (a AND c) XOR (b AND c)
      in sha256_rounds kws (t1 + (s0 + maj)) a b c (d + t1) e f g)"

definition sha256_block :: "u32 list \<Rightarrow> u32 list \<Rightarrow> u32 list" where
  "sha256_block hs blk =
     map2 (+) hs (sha256_rounds (zip sha256_k (sha256_sched 64 blk))
       (hs ! 0) (hs ! 1) (hs ! 2) (hs ! 3) (hs ! 4) (hs ! 5) (hs ! 6) (hs ! 7))"

definition sha256 :: "string \<Rightarrow> string" where
  "sha256 msg = concat (map be32 (foldl sha256_block sha256_h0 (md_blocks msg)))"

section \<open>SHA-1\<close>

definition sha1_h0 :: "u32 list" where
  "sha1_h0 = [1732584193, 4023233417, 2562383102, 271733878, 3285377520]"

fun sha1_sched :: "nat \<Rightarrow> u32 list \<Rightarrow> u32 list" where
  "sha1_sched 0 ws = []"
| "sha1_sched (Suc k) ws = (case ws of [] \<Rightarrow> [] | w0 # _ \<Rightarrow>
     w0 # sha1_sched k (tl ws @ [rotl32 1 (ws ! 13 XOR ws ! 8 XOR ws ! 2 XOR w0)]))"

definition sha1_f :: "nat \<Rightarrow> u32 \<Rightarrow> u32 \<Rightarrow> u32 \<Rightarrow> u32" where
  "sha1_f t b c d =
     (if t < 20 then (b AND c) OR (NOT b AND d)
      else if t < 40 then b XOR c XOR d
      else if t < 60 then (b AND c) OR (b AND d) OR (c AND d)
      else b XOR c XOR d)"

definition sha1_k :: "nat \<Rightarrow> u32" where
  "sha1_k t = (if t < 20 then 0x5a827999 else if t < 40 then 0x6ed9eba1
      else if t < 60 then 0x8f1bbcdc else 0xca62c1d6)"

fun sha1_rounds :: "nat \<Rightarrow> u32 list \<Rightarrow> u32 \<Rightarrow> u32 \<Rightarrow> u32 \<Rightarrow> u32 \<Rightarrow> u32 \<Rightarrow> u32 list" where
  "sha1_rounds t [] a b c d e = [a, b, c, d, e]"
| "sha1_rounds t (w # ws) a b c d e =
     sha1_rounds (Suc t) ws (rotl32 5 a + sha1_f t b c d + e + sha1_k t + w) a (rotl32 30 b) c d"

definition sha1_block :: "u32 list \<Rightarrow> u32 list \<Rightarrow> u32 list" where
  "sha1_block hs blk =
     map2 (+) hs (sha1_rounds 0 (sha1_sched 80 blk) (hs ! 0) (hs ! 1) (hs ! 2) (hs ! 3) (hs ! 4))"

definition sha1 :: "string \<Rightarrow> string" where
  "sha1 msg = concat (map be32 (foldl sha1_block sha1_h0 (md_blocks msg)))"

section \<open>Digest lengths\<close>

lemma length_be32 [simp]: "length (be32 x) = 4"
  by (simp add: be32_def)

lemma length_concat_be32: "length (concat (map be32 ws)) = 4 * length ws"
  by (induction ws) auto

lemma length_sha256_rounds [simp]: "length (sha256_rounds kws a b c d e f g h) = 8"
  by (induction kws a b c d e f g h rule: sha256_rounds.induct) (auto simp: Let_def)

lemma length_sha1_rounds [simp]: "length (sha1_rounds t ws a b c d e) = 5"
  by (induction t ws a b c d e rule: sha1_rounds.induct) auto

lemma length_foldl_sha256: "length hs = 8 \<Longrightarrow> length (foldl sha256_block hs bs) = 8"
  by (induction bs arbitrary: hs) (auto simp: sha256_block_def)

lemma length_foldl_sha1: "length hs = 5 \<Longrightarrow> length (foldl sha1_block hs bs) = 5"
  by (induction bs arbitrary: hs) (auto simp: sha1_block_def)

lemma length_sha256 [simp]: "length (sha256 m) = 32"
  by (simp add: sha256_def length_concat_be32 length_foldl_sha256 sha256_h0_def)

lemma length_sha1 [simp]: "length (sha1 m) = 20"
  by (simp add: sha1_def length_concat_be32 length_foldl_sha1 sha1_h0_def)

section \<open>HMAC and HKDF\<close>

definition xor_byte :: "nat \<Rightarrow> char \<Rightarrow> char" where
  "xor_byte k c = char_of ((of_char c :: nat) XOR k)"

definition hmac_key :: "(string \<Rightarrow> string) \<Rightarrow> string \<Rightarrow> string" where
  "hmac_key H key =
     (let k = (if length key > 64 then H key else key)
      in k @ replicate (64 - length k) (char_of (0::nat)))"

definition hmac :: "(string \<Rightarrow> string) \<Rightarrow> string \<Rightarrow> string \<Rightarrow> string" where
  "hmac H key msg =
     (let k = hmac_key H key
      in H (map (xor_byte 92) k @ H (map (xor_byte 54) k @ msg)))"

text \<open>\<open>hkdf.Key(sha256.New, secret, nil, info, 32)\<close>: one block of output.\<close>

definition hkdf_sha256 :: "string \<Rightarrow> string \<Rightarrow> string" where
  "hkdf_sha256 secret info =
     (let prk = hmac sha256 (replicate 32 (char_of (0::nat))) secret
      in hmac sha256 prk (info @ [char_of (1::nat)]))"

lemma length_hmac_sha256 [simp]: "length (hmac sha256 k m) = 32"
  by (simp add: hmac_def Let_def)

lemma length_hmac_sha1 [simp]: "length (hmac sha1 k m) = 20"
  by (simp add: hmac_def Let_def)

section \<open>Hexadecimal encoding\<close>

fun hex_encode :: "string \<Rightarrow> string" where
  "hex_encode [] = []"
| "hex_encode (c # cs) =
     digit_char (of_char c div 16) # digit_char (of_char c mod 16) # hex_encode cs"

lemma length_hex [simp]: "length (hex_encode s) = 2 * length s"
  by (induction s) auto

lemma of_char_div16: "(of_char c :: nat) div 16 < 16"
proof -
  have "(of_char c :: nat) < 256" by simp
  then show ?thesis by linarith
qed

lemma hex_numeric: "c \<in> set (hex_encode s) \<Longrightarrow> numeric c"
proof (induction s)
  case (Cons x xs)
  have "(of_char x :: nat) div 16 < 36" "(of_char x :: nat) mod 16 < 36"
    using of_char_div16 [of x] by auto
  with Cons show ?case by (auto simp: digit_char_numeric)
qed simp

lemma hex_chars: "c \<in> set (take n (hex_encode s)) \<Longrightarrow> c \<noteq> CHR ''.'' \<and> c \<noteq> CHR '':'' \<and> c \<noteq> CHR ''~'' \<and> graphic c"
  using hex_numeric [of c s] numeric_punct [of c] by (meson in_set_takeD)

lemma digit_char_inj: "a < 36 \<Longrightarrow> b < 36 \<Longrightarrow> digit_char a = digit_char b \<longleftrightarrow> a = b"
  by (metis digit_val_char option.inject)

lemma hex_inj [codec]: "hex_encode s = hex_encode t \<longleftrightarrow> s = t"
proof (induction s arbitrary: t)
  case Nil
  then show ?case by (cases t) auto
next
  case (Cons x xs)
  show ?case
  proof (cases t)
    case (Cons y ys)
    have lt: "(of_char z :: nat) div 16 < 36 \<and> (of_char z :: nat) mod 16 < 36" for z
      using of_char_div16 [of z] by auto
    have "(of_char x :: nat) = of_char y \<longleftrightarrow>
        (of_char x :: nat) div 16 = of_char y div 16 \<and> (of_char x :: nat) mod 16 = of_char y mod 16"
      by (metis div_mult_mod_eq)
    then show ?thesis using Cons lt Cons.IH by (simp add: digit_char_inj)
  qed simp
qed

section \<open>FNV-1a\<close>

definition fnv64a :: "string \<Rightarrow> 64 word" where
  "fnv64a s = foldl (\<lambda>h c. (h XOR word_of_nat (of_char c)) * 1099511628211) 14695981039346656037 s"

end
