(* ===== verification/Go_Netip.thy ===== *)
theory Go_Netip
  imports Go_Strings
begin

text \<open>
  What the sources use of Go's \<open>net/netip\<close> and \<open>net\<close>: the address type, \<open>ParseAddr\<close>,
  \<open>ParsePrefix\<close>, \<open>net.ParseIP\<close>, the text form, masking, \<open>Contains\<close> and \<open>Unmap\<close>. An
  address is its list of bytes (4 or 16) and a zone; a prefix an address and a length.
\<close>

section \<open>Addresses\<close>

datatype addr = V4 "nat list" | V6 "nat list" string

fun is4 :: "addr \<Rightarrow> bool" where
  "is4 (V4 _) = True"
| "is4 (V6 _ _) = False"

fun zone :: "addr \<Rightarrow> string" where
  "zone (V4 _) = []"
| "zone (V6 _ z) = z"

fun addr_bytes :: "addr \<Rightarrow> nat list" where
  "addr_bytes (V4 b) = b"
| "addr_bytes (V6 b _) = b"

definition v4_mapped_prefix :: "nat list" where
  "v4_mapped_prefix = [0, 0, 0, 0, 0, 0, 0, 0, 0, 0, 255, 255]"

fun is4in6 :: "addr \<Rightarrow> bool" where
  "is4in6 (V4 _) = False"
| "is4in6 (V6 b _) = (take 12 b = v4_mapped_prefix)"

fun unmap :: "addr \<Rightarrow> addr" where
  "unmap (V4 b) = V4 b"
| "unmap (V6 b z) = (if take 12 b = v4_mapped_prefix then V4 (drop 12 b) else V6 b z)"

fun without_zone :: "addr \<Rightarrow> addr" where
  "without_zone (V4 b) = V4 b"
| "without_zone (V6 b _) = V6 b []"

section \<open>Parsing\<close>

text \<open>
  \<open>parseIPv4Fields\<close>: four decimal fields of one to three digits, at most 255, with no
  leading zero.
\<close>

definition v4_field :: "string \<Rightarrow> nat option" where
  "v4_field s =
     (if s = [] \<or> length s > 3 \<or> (length s > 1 \<and> hd s = CHR ''0'')
      then None
      else case parse_digits 10 0 s of None \<Rightarrow> None | Some n \<Rightarrow> if n \<le> 255 then Some n else None)"

definition parse_v4_fields :: "string \<Rightarrow> nat list option" where
  "parse_v4_fields s =
     (let fs = map v4_field (split (CHR ''.'') s)
      in if length fs = 4 \<and> None \<notin> set fs then Some (map the fs) else None)"

definition hex_val :: "char \<Rightarrow> nat option" where
  "hex_val c = (case digit_val c of Some d \<Rightarrow> if d < 16 then Some d else None | None \<Rightarrow> None)"

fun span_hex :: "string \<Rightarrow> nat list \<times> string" where
  "span_hex [] = ([], [])"
| "span_hex (c # cs) =
     (case hex_val c of None \<Rightarrow> ([], c # cs)
      | Some d \<Rightarrow> (let (ds, r) = span_hex cs in (d # ds, r)))"

lemma span_hex_length: "length (snd (span_hex s)) + length (fst (span_hex s)) = length s"
  by (induction s) (auto split: option.splits prod.splits)

definition hex_group :: "nat list \<Rightarrow> nat" where
  "hex_group ds = foldl (\<lambda>a d. a * 16 + d) 0 ds"

text \<open>
  The loop of \<open>parseIPv6\<close>: \<open>ip\<close> holds the bytes saved so far, \<open>ell\<close> the position of
  \<open>::\<close> if it was seen, \<open>s\<close> what is left of the text. The result is the bytes, the
  ellipsis and the rest.
\<close>

function v6_loop :: "nat list \<Rightarrow> nat option \<Rightarrow> string \<Rightarrow> (nat list \<times> nat option \<times> string) option" where
  "v6_loop ip ell s =
     (if length ip \<ge> 16 then Some (ip, ell, s)
      else let (ds, r) = span_hex s in
        if ds = [] \<or> length ds > 4 then None
        else if r \<noteq> [] \<and> hd r = CHR ''.'' then
          (if (ell = None \<and> length ip \<noteq> 12) \<or> length ip + 4 > 16 then None
           else case parse_v4_fields s of None \<Rightarrow> None
             | Some b \<Rightarrow> Some (ip @ b, ell, []))
        else let g = hex_group ds; ip' = ip @ [g div 256, g mod 256] in
          if r = [] then Some (ip', ell, [])
          else if hd r \<noteq> CHR '':'' \<or> length r = 1 then None
          else let t = tl r in
            if hd t = CHR '':'' then
              (if ell \<noteq> None then None
               else if tl t = [] then Some (ip', Some (length ip'), [])
               else v6_loop ip' (Some (length ip')) (tl t))
            else v6_loop ip' ell t)"
  by pat_completeness auto
termination
  by (relation "measure (\<lambda>(ip, ell, s). 16 - length ip)") auto

declare v6_loop.simps [simp del]

definition parse_v6 :: "string \<Rightarrow> addr option" where
  "parse_v6 inp =
     (let cut = index_byte (CHR ''%'') inp;
          s = (case cut of None \<Rightarrow> inp | Some i \<Rightarrow> take i inp);
          z = (case cut of None \<Rightarrow> [] | Some i \<Rightarrow> drop (Suc i) inp);
          lead = is_prefix ''::'' s
      in if cut \<noteq> None \<and> z = [] then None
         else if s = ''::'' then Some (V6 (replicate 16 0) z)
         else case v6_loop [] (if lead then Some 0 else None) (if lead then drop 2 s else s) of
             None \<Rightarrow> None
           | Some (ip, ell, r) \<Rightarrow>
               if r \<noteq> [] then None
               else if length ip < 16 then
                 (case ell of None \<Rightarrow> None
                  | Some e \<Rightarrow> Some (V6 (take e ip @ replicate (16 - length ip) 0 @ drop e ip) z))
               else if ell \<noteq> None then None
               else Some (V6 ip z))"

text \<open>\<open>netip.ParseAddr\<close>: the first of \<open>.\<close>, \<open>:\<close>, \<open>%\<close> decides the family.\<close>

definition parse_addr :: "string \<Rightarrow> addr option" where
  "parse_addr s =
     (case find (\<lambda>c. c = CHR ''.'' \<or> c = CHR '':'' \<or> c = CHR ''%'') s of
        None \<Rightarrow> None
      | Some c \<Rightarrow>
          if c = CHR ''.'' then map_option V4 (parse_v4_fields s)
          else if c = CHR '':'' then parse_v6 s
          else None)"

text \<open>\<open>net.ParseIP\<close>: no zone; the 16-byte form.\<close>

definition parse_ip :: "string \<Rightarrow> nat list option" where
  "parse_ip s =
     (case parse_addr s of None \<Rightarrow> None
      | Some (V4 b) \<Rightarrow> Some (v4_mapped_prefix @ b)
      | Some (V6 b z) \<Rightarrow> if z = [] then Some b else None)"

definition to4 :: "nat list \<Rightarrow> nat list option" where
  "to4 b = (if length b = 16 \<and> take 12 b = v4_mapped_prefix then Some (drop 12 b) else None)"

section \<open>Text form\<close>

definition v4_string :: "nat list \<Rightarrow> string" where
  "v4_string b = join (CHR ''.'') (map (format_nat 10) b)"

fun groups_of :: "nat list \<Rightarrow> nat list" where
  "groups_of (a # b # bs) = (a * 256 + b) # groups_of bs"
| "groups_of _ = []"

fun zero_run :: "nat list \<Rightarrow> nat" where
  "zero_run (g # gs) = (if g = 0 then Suc (zero_run gs) else 0)"
| "zero_run [] = 0"

text \<open>The first longest run of at least two zero groups, as \<open>(start, length)\<close>.\<close>

definition best_run :: "nat list \<Rightarrow> (nat \<times> nat) option" where
  "best_run gs =
     foldl (\<lambda>best i. let n = zero_run (drop i gs)
            in if n \<ge> 2 \<and> (case best of None \<Rightarrow> True | Some (_, m) \<Rightarrow> n > m) then Some (i, n) else best)
       None [0..<length gs]"

definition v6_string :: "nat list \<Rightarrow> string" where
  "v6_string b =
     (let gs = groups_of b; show_groups = (\<lambda>xs. join (CHR '':'') (map (format_nat 16) xs))
      in case best_run gs of
           None \<Rightarrow> show_groups gs
         | Some (i, n) \<Rightarrow> show_groups (take i gs) @ ''::'' @ show_groups (drop (i + n) gs))"

fun addr_string :: "addr \<Rightarrow> string" where
  "addr_string (V4 b) = v4_string b"
| "addr_string (V6 b z) =
     (let s = (if take 12 b = v4_mapped_prefix then ''::ffff:'' @ v4_string (drop 12 b) else v6_string b)
      in if z = [] then s else s @ ''%'' @ z)"

section \<open>Prefixes\<close>

record ip_prefix =
  p_addr :: addr
  p_bits :: nat

definition mask_byte :: "nat \<Rightarrow> nat \<Rightarrow> nat" where
  "mask_byte k v = (v div 2 ^ (8 - k)) * 2 ^ (8 - k)"

fun mask_bytes :: "nat \<Rightarrow> nat list \<Rightarrow> nat list" where
  "mask_bytes n [] = []"
| "mask_bytes n (v # vs) = (if n \<ge> 8 then v # mask_bytes (n - 8) vs else mask_byte n v # mask_bytes 0 vs)"

fun mask_addr :: "nat \<Rightarrow> addr \<Rightarrow> addr" where
  "mask_addr n (V4 b) = V4 (mask_bytes n b)"
| "mask_addr n (V6 b z) = V6 (mask_bytes n b) []"

definition masked :: "ip_prefix \<Rightarrow> ip_prefix" where
  "masked p = p\<lparr>p_addr := mask_addr (p_bits p) (p_addr p)\<rparr>"

definition prefix_string :: "ip_prefix \<Rightarrow> string" where
  "prefix_string p = addr_string (p_addr p) @ ''/'' @ format_nat 10 (p_bits p)"

text \<open>\<open>netip.ParsePrefix\<close>: no zone, a length in plain decimal with no leading zero.\<close>

definition last_slash :: "string \<Rightarrow> nat option" where
  "last_slash s = map_option (\<lambda>i. length s - 1 - i) (index_byte (CHR ''/'') (rev s))"

definition parse_prefix :: "string \<Rightarrow> ip_prefix option" where
  "parse_prefix s =
     (case last_slash s of None \<Rightarrow> None
      | Some i \<Rightarrow>
        (case parse_addr (take i s) of None \<Rightarrow> None
         | Some a \<Rightarrow>
           (let bs = drop (Suc i) s in
            if zone a \<noteq> [] then None
            else if length bs > 1 \<and> \<not> (49 \<le> (of_char (hd bs) :: nat) \<and> (of_char (hd bs) :: nat) \<le> 57) then None
            else case parse_int 10 64 bs of None \<Rightarrow> None
              | Some n \<Rightarrow> if n < 0 \<or> n > (if is4 a then 32 else 128) then None
                  else Some \<lparr>p_addr = a, p_bits = nat n\<rparr>)))"

text \<open>\<open>Prefix.Contains\<close>: the same family, no zone, and equal under the mask.\<close>

definition prefix_contains :: "ip_prefix \<Rightarrow> addr \<Rightarrow> bool" where
  "prefix_contains p a \<longleftrightarrow>
     is4 (p_addr p) = is4 a \<and> zone a = [] \<and>
     mask_bytes (p_bits p) (addr_bytes (p_addr p)) = mask_bytes (p_bits p) (addr_bytes a)"

lemma mask_bytes_idem [simp]: "mask_bytes n (mask_bytes n b) = mask_bytes n b"
proof (induction n b rule: mask_bytes.induct)
  case (2 n v vs)
  have "mask_byte n (mask_byte n v) = mask_byte n v" for n v
    by (simp add: mask_byte_def)
  with 2 show ?case by simp
qed simp

lemma mask_bytes_full: "8 * length b \<le> n \<Longrightarrow> mask_bytes n b = b"
  by (induction n b rule: mask_bytes.induct) auto

lemma addr_bytes_mask [simp]: "addr_bytes (mask_addr n a) = mask_bytes n (addr_bytes a)"
  by (cases a) auto

lemma is4_mask [simp]: "is4 (mask_addr n a) = is4 a"
  by (cases a) auto

lemma contains_masked: "prefix_contains (masked p) a = prefix_contains p a"
  by (simp add: prefix_contains_def masked_def)

section \<open>Parsed addresses are well formed\<close>

lemma v4_field_bound: "v4_field s = Some n \<Longrightarrow> n < 256"
  by (auto simp: v4_field_def split: if_splits option.splits)

lemma parse_v4_fields_wf:
  assumes "parse_v4_fields s = Some b"
  shows "length b = 4 \<and> (\<forall>x \<in> set b. x < 256)"
proof -
  let ?fs = "map v4_field (split (CHR ''.'') s)"
  from assms have l: "length ?fs = 4" and n: "None \<notin> set ?fs" and b: "b = map the ?fs"
    by (auto simp: parse_v4_fields_def Let_def split: if_splits)
  have "the f < 256" if f: "f \<in> set ?fs" for f
  proof -
    obtain x where x: "f = Some x" using f n by (metis option.exhaust)
    with f obtain w where "v4_field w = Some x" by force
    then show ?thesis using v4_field_bound x by simp
  qed
  then show ?thesis using l b by auto
qed

lemma span_hex_digits: "d \<in> set (fst (span_hex s)) \<Longrightarrow> d < 16"
  by (induction s) (auto simp: hex_val_def split: option.splits prod.splits if_splits)

lemma hex_group_bound: "\<forall>d \<in> set ds. d < 16 \<Longrightarrow> hex_group ds < 16 ^ length ds"
proof (induction ds rule: rev_induct)
  case (snoc d ds)
  then have "hex_group ds < 16 ^ length ds" "d < 16" by auto
  then have "hex_group ds * 16 + d < 16 ^ length ds * 16" by linarith
  then show ?case by (simp add: hex_group_def mult.commute)
qed (simp add: hex_group_def)

lemma v6_loop_step:
  assumes "length ip < 16" "span_hex s = (ds, t)" "ds \<noteq> []" "length ds \<le> 4"
    "t \<noteq> []" "hd t = CHR '':''" "length t \<noteq> 1"
  shows "v6_loop ip ell s =
     (let ip' = ip @ [hex_group ds div 256, hex_group ds mod 256]; u = tl t in
      if hd u = CHR '':'' then
        (if ell \<noteq> None then None
         else if tl u = [] then Some (ip', Some (length ip'), [])
         else v6_loop ip' (Some (length ip')) (tl u))
      else v6_loop ip' ell u)"
  by (subst v6_loop.simps) (use assms in \<open>simp add: Let_def\<close>)

definition v6_ok :: "nat list \<Rightarrow> bool" where
  "v6_ok ip \<longleftrightarrow> (\<forall>x \<in> set ip. x < 256) \<and> even (length ip) \<and> length ip \<le> 16"

lemma v6_loop_ok:
  "v6_loop ip ell s = Some (ip', ell', r) \<Longrightarrow> v6_ok ip \<Longrightarrow> v6_ok ip'"
proof (induction ip ell s rule: v6_loop.induct)
  case (1 ip ell s)
  obtain ds t where sp: "span_hex s = (ds, t)" by (cases "span_hex s")
  show ?case
  proof (cases "length ip \<ge> 16 \<or> ds = [] \<or> length ds > 4 \<or> (t \<noteq> [] \<and> hd t = CHR ''.'')")
    case True
    then show ?thesis
      using "1.prems" sp parse_v4_fields_wf
      by (fastforce simp: v6_loop.simps [of ip ell s] v6_ok_def split: if_splits option.splits)
  next
    case False
    let ?g = "hex_group ds" and ?ip = "ip @ [hex_group ds div 256, hex_group ds mod 256]"
    have "?g < 16 ^ length ds" using span_hex_digits [of _ s] sp by (intro hex_group_bound) auto
    also have "\<dots> \<le> 16 ^ 4" using False by (intro power_increasing) auto
    finally have "?g < 65536" by simp
    then have "?g div 256 < 256" by (simp add: div_less_iff_less_mult)
    moreover have "length ip < 16" using False by simp
    ultimately have ok: "v6_ok ?ip" using "1.prems"(2) unfolding v6_ok_def by (auto elim!: evenE)
    have ip16: "\<not> length ip \<ge> 16" and c: "\<not> (ds = [] \<or> length ds > 4)" and d: "\<not> (t \<noteq> [] \<and> hd t = CHR ''.'')"
      using False by auto
    note IH = "1.IH" [OF ip16 sp [symmetric] refl c d refl refl]
    show ?thesis
    proof (cases "t = [] \<or> hd t \<noteq> CHR '':'' \<or> length t = 1")
      case True
      then show ?thesis using "1.prems"(1) ok False sp
        by (auto simp: v6_loop.simps [of ip ell s] Let_def split: if_splits)
    next
      case tf: False
      then have t1: "t \<noteq> []" and t2: "\<not> (hd t \<noteq> CHR '':'' \<or> length t = 1)" by auto
      have pre: "length ip < 16" "ds \<noteq> []" "length ds \<le> 4" "hd t = CHR '':''" "length t \<noteq> 1"
        using False t2 by auto
      note step = v6_loop_step [OF pre(1) sp pre(2) pre(3) t1 pre(4) pre(5), of ell, unfolded Let_def]
      show ?thesis
      proof (cases "hd (tl t) = CHR '':''")
        case True
        note step = step [unfolded if_P [OF True]]
        show ?thesis
        proof (cases "ell = None \<and> tl (tl t) \<noteq> []")
          case True
          then have "v6_loop ?ip (Some (length ?ip)) (tl (tl t)) = Some (ip', ell', r)"
            using "1.prems"(1) step by simp
          moreover have "ell = None" "tl (tl t) \<noteq> []" using True by auto
          ultimately show ?thesis using IH(1) [OF t1 t2 refl \<open>hd (tl t) = CHR '':''\<close>] ok by (metis (no_types))
        next
          case False
          then show ?thesis using "1.prems"(1) step ok by (auto split: if_splits)
        qed
      next
        case nc: False
        have "v6_loop ip ell s = v6_loop ?ip ell (tl t)"
          using step [unfolded if_not_P [OF nc]] .
        with "1.prems"(1) have e: "v6_loop ?ip ell (tl t) = Some (ip', ell', r)" by metis
        show ?thesis by (rule IH(2) [OF t1 t2 refl nc e ok])
      qed
    qed
  qed
qed

lemma parse_v6_ok: "parse_v6 s = Some a \<Longrightarrow> (\<forall>x \<in> set (addr_bytes a). x < 256) \<and> (\<exists>x z. a = V6 x z \<and> length x = 16)"
proof -
  have ok: "v6_ok []" by (simp add: v6_ok_def)
  assume "parse_v6 s = Some a"
  then show ?thesis
    by (auto simp: parse_v6_def Let_def split: option.splits if_splits prod.splits
        dest!: v6_loop_ok [OF _ ok]) (auto simp: v6_ok_def dest!: in_set_takeD in_set_dropD)
qed

lemma parse_addr_wf:
  assumes "parse_addr s = Some a"
  shows "(\<forall>x \<in> set (addr_bytes a). x < 256) \<and> length (addr_bytes a) = (if is4 a then 4 else 16)"
proof (cases "find (\<lambda>c. c = CHR ''.'' \<or> c = CHR '':'' \<or> c = CHR ''%'') s = Some (CHR ''.'')")
  case True
  with assms show ?thesis using parse_v4_fields_wf by (auto simp: parse_addr_def)
next
  case False
  with assms have "parse_v6 s = Some a" by (auto simp: parse_addr_def split: option.splits if_splits)
  from parse_v6_ok [OF this] show ?thesis by auto
qed

lemma parse_ip_bytes: "parse_ip s = Some b \<Longrightarrow> \<forall>x \<in> set b. x < 256"
  by (auto simp: parse_ip_def v4_mapped_prefix_def dest!: parse_addr_wf split: option.splits addr.splits if_splits)

lemma map_char_of_inj:
  "\<forall>x \<in> set xs. x < 256 \<Longrightarrow> \<forall>y \<in> set ys. y < 256 \<Longrightarrow> map char_of xs = map char_of ys \<longleftrightarrow> xs = (ys :: nat list)"
proof (induction xs arbitrary: ys)
  case (Cons x xs)
  have "(char_of x = char_of y) = (x = y)" if "y < 256" for y
    using Cons.prems(1) that by (metis list.set_intros(1) of_char_of mod_less)
  with Cons show ?case by (cases ys) auto
qed auto

lemma mask_bytes_bytes:
  "\<forall>v \<in> set x. v < 256 \<Longrightarrow> k \<le> length x \<Longrightarrow> mask_bytes (8 * k) x = take k x @ replicate (length x - k) 0"
proof (induction x arbitrary: k)
  case (Cons v x)
  have z: "mask_byte 0 v = 0" using Cons.prems(1) by (simp add: mask_byte_def)
  show ?case
  proof (cases k)
    case 0
    then show ?thesis using z Cons.IH [of 0] Cons.prems(1) by simp
  next
    case (Suc k')
    then show ?thesis using Cons by simp
  qed
qed simp

end
