(* ===== verification/Signed_Token.thy ===== *)
theory Signed_Token
  imports Go_Strings
begin

text \<open>
  The contract every signed value of the daemon keeps (the pass entry, its rebind
  companion, the challenge token, the session cookie, the beacon token): the parser
  returns the claims of exactly the values the signer prints for admissible claims, under
  any variant the verifier tries (the hash, or the parts of the text that are not claims). The lemmas are what the handlers use of it.
\<close>

definition dotless :: "string \<Rightarrow> bool" where
  "dotless s \<longleftrightarrow> CHR ''.'' \<notin> set s"

lemma split_dot_iff: "split (CHR ''.'') v = ws \<longleftrightarrow> ws \<noteq> [] \<and> list_all dotless ws \<and> v = join (CHR ''.'') ws"
  by (simp add: split_eq_iff dotless_def list_all_iff)

locale signed_token =
  fixes sign :: "'h \<Rightarrow> 'c \<Rightarrow> string"
    and variant :: "'h \<Rightarrow> 'c \<Rightarrow> bool"
    and parse :: "string \<Rightarrow> 'c option"
    and admissible :: "'c \<Rightarrow> bool"
  assumes accept_iff: "parse v = Some c \<longleftrightarrow> admissible c \<and> (\<exists>h. variant h c \<and> v = sign h c)"
begin

lemma parse_sign: "admissible c \<Longrightarrow> variant h c \<Longrightarrow> parse (sign h c) = Some c"
  using accept_iff by blast

lemma sign_inj:
  "admissible c \<Longrightarrow> admissible c' \<Longrightarrow> variant h c \<Longrightarrow> variant h' c' \<Longrightarrow> sign h c = sign h' c' \<Longrightarrow> c = c'"
  using parse_sign by (metis option.inject)

lemma refuse_iff: "parse v = None \<longleftrightarrow> (\<forall>c h. admissible c \<and> variant h c \<longrightarrow> v \<noteq> sign h c)"
  using accept_iff by (metis not_None_eq)

lemma parsed_admissible: "parse v = Some c \<Longrightarrow> admissible c"
  using accept_iff by blast

end

text \<open>
  The contract of a set of spent values: \<open>consume\<close> accepts a value exactly when it is not
  held at that time, an accepted value is then held for \<open>ttl\<close> seconds, and as long as the
  set has room a later call forgets nothing that is still held.
\<close>

locale expiring_set =
  fixes held :: "'s \<Rightarrow> 'k \<Rightarrow> int \<Rightarrow> bool"
    and consume :: "'s \<Rightarrow> 'k \<Rightarrow> int \<Rightarrow> bool \<times> 's"
    and inv :: "'s \<Rightarrow> bool"
    and room :: "'s \<Rightarrow> nat"
    and ttl :: int
  assumes inv_consume: "inv s \<Longrightarrow> inv (snd (consume s k n))"
    and consume_iff: "inv s \<Longrightarrow> fst (consume s k n) \<longleftrightarrow> \<not> held s k n"
    and consume_held: "inv s \<Longrightarrow> fst (consume s k n) \<Longrightarrow> n' < n + ttl \<Longrightarrow> held (snd (consume s k n)) k n'"
    and consume_keeps: "inv s \<Longrightarrow> 0 < room s \<Longrightarrow> n \<le> n' \<Longrightarrow> held s k' n' \<Longrightarrow> held (snd (consume s k n)) k' n'"
    and room_consume: "inv s \<Longrightarrow> room s \<le> Suc (room (snd (consume s k n)))"
begin

definition run_consume :: "('k \<times> int) list \<Rightarrow> 's \<Rightarrow> 's" where
  "run_consume es s = fold (\<lambda>(k, n) s. snd (consume s k n)) es s"

lemma run_inv: "inv s \<Longrightarrow> inv (run_consume es s)"
  unfolding run_consume_def by (induction es arbitrary: s) (auto simp: inv_consume)

lemma run_held:
  "inv s \<Longrightarrow> held s k t \<Longrightarrow> length es \<le> room s \<Longrightarrow> list_all (\<lambda>e. snd e \<le> t) es \<Longrightarrow> held (run_consume es s) k t"
proof (induction es arbitrary: s)
  case (Cons e es)
  obtain k' n where e: "e = (k', n)" by (cases e)
  have "length es \<le> room (snd (consume s k' n))"
    using Cons.prems(3) room_consume [OF Cons.prems(1), of k' n] by simp
  then show ?case
    using Cons.IH [of "snd (consume s k' n)"] Cons.prems inv_consume consume_keeps [of s n t k k'] e
    by (simp add: run_consume_def)
qed (simp add: run_consume_def)

lemma no_second_pass:
  assumes "inv s" "fst (consume s k n)" "length es \<le> room (snd (consume s k n))"
    "list_all (\<lambda>e. snd e \<le> t) es" "t < n + ttl"
  shows "\<not> fst (consume (run_consume es (snd (consume s k n))) k t)"
  using assms run_held consume_held consume_iff inv_consume run_inv by metis

end

end
