(* ===== verification/Cookies.thy ===== *)
theory Cookies
  imports Go_Crypto Go_Netip Signed_Token
begin

text \<open>
  Package \<open>cookies\<close> (\<open>admin/internal/cookies\<close>): the pass cookie \<open>_bv\<close>, a
  \<open>~\<close>-delimited list of entries signed with the server's secret and bound to an address
  and a host, and its companion \<open>_bvj\<close>. The clock is an argument \<open>now\<close> (unix seconds).
  A verifier's result \<open>(x, ok)\<close> is an option. The theorems say exactly which values the
  verifier accepts, that issuing and verifying agree, that the three uses of the secret
  never sign the same message, and what the list operations keep.
\<close>

section \<open>Definitions\<close>

subsection \<open>Signature hashes\<close>

datatype SigHash = SigSHA1 | SigSHA256

definition PassIDLen :: nat where
  "PassIDLen = 16"

definition SigHashes :: "SigHash list" where
  "SigHashes = [SigSHA256, SigSHA1]"

definition DefaultSigHash :: SigHash where
  "DefaultSigHash = SigSHA1"

definition ParseSigHash :: "string \<Rightarrow> SigHash \<times> bool" where
  "ParseSigHash s =
     (if s = '''' \<or> s = ''sha1'' then (SigSHA1, True)
      else if s = ''sha256'' then (SigSHA256, True)
      else (SigSHA1, False))"

definition SigHash_String :: "SigHash \<Rightarrow> string" where
  "SigHash_String h = (if h = SigSHA256 then ''sha256'' else ''sha1'')"

definition mac :: "SigHash \<Rightarrow> string \<Rightarrow> string \<Rightarrow> string" where
  "mac h key msg = hex_encode (hmac (if h = SigSHA256 then sha256 else sha1) key msg)"

subsection \<open>Issuing\<close>

definition bindIP :: "string \<Rightarrow> string" where
  "bindIP ip =
     (case parse_ip ip of
        None \<Rightarrow> ip
      | Some b \<Rightarrow> if to4 b \<noteq> None then ip else hex_encode (map char_of (take 8 b)))"

definition futureSkewToleranceSeconds :: int where
  "futureSkewToleranceSeconds = 60"

definition captcha_msg :: "int \<Rightarrow> string \<Rightarrow> string \<Rightarrow> string \<Rightarrow> string" where
  "captcha_msg issued ip host kind =
     format_int 10 issued @ '':'' @ ip @ '':'' @ host @ '':'' @ kind"

definition issueValueAtH :: "SigHash \<Rightarrow> string \<Rightarrow> string \<Rightarrow> string \<Rightarrow> string \<Rightarrow> int \<Rightarrow> string" where
  "issueValueAtH h bvSecret remoteIP host kind issued =
     (let kind = (if kind = '''' then ''captcha'' else kind);
          msg = captcha_msg issued (bindIP remoteIP) host kind;
          sig = take 16 (mac h bvSecret msg)
      in format_int 10 issued @ ''.'' @ sig @ ''.'' @ kind)"

definition IssueValue :: "int \<Rightarrow> string \<Rightarrow> string \<Rightarrow> string \<Rightarrow> string \<Rightarrow> string" where
  "IssueValue now bvSecret remoteIP host kind = issueValueAtH DefaultSigHash bvSecret remoteIP host kind now"

definition IssueValueH :: "int \<Rightarrow> SigHash \<Rightarrow> string \<Rightarrow> string \<Rightarrow> string \<Rightarrow> string \<Rightarrow> string" where
  "IssueValueH now h bvSecret remoteIP host kind = issueValueAtH h bvSecret remoteIP host kind now"

definition IssueValueAt :: "string \<Rightarrow> string \<Rightarrow> string \<Rightarrow> string \<Rightarrow> int \<Rightarrow> string" where
  "IssueValueAt bvSecret remoteIP host kind issued = issueValueAtH DefaultSigHash bvSecret remoteIP host kind issued"

subsection \<open>Proof of work\<close>

fun scan_mask :: "nat \<Rightarrow> nat \<Rightarrow> nat \<Rightarrow> nat" where
  "scan_mask m v bits =
     (if m = 0 then bits
      else if and v m \<noteq> 0 then bits
      else scan_mask (m div 2) v (bits + 1))"

declare scan_mask.simps [simp del]

fun leadingZeroBits_from :: "nat \<Rightarrow> string \<Rightarrow> nat" where
  "leadingZeroBits_from bits [] = bits"
| "leadingZeroBits_from bits (v # vs) =
     (if of_char v = (0::nat) then leadingZeroBits_from (bits + 8) vs
      else scan_mask 128 (of_char v) bits)"

definition leadingZeroBits :: "string \<Rightarrow> nat" where
  "leadingZeroBits b = leadingZeroBits_from 0 b"

definition powseed_msg :: "int \<Rightarrow> string \<Rightarrow> string \<Rightarrow> string" where
  "powseed_msg issued ip host = format_int 10 issued @ '':'' @ ip @ '':'' @ host @ '':pow_seed''"

definition PowSeedH :: "SigHash \<Rightarrow> string \<Rightarrow> string \<Rightarrow> string \<Rightarrow> int \<Rightarrow> string" where
  "PowSeedH h bvSecret remoteIP host issued =
     take 40 (mac h bvSecret (powseed_msg issued (bindIP remoteIP) host))"

definition PowSeed :: "string \<Rightarrow> string \<Rightarrow> string \<Rightarrow> int \<Rightarrow> string" where
  "PowSeed bvSecret remoteIP host issued = PowSeedH DefaultSigHash bvSecret remoteIP host issued"

definition withinWindow :: "int \<Rightarrow> int \<Rightarrow> int \<Rightarrow> bool" where
  "withinWindow now issued validSeconds =
     (if issued > wrap64 (now + futureSkewToleranceSeconds) then False
      else if wrap64 (now - issued) > validSeconds then False
      else True)"

definition powDifficultyClamped :: "int \<Rightarrow> int" where
  "powDifficultyClamped d = (if d < 8 \<or> d > 24 then 18 else d)"

definition verifyPowSHA256 :: "int \<Rightarrow> string list \<Rightarrow> string \<Rightarrow> string \<Rightarrow> string \<Rightarrow> int \<Rightarrow> int \<Rightarrow> string option" where
  "verifyPowSHA256 now parts bvSecret remoteIP host validSeconds powDifficulty =
     (let d = powDifficultyClamped powDifficulty in
      case parse_int 10 64 (parts ! 0) of None \<Rightarrow> None
      | Some issued \<Rightarrow>
        if \<not> withinWindow now issued validSeconds then None
        else case parse_int 36 64 (parts ! 2) of None \<Rightarrow> None
          | Some nonce \<Rightarrow>
            if nonce < 0 then None
            else find (\<lambda>seed. int (leadingZeroBits (sha256 (seed @ '':'' @ format_int 10 nonce))) \<ge> d)
                   (map (\<lambda>h. PowSeedH h bvSecret remoteIP host issued) SigHashes))"

subsection \<open>Verifying\<close>

definition issuedKinds :: "string list" where
  "issuedKinds = [''captcha'', ''rebind'', ''passthrough'', ''pow'']"

definition verifyOne :: "int \<Rightarrow> string \<Rightarrow> string \<Rightarrow> string \<Rightarrow> string \<Rightarrow> int \<Rightarrow> int \<Rightarrow> int \<Rightarrow> bool" where
  "verifyOne now value bvSecret remoteIP host powValid captchaValid powDifficulty =
     (if value = '''' then False
      else let parts = split (CHR ''.'') value in
        if length parts = 4 \<and> parts ! 1 = ''pow2''
        then verifyPowSHA256 now parts bvSecret remoteIP host powValid powDifficulty \<noteq> None
        else if length parts \<noteq> 3 then False
        else case parse_int 10 64 (parts ! 0) of None \<Rightarrow> False
          | Some issued \<Rightarrow>
            (let kind = parts ! 2 in
             if kind \<notin> set issuedKinds then False
             else if \<not> withinWindow now issued captchaValid then False
             else list_ex (\<lambda>h. issueValueAtH h bvSecret remoteIP host kind issued = value) SigHashes))"

definition maxVerifyEntries :: nat where
  "maxVerifyEntries = 16"

definition DefaultBVMaxEntries :: nat where
  "DefaultBVMaxEntries = 16"

definition Verify :: "int \<Rightarrow> string \<Rightarrow> string \<Rightarrow> string \<Rightarrow> string \<Rightarrow> int \<Rightarrow> int \<Rightarrow> int \<Rightarrow> bool" where
  "Verify now value bvSecret remoteIP host powValid captchaValid powDifficulty =
     (if value = '''' then False
      else list_ex (\<lambda>entry. verifyOne now entry bvSecret remoteIP host powValid captchaValid powDifficulty)
             (take maxVerifyEntries (split (CHR ''~'') value)))"

text \<open>The result of a match: the entry, its kind, the pass identity and the issue time.\<close>

record bv_match =
  m_entry :: string
  m_kind :: string
  m_id :: string
  m_issued :: int

definition matchEntry :: "int \<Rightarrow> string \<Rightarrow> string \<Rightarrow> string \<Rightarrow> string \<Rightarrow> int \<Rightarrow> int \<Rightarrow> int \<Rightarrow> bv_match option" where
  "matchEntry now e bvSecret remoteIP host powValid captchaValid powDifficulty =
     (let parts = split (CHR ''.'') e;
          issued = (case parse_int 10 64 (parts ! 0) of Some i \<Rightarrow> i | None \<Rightarrow> 0) in
      if length parts = 4 \<and> parts ! 1 = ''pow2''
      then (case verifyPowSHA256 now parts bvSecret remoteIP host powValid powDifficulty of
              None \<Rightarrow> None
            | Some seed \<Rightarrow> Some \<lparr>m_entry = e, m_kind = ''pow2'', m_id = take PassIDLen seed, m_issued = issued\<rparr>)
      else if \<not> verifyOne now e bvSecret remoteIP host powValid captchaValid powDifficulty then None
      else Some \<lparr>m_entry = e, m_kind = parts ! 2, m_id = parts ! 1, m_issued = issued\<rparr>)"

fun matchFirst :: "(string \<Rightarrow> bv_match option) \<Rightarrow> string list \<Rightarrow> bv_match option" where
  "matchFirst f [] = None"
| "matchFirst f (e # es) = (case f e of None \<Rightarrow> matchFirst f es | Some m \<Rightarrow> Some m)"

definition MatchingEntryID :: "int \<Rightarrow> string \<Rightarrow> string \<Rightarrow> string \<Rightarrow> string \<Rightarrow> int \<Rightarrow> int \<Rightarrow> int \<Rightarrow> bv_match option" where
  "MatchingEntryID now value bvSecret remoteIP host powValid captchaValid powDifficulty =
     (if value = '''' then None
      else matchFirst (\<lambda>e. matchEntry now e bvSecret remoteIP host powValid captchaValid powDifficulty)
             (take maxVerifyEntries (split (CHR ''~'') value)))"

definition MatchingEntry :: "int \<Rightarrow> string \<Rightarrow> string \<Rightarrow> string \<Rightarrow> string \<Rightarrow> int \<Rightarrow> int \<Rightarrow> int \<Rightarrow> (string \<times> string \<times> int) option" where
  "MatchingEntry now value bvSecret remoteIP host powValid captchaValid powDifficulty =
     map_option (\<lambda>m. (m_entry m, m_kind m, m_issued m))
       (MatchingEntryID now value bvSecret remoteIP host powValid captchaValid powDifficulty)"

definition MatchingEntryKind :: "int \<Rightarrow> string \<Rightarrow> string \<Rightarrow> string \<Rightarrow> string \<Rightarrow> int \<Rightarrow> int \<Rightarrow> int \<Rightarrow> string option" where
  "MatchingEntryKind now value bvSecret remoteIP host powValid captchaValid powDifficulty =
     map_option (\<lambda>(e, k, i). k)
       (MatchingEntry now value bvSecret remoteIP host powValid captchaValid powDifficulty)"

subsection \<open>The roaming list\<close>

fun append_loop :: "nat \<Rightarrow> string \<Rightarrow> string list \<Rightarrow> string list \<Rightarrow> string list" where
  "append_loop mx entry out [] = out"
| "append_loop mx entry out (e # es) =
     (if length out \<ge> mx then out
      else let e' = trim_space e in
        if e' = '''' \<or> e' = entry then append_loop mx entry out es
        else append_loop mx entry (out @ [e']) es)"

definition clampMax :: "int \<Rightarrow> nat" where
  "clampMax mx = (if mx < 1 then 1 else if mx > int maxVerifyEntries then maxVerifyEntries else nat mx)"

definition AppendEntry :: "string \<Rightarrow> string \<Rightarrow> int \<Rightarrow> string" where
  "AppendEntry existing entry mx =
     (let m = clampMax mx; entry = trim_space entry in
      if entry = '''' then existing
      else join (CHR ''~'') (append_loop m entry [entry] (split (CHR ''~'') existing)))"

subsection \<open>The rebind companion\<close>

record JClaims =
  j_issued :: int
  j_ja4 :: string
  j_ua :: string
  j_lineage :: string
  j_asn :: nat
  j_kind :: string

definition JA4Matches :: "JClaims \<Rightarrow> string \<Rightarrow> bool" where
  "JA4Matches c h \<longleftrightarrow> j_ja4 c = h \<or> h \<in> set (split (CHR ''~'') (j_ja4 c))"

definition FingerprintHash :: "string \<Rightarrow> string" where
  "FingerprintHash s = take 12 (hex_encode (sha1 s))"

definition AppendJA4Hash :: "string \<Rightarrow> string \<Rightarrow> int \<Rightarrow> string" where
  "AppendJA4Hash existing h mx =
     (if h = '''' then existing
      else let parts = (if existing \<noteq> '''' then split (CHR ''~'') existing else []) in
        if h \<in> set parts then existing
        else let parts = parts @ [h];
                 parts = (if mx > 0 \<and> int (length parts) > mx then drop (length parts - nat mx) parts else parts)
             in join (CHR ''~'') parts)"

definition NewLineage :: "string option \<Rightarrow> string option" where
  "NewLineage random12 = map_option hex_encode random12"

definition bvj_msg :: "int \<Rightarrow> string \<Rightarrow> string \<Rightarrow> string \<Rightarrow> nat \<Rightarrow> string \<Rightarrow> string \<Rightarrow> string" where
  "bvj_msg issued ja4h uah lineage asn kind host =
     format_int 10 issued @ '':'' @ ja4h @ '':'' @ uah @ '':'' @ lineage @ '':'' @ format_nat 10 asn
       @ '':'' @ kind @ '':'' @ host @ '':bvj''"

definition issueJValueAtH :: "SigHash \<Rightarrow> string \<Rightarrow> string \<Rightarrow> string \<Rightarrow> string \<Rightarrow> nat \<Rightarrow> string \<Rightarrow> string \<Rightarrow> int \<Rightarrow> string" where
  "issueJValueAtH h bvSecret ja4Hash uaHash lineage asn host kind issued =
     (let kind = (if kind = '''' then ''captcha'' else kind);
          sig = take 16 (mac h bvSecret (bvj_msg issued ja4Hash uaHash lineage asn kind host))
      in format_int 10 issued @ ''.'' @ ja4Hash @ ''.'' @ uaHash @ ''.'' @ lineage @ ''.''
           @ format_nat 10 asn @ ''.'' @ kind @ ''.'' @ sig)"

definition IssueJValue :: "int \<Rightarrow> string \<Rightarrow> string \<Rightarrow> string \<Rightarrow> string \<Rightarrow> nat \<Rightarrow> string \<Rightarrow> string \<Rightarrow> string" where
  "IssueJValue now bvSecret ja4Hash uaHash lineage asn host kind =
     issueJValueAtH DefaultSigHash bvSecret ja4Hash uaHash lineage asn host kind now"

definition IssueJValueAt :: "string \<Rightarrow> string \<Rightarrow> string \<Rightarrow> string \<Rightarrow> nat \<Rightarrow> string \<Rightarrow> string \<Rightarrow> int \<Rightarrow> string" where
  "IssueJValueAt bvSecret ja4Hash uaHash lineage asn host kind issued =
     issueJValueAtH DefaultSigHash bvSecret ja4Hash uaHash lineage asn host kind issued"

definition ParseJValue :: "int \<Rightarrow> string \<Rightarrow> string \<Rightarrow> string \<Rightarrow> int \<Rightarrow> JClaims option" where
  "ParseJValue now value bvSecret host validSeconds =
     (if value = '''' then None
      else let parts = split (CHR ''.'') value in
        if length parts \<noteq> 7 then None
        else case parse_int 10 64 (parts ! 0) of None \<Rightarrow> None
          | Some issued \<Rightarrow>
            if \<not> withinWindow now issued validSeconds then None
            else case parse_uint 10 32 (parts ! 4) of None \<Rightarrow> None
              | Some asn \<Rightarrow>
                if list_ex (\<lambda>h. issueJValueAtH h bvSecret (parts ! 1) (parts ! 2) (parts ! 3) asn host (parts ! 5) issued = value)
                     SigHashes
                then Some \<lparr>j_issued = issued, j_ja4 = parts ! 1, j_ua = parts ! 2, j_lineage = parts ! 3,
                           j_asn = asn, j_kind = parts ! 5\<rparr>
                else None)"

section \<open>Lemmas\<close>

lemma length_mac: "40 \<le> length (mac h k m)"
  by (simp add: mac_def)

lemma mac_take_chars: "c \<in> set (take n (mac h k m)) \<Longrightarrow> c \<noteq> CHR ''.'' \<and> c \<noteq> CHR '':'' \<and> c \<noteq> CHR ''~'' \<and> graphic c"
  unfolding mac_def by (rule hex_chars)

lemma length_take_mac [simp]: "n \<le> 40 \<Longrightarrow> length (take n (mac h k m)) = n"
  using length_mac [of h k m] by simp

lemma set_SigHashes [simp]: "set SigHashes = UNIV"
  using SigHash.exhaust by (auto simp: SigHashes_def)

lemma issuedKinds_no_dot:
  "kind \<in> set issuedKinds \<Longrightarrow> kind \<noteq> [] \<and> CHR ''.'' \<notin> set kind \<and> CHR '':'' \<notin> set kind \<and> CHR ''~'' \<notin> set kind"
  by (auto simp: issuedKinds_def)

lemma format10_chars:
  "CHR ''.'' \<notin> set (format_int 10 i)" "CHR '':'' \<notin> set (format_int 10 i)" "CHR ''~'' \<notin> set (format_int 10 i)"
  using format_int_chars [of 10 _ i] by auto

lemma format10_nat_chars:
  "CHR ''.'' \<notin> set (format_nat 10 n)" "CHR '':'' \<notin> set (format_nat 10 n)"
  using format_nat_numeric [of 10 n] numeric_punct by auto

lemma mac_no_dot: "CHR ''.'' \<notin> set (take n (mac h k m))"
  using mac_take_chars by blast

subsection \<open>The shape of an issued entry\<close>

lemma issueValueAtH_join:
  "issueValueAtH h sec ip host kind issued =
     join (CHR ''.'') [format_int 10 issued,
       take 16 (mac h sec (captcha_msg issued (bindIP ip) host (if kind = [] then ''captcha'' else kind))),
       if kind = [] then ''captcha'' else kind]"
  by (simp add: issueValueAtH_def Let_def)

lemma split_issueValueAtH:
  assumes "kind \<noteq> []" and "CHR ''.'' \<notin> set kind"
  shows "split (CHR ''.'') (issueValueAtH h sec ip host kind issued) =
     [format_int 10 issued, take 16 (mac h sec (captcha_msg issued (bindIP ip) host kind)), kind]"
  unfolding issueValueAtH_join using assms
  by (subst split_join) (simp_all add: format10_chars mac_no_dot)

lemma issueValueAtH_not_Nil [simp]: "issueValueAtH h sec ip host kind issued \<noteq> []"
  by (simp add: issueValueAtH_def Let_def)

lemma verifyOne_issued:
  assumes "kind \<in> set issuedKinds" "in64 issued" "withinWindow now issued cv"
  shows "verifyOne now (issueValueAtH h sec ip host kind issued) sec ip host pv cv d"
proof -
  have k: "kind \<noteq> []" "CHR ''.'' \<notin> set kind" using issuedKinds_no_dot [OF assms(1)] by auto
  show ?thesis
    using assms k
    by (simp add: verifyOne_def split_issueValueAtH parse_format_int list_ex_iff) blast
qed

text \<open>
  Exactly which entries the verifier accepts: the ones the daemon issues for this address
  and host, with a kind it signs and inside the window, and the proof-of-work form whose
  proof checks.
\<close>

lemma verifyOne_iff:
  "verifyOne now v sec ip host pv cv d \<longleftrightarrow>
     (\<exists>h kind issued. kind \<in> set issuedKinds \<and> in64 issued \<and> withinWindow now issued cv
        \<and> v = issueValueAtH h sec ip host kind issued)
   \<or> (\<exists>issuedS nonceS flagsS.
        (\<forall>w \<in> {issuedS, nonceS, flagsS}. CHR ''.'' \<notin> set w)
        \<and> v = join (CHR ''.'') [issuedS, ''pow2'', nonceS, flagsS]
        \<and> verifyPowSHA256 now [issuedS, ''pow2'', nonceS, flagsS] sec ip host pv d \<noteq> None)"
    (is "?L \<longleftrightarrow> ?C \<or> ?P")
proof
  assume L: ?L
  let ?parts = "split (CHR ''.'') v"
  show "?C \<or> ?P"
  proof (cases "length ?parts = 4 \<and> ?parts ! 1 = ''pow2''")
    case True
    then have four: "?parts = [?parts ! 0, ''pow2'', ?parts ! 2, ?parts ! 3]"
      by (auto simp: list_eq_iff_nth_eq nth_Cons' less_Suc_eq numeral_eq_Suc)
    have dots: "\<forall>w \<in> set ?parts. CHR ''.'' \<notin> set w" using split_mem_no_sep by blast
    have v: "v = join (CHR ''.'') [?parts ! 0, ''pow2'', ?parts ! 2, ?parts ! 3]"
      using four by (metis join_split)
    from L True have "verifyPowSHA256 now ?parts sec ip host pv d \<noteq> None"
      by (simp add: verifyOne_def Let_def split: if_splits)
    then have pow: "verifyPowSHA256 now [?parts ! 0, ''pow2'', ?parts ! 2, ?parts ! 3] sec ip host pv d \<noteq> None"
      using four by simp
    have nd: "\<forall>w \<in> {?parts ! 0, ?parts ! 2, ?parts ! 3}. CHR ''.'' \<notin> set w"
      using dots True by simp
    from nd v pow have ?P by blast
    then show ?thesis ..
  next
    case False
    with L obtain issued h where "parse_int 10 64 (?parts ! 0) = Some issued"
      and "?parts ! 2 \<in> set issuedKinds" and "withinWindow now issued cv"
      and "issueValueAtH h sec ip host (?parts ! 2) issued = v"
      by (auto simp: verifyOne_def Let_def list_ex_iff split: if_splits option.splits)
    then have ?C using parse_int_in64 by metis
    then show ?thesis ..
  qed
next
  assume "?C \<or> ?P"
  then show ?L
  proof
    assume ?C
    then show ?L using verifyOne_issued by blast
  next
    assume ?P
    then obtain i n f where p: "\<forall>w \<in> {i, n, f}. CHR ''.'' \<notin> set w"
      "v = join (CHR ''.'') [i, ''pow2'', n, f]"
      "verifyPowSHA256 now [i, ''pow2'', n, f] sec ip host pv d \<noteq> None" by blast
    then have "split (CHR ''.'') v = [i, ''pow2'', n, f]"
      by (simp only: p(2)) (subst split_join, auto)
    moreover have "v \<noteq> []" using p(2) by simp
    ultimately show ?L using p(3) by (simp add: verifyOne_def)
  qed
qed

subsection \<open>Matching agrees with verifying\<close>

lemma matchFirst_Some_iff:
  "(\<exists>m. matchFirst f es = Some m) \<longleftrightarrow> list_ex (\<lambda>e. f e \<noteq> None) es"
  by (induction es) (auto split: option.splits)

lemma matchFirst_mem: "matchFirst f es = Some m \<Longrightarrow> \<exists>e \<in> set es. f e = Some m"
  by (induction es) (auto split: option.splits)

lemma matchEntry_iff_verifyOne:
  "matchEntry now e sec ip host pv cv d \<noteq> None \<longleftrightarrow> verifyOne now e sec ip host pv cv d"
  by (auto simp: matchEntry_def verifyOne_def Let_def split: option.splits if_splits)

lemma verifyPowSHA256_seed:
  "verifyPowSHA256 now parts sec ip host pv d = Some seed \<Longrightarrow>
     \<exists>h issued. parse_int 10 64 (parts ! 0) = Some issued \<and> seed = PowSeedH h sec ip host issued"
  by (auto simp: verifyPowSHA256_def Let_def SigHashes_def split: option.splits if_splits
      dest!: find_Some_iff2)

lemma length_PowSeedH [simp]: "length (PowSeedH h sec ip host issued) = 40"
  unfolding PowSeedH_def by (rule length_take_mac) simp

lemma issueValueAtH_chars:
  assumes "kind \<in> set issuedKinds" "c \<in> set (issueValueAtH h sec ip host kind issued)"
  shows "c \<noteq> CHR ''~'' \<and> graphic c"
  using assms mac_take_chars format_int_chars [of 10 c issued]
  by (auto simp: issueValueAtH_def Let_def issuedKinds_def graphic_def split: if_splits) blast+

text \<open>A freshly issued entry, alone in the cookie, matches with its own kind.\<close>

lemma MatchingEntryKind_of_issued:
  assumes "kind \<in> set issuedKinds" "in64 issued" "withinWindow now issued cv"
  shows "MatchingEntryKind now (issueValueAtH h sec ip host kind issued) sec ip host pv cv d = Some kind"
proof -
  let ?e = "issueValueAtH h sec ip host kind issued"
  have k: "kind \<noteq> []" "CHR ''.'' \<notin> set kind" using issuedKinds_no_dot [OF assms(1)] by auto
  have "split (CHR ''~'') ?e = [?e]"
    using issueValueAtH_chars [OF assms(1)] by (intro split_no_sep) blast
  moreover have "matchEntry now ?e sec ip host pv cv d
      = Some \<lparr>m_entry = ?e, m_kind = kind, m_id = take 16 (mac h sec (captcha_msg issued (bindIP ip) host kind)), m_issued = issued\<rparr>"
    using verifyOne_issued [OF assms] assms(2) by (simp add: matchEntry_def split_issueValueAtH [OF k] parse_format_int)
  ultimately show ?thesis
    by (simp add: MatchingEntryKind_def MatchingEntry_def MatchingEntryID_def maxVerifyEntries_def)
qed

text \<open>A match of a signed kind is an entry issued under the secret for that kind.\<close>

lemma matchEntry_issued:
  assumes "matchEntry now e sec ip host pv cv d = Some m" "m_kind m \<noteq> ''pow2''"
  shows "\<exists>h issued. in64 issued \<and> withinWindow now issued cv \<and> e = issueValueAtH h sec ip host (m_kind m) issued"
proof -
  have no_pow: "\<not> (length (split (CHR ''.'') e) = 4 \<and> split (CHR ''.'') e ! 1 = ''pow2'')"
    and v: "verifyOne now e sec ip host pv cv d" and k: "m_kind m = split (CHR ''.'') e ! 2"
    using assms by (auto simp: matchEntry_def Let_def split: option.splits if_splits)
  from v no_pow obtain h issued where "withinWindow now issued cv" "parse_int 10 64 (split (CHR ''.'') e ! 0) = Some issued"
    and "issueValueAtH h sec ip host (split (CHR ''.'') e ! 2) issued = e"
    by (auto simp: verifyOne_def Let_def list_ex_iff split: if_splits option.splits)
  with k parse_int_in64 show ?thesis by metis
qed

lemma MatchingEntryKind_issued:
  assumes "MatchingEntryKind now value sec ip host pv cv d = Some kind" "kind \<noteq> ''pow2''"
  shows "\<exists>h issued. in64 issued \<and> withinWindow now issued cv
           \<and> issueValueAtH h sec ip host kind issued \<in> set (split (CHR ''~'') value)"
proof -
  obtain m where m: "MatchingEntryID now value sec ip host pv cv d = Some m" "m_kind m = kind"
    using assms(1) by (auto simp: MatchingEntryKind_def MatchingEntry_def)
  then obtain e where e: "e \<in> set (take maxVerifyEntries (split (CHR ''~'') value))" "matchEntry now e sec ip host pv cv d = Some m"
    by (auto simp: MatchingEntryID_def split: if_splits dest!: matchFirst_mem)
  from matchEntry_issued [OF e(2)] assms(2) m(2) in_set_takeD [OF e(1)] show ?thesis by auto
qed

lemma matchEntry_id_length:
  assumes "matchEntry now e sec ip host pv cv d = Some m"
  shows "length (m_id m) = PassIDLen"
proof (cases "length (split (CHR ''.'') e) = 4 \<and> split (CHR ''.'') e ! 1 = ''pow2''")
  case True
  with assms obtain seed where "verifyPowSHA256 now (split (CHR ''.'') e) sec ip host pv d = Some seed"
    and "m_id m = take PassIDLen seed"
    by (auto simp: matchEntry_def Let_def split: option.splits)
  then show ?thesis using verifyPowSHA256_seed by (fastforce simp: PassIDLen_def)
next
  case False
  with assms have v: "verifyOne now e sec ip host pv cv d" and m: "m_id m = split (CHR ''.'') e ! 1"
    by (auto simp: matchEntry_def Let_def split: option.splits if_splits)
  let ?kind = "split (CHR ''.'') e ! 2"
  from v False obtain h issued where k: "?kind \<in> set issuedKinds"
    and e: "issueValueAtH h sec ip host ?kind issued = e"
    by (auto simp: verifyOne_def Let_def list_ex_iff split: if_splits option.splits)
  have "split (CHR ''.'') e = [format_int 10 issued, take 16 (mac h sec (captcha_msg issued (bindIP ip) host ?kind)), ?kind]"
    using split_issueValueAtH [of ?kind h sec ip host issued] issuedKinds_no_dot [OF k] e by simp
  then have eq: "split (CHR ''.'') e ! 1 = take 16 (mac h sec (captcha_msg issued (bindIP ip) host ?kind))"
    by (metis One_nat_def nth_Cons_0 nth_Cons_Suc)
  have "length (take 16 (mac h sec (captcha_msg issued (bindIP ip) host ?kind))) = 16"
    by (rule length_take_mac) simp
  then show ?thesis unfolding m PassIDLen_def eq .
qed

subsection \<open>Message separation\<close>

lemma split_append_all: "split c (s @ c # w) = split c s @ split c w"
  by (induction s) (auto split: list.splits)

lemma last_split_append: "c \<notin> set w \<Longrightarrow> last (split c (s @ c # w)) = w"
  by (simp add: split_append_all split_no_sep)

lemma last_captcha_msg: "CHR '':'' \<notin> set kind \<Longrightarrow> last (split (CHR '':'') (captcha_msg t ip host kind)) = kind"
  using last_split_append [of "CHR '':''" kind "format_int 10 t @ '':'' @ ip @ '':'' @ host"]
  by (simp add: captcha_msg_def)

lemma last_powseed_msg: "last (split (CHR '':'') (powseed_msg t ip host)) = ''pow_seed''"
  using last_split_append [of "CHR '':''" "''pow_seed''" "format_int 10 t @ '':'' @ ip @ '':'' @ host"]
  by (simp add: powseed_msg_def)

lemma last_bvj_msg: "last (split (CHR '':'') (bvj_msg t j u l a k host)) = ''bvj''"
  using last_split_append [of "CHR '':''" "''bvj''"
      "format_int 10 t @ '':'' @ j @ '':'' @ u @ '':'' @ l @ '':'' @ format_nat 10 a @ '':'' @ k @ '':'' @ host"]
  by (simp add: bvj_msg_def)


subsection \<open>Leading zero bits\<close>

text \<open>The number a digest spells, most significant byte first.\<close>

definition be_value :: "string \<Rightarrow> nat" where
  "be_value b = foldl (\<lambda>a c. a * 256 + of_char c) 0 b"

lemma be_value_acc: "foldl (\<lambda>a c. a * 256 + of_char c) a b = a * 256 ^ length b + be_value b"
proof (induction b arbitrary: a)
  case (Cons c b)
  show ?case
    using Cons [of "a * 256 + of_char c"] Cons [of "of_char c"]
    by (simp add: be_value_def algebra_simps)
qed (simp add: be_value_def)

lemma be_value_Cons: "be_value (c # b) = of_char c * 256 ^ length b + be_value b"
  using be_value_acc [of "of_char c" b] by (simp add: be_value_def)

lemma be_value_bound: "be_value b < 256 ^ length b"
proof (induction b)
  case (Cons c b)
  have "of_char c * 256 ^ length b \<le> 255 * (256 :: nat) ^ length b"
    using nat_of_char_less_256 [of c] by (intro mult_right_mono) linarith+
  with Cons have "be_value (c # b) < 256 * 256 ^ length b" unfolding be_value_Cons by linarith
  then show ?case by simp
qed (simp add: be_value_def)

lemma scan_mask_shift: "scan_mask m v (k + bits) = k + scan_mask m v bits"
proof (induction m v bits rule: scan_mask.induct)
  case (1 m v bits)
  then show ?case by (simp add: scan_mask.simps [of m v "k + bits"] scan_mask.simps [of m v bits])
qed

lemma leadingZeroBits_from_shift: "leadingZeroBits_from k b = k + leadingZeroBits_from 0 b"
proof (induction b arbitrary: k)
  case (Cons v vs)
  show ?case using Cons [of "k + 8"] Cons [of 8] scan_mask_shift [of 128 "of_char v" k 0] by simp
qed simp

lemma and_power_eq_0_iff: "v < 2 ^ Suc k \<Longrightarrow> and v (2 ^ k) = 0 \<longleftrightarrow> v < (2 :: nat) ^ k"
proof -
  assume "v < 2 ^ Suc k"
  then have "v div 2 ^ k < 2" by (simp add: div_less_iff_less_mult)
  then have "odd (v div 2 ^ k) \<longleftrightarrow> v div 2 ^ k \<noteq> 0" by (auto simp: less_2_cases_iff)
  then show ?thesis by (simp add: and_exp_eq_0_iff_not_bit bit_iff_odd div_eq_0_iff)
qed

lemma scan_mask_power:
  "v < 2 ^ Suc k \<Longrightarrow> d \<le> Suc k \<Longrightarrow> d \<le> scan_mask (2 ^ k) v 0 \<longleftrightarrow> v < 2 ^ (Suc k - d)"
proof (induction k arbitrary: d)
  case 0
  then show ?case by (auto simp: scan_mask.simps [of "Suc 0"] scan_mask.simps [of 0] and_power_eq_0_iff [of v 0, simplified] le_Suc_eq)
next
  case (Suc k)
  show ?case
  proof (cases "v < 2 ^ Suc k")
    case True
    then have "scan_mask (2 ^ Suc k) v 0 = 1 + scan_mask (2 ^ k) v 0"
      using scan_mask_shift [of "2 ^ k" v 1 0] Suc.prems(1)
      by (simp add: scan_mask.simps [of "2 * 2 ^ k"] and_power_eq_0_iff [of v "Suc k", simplified])
    then show ?thesis using Suc.IH [OF True] True Suc.prems(2) by (cases d) auto
  next
    case False
    then have "scan_mask (2 ^ Suc k) v 0 = 0"
      using Suc.prems(1) by (simp add: scan_mask.simps [of "2 * 2 ^ k"] and_power_eq_0_iff [of v "Suc k", simplified])
    moreover have "\<not> v < 2 ^ (Suc (Suc k) - d)" if "d > 0"
      using False that power_increasing [of "Suc (Suc k) - d" "Suc k" "2 :: nat"] by linarith
    ultimately show ?thesis using Suc.prems(1) by (cases d) auto
  qed
qed

lemma scan_mask_byte: "v < 256 \<Longrightarrow> d \<le> 8 \<Longrightarrow> d \<le> scan_mask 128 v 0 \<longleftrightarrow> v < 2 ^ (8 - d)"
  using scan_mask_power [of v 7 d] by simp

lemma le_leadingZeroBits_iff:
  "d \<le> 8 * length b \<Longrightarrow> d \<le> leadingZeroBits_from 0 b \<longleftrightarrow> be_value b < 2 ^ (8 * length b - d)"
proof (induction b arbitrary: d)
  case (Cons c b)
  let ?v = "of_char c :: nat" and ?n = "length b"
  have P: "(256 :: nat) ^ ?n = 2 ^ (8 * ?n)" by (simp add: power_mult)
  have v: "?v < 256" by (rule nat_of_char_less_256)
  have r: "be_value b < 2 ^ (8 * ?n)" using be_value_bound [of b] P by simp
  show ?case
  proof (cases "d \<le> 8")
    case True
    then have "8 * length (c # b) - d = (8 - d) + 8 * ?n" by simp
    then have e: "(2::nat) ^ (8 * length (c # b) - d) = 2 ^ (8 - d) * 2 ^ (8 * ?n)" by (simp add: power_add)
    have "be_value (c # b) < 2 ^ (8 - d) * 2 ^ (8 * ?n) \<longleftrightarrow> ?v < 2 ^ (8 - d)"
    proof
      assume "be_value (c # b) < 2 ^ (8 - d) * 2 ^ (8 * ?n)"
      then have "?v * 2 ^ (8 * ?n) < 2 ^ (8 - d) * 2 ^ (8 * ?n)" unfolding be_value_Cons P by linarith
      then show "?v < 2 ^ (8 - d)" by simp
    next
      assume "?v < 2 ^ (8 - d)"
      then have "(?v + 1) * 2 ^ (8 * ?n) \<le> 2 ^ (8 - d) * 2 ^ (8 * ?n)" by (intro mult_right_mono) auto
      then show "be_value (c # b) < 2 ^ (8 - d) * 2 ^ (8 * ?n)" using r by (simp add: be_value_Cons P)
    qed
    moreover have "d \<le> leadingZeroBits_from 0 (c # b) \<longleftrightarrow> ?v < 2 ^ (8 - d)"
    proof (cases "?v = 0")
      case True
      then show ?thesis using \<open>d \<le> 8\<close> leadingZeroBits_from_shift [of 8 b] by simp
    next
      case False
      then show ?thesis using scan_mask_byte v \<open>d \<le> 8\<close> by simp
    qed
    ultimately show ?thesis unfolding e by simp
  next
    case False
    show ?thesis
    proof (cases "?v = 0")
      case True
      have "8 * length (c # b) - d = 8 * ?n - (d - 8)" using False by simp
      then show ?thesis
        using False True Cons.IH [of "d - 8"] Cons.prems leadingZeroBits_from_shift [of 8 b]
        by (simp add: be_value_Cons le_diff_conv add.commute)
    next
      case v0: False
      then have "\<not> 8 \<le> scan_mask 128 ?v 0" using scan_mask_byte [of ?v 8] v by simp
      moreover have "(2::nat) ^ (8 * length (c # b) - d) \<le> 2 ^ (8 * ?n)"
        using False by (intro power_increasing) auto
      moreover have "1 * 2 ^ (8 * ?n) \<le> ?v * 2 ^ (8 * ?n)" using v0 by (intro mult_right_mono) auto
      then have "2 ^ (8 * ?n) \<le> be_value (c # b)" unfolding be_value_Cons P by linarith
      ultimately have "\<not> be_value (c # b) < 2 ^ (8 * length (c # b) - d)" by linarith
      with \<open>\<not> 8 \<le> scan_mask 128 ?v 0\<close> show ?thesis using False v0 by simp
    qed
  qed
qed (simp add: be_value_def)

subsection \<open>The roaming list\<close>

lemma length_append_loop: "length out \<le> mx \<Longrightarrow> length (append_loop mx entry out es) \<le> mx"
  by (induction mx entry out es rule: append_loop.induct) (auto simp: Let_def)

lemma append_loop_spec:
  "length out \<le> mx \<Longrightarrow>
   append_loop mx entry out es =
     take mx (out @ filter (\<lambda>e. e \<noteq> [] \<and> e \<noteq> entry) (map trim_space es))"
  by (induction mx entry out es rule: append_loop.induct) (auto simp: Let_def)

lemma clampMax_bounds: "1 \<le> clampMax mx \<and> clampMax mx \<le> maxVerifyEntries"
  by (auto simp: clampMax_def maxVerifyEntries_def)

lemma trim_space_sub: "c \<notin> set s \<Longrightarrow> c \<notin> set (trim_space s)"
  using set_trim_space by blast

text \<open>The entries a browser holds after \<open>AppendEntry\<close>, read back by the verifier.\<close>

lemma split_AppendEntry:
  assumes "trim_space entry \<noteq> []" "CHR ''~'' \<notin> set entry"
  shows "split (CHR ''~'') (AppendEntry existing entry mx) =
     take (clampMax mx) (trim_space entry #
       filter (\<lambda>e. e \<noteq> [] \<and> e \<noteq> trim_space entry) (map trim_space (split (CHR ''~'') existing)))"
proof -
  let ?L = "append_loop (clampMax mx) (trim_space entry) [trim_space entry] (split (CHR ''~'') existing)"
  have L: "?L = take (clampMax mx) (trim_space entry #
       filter (\<lambda>e. e \<noteq> [] \<and> e \<noteq> trim_space entry) (map trim_space (split (CHR ''~'') existing)))"
    using clampMax_bounds [of mx] by (subst append_loop_spec) auto
  have ne: "?L \<noteq> []" unfolding L using clampMax_bounds [of mx] by simp
  have "CHR ''~'' \<notin> set w" if "w \<in> set ?L" for w
    using that split_mem_no_sep [of _ "CHR ''~''" existing] trim_space_sub assms(2) unfolding L
    by (fastforce dest!: in_set_takeD)
  then have "split (CHR ''~'') (join (CHR ''~'') ?L) = ?L" using ne by (intro split_join) auto
  then show ?thesis using assms(1) by (simp add: AppendEntry_def Let_def L)
qed

subsection \<open>The rebind companion is a signed token\<close>

definition sign_j :: "string \<Rightarrow> string \<Rightarrow> SigHash \<Rightarrow> JClaims \<Rightarrow> string" where
  "sign_j sec host h c = issueJValueAtH h sec (j_ja4 c) (j_ua c) (j_lineage c) (j_asn c) host (j_kind c) (j_issued c)"

definition admissible_j :: "int \<Rightarrow> int \<Rightarrow> JClaims \<Rightarrow> bool" where
  "admissible_j now valid c \<longleftrightarrow>
     in64 (j_issued c) \<and> withinWindow now (j_issued c) valid \<and> j_asn c < 2 ^ 32 \<and> j_kind c \<noteq> []
     \<and> dotless (j_ja4 c) \<and> dotless (j_ua c) \<and> dotless (j_lineage c) \<and> dotless (j_kind c)"

lemma issueJValueAtH_join:
  "issueJValueAtH h sec ja4 ua lin asn host kind issued =
     (let k = if kind = [] then ''captcha'' else kind in
      join (CHR ''.'') [format_int 10 issued, ja4, ua, lin, format_nat 10 asn, k,
        take 16 (mac h sec (bvj_msg issued ja4 ua lin asn k host))])"
  by (simp add: issueJValueAtH_def Let_def)

lemma issueJ_default:
  "issueJValueAtH h sec ja4 ua lin asn host [] i = issueJValueAtH h sec ja4 ua lin asn host ''captcha'' i"
  by (simp add: issueJValueAtH_def)

lemma split_issueJ:
  assumes "dotless ja4" "dotless ua" "dotless lin" "dotless kind" "kind \<noteq> []"
  shows "split (CHR ''.'') (issueJValueAtH h sec ja4 ua lin asn host kind issued) =
     [format_int 10 issued, ja4, ua, lin, format_nat 10 asn, kind,
      take 16 (mac h sec (bvj_msg issued ja4 ua lin asn kind host))]"
  unfolding issueJValueAtH_join Let_def using assms
  by (subst split_join) (auto simp: dotless_def format10_chars format10_nat_chars mac_no_dot)

lemma ParseJValue_sign:
  assumes "admissible_j now valid c"
  shows "ParseJValue now (sign_j sec host h c) sec host valid = Some c"
proof -
  have "sign_j sec host h c \<noteq> []" by (simp add: sign_j_def issueJValueAtH_def Let_def)
  moreover have "list_ex (\<lambda>h'. sign_j sec host h' c = sign_j sec host h c) SigHashes"
    by (auto simp: list_ex_iff)
  ultimately show ?thesis
    using assms
    by (simp add: ParseJValue_def sign_j_def admissible_j_def split_issueJ parse_format_int parse_uint_format)
qed

lemma ParseJValue_Some:
  assumes "ParseJValue now v sec host valid = Some c"
  shows "admissible_j now valid c \<and> (\<exists>h. v = sign_j sec host h c)"
proof -
  let ?p = "split (CHR ''.'') v"
  note P = assms [unfolded ParseJValue_def Let_def]
  have ne: "v \<noteq> []" by (rule notI) (use P in simp)
  have l: "length ?p = 7" by (rule ccontr) (use P ne in simp)
  obtain i0 where i0: "parse_int 10 64 (?p ! 0) = Some i0"
    using P ne l by (cases "parse_int 10 64 (?p ! 0)") simp_all
  have w0: "withinWindow now i0 valid" by (rule ccontr) (use P ne l i0 in simp)
  obtain a0 where a0: "parse_uint 10 32 (?p ! 4) = Some a0"
    using P ne l i0 w0 by (cases "parse_uint 10 32 (?p ! 4)") simp_all
  let ?ex = "list_ex (\<lambda>h. issueJValueAtH h sec (?p ! 1) (?p ! 2) (?p ! 3) a0 host (?p ! 5) i0 = v) SigHashes"
  let ?c = "\<lparr>j_issued = i0, j_ja4 = ?p ! 1, j_ua = ?p ! 2, j_lineage = ?p ! 3, j_asn = a0, j_kind = ?p ! 5\<rparr>"
  have "(if ?ex then Some ?c else None) = Some c"
    using P unfolding if_not_P [OF ne] l i0 option.case a0 by (simp only: w0 if_False if_True not_True_eq_False simp_thms)
  then have ex: ?ex and c: "c = ?c" by (metis option.discI option.inject)+
  from ex obtain h where v0: "issueJValueAtH h sec (?p ! 1) (?p ! 2) (?p ! 3) a0 host (?p ! 5) i0 = v"
    unfolding list_ex_iff by blast
  have i: "parse_int 10 64 (?p ! 0) = Some (j_issued c)" and w: "withinWindow now (j_issued c) valid"
    and a: "parse_uint 10 32 (?p ! 4) = Some (j_asn c)"
    and f: "j_ja4 c = ?p ! 1" "j_ua c = ?p ! 2" "j_lineage c = ?p ! 3" "j_kind c = ?p ! 5"
    using i0 w0 a0 c by simp_all
  have v: "v = sign_j sec host h c" using v0 unfolding sign_j_def c by simp
  have d: "dotless (?p ! n)" if "n < 7" for n
    using that l split_mem_no_sep [of "?p ! n"] unfolding dotless_def by (metis nth_mem)
  have "j_kind c \<noteq> []"
  proof
    assume k: "j_kind c = []"
    have dl: "dotless (j_ja4 c)" "dotless (j_ua c)" "dotless (j_lineage c)" "dotless ''captcha''"
      using d [of 1] d [of 2] d [of 3] unfolding f by (simp_all add: dotless_def)
    have "v = issueJValueAtH h sec (j_ja4 c) (j_ua c) (j_lineage c) (j_asn c) host ''captcha'' (j_issued c)"
      using v unfolding sign_j_def k issueJ_default .
    then have "?p ! 5 = ''captcha''" by (simp add: split_issueJ [OF dl])
    then show False using k f by simp
  qed
  then show ?thesis
    using w v f d [of 1] d [of 2] d [of 3] d [of 5] parse_int_in64 [OF i] parse_uint_bound [OF a]
    unfolding admissible_j_def by auto
qed

interpretation bvj: signed_token "sign_j sec host" "\<lambda>h c. True" "\<lambda>v. ParseJValue now v sec host valid" "admissible_j now valid"
  for sec host now valid
  by unfold_locales (use ParseJValue_Some ParseJValue_sign in blast)

section \<open>Properties\<close>


lemma verifyPowSHA256_iff:
  "verifyPowSHA256 now parts sec ip host pv d \<noteq> None \<longleftrightarrow>
     (\<exists>issued nonce h. parse_int 10 64 (parts ! 0) = Some issued \<and> withinWindow now issued pv
        \<and> parse_int 36 64 (parts ! 2) = Some nonce \<and> 0 \<le> nonce
        \<and> powDifficultyClamped d \<le> int (leadingZeroBits (sha256 (PowSeedH h sec ip host issued @ '':'' @ format_int 10 nonce))))"
  by (simp add: verifyPowSHA256_def Let_def find_ex_iff split: option.splits)

definition captcha_entry :: "int \<Rightarrow> string \<Rightarrow> string \<Rightarrow> string \<Rightarrow> int \<Rightarrow> string \<Rightarrow> bool" where
  "captcha_entry now sec ip host cv e \<longleftrightarrow>
     (\<exists>h kind issued. kind \<in> set issuedKinds \<and> in64 issued \<and> withinWindow now issued cv
        \<and> e = issueValueAtH h sec ip host kind issued)"

definition pow_entry :: "int \<Rightarrow> string \<Rightarrow> string \<Rightarrow> string \<Rightarrow> int \<Rightarrow> int \<Rightarrow> string \<Rightarrow> bool" where
  "pow_entry now sec ip host pv d e \<longleftrightarrow>
     (\<exists>issuedS nonceS flagsS issued nonce h.
        CHR ''.'' \<notin> set (issuedS @ nonceS @ flagsS)
        \<and> e = join (CHR ''.'') [issuedS, ''pow2'', nonceS, flagsS]
        \<and> parse_int 10 64 issuedS = Some issued \<and> withinWindow now issued pv
        \<and> parse_int 36 64 nonceS = Some nonce \<and> 0 \<le> nonce
        \<and> powDifficultyClamped d \<le> int (leadingZeroBits (sha256 (PowSeedH h sec ip host issued @ '':'' @ format_int 10 nonce))))"

lemma verifyOne_entries:
  "verifyOne now e sec ip host pv cv d \<longleftrightarrow> captcha_entry now sec ip host cv e \<or> pow_entry now sec ip host pv d e"
proof -
  have "(\<exists>a b c. (\<forall>w \<in> {a, b, c}. CHR ''.'' \<notin> set w) \<and> e = join (CHR ''.'') [a, ''pow2'', b, c]
        \<and> verifyPowSHA256 now [a, ''pow2'', b, c] sec ip host pv d \<noteq> None) \<longleftrightarrow> pow_entry now sec ip host pv d e"
    unfolding pow_entry_def verifyPowSHA256_iff by simp
  then show ?thesis unfolding verifyOne_iff captcha_entry_def by blast
qed

text \<open>
  C2: the cookie gate accepts a \<open>_bv\<close> value exactly when one of its first sixteen
  \<open>~\<close>-separated entries is byte for byte an entry the daemon issues for this secret,
  address and host (with a kind it signs, inside the CAPTCHA window), or a proof-of-work
  entry whose nonce reaches the difficulty over this client's seed inside its window.
\<close>

theorem Verify_accepts_exactly:
  "Verify now value sec ip host pv cv d \<longleftrightarrow>
     (\<exists>e. e \<in> set (take 16 (split (CHR ''~'') value))
        \<and> (captcha_entry now sec ip host cv e \<or> pow_entry now sec ip host pv d e))"
proof (cases "value = []")
  case True
  have "\<not> verifyOne now [] sec ip host pv cv d" by (simp add: verifyOne_def)
  then show ?thesis using True by (simp add: Verify_def verifyOne_entries)
next
  case False
  then show ?thesis by (auto simp: Verify_def list_ex_iff verifyOne_entries maxVerifyEntries_def)
qed

text \<open>
  the matcher used by the auth check agrees with the verifier: it finds an entry
  exactly when \<open>Verify\<close> accepts, the entry it returns is one of the value's entries and
  verifies on its own, and the pass identity it reports always has 16 characters.
\<close>

lemma MatchingEntryID_agrees:
  "(MatchingEntryID now value sec ip host pv cv d = None \<longleftrightarrow> \<not> Verify now value sec ip host pv cv d)
   \<and> (\<forall>m. MatchingEntryID now value sec ip host pv cv d = Some m \<longrightarrow>
        m_entry m \<in> set (split (CHR ''~'') value) \<and> length (m_id m) = 16
        \<and> verifyOne now (m_entry m) sec ip host pv cv d)"
proof -
  let ?es = "take maxVerifyEntries (split (CHR ''~'') value)"
  let ?f = "\<lambda>e. matchEntry now e sec ip host pv cv d"
  have "m_entry m \<in> set (split (CHR ''~'') value) \<and> length (m_id m) = 16 \<and> verifyOne now (m_entry m) sec ip host pv cv d"
    if "matchFirst ?f ?es = Some m" for m
  proof -
    from matchFirst_mem [OF that] obtain e where e: "e \<in> set ?es" "?f e = Some m" by blast
    then have "m_entry m = e" by (auto simp: matchEntry_def Let_def split: option.splits if_splits)
    then show ?thesis
      using e in_set_takeD [OF e(1)] matchEntry_id_length [OF e(2)] matchEntry_iff_verifyOne [of now e sec ip host pv cv d]
      by (simp add: PassIDLen_def)
  qed
  moreover have "matchFirst ?f ?es = None \<longleftrightarrow> \<not> list_ex (\<lambda>e. verifyOne now e sec ip host pv cv d) ?es"
    using matchFirst_Some_iff [of ?f ?es] unfolding matchEntry_iff_verifyOne by (metis not_None_eq)
  ultimately show ?thesis by (simp add: MatchingEntryID_def Verify_def)
qed

text \<open>
  issuing, appending and verifying compose: whatever list the browser already holds and
  whatever cap the administrator sets, the value after \<open>AppendEntry\<close> of a freshly issued
  entry verifies for the address and host it was issued to, as long as the entry is inside
  its window.
\<close>

lemma issued_entry_verifies:
  assumes "kind \<in> set issuedKinds" "in64 issued" "withinWindow now issued cv"
  shows "Verify now (AppendEntry existing (issueValueAtH h sec ip host kind issued) mx) sec ip host pv cv d"
proof -
  let ?e = "issueValueAtH h sec ip host kind issued"
  have g: "c \<noteq> CHR ''~'' \<and> graphic c" if "c \<in> set ?e" for c
    using issueValueAtH_chars [OF assms(1) that] .
  then have t: "trim_space ?e = ?e" by (intro trim_space_graphic) blast
  have "split (CHR ''~'') (AppendEntry existing ?e mx) =
     take (clampMax mx) (?e # filter (\<lambda>e. e \<noteq> [] \<and> e \<noteq> ?e) (map trim_space (split (CHR ''~'') existing)))"
    using split_AppendEntry [of ?e existing mx] g unfolding t by auto
  moreover have "1 \<le> clampMax mx" using clampMax_bounds by blast
  ultimately have m: "?e \<in> set (take maxVerifyEntries (split (CHR ''~'') (AppendEntry existing ?e mx)))"
    by (cases "clampMax mx") (auto simp: maxVerifyEntries_def numeral_eq_Suc)
  have "AppendEntry existing ?e mx \<noteq> []"
  proof
    assume n: "AppendEntry existing ?e mx = []"
    show False using m unfolding n by (simp add: maxVerifyEntries_def)
  qed
  then show ?thesis
    using m verifyOne_issued [OF assms, of h sec ip host pv d] by (auto simp: Verify_def list_ex_iff)
qed



text \<open>
  the secret signs three families of messages (pass entries, proof-of-work seeds,
  rebind companions) and no message belongs to two of them, so a value the daemon hands
  out for one purpose never verifies as another.
\<close>

lemma mac_inputs_disjoint:
  "kind \<in> set issuedKinds \<Longrightarrow>
     captcha_msg t ip host kind \<noteq> powseed_msg t' ip' host'
     \<and> captcha_msg t ip host kind \<noteq> bvj_msg i j u l a k host'
     \<and> powseed_msg t' ip' host' \<noteq> bvj_msg i j u l a k host"
proof -
  let ?l = "\<lambda>m. last (split (CHR '':'') m)"
  assume k: "kind \<in> set issuedKinds"
  then have "kind \<noteq> ''pow_seed''" "kind \<noteq> ''bvj''" by (auto simp: issuedKinds_def)
  moreover have "?l (captcha_msg t ip host kind) = kind" using issuedKinds_no_dot [OF k] by (simp add: last_captcha_msg)
  moreover have "''pow_seed'' \<noteq> ''bvj''" by simp
  ultimately show ?thesis by (metis last_powseed_msg last_bvj_msg)
qed

text \<open>
  a pass is bound to an IPv6 client's /64: two textual IPv6 addresses get the same
  bind token exactly when their first eight bytes agree, while an IPv4 address is bound as
  written.
\<close>

lemma bindIP_by_64:
  "parse_ip a = Some x \<Longrightarrow> parse_ip b = Some y \<Longrightarrow> to4 x = None \<Longrightarrow> to4 y = None \<Longrightarrow>
     bindIP a = bindIP b \<longleftrightarrow> take 8 x = take 8 y"
  using parse_ip_bytes [of a x] parse_ip_bytes [of b y]
  by (subst map_char_of_inj [symmetric]) (auto simp: bindIP_def hex_inj dest: in_set_takeD)

text \<open>
  \<open>AppendEntry\<close> keeps the newest entry first, then the browser's other entries in
  their order, trimmed, without empties or a copy of the new one, cut at the cap clamped
  to 1..16.
\<close>

lemma AppendEntry_list:
  "trim_space entry \<noteq> [] \<Longrightarrow> CHR ''~'' \<notin> set entry \<Longrightarrow>
   split (CHR ''~'') (AppendEntry existing entry mx) =
     take (clampMax mx) (trim_space entry #
       filter (\<lambda>e. e \<noteq> [] \<and> e \<noteq> trim_space entry) (map trim_space (split (CHR ''~'') existing)))"
  by (rule split_AppendEntry)

text \<open>
  the rebind companion round-trips: \<open>ParseJValue\<close> returns exactly the claims of the
  values \<open>issueJValueAtH\<close> prints for this host under either hash, for claims inside the
  window whose fields have no dot; every other text is refused.
\<close>

lemma ParseJValue_accepts_exactly:
  "ParseJValue now v sec host valid = Some c \<longleftrightarrow>
     in64 (j_issued c) \<and> withinWindow now (j_issued c) valid \<and> j_asn c < 2 ^ 32 \<and> j_kind c \<noteq> []
     \<and> CHR ''.'' \<notin> set (j_ja4 c @ j_ua c @ j_lineage c @ j_kind c)
     \<and> (\<exists>h. v = issueJValueAtH h sec (j_ja4 c) (j_ua c) (j_lineage c) (j_asn c) host (j_kind c) (j_issued c))"
  unfolding bvj.accept_iff by (auto simp: admissible_j_def sign_j_def dotless_def)

text \<open>
  the proof-of-work test is a numeric bound: a digest has at least \<open>d\<close> leading zero
  bits, as \<open>leadingZeroBits\<close> counts them byte by byte and then by mask, exactly when the
  number it spells is below \<open>2 ^ (8 * n - d)\<close>.
\<close>

lemma leadingZeroBits_value:
  "d \<le> 8 * length b \<Longrightarrow> d \<le> leadingZeroBits b \<longleftrightarrow> be_value b < 2 ^ (8 * length b - d)"
  unfolding leadingZeroBits_def by (rule le_leadingZeroBits_iff)

text \<open>
  \<open>AppendJA4Hash\<close> adds a TLS stack to the accepted list: the new hash then matches, the
  list never exceeds a positive cap, a hash already present changes nothing, and every
  match was a match before or is the new hash.
\<close>

lemma AppendJA4Hash_spec:
  assumes "h \<noteq> []" "CHR ''~'' \<notin> set h" "0 < mx"
    and "length (split (CHR ''~'') existing) \<le> nat mx"
  shows "h \<in> set (split (CHR ''~'') (AppendJA4Hash existing h mx))
     \<and> length (split (CHR ''~'') (AppendJA4Hash existing h mx)) \<le> nat mx
     \<and> set (split (CHR ''~'') (AppendJA4Hash existing h mx)) \<subseteq> insert h (set (split (CHR ''~'') existing))"
proof -
  define old where "old = (if existing \<noteq> [] then split (CHR ''~'') existing else [])"
  define new where "new = (if int (length (old @ [h])) > mx then drop (length (old @ [h]) - nat mx) (old @ [h]) else old @ [h])"
  show ?thesis
  proof (cases "h \<in> set old")
    case True
    then show ?thesis using assms by (auto simp: AppendJA4Hash_def old_def Let_def split: if_splits)
  next
    case False
    then have eq: "AppendJA4Hash existing h mx = join (CHR ''~'') new"
      using assms by (auto simp: AppendJA4Hash_def old_def new_def Let_def)
    have sub: "set new \<subseteq> set (old @ [h])" by (auto simp: new_def dest: in_set_dropD)
    moreover have "set old \<subseteq> set (split (CHR ''~'') existing)" by (auto simp: old_def)
    moreover have h: "h \<in> set new" using assms(3) by (auto simp: new_def)
    moreover have "length new \<le> nat mx" using assms(3) by (auto simp: new_def)
    moreover have "split (CHR ''~'') (join (CHR ''~'') new) = new"
    proof (rule split_join)
      show "new \<noteq> []" using h by auto
      show "\<forall>w \<in> set new. CHR ''~'' \<notin> set w"
        using sub assms(2) split_mem_no_sep [of _ "CHR ''~''" existing] by (auto simp: old_def split: if_splits)
    qed
    ultimately show ?thesis unfolding eq by auto
  qed
qed

end
