(* ===== verification/Auth_Check.thy ===== *)
theory Auth_Check
  imports Matchers Cookies
begin

text \<open>
  \<open>AuthCheck\<close> (\<open>admin/internal/handlers/auth_check.go\<close>), the decision of the forward-auth
  subrequest: ban first, then the veto switch (crawler verdict, hard deny, signed agents,
  privacy pass, pass cookie, crawler rescue, bypasses), then the gating axes by severity,
  then the rate-limit zones, then monitor mode, and the response headers. The request is
  its extracted inputs; the answers of the components behind the handler (ban list, crawler
  cache, signature and token checks, feed, address databases, compiled matchers) are
  arguments. The rate limiter is threaded; the bans a honeypot trip records are returned.
\<close>

section \<open>Definitions\<close>

record AuthInput =
  a_ip :: string
  a_ua :: string
  a_uri :: string
  a_host :: string
  a_secChUA :: string
  a_scheme :: string
  a_modernHTTP :: bool
  a_site :: string
  a_ja4 :: string
  a_origMethod :: string
  a_bvHost :: string
  a_bvCookies :: "string list"
  a_secFetchSite :: string
  a_secFetchDest :: string
  a_refererHost :: string

text \<open>The first non-empty value, trimmed, and the header the proxy set, even to nothing.\<close>

fun firstNonEmpty :: "string list \<Rightarrow> string" where
  "firstNonEmpty [] = ''''"
| "firstNonEmpty (v # vs) = (let v = trim_space v in if v \<noteq> '''' then v else firstNonEmpty vs)"

definition headerOrFallback :: "(string \<times> string) list \<Rightarrow> string \<Rightarrow> string list \<Rightarrow> string" where
  "headerOrFallback headers name fallbacks =
     (case map_of headers name of Some v \<Rightarrow> trim_space v | None \<Rightarrow> firstNonEmpty fallbacks)"

subsection \<open>The pass cookie\<close>

definition normalizeBVKind :: "string \<Rightarrow> string" where
  "normalizeBVKind kind = (if kind = ''pow2'' then ''pow'' else kind)"

record CookiePolicy =
  p_secret :: string
  p_powValid :: int
  p_captchaValid :: int
  p_difficulty :: int

fun pick_loop :: "int \<Rightarrow> CookiePolicy \<Rightarrow> string \<Rightarrow> string \<Rightarrow> nat \<Rightarrow> string list \<Rightarrow> (string \<times> string) option" where
  "pick_loop now p ip host budget [] = None"
| "pick_loop now p ip host budget (v # vs) =
     (if budget = 0 then None
      else if v = '''' \<or> length v > 1024 then pick_loop now p ip host (budget - 1) vs
      else case MatchingEntryKind now v (p_secret p) ip host (p_powValid p) (p_captchaValid p) (p_difficulty p) of
        Some kind \<Rightarrow> Some (v, normalizeBVKind kind)
      | None \<Rightarrow> pick_loop now p ip host (budget - 1) vs)"

definition pickValidBV :: "int \<Rightarrow> CookiePolicy \<Rightarrow> string \<Rightarrow> string \<Rightarrow> string list \<Rightarrow> (string \<times> string) option" where
  "pickValidBV now p ip host cookies = pick_loop now p ip host 4 cookies"

subsection \<open>What stands behind the handler\<close>

datatype crawlerVerdict = CrawlerUnknown | CrawlerVerified string | CrawlerForged string

text \<open>
  \<open>e_crawler\<close> is what the reverse-DNS cache holds for this address and user agent
  (\<open>CrawlerUnknown\<close> on a miss); a signed agent is one whose operator is allowed.
\<close>

record Env =
  e_hasBanMgr :: bool
  e_ban :: "(string \<times> string) option"
  e_crawler :: crawlerVerdict
  e_signedAgent :: "string option"
  e_privacyPass :: "string option"
  e_feed :: "string option"
  e_info :: IPInfo
  e_ipBypass :: "string \<Rightarrow> bool"
  e_rangePats :: "string list"
  e_observeOnly :: bool

text \<open>\<open>crawlerverify.ClaimedCrawler\<close>, and when the cached verdict counts.\<close>

definition ClaimedCrawler :: "Catalog \<Rightarrow> string \<Rightarrow> string" where
  "ClaimedCrawler c ua =
     (case find (\<lambda>(name, need). contains (to_lower ua) need) (c_Crawlers c) of
        Some (name, need) \<Rightarrow> name | None \<Rightarrow> [])"

definition crawler_verdict :: "Catalog \<Rightarrow> Settings \<Rightarrow> Env \<Rightarrow> pathMatchers \<Rightarrow> AuthInput \<Rightarrow> crawlerVerdict" where
  "crawler_verdict c cfg e m a =
     (let claimed = ClaimedCrawler c (a_ua a); cv = n_CrawlerVerify (s_Nginx cfg) in
      if cv_Enabled cv \<and> claimed \<noteq> [] \<and> CrawlerActive cv claimed \<and> \<not> m_ipBypass m (a_ip a)
      then e_crawler e else CrawlerUnknown)"

definition SafeMethods :: "string list" where
  "SafeMethods = [''GET'', ''HEAD'', ''OPTIONS'']"

definition IsSafeMethod :: "string \<Rightarrow> bool" where
  "IsSafeMethod m \<longleftrightarrow> list_ex (equal_fold m) SafeMethods"

definition bypassPath :: "AuthInput \<Rightarrow> pathMatchers \<Rightarrow> bool" where
  "bypassPath a m \<longleftrightarrow>
     matchPath (a_uri a) (m_bypass m)
     \<or> ((trim_space (a_origMethod a) = '''' \<or> IsSafeMethod (trim_space (a_origMethod a))) \<and> matchPath (a_uri a) (m_bypassSafe m))"

definition AppleCFNetworkJA4B :: string where
  "AppleCFNetworkJA4B = ''_a09f3c656075_''"

definition notifPreviewRescue :: "string \<Rightarrow> string \<Rightarrow> pathMatchers \<Rightarrow> bool" where
  "notifPreviewRescue ua ja4 m \<longleftrightarrow>
     (case m_notifPreviewUA m of None \<Rightarrow> False
      | Some re \<Rightarrow> ja4 \<noteq> '''' \<and> contains ja4 AppleCFNetworkJA4B \<and> re ua)"

subsection \<open>Verdicts\<close>

datatype Action = Pass | Challenge | Block

record Verdict =
  v_action :: Action
  v_reason :: string
  v_status :: int
  v_chMode :: string

definition pass_verdict :: "string \<Rightarrow> Verdict" where
  "pass_verdict reason = \<lparr>v_action = Pass, v_reason = reason, v_status = 200, v_chMode = ''''\<rparr>"

definition block_verdict :: "string \<Rightarrow> Verdict" where
  "block_verdict reason = \<lparr>v_action = Block, v_reason = reason, v_status = 403, v_chMode = ''''\<rparr>"

text \<open>A vote taken as the verdict: deny blocks, anything else challenges.\<close>

definition terminal_verdict :: "axisDecision \<Rightarrow> Verdict" where
  "terminal_verdict d =
     (if d_sev d = sevDeny
      then \<lparr>v_action = Block, v_reason = d_reason d, v_status = 403, v_chMode = d_chMode d\<rparr>
      else \<lparr>v_action = Challenge, v_reason = d_reason d, v_status = 401, v_chMode = d_chMode d\<rparr>)"

subsection \<open>The gating axes\<close>

definition exempt_or :: "bool \<Rightarrow> (Limiter option \<Rightarrow> axisDecision option \<times> Limiter option) \<Rightarrow> Limiter option \<Rightarrow> axisDecision option \<times> Limiter option" where
  "exempt_or exempt f rl = (if exempt then (None, rl) else f rl)"

definition opt_list :: "'a option \<Rightarrow> 'a list" where
  "opt_list x = (case x of None \<Rightarrow> [] | Some v \<Rightarrow> [v])"

text \<open>The votes in the order the code collects them, the limiter, and the ban a trap records.\<close>

definition collect_votes :: "int \<Rightarrow> Catalog \<Rightarrow> Classify \<Rightarrow> Settings \<Rightarrow> Env \<Rightarrow> pathMatchers \<Rightarrow> AuthInput \<Rightarrow> string \<times> string \<Rightarrow> Limiter option
    \<Rightarrow> axisDecision list \<times> Limiter option \<times> BanAdd option" where
  "collect_votes now c k cfg e m a ja4 rl =
     (let n = s_Nginx cfg;
          (verdict, action) = ja4;
          feed = communityBansDecide (e_feed e) cfg;
          (geo, rl1) = exempt_or (matchPath (a_uri a) (m_geoExempt m)) (geoDecide now (e_info e) (n_Geo n)) rl;
          (asn, rl2) = exempt_or (matchPath (a_uri a) (m_asnExempt m)) (asnDecide now (c_HostingProviders c) (e_info e) (n_Asn n)) rl1;
          hp = honeypotDecide (e_hasBanMgr e) (a_uri a) (m_honeypot m) (hc_DefaultAction (n_Honeypot n)) (a_ip a) (a_host a) (a_scheme a)
                 (TripBannable (a_secFetchSite a) (a_secFetchDest a) (a_refererHost a));
          prot = protectedDecide c (a_uri a) (m_protected m) cfg (a_site a);
          fp = ja4Decide c action verdict cfg;
          hdr = headerDecide k (a_ua a) (a_secChUA a) (a_scheme a) (a_modernHTTP a) (s_Global cfg);
          ua = uaDecide c k (a_ua a) action cfg (m_rangeVerifiedUA m)
      in (opt_list feed @ opt_list geo @ opt_list asn @ opt_list (map_option fst hp) @ opt_list prot @ opt_list fp
            @ opt_list hdr @ [ua],
          rl2, case hp of None \<Rightarrow> None | Some (d, b) \<Rightarrow> b))"

definition gate_verdict :: "axisDecision list \<Rightarrow> Verdict" where
  "gate_verdict decisions =
     (let (winner, suppressed) = pickStrongest decisions;
          v = (if d_sev winner = sevPass
               then \<lparr>v_action = Pass,
                     v_reason = (case find (\<lambda>d. d_reason d \<noteq> '''' \<and> d_sev d = sevPass) decisions of
                        Some d \<Rightarrow> d_reason d | None \<Rightarrow> ''ok''),
                     v_status = 200, v_chMode = ''''\<rparr>
               else if d_sev winner = sevDeny
               then \<lparr>v_action = Block, v_reason = d_reason winner, v_status = 403, v_chMode = ''''\<rparr>
               else \<lparr>v_action = Challenge, v_reason = d_reason winner, v_status = 401, v_chMode = ''''\<rparr>);
          v = (if d_chMode winner \<noteq> '''' then v\<lparr>v_chMode := d_chMode winner\<rparr> else v)
      in if suppressed \<noteq> []
         then v\<lparr>v_reason := v_reason v @ '' (suppressed: '' @ concat (map2 (\<lambda>i s. (if i = 0 then '''' else '', '') @ s)
                 [0..<length suppressed] suppressed) @ '')''\<rparr>
         else v)"

subsection \<open>The veto switch\<close>

definition needsCaptchaGrade :: "Catalog \<Rightarrow> Classify \<Rightarrow> Settings \<Rightarrow> Env \<Rightarrow> pathMatchers \<Rightarrow> AuthInput \<Rightarrow> string \<times> string \<Rightarrow> bool" where
  "needsCaptchaGrade c k cfg e m a ja4 \<longleftrightarrow>
     requestNeedsCaptchaGrade c (a_ua a) (a_uri a) (a_site a) cfg
     \<or> ja4NeedsCaptchaGrade c (fst ja4) (snd ja4) cfg
     \<or> axisNeedsCaptchaGradeFor (c_HostingProviders c) (e_info e) (matchPath (a_uri a) (m_asnExempt m))
         (matchPath (a_uri a) (m_geoExempt m)) (s_Nginx cfg)
     \<or> escalationNeedsCaptchaGrade k (a_ua a) (a_secChUA a) (a_scheme a) (a_modernHTTP a) cfg
     \<or> postureNeedsCaptchaGrade c k (a_ua a) cfg"

definition rescued :: "Catalog \<Rightarrow> Classify \<Rightarrow> Settings \<Rightarrow> pathMatchers \<Rightarrow> AuthInput \<Rightarrow> string \<Rightarrow> bool" where
  "rescued c k cfg m a ja4Action \<longleftrightarrow>
     isSearchBotUA c k (a_ua a) ja4Action (s_Nginx cfg) (m_rangeVerifiedUA m)"

text \<open>
  The switch up to its default: \<open>None\<close> when no case takes the request. \<open>bv\<close> is the kind of
  the pass cookie that verified.
\<close>

definition veto_switch :: "Catalog \<Rightarrow> Classify \<Rightarrow> Settings \<Rightarrow> Env \<Rightarrow> pathMatchers \<Rightarrow> AuthInput \<Rightarrow> string \<times> string \<Rightarrow> string option \<Rightarrow> Verdict option" where
  "veto_switch c k cfg e m a ja4 bv =
     (case crawler_verdict c cfg e m a of
        CrawlerVerified name \<Rightarrow> Some (pass_verdict (''crawler:verified:'' @ name))
      | CrawlerForged name \<Rightarrow> Some (terminal_verdict (forgedCrawlerDecision (n_CrawlerVerify (s_Nginx cfg)) name))
      | CrawlerUnknown \<Rightarrow>
        if hardDenyUA c (a_ua a) (s_Nginx cfg) \<and> \<not> rescued c k cfg m a (snd ja4)
           \<and> \<not> m_ipBypass m (a_ip a) \<and> \<not> bypassPath a m
        then Some (block_verdict ''ua:deny'')
        else case e_signedAgent e of Some op \<Rightarrow> Some (pass_verdict (''signed_agent:'' @ op))
          | None \<Rightarrow>
            (case e_privacyPass e of Some issuer \<Rightarrow> Some (pass_verdict (''privacy_pass:'' @ issuer))
             | None \<Rightarrow>
               (case bv of
                  Some kind \<Rightarrow>
                    if \<not> (\<not> gradeSatisfies kind \<and> needsCaptchaGrade c k cfg e m a ja4)
                    then Some (pass_verdict (''bv-'' @ kind))
                    else if rescued c k cfg m a (snd ja4) then Some (pass_verdict ''ua:search_ai'')
                    else if notifPreviewRescue (a_ua a) (a_ja4 a) m then Some (pass_verdict ''ua:search_ai'')
                    else if m_ipBypass m (a_ip a) then Some (pass_verdict ''bypass:ip'')
                    else if bypassPath a m then Some (pass_verdict ''bypass:path'')
                    else None
                | None \<Rightarrow>
                    if rescued c k cfg m a (snd ja4) then Some (pass_verdict ''ua:search_ai'')
                    else if notifPreviewRescue (a_ua a) (a_ja4 a) m then Some (pass_verdict ''ua:search_ai'')
                    else if m_ipBypass m (a_ip a) then Some (pass_verdict ''bypass:ip'')
                    else if bypassPath a m then Some (pass_verdict ''bypass:path'')
                    else None)))"

text \<open>Phases 1 and 2: ban, veto switch, gating axes.\<close>

definition decide :: "int \<Rightarrow> Catalog \<Rightarrow> Classify \<Rightarrow> Settings \<Rightarrow> Env \<Rightarrow> pathMatchers \<Rightarrow> AuthInput \<Rightarrow> string option \<Rightarrow> Limiter option
    \<Rightarrow> Verdict \<times> Limiter option \<times> BanAdd option" where
  "decide now c k cfg e m a bv rl =
     (let ja4 = matchJA4 c (a_ja4 a) (s_Nginx cfg) in
      case e_ban e of
        Some (rowAction, src) \<Rightarrow> (terminal_verdict (banDecideFromSource rowAction src (s_Nginx cfg)), rl, None)
      | None \<Rightarrow>
        (case veto_switch c k cfg e m a ja4 bv of
           Some v \<Rightarrow> (v, rl, None)
         | None \<Rightarrow> (let (ds, rl', b) = collect_votes now c k cfg e m a ja4 rl in (gate_verdict ds, rl', b))))"

subsection \<open>Rate-limit zones\<close>

definition trusted_reason :: "string \<Rightarrow> bool" where
  "trusted_reason reason \<longleftrightarrow>
     reason = ''bypass:ip'' \<or> reason = ''bypass:path'' \<or> reason = ''ua:search_ai''
     \<or> is_prefix ''crawler:verified'' reason \<or> is_prefix ''signed_agent:'' reason \<or> is_prefix ''privacy_pass:'' reason"

definition shouldCount :: "Limiter option \<Rightarrow> Verdict \<Rightarrow> bool" where
  "shouldCount rl v \<longleftrightarrow> rl \<noteq> None \<and> \<not> trusted_reason (v_reason v) \<and> v_action v \<noteq> Block"

record ZoneTrip =
  z_hit :: bool
  z_name :: string
  z_chMode :: string
  z_count :: nat
  z_allowance :: int
  z_deny :: bool

definition zone_key :: "AuthInput \<Rightarrow> ResolvedRateZone \<Rightarrow> string" where
  "zone_key a z =
     (if rrz_Key z = RateLimitKeyJA4 then a_ja4 a
      else if rrz_Key z = RateLimitKeyIPAndJA4 then a_ip a @ ''|'' @ a_ja4 a
      else a_ip a) @ ''|'' @ rv_Name z"

definition zone_mode :: "ResolvedRateZone \<Rightarrow> string" where
  "zone_mode z = Values_ResolvedChallengeMode (RateLimitValues.truncate z)"

definition zone_spec :: "ResolvedRateZone \<Rightarrow> Spec" where
  "zone_spec z = \<lparr>RequestsPerMin = rv_RequestsPerMin z, Burst = rv_Burst z,
     WindowSec = Values_ResolvedWindowSec (RateLimitValues.truncate z)\<rparr>"

fun count_zones :: "int \<Rightarrow> AuthInput \<Rightarrow> bool \<Rightarrow> ResolvedRateZone list \<Rightarrow> ZoneTrip \<Rightarrow> Limiter \<Rightarrow> ZoneTrip \<times> Limiter" where
  "count_zones now a bvPass [] t l = (t, l)"
| "count_zones now a bvPass (z # zs) t l =
     (let zMode = zone_mode z in
      if bvPass \<and> zMode \<noteq> RateChallengeDeny then count_zones now a bvPass zs t l
      else let (res, l') = Hit now (zone_key a z) (zone_spec z) l in
        if \<not> r_Hit res then count_zones now a bvPass zs t l'
        else let t' = (if \<not> z_hit t \<or> (zMode = RateChallengeDeny \<and> \<not> z_deny t)
                       then t\<lparr>z_name := rv_Name z, z_chMode := zMode, z_count := r_Count res, z_allowance := r_Allowance res\<rparr>
                       else t)
             in count_zones now a bvPass zs (t'\<lparr>z_hit := True, z_deny := (z_deny t \<or> zMode = RateChallengeDeny)\<rparr>) l')"

text \<open>The row a trip is attributed to before anything trips: the most specific one.\<close>

definition initial_trip :: "ResolvedRateZone list \<Rightarrow> ZoneTrip" where
  "initial_trip zones =
     (let z = (if length zones > 1 then zones ! 0 else zones ! (length zones - 1)) in
      \<lparr>z_hit = False, z_name = rv_Name z, z_chMode = zone_mode z, z_count = 0, z_allowance = 0, z_deny = False\<rparr>)"

definition apply_trip :: "ZoneTrip \<Rightarrow> Verdict \<Rightarrow> Verdict" where
  "apply_trip t v =
     (if \<not> z_hit t then v
      else let v' = (if z_chMode t = RateChallengeDeny then v\<lparr>v_action := Block, v_status := 403\<rparr>
                     else if v_action v = Pass then v\<lparr>v_action := Challenge, v_status := 401\<rparr>
                     else v)
           in v'\<lparr>v_reason := (if v_reason v \<noteq> '''' \<and> \<not> is_prefix ''ratelimit'' (v_reason v)
                  then ''ratelimit:'' @ z_name t @ '' (was:'' @ v_reason v @ '')''
                  else ''ratelimit:'' @ z_name t)\<rparr>)"

definition rate_limit :: "int \<Rightarrow> AuthInput \<Rightarrow> ResolvedRateZone list \<Rightarrow> Verdict \<Rightarrow> Limiter option \<Rightarrow> Verdict \<times> ZoneTrip \<times> Limiter option" where
  "rate_limit now a zones v rl =
     (let t0 = initial_trip zones in
      case rl of None \<Rightarrow> (v, t0, rl)
      | Some l \<Rightarrow>
        if \<not> shouldCount rl v then (v, t0, rl)
        else let (t, l') = count_zones now a (is_prefix ''bv-'' (v_reason v)) zones t0 l in (apply_trip t v, t, Some l'))"

subsection \<open>Response\<close>

record Response =
  r_action :: Action
  r_reason :: string
  r_status :: int
  r_zone :: "string option"
  r_chMode :: "string option"

definition respond :: "bool \<Rightarrow> Verdict \<Rightarrow> ZoneTrip \<Rightarrow> Response" where
  "respond observeOnlySetting v t =
     (let observeOnly = observeOnlySetting \<and> (v_action v = Challenge \<or> v_action v = Block);
          action = (if observeOnly then Pass else v_action v);
          status = (if observeOnly then 200 else v_status v);
          reason = (if observeOnly then ''observe_only (was:'' @ v_reason v @ '')'' else v_reason v);
          rlHit = (z_hit t \<and> \<not> observeOnly)
      in \<lparr>r_action = action, r_reason = reason, r_status = status,
          r_zone = (if rlHit then Some (z_name t) else None),
          r_chMode = (if rlHit then Some (z_chMode t)
                      else if v_chMode v \<noteq> '''' \<and> action = Challenge then Some (v_chMode v) else None)\<rparr>)"

record AuthResult =
  res_response :: Response
  res_limiter :: "Limiter option"
  res_ban :: "BanAdd option"
  res_recorded :: Action

definition AuthCheck :: "int \<Rightarrow> int \<Rightarrow> Catalog \<Rightarrow> Classify \<Rightarrow> Settings \<Rightarrow> CookiePolicy \<Rightarrow> Env \<Rightarrow> AuthInput \<Rightarrow> Limiter option \<Rightarrow> AuthResult" where
  "AuthCheck unixNow rlNow c k cfg p e a rl =
     (let bv = map_option snd (pickValidBV unixNow p (a_ip a) (a_bvHost a) (a_bvCookies a));
          m = bypassMatchers c (s_Nginx cfg) (a_site a) (e_ipBypass e) (e_rangePats e);
          (v, rl1, ban) = decide rlNow c k cfg e m a bv rl;
          zones = ResolveZonesAll (c_rex c) (s_RateLimit cfg) (a_uri a) (a_site a);
          (v', t, rl2) = rate_limit rlNow a zones v rl1
      in \<lparr>res_response = respond (e_observeOnly e) v' t, res_limiter = rl2, res_ban = ban, res_recorded = v_action v'\<rparr>)"

section \<open>Lemmas\<close>

subsection \<open>Votes\<close>

text \<open>The vote of an axis that reads the limiter, given what the limiter holds.\<close>

definition geo_vote :: "int \<Rightarrow> Settings \<Rightarrow> Env \<Rightarrow> pathMatchers \<Rightarrow> AuthInput \<Rightarrow> Limiter option \<Rightarrow> axisDecision option \<times> Limiter option" where
  "geo_vote now cfg e m a rl =
     exempt_or (matchPath (a_uri a) (m_geoExempt m)) (geoDecide now (e_info e) (n_Geo (s_Nginx cfg))) rl"

definition asn_vote :: "int \<Rightarrow> Catalog \<Rightarrow> Settings \<Rightarrow> Env \<Rightarrow> pathMatchers \<Rightarrow> AuthInput \<Rightarrow> Limiter option \<Rightarrow> axisDecision option \<times> Limiter option" where
  "asn_vote now c cfg e m a rl =
     exempt_or (matchPath (a_uri a) (m_asnExempt m)) (asnDecide now (c_HostingProviders c) (e_info e) (n_Asn (s_Nginx cfg))) rl"

definition trap_vote :: "Settings \<Rightarrow> Env \<Rightarrow> pathMatchers \<Rightarrow> AuthInput \<Rightarrow> (axisDecision \<times> BanAdd option) option" where
  "trap_vote cfg e m a =
     honeypotDecide (e_hasBanMgr e) (a_uri a) (m_honeypot m) (hc_DefaultAction (n_Honeypot (s_Nginx cfg))) (a_ip a) (a_host a) (a_scheme a)
       (TripBannable (a_secFetchSite a) (a_secFetchDest a) (a_refererHost a))"

lemma collect_votes_fst:
  "fst (collect_votes now c k cfg e m a ja4 rl) =
     opt_list (communityBansDecide (e_feed e) cfg) @ opt_list (fst (geo_vote now cfg e m a rl))
     @ opt_list (fst (asn_vote now c cfg e m a (snd (geo_vote now cfg e m a rl))))
     @ opt_list (map_option fst (trap_vote cfg e m a)) @ opt_list (protectedDecide c (a_uri a) (m_protected m) cfg (a_site a))
     @ opt_list (ja4Decide c (snd ja4) (fst ja4) cfg)
     @ opt_list (headerDecide k (a_ua a) (a_secChUA a) (a_scheme a) (a_modernHTTP a) (s_Global cfg))
     @ [uaDecide c k (a_ua a) (snd ja4) cfg (m_rangeVerifiedUA m)]"
  by (simp add: collect_votes_def geo_vote_def asn_vote_def trap_vote_def Let_def split_def)

lemma set_opt_list [simp]: "set (opt_list x) = set_option x"
  by (cases x) (simp_all add: opt_list_def)

lemma applyNetRate_keeps:
  "d' \<in> set_option (fst (applyNetRate now d key rate rl)) \<Longrightarrow> d_sev d' = d_sev d \<and> d_chMode d' = d_chMode d"
  by (auto simp: applyNetRate_def Let_def split: if_splits option.splits prod.splits)

lemma vote_ok_net: "vote_ok d \<Longrightarrow> d' \<in> set_option (fst (applyNetRate now d key rate rl)) \<Longrightarrow> vote_ok d'"
  using applyNetRate_keeps by (fastforce simp: vote_ok_def)

lemma vote_ok_geo: "d \<in> set_option (fst (geo_vote now cfg e m a rl)) \<Longrightarrow> vote_ok d"
  by (auto simp: geo_vote_def exempt_or_def geoDecide_def geoDecideForCountry_def Let_def
      split: if_splits option.splits prod.splits intro: vote_ok_net [rotated])

lemma vote_ok_asn: "d \<in> set_option (fst (asn_vote now c cfg e m a rl)) \<Longrightarrow> vote_ok d"
  by (auto simp: asn_vote_def exempt_or_def asnDecide_def asnResolve_def Let_def
      split: if_splits option.splits prod.splits intro: vote_ok_net [rotated])

lemma vote_ok_trap: "d \<in> set_option (map_option fst (trap_vote cfg e m a)) \<Longrightarrow> vote_ok d"
  by (auto simp: trap_vote_def honeypotDecide_def Let_def split: if_splits option.splits prod.splits)

lemma vote_ok_protected: "d \<in> set_option (protectedDecide c uri ps cfg site) \<Longrightarrow> vote_ok d"
  by (auto simp: protectedDecide_def ChModeForProtectedMode_def vote_ok_def severityFromAction_def chain_defs Let_def split: if_splits)

lemma vote_ok_ua: "vote_ok (uaDecide c k ua act cfg re)"
  by (auto simp: uaDecide_def Let_def vote_ok_def vote_defs split: prod.splits)

lemma votes_ok: "\<forall>d \<in> set (fst (collect_votes now c k cfg e m a ja4 rl)). vote_ok d"
proof -
  have "\<forall>d \<in> set_option (communityBansDecide (e_feed e) cfg). vote_ok d"
    by (auto simp: communityBansDecide_def Let_def split: if_splits option.splits)
  moreover have "\<forall>d \<in> set_option (ja4Decide c (snd ja4) (fst ja4) cfg). vote_ok d"
    by (auto simp: ja4Decide_def Let_def split: if_splits)
  moreover have "\<forall>d \<in> set_option (headerDecide k (a_ua a) (a_secChUA a) (a_scheme a) (a_modernHTTP a) (s_Global cfg)). vote_ok d"
    by (auto simp: headerDecide_def Let_def split: if_splits)
  moreover have "\<forall>d \<in> set_option (fst (geo_vote now cfg e m a rl)). vote_ok d"
    and "\<forall>d \<in> set_option (fst (asn_vote now c cfg e m a (snd (geo_vote now cfg e m a rl)))). vote_ok d"
    and "\<forall>d \<in> set_option (map_option fst (trap_vote cfg e m a)). vote_ok d"
    and "\<forall>d \<in> set_option (protectedDecide c (a_uri a) (m_protected m) cfg (a_site a)). vote_ok d"
    by (rule ballI, erule vote_ok_geo vote_ok_asn vote_ok_trap vote_ok_protected)+
  ultimately show ?thesis
    by (simp only: collect_votes_fst set_append set_opt_list ball_Un list.set ball_simps vote_ok_ua simp_thms)
qed

lemma gate_action:
  "v_action (gate_verdict ds) = (if d_sev (strongest ds) = sevPass then Pass else if d_sev (strongest ds) = sevDeny then Block else Challenge)"
  by (simp add: gate_verdict_def pickStrongest_def Let_def split_def)

lemma gate_chMode: "v_chMode (gate_verdict ds) = (if d_chMode (strongest ds) \<noteq> [] then d_chMode (strongest ds) else [])"
  by (simp add: gate_verdict_def pickStrongest_def Let_def split_def)

subsection \<open>Verdicts\<close>

fun status_of :: "Action \<Rightarrow> int" where
  "status_of Pass = 200"
| "status_of Challenge = 401"
| "status_of Block = 403"

definition verdict_ok :: "Verdict \<Rightarrow> bool" where
  "verdict_ok v \<longleftrightarrow> v_status v = status_of (v_action v)"

lemma verdict_ok_simps [simp]:
  "verdict_ok (pass_verdict r)" "verdict_ok (block_verdict r)" "verdict_ok (terminal_verdict d)" "verdict_ok (gate_verdict ds)"
  by (simp_all add: verdict_ok_def pass_verdict_def block_verdict_def terminal_verdict_def gate_verdict_def Let_def split_def)

lemma action_simps [simp]:
  "v_action (pass_verdict r) = Pass" "v_action (block_verdict r) = Block" "v_action (terminal_verdict d) \<noteq> Pass"
  by (simp_all add: pass_verdict_def block_verdict_def terminal_verdict_def)

lemma verdict_ok_trip: "verdict_ok v \<Longrightarrow> verdict_ok (apply_trip t v)"
  by (simp add: verdict_ok_def apply_trip_def Let_def)

lemma trip_passes: "v_action (apply_trip t v) = Pass \<longleftrightarrow> v_action v = Pass \<and> \<not> z_hit t"
  by (cases "v_action v") (simp_all add: apply_trip_def Let_def)

text \<open>
  The user-agent deny as the switch reads it, and the grounds on which the switch passes a
  request whose crawler claim is not settled.
\<close>

definition denied_agent :: "Catalog \<Rightarrow> Classify \<Rightarrow> Settings \<Rightarrow> pathMatchers \<Rightarrow> AuthInput \<Rightarrow> string \<times> string \<Rightarrow> bool" where
  "denied_agent c k cfg m a ja4 \<longleftrightarrow>
     hardDenyUA c (a_ua a) (s_Nginx cfg) \<and> \<not> rescued c k cfg m a (snd ja4) \<and> \<not> m_ipBypass m (a_ip a) \<and> \<not> bypassPath a m"

definition cookie_passes :: "Catalog \<Rightarrow> Classify \<Rightarrow> Settings \<Rightarrow> Env \<Rightarrow> pathMatchers \<Rightarrow> AuthInput \<Rightarrow> string \<times> string \<Rightarrow> string option \<Rightarrow> bool" where
  "cookie_passes c k cfg e m a ja4 bv \<longleftrightarrow>
     (case bv of None \<Rightarrow> False | Some kind \<Rightarrow> gradeSatisfies kind \<or> \<not> needsCaptchaGrade c k cfg e m a ja4)"

definition vouched :: "Catalog \<Rightarrow> Classify \<Rightarrow> Settings \<Rightarrow> Env \<Rightarrow> pathMatchers \<Rightarrow> AuthInput \<Rightarrow> string \<times> string \<Rightarrow> string option \<Rightarrow> bool" where
  "vouched c k cfg e m a ja4 bv \<longleftrightarrow>
     e_signedAgent e \<noteq> None \<or> e_privacyPass e \<noteq> None \<or> cookie_passes c k cfg e m a ja4 bv
     \<or> rescued c k cfg m a (snd ja4) \<or> notifPreviewRescue (a_ua a) (a_ja4 a) m \<or> m_ipBypass m (a_ip a) \<or> bypassPath a m"

lemma veto_switch_cases:
  "veto_switch c k cfg e m a ja4 bv =
     (case crawler_verdict c cfg e m a of
        CrawlerVerified name \<Rightarrow> Some (pass_verdict (''crawler:verified:'' @ name))
      | CrawlerForged name \<Rightarrow> Some (terminal_verdict (forgedCrawlerDecision (n_CrawlerVerify (s_Nginx cfg)) name))
      | CrawlerUnknown \<Rightarrow>
          if denied_agent c k cfg m a ja4 then Some (block_verdict ''ua:deny'')
          else if vouched c k cfg e m a ja4 bv
          then Some (pass_verdict (
            case e_signedAgent e of Some op \<Rightarrow> ''signed_agent:'' @ op
            | None \<Rightarrow> (case e_privacyPass e of Some iss \<Rightarrow> ''privacy_pass:'' @ iss
              | None \<Rightarrow>
                if cookie_passes c k cfg e m a ja4 bv then ''bv-'' @ the bv
                else if rescued c k cfg m a (snd ja4) \<or> notifPreviewRescue (a_ua a) (a_ja4 a) m then ''ua:search_ai''
                else if m_ipBypass m (a_ip a) then ''bypass:ip'' else ''bypass:path'')))
          else None)"
  unfolding veto_switch_def vouched_def denied_agent_def cookie_passes_def Let_def
  by (simp split: crawlerVerdict.split option.split)

lemma decide_ok: "verdict_ok (fst (decide now c k cfg e m a bv rl))"
proof -
  have "verdict_ok v" if "veto_switch c k cfg e m a ja4 bv = Some v" for ja4 v
    using that by (cases "crawler_verdict c cfg e m a") (auto simp: veto_switch_cases split: if_splits)
  then show ?thesis by (simp add: decide_def Let_def split: option.split prod.split)
qed

lemma rate_limit_ok: "verdict_ok v \<Longrightarrow> verdict_ok (fst (rate_limit now a zones v rl))"
  by (simp add: rate_limit_def Let_def verdict_ok_trip split: option.split prod.split)

lemma initial_trip_no_hit [simp]: "\<not> z_hit (initial_trip zones)" "\<not> z_deny (initial_trip zones)"
  by (simp_all add: initial_trip_def Let_def)

lemma rate_limit_passes:
  "v_action (fst (rate_limit now a zones v rl)) = Pass \<longleftrightarrow> v_action v = Pass \<and> \<not> z_hit (fst (snd (rate_limit now a zones v rl)))"
  by (simp add: rate_limit_def Let_def trip_passes split: option.split prod.split)

lemma all_votes_pass: "list_all (\<lambda>d. d_sev d = sevPass) ds \<longleftrightarrow> d_sev (strongest ds) = sevPass"
proof
  assume "list_all (\<lambda>d. d_sev d = sevPass) ds"
  then show "d_sev (strongest ds) = sevPass"
    using strongest_mem [of ds] by (auto simp: list_all_iff)
next
  assume "d_sev (strongest ds) = sevPass"
  then have "d_sev d \<le> sevPass" if "d \<in> set ds" for d using strongest_ge [OF that] by simp
  then show "list_all (\<lambda>d. d_sev d = sevPass) ds"
    using sevPass_least by (auto simp: list_all_iff intro: order_antisym)
qed

subsection \<open>The grade a request must hold and the chain it is served\<close>

definition harsh :: "axisDecision \<Rightarrow> bool" where
  "harsh d \<longleftrightarrow> sevCaptchaOnly \<le> d_sev d"

lemma harsh_simps [simp]:
  "harsh (deny_vote r)" "ChainEndsInCaptcha act \<Longrightarrow> harsh (vote act r)" "harsh (vote RateChallengeDeny r)"
  by (auto simp: harsh_def vote_defs less_eq_axisSeverity_def severityFromAction_def ChainEndsInCaptcha_def chain_defs)

lemma lookupUAListed_trimmed: "lookupUAListed c ua n = (l, cat, act) \<Longrightarrow> trim_space act = act"
  by (auto simp: lookupUAListed_def Let_def trim_space_Nil split: if_splits option.splits prod.splits)

text \<open>The user agent is on the black list: its chain is the row's, not the posture's.\<close>

definition ua_listed :: "Catalog \<Rightarrow> string \<Rightarrow> Nginx \<Rightarrow> bool" where
  "ua_listed c ua n \<longleftrightarrow> (case lookupUAListed c ua n of (l, cat, act) \<Rightarrow> l \<noteq> [] \<and> cat = ''challenge'')"

lemma ua_listed_harsh:
  assumes "uaRequiresCaptchaGrade c ua cfg" "\<not> search_ai_rescued k ua act re"
  shows "harsh (uaDecide c k ua act cfg re)"
proof -
  obtain l cat row where row: "lookupUAListed c ua (s_Nginx cfg) = (l, cat, row)" by (metis prod_cases3)
  with lookupUAListed_trimmed [OF row] assms show ?thesis
    by (auto simp: uaRequiresCaptchaGrade_def uaDecide_def Let_def ChainEndsInCaptcha_def IsValidRateChallengeMode_def chain_defs
        split: if_splits intro!: harsh_simps(2))
qed

lemma posture_harsh:
  assumes "ChainEndsInCaptcha (fst (posturePick k ua (s_Global cfg))) \<or> fst (posturePick k ua (s_Global cfg)) = RateChallengeDeny"
    and "\<not> ua_listed c ua (s_Nginx cfg)" "\<not> search_ai_rescued k ua act re"
  shows "harsh (uaDecide c k ua act cfg re)"
proof -
  obtain pick stale where pick: "posturePick k ua (s_Global cfg) = (pick, stale)" by (metis prod.exhaust)
  obtain l cat row where row: "lookupUAListed c ua (s_Nginx cfg) = (l, cat, row)" by (metis prod_cases3)
  have p: "ChainEndsInCaptcha pick \<or> pick = RateChallengeDeny" using assms(1) pick by simp
  then have "pick \<noteq> ''pass''" by (auto simp: ChainEndsInCaptcha_def chain_defs)
  with assms(2,3) pick row have "\<exists>r. uaDecide c k ua act cfg re = vote pick r"
    by (auto simp: uaDecide_def ua_listed_def Let_def)
  with p show ?thesis by auto
qed

lemma stale_posture:
  assumes "StaleBrowserEnabled g" "ChainEndsInCaptcha (StaleBrowserResolvedAction g)" "IsStaleBrowser k ua"
  shows "ChainEndsInCaptcha (fst (posturePick k ua g)) \<or> fst (posturePick k ua g) = RateChallengeDeny"
  using assms by (simp add: posturePick_def Let_def)

lemma protected_harsh:
  assumes "ModeEndsInCaptcha (protectedModeForOrig c (n_ProtectedPaths (s_Nginx cfg)) site uri)" "CHR ''?'' \<notin> set uri"
  shows "\<exists>d \<in> set_option (protectedDecide c uri (compile_protected c (n_ProtectedPaths (s_Nginx cfg)) site) cfg site). harsh d"
proof -
  let ?pc = "n_ProtectedPaths (s_Nginx cfg)"
  have "uri \<noteq> []" and orig: "(case index_byte (CHR ''?'') uri of Some i \<Rightarrow> take i uri | None \<Rightarrow> uri) = uri"
    using assms by (auto simp: protectedModeForOrig_def ModeEndsInCaptcha_def index_byte_None [THEN iffD2])
  have "matchPath uri (compile_protected c ?pc site)"
  proof (cases "List.find (\<lambda>(g, r). c_rex c (pr_Pattern r) uri)
            (concat (map (\<lambda>g. map (\<lambda>r. (g, r)) (pg_Rules g)) (filter (\<lambda>g. pg_ID g \<in> set (pc_EnabledPresets ?pc)) (c_ProtectedGroups c))))")
    case (Some gr)
    obtain g r where "gr = (g, r)" by (cases gr)
    with find_Some_iff2 [OF Some] have "g \<in> set (c_ProtectedGroups c)" "pg_ID g \<in> set (pc_EnabledPresets ?pc)"
      "r \<in> set (pg_Rules g)" "c_rex c (pr_Pattern r) uri"
      by auto
    then show ?thesis unfolding matchPath_def compile_protected_def list_ex_iff set_append by (intro bexI [of _ "c_rex c (pr_Pattern r)"]) auto
  next
    case None
    with assms \<open>uri \<noteq> []\<close> orig obtain row where
      "find (\<lambda>row. (pp_Site row = '''' \<or> pp_Site row = site) \<and> \<not> pp_Disabled row \<and> c_rex c (PatternRegex (pp_Path row)) uri) (pc_Paths ?pc) = Some row"
      by (simp only: protectedModeForOrig_def ModeEndsInCaptcha_def Let_def if_False option.case) (auto split: option.splits)
    from find_Some_iff2 [OF this] show ?thesis
      unfolding matchPath_def compile_protected_def list_ex_iff set_append
      by (intro bexI [of _ "c_rex c (PatternRegex (pp_Path row))"]) auto
  qed
  with assms(1) show ?thesis
    by (auto simp: protectedDecide_def Let_def ModeEndsInCaptcha_def ChModeForProtectedMode_def harsh_def severityFromAction_def
        less_eq_axisSeverity_def chain_defs)
qed

lemma ja4_harsh:
  "ja4NeedsCaptchaGrade c verdict act cfg \<Longrightarrow> \<exists>d \<in> set_option (ja4Decide c act verdict cfg). harsh d"
  by (auto simp: ja4NeedsCaptchaGrade_def ja4Decide_def Let_def split: if_splits)

lemma header_harsh:
  "headerDecide k ua sch scheme mh g \<noteq> None \<Longrightarrow> ChainEndsInCaptcha (HeaderIntegrityResolvedAction g) \<Longrightarrow>
     \<exists>d \<in> set_option (headerDecide k ua sch scheme mh g). harsh d"
  by (auto simp: headerDecide_def Let_def split: if_splits)

lemma applyNetRate_off [simp]: "applyNetRate now d key 0 rl = (Some d, rl)"
  by (simp add: applyNetRate_def)

lemma country_of_None: "country_of i \<noteq> [] \<Longrightarrow> i_Country i \<noteq> None"
  by (auto simp: country_of_def split: option.splits)

lemma geo_harsh:
  assumes "geoDecideForCountry (country_of (e_info e)) (n_Geo (s_Nginx cfg)) = Some (d, 0)" "ChainEndsInCaptcha (d_chMode d)"
    and "\<not> matchPath (a_uri a) (m_geoExempt m)"
  shows "\<exists>d \<in> set_option (fst (geo_vote now cfg e m a rl)). harsh d"
proof -
  have "country_of (e_info e) \<noteq> []" using assms(1) by (auto simp: geoDecideForCountry_def)
  then have "fst (geo_vote now cfg e m a rl) = Some d"
    using assms country_of_None by (auto simp: geo_vote_def exempt_or_def geoDecide_def split: option.splits)
  moreover have "vote_ok d" using vote_ok_geo calculation by (metis option.set_intros)
  with assms(2) have "harsh d"
    by (cases "d_sev d") (auto simp: harsh_def vote_ok_def less_eq_axisSeverity_def ChainEndsInCaptcha_def chain_defs)
  ultimately show ?thesis by simp
qed

lemma ResolveRule_blank: "Asn_ResolveRule catalog cfg 0 [] = None"
  by (auto simp: Asn_ResolveRule_def OrgMatchesAny_def HostingProvider_Matches_def find_None_iff split: option.split)

lemma asn_harsh:
  assumes "Asn_ResolveRule (c_HostingProviders c) (n_Asn (s_Nginx cfg)) n org = Some (act, 0)" "ChainEndsInCaptcha act"
    and "(n, org) = (case i_ASN (e_info e) of Some p \<Rightarrow> p | None \<Rightarrow> (0, []))" "\<not> matchPath (a_uri a) (m_asnExempt m)"
  shows "\<exists>d \<in> set_option (fst (asn_vote now c cfg e m a rl)). harsh d"
proof -
  have known: "\<not> (n = 0 \<and> org = [])" using assms(1) ResolveRule_blank by auto
  with assms(3) have i: "i_ASN (e_info e) = Some (n, org)" by (auto split: option.splits)
  have act: "\<not> (act = [] \<or> act = GeoActionSkip)" "act \<noteq> RateChallengeDeny"
    using assms(2) by (auto simp: ChainEndsInCaptcha_def chain_defs)
  let ?key = "''asn:'' @ (if n \<noteq> 0 then ''AS'' @ format_nat 10 n else org)"
  have "asnResolve (c_HostingProviders c) n org (n_Asn (s_Nginx cfg)) = Some (vote act (?key @ '':'' @ act), ?key, 0)"
    using known act by (simp only: asnResolve_def assms(1) if_False option.case prod.case Let_def)
  then have "fst (asn_vote now c cfg e m a rl) = Some (vote act (?key @ '':'' @ act))"
    using assms(4) i by (simp add: asn_vote_def exempt_or_def asnDecide_def del: append.simps)
  with assms(2) show ?thesis by simp
qed

lemma axis_harsh:
  assumes "axisNeedsCaptchaGradeFor (c_HostingProviders c) (e_info e) (matchPath (a_uri a) (m_asnExempt m)) (matchPath (a_uri a) (m_geoExempt m)) (s_Nginx cfg)"
  shows "(\<exists>d \<in> set_option (fst (geo_vote now cfg e m a rl)). harsh d) \<or> (\<exists>d \<in> set_option (fst (asn_vote now c cfg e m a rl')). harsh d)"
proof -
  obtain n org where asn: "(n, org) = (case i_ASN (e_info e) of Some p \<Rightarrow> p | None \<Rightarrow> (0, []))" by (metis prod.exhaust)
  with assms have "axisNeedsCaptchaGrade (c_HostingProviders c) n org (country_of (e_info e))
      (matchPath (a_uri a) (m_asnExempt m)) (matchPath (a_uri a) (m_geoExempt m)) (s_Nginx cfg)"
    by (auto simp: axisNeedsCaptchaGradeFor_def Let_def split: prod.splits if_splits)
  then show ?thesis
    using asn_harsh [OF _ _ asn] geo_harsh
    by (fastforce simp: axisNeedsCaptchaGrade_def split: option.splits prod.splits)
qed

text \<open>A vote for a CAPTCHA or worse decides the gate accordingly.\<close>

lemma harsh_vote_gates:
  assumes "\<exists>d \<in> set (fst (collect_votes now c k cfg e m a ja4 rl)). harsh d"
  shows "let v = gate_verdict (fst (collect_votes now c k cfg e m a ja4 rl)) in
           v_action v = Block \<or> (v_action v = Challenge \<and> ChainEndsInCaptcha (v_chMode v))"
proof -
  let ?w = "strongest (fst (collect_votes now c k cfg e m a ja4 rl))"
  have "sevCaptchaOnly \<le> d_sev ?w"
    using assms strongest_ge unfolding harsh_def by (meson order_trans)
  moreover have "d_chMode ?w = chModeFromSeverity (d_sev ?w)"
    using vote_ok_strongest [OF votes_ok] by (simp add: vote_ok_def)
  ultimately show ?thesis
    by (cases "d_sev ?w") (simp_all add: Let_def gate_action gate_chMode less_eq_axisSeverity_def ChainEndsInCaptcha_def chain_defs)
qed

subsection \<open>A concrete request\<close>

definition exEnv :: Env where
  "exEnv = \<lparr>e_hasBanMgr = True, e_ban = None, e_crawler = CrawlerUnknown, e_signedAgent = None, e_privacyPass = None, e_feed = None,
     e_info = \<lparr>i_Country = None, i_ASN = None\<rparr>, e_ipBypass = (\<lambda>ip. False), e_rangePats = [], e_observeOnly = False\<rparr>"

definition exInput :: "string \<Rightarrow> string \<Rightarrow> AuthInput" where
  "exInput ua uri = \<lparr>a_ip = ''192.0.2.1'', a_ua = ua, a_uri = uri, a_host = ''h'', a_secChUA = [], a_scheme = ''https'', a_modernHTTP = True,
     a_site = ''h'', a_ja4 = [], a_origMethod = ''GET'', a_bvHost = ''h'', a_bvCookies = [], a_secFetchSite = [], a_secFetchDest = [],
     a_refererHost = []\<rparr>"

definition exMatchers :: pathMatchers where
  "exMatchers = bypassMatchers exCatalog (s_Nginx exSettings) ''h'' (\<lambda>ip. False) []"

subsection \<open>Zones\<close>

text \<open>The zones that trip, in order, with their counts, and the limiter after all of them.\<close>

fun zone_hits :: "int \<Rightarrow> AuthInput \<Rightarrow> bool \<Rightarrow> ResolvedRateZone list \<Rightarrow> Limiter \<Rightarrow> (ResolvedRateZone \<times> Result) list \<times> Limiter" where
  "zone_hits now a bvPass [] l = ([], l)"
| "zone_hits now a bvPass (z # zs) l =
     (if bvPass \<and> zone_mode z \<noteq> RateChallengeDeny then zone_hits now a bvPass zs l
      else let (res, l') = Hit now (zone_key a z) (zone_spec z) l; (hs, l'') = zone_hits now a bvPass zs l'
           in (if r_Hit res then (z, res) # hs else hs, l''))"

definition deny_hit :: "ResolvedRateZone \<times> Result \<Rightarrow> bool" where
  "deny_hit h \<longleftrightarrow> zone_mode (fst h) = RateChallengeDeny"

text \<open>The trip that is reported: the first hard cap, else the first trip.\<close>

definition charged :: "(ResolvedRateZone \<times> Result) list \<Rightarrow> (ResolvedRateZone \<times> Result) option" where
  "charged hs = (case find deny_hit hs of Some h \<Rightarrow> Some h | None \<Rightarrow> (case hs of [] \<Rightarrow> None | h # hs' \<Rightarrow> Some h))"

definition charge :: "ZoneTrip \<Rightarrow> ResolvedRateZone \<times> Result \<Rightarrow> ZoneTrip" where
  "charge t h = t\<lparr>z_name := rv_Name (fst h), z_chMode := zone_mode (fst h), z_count := r_Count (snd h), z_allowance := r_Allowance (snd h),
     z_hit := True, z_deny := deny_hit h\<rparr>"

lemma trip_same: "z_hit t \<Longrightarrow> z_deny t = b \<Longrightarrow> t\<lparr>z_hit := True, z_deny := b\<rparr> = t"
  by (cases t) simp

lemma charge_simps [simp]:
  "z_hit (charge t h)" "z_deny (charge t h) = deny_hit h" "z_chMode (charge t h) = zone_mode (fst h)" "z_name (charge t h) = rv_Name (fst h)"
  "charge (charge t g) h = charge t h"
  by (simp_all add: charge_def)

lemma count_zones_step:
  assumes "\<not> (bvPass \<and> zone_mode z \<noteq> RateChallengeDeny)" "Hit now (zone_key a z) (zone_spec z) l = (res, l')" "z_deny t \<longrightarrow> z_hit t"
  shows "count_zones now a bvPass (z # zs) t l =
    count_zones now a bvPass zs (if r_Hit res \<and> (\<not> z_hit t \<or> (zone_mode z = RateChallengeDeny \<and> \<not> z_deny t)) then charge t (z, res) else t) l'"
proof (cases "r_Hit res \<and> (\<not> z_hit t \<or> (zone_mode z = RateChallengeDeny \<and> \<not> z_deny t))")
  case True
  with assms(3) have "z_deny t = False" by auto
  with True assms show ?thesis by (auto simp: charge_def deny_hit_def Let_def)
next
  case False
  with assms have "r_Hit res \<Longrightarrow> t\<lparr>z_hit := True, z_deny := z_deny t \<or> zone_mode z = RateChallengeDeny\<rparr> = t"
    by (intro trip_same) auto
  with False assms show ?thesis by (auto simp: Let_def)
qed

lemma count_zones_hits:
  assumes "z_deny t \<longrightarrow> z_hit t"
  shows "count_zones now a bvPass zs t l =
     (case (if z_deny t then None else if z_hit t then find deny_hit (fst (zone_hits now a bvPass zs l))
            else charged (fst (zone_hits now a bvPass zs l))) of None \<Rightarrow> t | Some h \<Rightarrow> charge t h,
      snd (zone_hits now a bvPass zs l))"
  using assms
proof (induction zs arbitrary: t l)
  case Nil
  then show ?case by (simp add: charged_def)
next
  case (Cons z zs)
  obtain res l' where hit: "Hit now (zone_key a z) (zone_spec z) l = (res, l')" by (metis prod.exhaust)
  obtain hs l'' where hs: "zone_hits now a bvPass zs l' = (hs, l'')" by (metis prod.exhaust)
  show ?case
  proof (cases "bvPass \<and> zone_mode z \<noteq> RateChallengeDeny")
    case True
    with Cons.IH [OF Cons.prems] show ?thesis by simp
  next
    case False
    let ?t = "if r_Hit res \<and> (\<not> z_hit t \<or> (zone_mode z = RateChallengeDeny \<and> \<not> z_deny t)) then charge t (z, res) else t"
    have all: "zone_hits now a bvPass (z # zs) l = (if r_Hit res then (z, res) # hs else hs, l'')"
      using False hit hs by auto
    have "z_deny ?t \<longrightarrow> z_hit ?t" using Cons.prems by simp
    note IH = Cons.IH [OF this, of l', unfolded hs]
    show ?thesis
      unfolding count_zones_step [OF False hit Cons.prems] IH all
      using Cons.prems by (cases "r_Hit res"; cases "z_hit t"; cases "z_deny t"; cases "zone_mode z = RateChallengeDeny")
        (auto simp: charged_def deny_hit_def split: option.split)
  qed
qed

subsection \<open>Cookies\<close>

lemma pick_loop_spec:
  "pick_loop now p ip host budget vs = Some (v, kind) \<Longrightarrow>
     v \<in> set (take budget vs) \<and> (\<exists>k. MatchingEntryKind now v (p_secret p) ip host (p_powValid p) (p_captchaValid p) (p_difficulty p) = Some k
        \<and> kind = normalizeBVKind k)"
proof (induction now p ip host budget vs rule: pick_loop.induct)
  case (2 now p ip host budget v' vs)
  then show ?case
    by (cases budget) (auto split: if_splits option.splits)
qed simp

subsection \<open>What a cookie changes\<close>

lemma decide_cookie_passes:
  assumes "cookie_passes c k cfg e m a (matchJA4 c (a_ja4 a) (s_Nginx cfg)) bv"
  shows "v_action (fst (decide now c k cfg e m a bv rl)) = Pass \<longleftrightarrow>
    e_ban e = None \<and> ((\<exists>name. crawler_verdict c cfg e m a = CrawlerVerified name)
      \<or> crawler_verdict c cfg e m a = CrawlerUnknown \<and> \<not> denied_agent c k cfg m a (matchJA4 c (a_ja4 a) (s_Nginx cfg)))"
  using assms by (cases "crawler_verdict c cfg e m a") (auto simp: decide_def Let_def veto_switch_cases vouched_def split: option.split)

text \<open>A cookie the switch refuses counts for nothing: the request is judged as if it had none.\<close>

lemma decide_cookie_refused:
  assumes "\<not> cookie_passes c k cfg e m a (matchJA4 c (a_ja4 a) (s_Nginx cfg)) bv"
  shows "decide now c k cfg e m a bv rl = decide now c k cfg e m a None rl"
proof -
  have "veto_switch c k cfg e m a (matchJA4 c (a_ja4 a) (s_Nginx cfg)) bv = veto_switch c k cfg e m a (matchJA4 c (a_ja4 a) (s_Nginx cfg)) None"
  proof -
    have "\<not> cookie_passes c k cfg e m a (matchJA4 c (a_ja4 a) (s_Nginx cfg)) None" by (simp add: cookie_passes_def)
    then show ?thesis using assms unfolding veto_switch_cases vouched_def by presburger
  qed
  then show ?thesis by (simp only: decide_def Let_def)
qed

lemma challenged_by_gate:
  assumes "v_action (fst (decide now c k cfg e m a bv rl)) = Challenge" "e_ban e = None" "crawler_verdict c cfg e m a = CrawlerUnknown"
  defines "ja4 \<equiv> matchJA4 c (a_ja4 a) (s_Nginx cfg)"
  shows "\<not> denied_agent c k cfg m a ja4" "\<not> vouched c k cfg e m a ja4 bv"
    and "fst (decide now c k cfg e m a bv rl) = gate_verdict (fst (collect_votes now c k cfg e m a ja4 rl))"
  using assms by (auto simp: decide_def Let_def veto_switch_cases split: if_splits prod.splits)

section \<open>Properties\<close>

text \<open>
  C1: exactly when the pipeline before the rate limit lets a request through. No ban; and
  either its crawler claim is confirmed, or that claim is open, its user agent is not
  denied, and something vouches for it or no axis votes against it. What can vouch: a
  signed agent, a privacy pass, a pass cookie, a rescued crawler, a bypass; a cookie only
  when it is CAPTCHA grade or nothing asks for that grade. A ban, a disproved crawler and
  a denied user agent are beyond any cookie.\<close>

theorem decide_passes_iff:
  "v_action (fst (decide now c k cfg e m a bv rl)) = Pass \<longleftrightarrow>
     e_ban e = None \<and>
     ((\<exists>name. crawler_verdict c cfg e m a = CrawlerVerified name)
      \<or> (crawler_verdict c cfg e m a = CrawlerUnknown
         \<and> \<not> denied_agent c k cfg m a (matchJA4 c (a_ja4 a) (s_Nginx cfg))
         \<and> (vouched c k cfg e m a (matchJA4 c (a_ja4 a) (s_Nginx cfg)) bv
            \<or> list_all (\<lambda>d. d_sev d = sevPass) (fst (collect_votes now c k cfg e m a (matchJA4 c (a_ja4 a) (s_Nginx cfg)) rl)))))"
proof (cases "e_ban e")
  case None
  let ?ja4 = "matchJA4 c (a_ja4 a) (s_Nginx cfg)"
  have "fst (decide now c k cfg e m a bv rl) =
      (case veto_switch c k cfg e m a ?ja4 bv of Some v \<Rightarrow> v | None \<Rightarrow> gate_verdict (fst (collect_votes now c k cfg e m a ?ja4 rl)))"
    using None by (simp add: decide_def Let_def split: option.split prod.split)
  then show ?thesis
    using None by (cases "crawler_verdict c cfg e m a")
      (auto simp: veto_switch_cases gate_action all_votes_pass)
next
  case (Some b)
  then show ?thesis by (simp add: decide_def Let_def split: prod.split)
qed

text \<open>
  the answer the proxy gets. Its status is the one of its action (200, 401, 403); in
  monitor mode the action is always pass, otherwise it is the one recorded; and a pass is
  recorded exactly when the pipeline passed the request and no zone tripped.\<close>

lemma AuthCheck_response:
  "let R = AuthCheck unixNow now c k cfg p e a rl;
       m = bypassMatchers c (s_Nginx cfg) (a_site a) (e_ipBypass e) (e_rangePats e);
       bv = map_option snd (pickValidBV unixNow p (a_ip a) (a_bvHost a) (a_bvCookies a));
       d = decide now c k cfg e m a bv rl;
       zones = ResolveZonesAll (c_rex c) (s_RateLimit cfg) (a_uri a) (a_site a)
   in r_status (res_response R) = status_of (r_action (res_response R))
    \<and> r_action (res_response R) = (if e_observeOnly e then Pass else res_recorded R)
    \<and> (res_recorded R = Pass \<longleftrightarrow>
         v_action (fst d) = Pass \<and> \<not> z_hit (fst (snd (rate_limit now a zones (fst d) (fst (snd d))))))"
proof -
  let ?m = "bypassMatchers c (s_Nginx cfg) (a_site a) (e_ipBypass e) (e_rangePats e)"
  let ?bv = "map_option snd (pickValidBV unixNow p (a_ip a) (a_bvHost a) (a_bvCookies a))"
  let ?d = "decide now c k cfg e ?m a ?bv rl"
  let ?zones = "ResolveZonesAll (c_rex c) (s_RateLimit cfg) (a_uri a) (a_site a)"
  let ?r = "rate_limit now a ?zones (fst ?d) (fst (snd ?d))"
  have R: "res_response (AuthCheck unixNow now c k cfg p e a rl) = respond (e_observeOnly e) (fst ?r) (fst (snd ?r))"
    "res_recorded (AuthCheck unixNow now c k cfg p e a rl) = v_action (fst ?r)"
    by (simp_all add: AuthCheck_def Let_def split_def)
  have ok: "verdict_ok (fst ?r)" by (intro rate_limit_ok decide_ok)
  have resp: "r_action (respond ob v t) = (if ob then Pass else v_action v) \<and> r_status (respond ob v t) = status_of (r_action (respond ob v t))"
    if "verdict_ok v" for ob v t
    using that by (cases "v_action v") (simp_all add: respond_def Let_def verdict_ok_def)
  show ?thesis
    using resp [OF ok] rate_limit_passes [of now a ?zones "fst ?d" "fst (snd ?d)"] by (simp add: R Let_def)
qed

text \<open>
  C3: a CAPTCHA-grade pass is one the server signed. When the check reads the grade
  \<open>captcha\<close> off a request, one of its first four cookies holds an entry issued under the
  secret for this address, this host and that kind, inside its window; no proof of work
  and no re-bound entry yields it.\<close>

theorem captcha_grade_is_issued:
  assumes "pickValidBV now p ip host cookies = Some (v, ''captcha'')"
  shows "v \<in> set (take 4 cookies) \<and>
    (\<exists>h issued. in64 issued \<and> withinWindow now issued (p_captchaValid p)
       \<and> issueValueAtH h (p_secret p) ip host ''captcha'' issued \<in> set (split (CHR ''~'') v))"
proof -
  obtain kd where v: "v \<in> set (take 4 cookies)"
    and kd: "MatchingEntryKind now v (p_secret p) ip host (p_powValid p) (p_captchaValid p) (p_difficulty p) = Some kd"
      "normalizeBVKind kd = ''captcha''"
    using assms pick_loop_spec [of now p ip host 4 cookies v "''captcha''"] by (auto simp: pickValidBV_def)
  then have "kd = ''captcha''" by (auto simp: normalizeBVKind_def split: if_splits)
  with MatchingEntryKind_issued [OF kd(1)] v show ?thesis by simp
qed

theorem captcha_grade_is_issued_witness:
  "let p = \<lparr>p_secret = ''secret'', p_powValid = 3600, p_captchaValid = 3600, p_difficulty = 18\<rparr>;
       v = issueValueAtH SigSHA256 ''secret'' ''192.0.2.7'' ''example.org'' ''captcha'' 990
   in pickValidBV 1000 p ''192.0.2.7'' ''example.org'' [[], v] = Some (v, ''captcha'')
      \<and> v \<in> set (take 4 [[], v])
      \<and> (\<exists>h issued. in64 issued \<and> withinWindow 1000 issued 3600
         \<and> issueValueAtH h ''secret'' ''192.0.2.7'' ''example.org'' ''captcha'' issued \<in> set (split (CHR ''~'') v))"
proof -
  let ?p = "\<lparr>p_secret = ''secret'', p_powValid = 3600, p_captchaValid = 3600, p_difficulty = 18\<rparr>"
  let ?v = "issueValueAtH SigSHA256 ''secret'' ''192.0.2.7'' ''example.org'' ''captcha'' 990"
  have "format_int 10 990 = ''990''" by code_simp
  then have "length ?v \<le> 1024" using length_take_mac [of 16] by (simp add: issueValueAtH_join)
  moreover have "MatchingEntryKind 1000 ?v ''secret'' ''192.0.2.7'' ''example.org'' 3600 3600 18 = Some ''captcha''"
    by (rule MatchingEntryKind_of_issued) (simp_all add: issuedKinds_def in64_def withinWindow_def futureSkewToleranceSeconds_def)
  ultimately have pick: "pickValidBV 1000 ?p ''192.0.2.7'' ''example.org'' [[], ?v] = Some (?v, ''captcha'')"
    by (simp add: pickValidBV_def normalizeBVKind_def)
  from captcha_grade_is_issued [OF this] pick show ?thesis unfolding Let_def by simp
qed

text \<open>
  the gate never refuses a cookie for its grade and then serves a chain that cannot mint
  that grade. When some source asks for a CAPTCHA-grade pass, the request is not a rescued
  crawler, and it is outside two corners (a query string on the URI; a black-listed user
  agent that is also a stale browser), the gating axes block it or challenge it with a
  chain that ends in a CAPTCHA. The matchers are the ones compiled from the same settings.\<close>

lemma grade_refusal_is_served:
  assumes need: "needsCaptchaGrade c k cfg e m a ja4"
    and m: "m = bypassMatchers c (s_Nginx cfg) (a_site a) ipb rp"
    and bot: "\<not> rescued c k cfg m a (snd ja4)"
    and query: "CHR ''?'' \<notin> set (a_uri a)"
    and stale: "\<not> (ua_listed c (a_ua a) (s_Nginx cfg) \<and> IsStaleBrowser k (a_ua a))"
  shows "let v = gate_verdict (fst (collect_votes now c k cfg e m a ja4 rl)) in
           v_action v = Block \<or> (v_action v = Challenge \<and> ChainEndsInCaptcha (v_chMode v))"
proof -
  let ?votes = "fst (collect_votes now c k cfg e m a ja4 rl)"
  let ?ua = "uaDecide c k (a_ua a) (snd ja4) cfg (m_rangeVerifiedUA m)"
  have unrescued: "\<not> search_ai_rescued k (a_ua a) (snd ja4) (m_rangeVerifiedUA m)"
    using bot by (auto simp: rescued_def isSearchBotUA_def)
  have "\<exists>d \<in> set ?votes. harsh d"
  proof -
    from need consider (ua) "uaRequiresCaptchaGrade c (a_ua a) cfg"
      | (path) "ModeEndsInCaptcha (protectedModeForOrig c (n_ProtectedPaths (s_Nginx cfg)) (a_site a) (a_uri a))"
      | (fp) "ja4NeedsCaptchaGrade c (fst ja4) (snd ja4) cfg"
      | (net) "axisNeedsCaptchaGradeFor (c_HostingProviders c) (e_info e) (matchPath (a_uri a) (m_asnExempt m))
                 (matchPath (a_uri a) (m_geoExempt m)) (s_Nginx cfg)"
      | (esc) "escalationNeedsCaptchaGrade k (a_ua a) (a_secChUA a) (a_scheme a) (a_modernHTTP a) cfg"
      | (posture) "postureNeedsCaptchaGrade c k (a_ua a) cfg"
      by (auto simp: needsCaptchaGrade_def requestNeedsCaptchaGrade_def split: if_splits)
    then show ?thesis
    proof cases
      case ua
      from ua_listed_harsh [OF ua unrescued] show ?thesis by (simp add: collect_votes_fst)
    next
      case path
      from protected_harsh [OF path query] show ?thesis by (auto simp: collect_votes_fst m)
    next
      case fp
      from ja4_harsh [OF fp] show ?thesis by (auto simp: collect_votes_fst)
    next
      case net
      from axis_harsh [OF net, of now rl "snd (geo_vote now cfg e m a rl)"] show ?thesis by (auto simp: collect_votes_fst)
    next
      case esc
      then consider "StaleBrowserEnabled (s_Global cfg)" "ChainEndsInCaptcha (StaleBrowserResolvedAction (s_Global cfg))" "IsStaleBrowser k (a_ua a)"
        | "headerDecide k (a_ua a) (a_secChUA a) (a_scheme a) (a_modernHTTP a) (s_Global cfg) \<noteq> None" "ChainEndsInCaptcha (HeaderIntegrityResolvedAction (s_Global cfg))"
        by (auto simp: escalationNeedsCaptchaGrade_def Let_def split: if_splits)
      then show ?thesis
      proof cases
        case 1
        with stale posture_harsh [OF stale_posture _ unrescued] have "harsh ?ua" by blast
        then show ?thesis by (simp add: collect_votes_fst)
      next
        case 2
        from header_harsh [OF this] show ?thesis by (auto simp: collect_votes_fst)
      qed
    next
      case posture
      then have "\<not> ua_listed c (a_ua a) (s_Nginx cfg)" "ChainEndsInCaptcha (fst (posturePick k (a_ua a) (s_Global cfg)))"
        by (auto simp: postureNeedsCaptchaGrade_def ua_listed_def split: prod.splits if_splits)
      with posture_harsh [OF _ _ unrescued] have "harsh ?ua" by blast
      then show ?thesis by (simp add: collect_votes_fst)
    qed
  qed
  then show ?thesis by (rule harsh_vote_gates)
qed

text \<open>
  the corner of the query string is real. A protected row that names a path exactly is matched
  against the URI with its query string: the path itself is challenged with a CAPTCHA, the
  same path with any query passes a browser the posture passes, although the grade gate,
  which cuts the query off, still asks for a CAPTCHA-grade cookie.\<close>

lemma protected_path_query_evades:
  "let d = (\<lambda>uri bv. fst (decide 0 exCatalog exClassify exSettings exEnv exMatchers (exInput ''Mozilla'' uri) bv None))
   in v_action (d ''/login'' None) = Challenge \<and> v_chMode (d ''/login'' None) = RateChallengeCaptchaOnly
    \<and> v_action (d ''/login?x=1'' None) = Pass
    \<and> needsCaptchaGrade exCatalog exClassify exSettings exEnv exMatchers (exInput ''Mozilla'' ''/login?x=1'') ([], ''ok'')"
  by code_simp

text \<open>
  C32: which zone a rate-limited request is charged to. All zones count; the limiter ends in
  the state after all of them; the trip reported is the first hard cap that tripped, else
  the first trip, with its count and allowance. If a hard cap tripped, the answer is a
  block with status 403, for the holder of a pass cookie too, whose other zones are
  skipped.\<close>

theorem zone_attribution:
  "let bvPass = is_prefix ''bv-'' (v_reason v);
       (hs, l') = zone_hits now a bvPass zones l;
       (v', t, rl') = rate_limit now a zones v (Some l)
   in if shouldCount (Some l) v
      then rl' = Some l'
         \<and> t = (case charged hs of None \<Rightarrow> initial_trip zones | Some h \<Rightarrow> charge (initial_trip zones) h)
         \<and> (if list_ex deny_hit hs then v_action v' = Block \<and> v_status v' = 403 \<and> z_deny t
            else v_action v' = (if hs \<noteq> [] \<and> v_action v = Pass then Challenge else v_action v))
      else (v', rl') = (v, Some l)"
proof -
  let ?bv = "is_prefix ''bv-'' (v_reason v)"
  obtain hs l' where hs: "zone_hits now a ?bv zones l = (hs, l')" by (metis prod.exhaust)
  let ?t = "case charged hs of None \<Rightarrow> initial_trip zones | Some h \<Rightarrow> charge (initial_trip zones) h"
  have count: "count_zones now a ?bv zones (initial_trip zones) l = (?t, l')"
    using count_zones_hits [of "initial_trip zones" now a ?bv zones l] hs by simp
  show ?thesis
  proof (cases "shouldCount (Some l) v")
    case False
    then show ?thesis by (simp add: rate_limit_def hs)
  next
    case True
    have limited: "rate_limit now a zones v (Some l) = (apply_trip ?t v, ?t, Some l')"
      using True count by (simp add: rate_limit_def Let_def)
    have deny: "\<exists>h. charged hs = Some h \<and> deny_hit h" if "list_ex deny_hit hs"
      using that find_ex_iff [of deny_hit hs] by (auto simp: charged_def list_ex_iff dest: find_Some_iff2 split: option.splits)
    have soft: "case charged hs of None \<Rightarrow> hs = [] | Some h \<Rightarrow> hs \<noteq> [] \<and> \<not> deny_hit h" if "\<not> list_ex deny_hit hs"
      using that by (cases hs) (auto simp: charged_def list_ex_iff find_None_iff [THEN iffD2] split: option.splits)
    show ?thesis
    proof (cases "list_ex deny_hit hs")
      case True
      with deny obtain h where "charged hs = Some h" "deny_hit h" by blast
      with True \<open>shouldCount (Some l) v\<close> show ?thesis by (simp add: hs limited apply_trip_def Let_def deny_hit_def)
    next
      case False
      with soft \<open>shouldCount (Some l) v\<close> show ?thesis
        by (auto simp: hs limited apply_trip_def Let_def deny_hit_def split: option.splits)
    qed
  qed
qed

end
