(* ===== verification/Serve_Chain.thy ===== *)
theory Serve_Chain
  imports Auth_Check
begin

text \<open>
  The chain a challenge page shows (\<open>handlers/serve_chain.go\<close>): the attributed axis's own
  chain, the community list, the stale-browser, header and UA-TLS tiers, a custom rule, the
  hint of a wrapper, the grade backstop, the test override, each replacing what came before.
  The request is the headers and query values the code reads; the client's address facts
  and the site are arguments.
\<close>

section \<open>Definitions\<close>

record ServeRequest =
  q_UserAgent :: string
  q_XOriginalUA :: string
  q_XOriginalSecCHUA :: string
  q_SecCHUA :: string
  q_XOriginalScheme :: string
  q_XForwardedProto :: string
  q_XOriginalHTTP2 :: string
  q_XOriginalHTTP3 :: string
  q_TLS :: bool
  q_ProtoMajor :: nat
  q_XHeaderMismatch :: string
  q_XUATLSMismatch :: string
  q_XUnmaskRuleAction :: string
  q_XOriginalURI :: string
  q_orig :: string
  q_chm :: string
  q_site :: string

record serveChainInputs =
  f_forceReason :: string
  f_forceQuery :: string
  f_ppMode :: string
  f_netChMode :: string
  f_verdict :: string
  f_uaListed :: bool
  f_uaRowAction :: string
  f_cbHitKind :: string

definition truncateAt :: "string \<Rightarrow> nat \<Rightarrow> string" where
  "truncateAt s n = (if length s > n then take n s else s)"

definition protectedOrigURI :: "ServeRequest \<Rightarrow> string \<Rightarrow> string" where
  "protectedOrigURI r basePath =
     (let oru = trim_space (q_XOriginalURI r) in
      if \<not> is_prefix ''/'' oru then []
      else if list_ex (\<lambda>self. is_prefix (basePath @ self) oru) [''/challenge/'', ''/challenge.html'', ''/api/'', ''/static/'', ''/_deny''] then []
      else truncateAt oru 200)"

definition banProbedOrigPath :: "ServeRequest \<Rightarrow> string \<Rightarrow> string" where
  "banProbedOrigPath r basePath =
     (let oru = trim_space (q_XOriginalURI r) in
      if is_prefix ''/'' oru \<and> \<not> is_prefix (basePath @ ''/'') oru then truncateAt oru 200 else [])"

definition headerDecideForServe :: "Classify \<Rightarrow> ServeRequest \<Rightarrow> GlobalConfig \<Rightarrow> axisDecision option" where
  "headerDecideForServe k r g =
     (let ua = firstNonEmpty [q_XOriginalUA r, q_UserAgent r];
          secChUA = firstNonEmpty [q_XOriginalSecCHUA r, q_SecCHUA r];
          xfProto = firstNonEmpty [q_XOriginalScheme r, q_XForwardedProto r];
          scheme = (if xfProto = [] \<and> q_TLS r then ''https'' else xfProto);
          modern = (xfProto \<noteq> [] \<or> q_XOriginalHTTP2 r \<noteq> [] \<or> q_XOriginalHTTP3 r \<noteq> [] \<or> q_ProtoMajor r \<ge> 2)
      in headerDecide k ua secChUA scheme modern g)"

definition headerAxisFiresForServe :: "Classify \<Rightarrow> ServeRequest \<Rightarrow> GlobalConfig \<Rightarrow> bool" where
  "headerAxisFiresForServe k r g =
     (if \<not> g_HeaderIntegrity g then False
      else if q_XHeaderMismatch r = ''1'' then True
      else headerDecideForServe k r g \<noteq> None)"

definition staleBrowserFiresForServe :: "Classify \<Rightarrow> ServeRequest \<Rightarrow> GlobalConfig \<Rightarrow> bool" where
  "staleBrowserFiresForServe k r g =
     (if \<not> StaleBrowserEnabled g then False else IsStaleBrowser k (firstNonEmpty [q_XOriginalUA r, q_UserAgent r]))"

definition UATLSAddedIn :: string where
  "UATLSAddedIn = ''v0.1.53''"

definition UATLSActive :: "Settings \<Rightarrow> bool" where
  "UATLSActive s \<longleftrightarrow> UATLSEnabled (s_Global s) \<and> \<not> EnforcementHeld (s_Nginx s) UATLSAddedIn"

definition uaTLSCheckNames :: "string list" where
  "uaTLSCheckNames = [''family'', ''version'', ''reverse'']"

definition uaTLSFiresForServe :: "ServeRequest \<Rightarrow> Settings \<Rightarrow> bool" where
  "uaTLSFiresForServe r s = (if \<not> UATLSActive s then False else trim_space (q_XUATLSMismatch r) \<in> set uaTLSCheckNames)"

text \<open>The network rule whose rate a client exceeded: by number or organisation, then by country.\<close>

definition netRateRule :: "Catalog \<Rightarrow> IPInfo \<Rightarrow> Settings \<Rightarrow> string option" where
  "netRateRule c info cfg =
     (case (case i_ASN info of None \<Rightarrow> None
            | Some (asn, org) \<Rightarrow>
                find (\<lambda>rr. (arr_ASN rr \<noteq> 0 \<and> asn = arr_ASN rr) \<or> (arr_ASN rr = 0 \<and> arr_Org rr \<noteq> [] \<and> OrgMatchesAny org [arr_Org rr]))
                  (Asn_RateRules (c_HostingProviders c) (n_Asn (s_Nginx cfg)))) of
        Some rr \<Rightarrow> Some (arr_Action rr)
      | None \<Rightarrow>
        (case i_Country info of None \<Rightarrow> None
         | Some cc \<Rightarrow> map_option grr_Action (find (\<lambda>rr. grr_Country rr = country_of info) (Geo_RateRules (n_Geo (s_Nginx cfg))))))"

definition netRateOverageAction :: "Catalog \<Rightarrow> IPInfo \<Rightarrow> Settings \<Rightarrow> string" where
  "netRateOverageAction c info cfg = (case netRateRule c info cfg of Some a \<Rightarrow> a | None \<Rightarrow> [])"

text \<open>\<open>classify.joinAlt\<close> matched: some alternative that compiles on its own matches.\<close>

definition joinAlt :: "Catalog \<Rightarrow> string list \<Rightarrow> string \<Rightarrow> bool" where
  "joinAlt c parts ua = list_ex (\<lambda>p. p \<noteq> [] \<and> c_match c (''(?i)(?:'' @ p @ '')'') ua) parts"

definition ResolvePresetActionForUA :: "Catalog \<Rightarrow> string \<Rightarrow> ChallengeTargetGroup list \<Rightarrow> (string \<times> string) list \<Rightarrow> (string \<Rightarrow> bool) \<Rightarrow> string" where
  "ResolvePresetActionForUA c ua groups overrides disabled =
     (if ua = [] \<or> overrides = [] then []
      else case find (\<lambda>g. \<not> disabled (tg_ID g) \<and> str_at overrides (tg_ID g) \<noteq> [] \<and> joinAlt c (tg_Patterns g) ua) groups of
        Some g \<Rightarrow> str_at overrides (tg_ID g) | None \<Rightarrow> [])"

definition ResolveActionForUA :: "Catalog \<Rightarrow> string \<Rightarrow> (string \<times> string) list \<Rightarrow> (string \<times> string) list \<Rightarrow> (string \<times> string) list \<Rightarrow> string" where
  "ResolveActionForUA c ua groupModes patternModes actionOverrides =
     (if ua = [] \<or> actionOverrides = [] then []
      else case find (\<lambda>(cat, pats). str_at actionOverrides cat \<noteq> []
                 \<and> joinAlt c (filter (\<lambda>p. ResolvePatternMode cat p groupModes patternModes = ''black'') pats) ua) (c_UpstreamRescueList c) of
        Some (cat, pats) \<Rightarrow> str_at actionOverrides cat | None \<Rightarrow> [])"

text \<open>Keep a chain unless the override is a valid one.\<close>

definition take_valid :: "string \<Rightarrow> string \<Rightarrow> string" where
  "take_valid act chMode = (if IsValidRateChallengeMode act then act else chMode)"

text \<open>The black-list override of a plain serve: list default, row, upstream group, preset.\<close>

definition blacklist_chain :: "Catalog \<Rightarrow> Settings \<Rightarrow> string \<Rightarrow> bool \<Rightarrow> string \<Rightarrow> string \<Rightarrow> string" where
  "blacklist_chain c cfg ua uaListed uaRowAction chMode =
     (if ua = [] then chMode
      else let ct = n_ChallengeTargets (s_Nginx cfg); sb = n_SearchBots (s_Nginx cfg);
               ch1 = (if uaListed then take_valid uaRowAction (take_valid (trim_space (ct_DefaultAction ct)) chMode) else chMode);
               ch2 = take_valid (ResolveActionForUA c ua (sb_UpstreamGroupMode sb) (sb_UpstreamPatternMode sb) (sb_UpstreamGroupAction sb)) ch1;
               disabled = (\<lambda>i. i \<in> set (ct_DisabledPresets ct)
                  \<or> list_ex (\<lambda>g. tg_ID g = i \<and> EnforcementHeld (s_Nginx cfg) (tg_AddedIn g)) (c_ChallengeTargetGroups c))
           in take_valid (ResolvePresetActionForUA c ua (c_ChallengeTargetGroups c) (ct_PresetAction ct) disabled) ch2)"

definition posture_chain :: "Classify \<Rightarrow> Settings \<Rightarrow> string \<Rightarrow> string \<Rightarrow> string" where
  "posture_chain k cfg ua chMode =
     (let g = s_Global cfg; pick = (if k_IsKnownBrowser k ua then g_KnownBrowserAction g else g_UnknownUAAction g);
          pick = (if pick = [] then ''pow_only'' else pick)
      in if pick \<noteq> ''pass'' then take_valid pick chMode else chMode)"

text \<open>Steps 1 and 2: the rate-limit default, then the attributed axis.\<close>

definition axis_chain :: "Catalog \<Rightarrow> Classify \<Rightarrow> Settings \<Rightarrow> IPInfo \<Rightarrow> string \<Rightarrow> ServeRequest \<Rightarrow> serveChainInputs \<Rightarrow> string" where
  "axis_chain c k cfg info basePath r f =
     (let chMode = Values_ResolvedChallengeMode (rl_Default (s_RateLimit cfg));
          chMode = (if f_forceReason f = ''none'' then posture_chain k cfg (q_UserAgent r) chMode else chMode)
      in if f_forceReason f = ''protected'' then ChModeForProtectedMode (f_ppMode f)
         else if f_forceReason f = ''asn'' \<or> f_forceReason f = ''geo'' then take_valid (f_netChMode f) chMode
         else if f_forceReason f = ''honeypot''
         then let ch1 = take_valid (trim_space (hc_DefaultAction (n_Honeypot (s_Nginx cfg)))) chMode;
                  hpURI = trim_space (q_orig r);
                  hpURI = (if hpURI = [] then banProbedOrigPath r basePath else hpURI)
              in (case ResolveHoneypotAction c hpURI (q_site r) (s_Nginx cfg) of Some act \<Rightarrow> take_valid act ch1 | None \<Rightarrow> ch1)
         else if f_forceReason f = ''reuse_limit'' then RateChallengeCaptchaOnly
         else if f_forceReason f = ''rate_limit'' then take_valid (netRateOverageAction c info cfg) chMode
         else if f_forceReason f = ''ja4_bot''
         then EffectiveJA4BotChain (c_JA4VerdictGroups c) (f_verdict f) (n_JA4Verdicts (s_Nginx cfg)) (s_RateLimit cfg)
         else blacklist_chain c cfg (q_UserAgent r) (f_uaListed f) (f_uaRowAction f) chMode)"

text \<open>Steps 3 to 5: the community list, the three tiers, a custom rule; no tier softens a deny.\<close>

definition tier_chain :: "Classify \<Rightarrow> Settings \<Rightarrow> ServeRequest \<Rightarrow> serveChainInputs \<Rightarrow> string \<Rightarrow> string" where
  "tier_chain k cfg r f ch0 =
     (let g = s_Global cfg;
          ch1 = (if f_cbHitKind f \<noteq> [] then CommunityBans_ResolvedAction (s_CommunityBans cfg) else ch0);
          ch2 = (if StaleBrowserEnabled g \<and> ch1 \<noteq> RateChallengeDeny \<and> IsStaleBrowser k (q_UserAgent r) then StaleBrowserResolvedAction g else ch1);
          ch3 = (if ch2 \<noteq> RateChallengeDeny \<and> headerAxisFiresForServe k r g then HeaderIntegrityResolvedAction g else ch2);
          ch4 = (if ch3 \<noteq> RateChallengeDeny \<and> uaTLSFiresForServe r cfg then UATLSResolvedAction g else ch3);
          a = trim_space (q_XUnmaskRuleAction r)
      in if a \<noteq> [] \<and> ch4 \<noteq> RateChallengeDeny \<and> IsValidRateChallengeMode a \<and> a \<noteq> RateChallengeDeny then a else ch4)"

text \<open>Step 6: the hint of a wrapper. Step 7: the backstop.\<close>

definition hint_chain :: "ServeRequest \<Rightarrow> string \<Rightarrow> string \<Rightarrow> string" where
  "hint_chain r basePath ch =
     (let cm = trim_space (q_chm r) in
      if cm \<noteq> [] \<and> IsValidRateChallengeMode cm \<and> banProbedOrigPath r basePath \<noteq> [] then cm else ch)"

definition backstop :: "Catalog \<Rightarrow> Settings \<Rightarrow> string \<Rightarrow> ServeRequest \<Rightarrow> string \<Rightarrow> string" where
  "backstop c cfg basePath r ch =
     (if ch \<noteq> RateChallengeDeny \<and> \<not> ChainEndsInCaptcha ch
         \<and> requestNeedsCaptchaGrade c (q_UserAgent r) (protectedOrigURI r basePath) (q_site r) cfg
      then RateChallengePoWThenCaptcha else ch)"

definition forced_chain :: "string \<Rightarrow> string \<Rightarrow> string" where
  "forced_chain forceQuery ch =
     (if forceQuery = ''pow'' then RateChallengePoWOnly
      else if forceQuery = ''captcha'' then RateChallengeCaptchaOnly
      else if forceQuery = ''pow_then_captcha'' then RateChallengePoWThenCaptcha else ch)"

definition serveChain :: "Catalog \<Rightarrow> Classify \<Rightarrow> Settings \<Rightarrow> IPInfo \<Rightarrow> string \<Rightarrow> ServeRequest \<Rightarrow> serveChainInputs \<Rightarrow> string" where
  "serveChain c k cfg info basePath r f =
     forced_chain (f_forceQuery f)
       (backstop c cfg basePath r (hint_chain r basePath (tier_chain k cfg r f (axis_chain c k cfg info basePath r f))))"

section \<open>Lemmas\<close>

lemma valid_chains [simp]:
  "IsValidRateChallengeMode RateChallengePoWOnly" "IsValidRateChallengeMode RateChallengeCaptchaOnly"
  "IsValidRateChallengeMode RateChallengePoWThenCaptcha" "IsValidRateChallengeMode RateChallengeDeny"
  by (simp_all add: IsValidRateChallengeMode_def)

lemma take_valid_valid [simp]: "IsValidRateChallengeMode ch \<Longrightarrow> IsValidRateChallengeMode (take_valid act ch)"
  by (simp add: take_valid_def)

lemma valid_resolvers [simp]:
  "IsValidRateChallengeMode (Values_ResolvedChallengeMode v)" "IsValidRateChallengeMode (ChModeForProtectedMode m)"
  "IsValidRateChallengeMode (CommunityBans_ResolvedAction cb)" "IsValidRateChallengeMode (StaleBrowserResolvedAction g)"
  "IsValidRateChallengeMode (HeaderIntegrityResolvedAction g)" "IsValidRateChallengeMode (UATLSResolvedAction g)"
  by (auto simp: Values_ResolvedChallengeMode_def ChModeForProtectedMode_def CommunityBans_ResolvedAction_def StaleBrowserResolvedAction_def
      HeaderIntegrityResolvedAction_def UATLSResolvedAction_def DefaultCommunityBansAction_def DefaultStaleBrowserAction_def Let_def)

lemma ja4_chain_valid [simp]: "IsValidRateChallengeMode (EffectiveJA4BotChain gs verdict jv rl)"
proof -
  let ?last = "foldl (\<lambda>out act. if IsValidRateChallengeMode act then act else out)"
  have kept: "?last init acts = init \<or> IsValidRateChallengeMode (?last init acts)" for init acts
  proof (induction acts arbitrary: init)
    case (Cons a acts)
    from Cons [of "if IsValidRateChallengeMode a then a else init"] show ?case by (auto split: if_splits)
  qed simp
  have "ResolveJA4VerdictAction gs verdict jv = [] \<or> IsValidRateChallengeMode (ResolveJA4VerdictAction gs verdict jv)"
  proof (cases "verdict = []")
    case False
    show ?thesis unfolding ResolveJA4VerdictAction_def if_not_P [OF False] by (rule kept)
  qed (simp add: ResolveJA4VerdictAction_def)
  then show ?thesis by (auto simp: EffectiveJA4BotChain_def JA4DefaultChain_def Let_def)
qed

lemma axis_chain_valid [simp]: "IsValidRateChallengeMode (axis_chain c k cfg info bp r f)"
  by (simp add: axis_chain_def blacklist_chain_def posture_chain_def Let_def split: option.split)

lemma tier_chain_valid [simp]: "IsValidRateChallengeMode ch \<Longrightarrow> IsValidRateChallengeMode (tier_chain k cfg r f ch)"
  by (simp add: tier_chain_def Let_def)

lemma captcha_chain_valid: "ChainEndsInCaptcha ch \<Longrightarrow> IsValidRateChallengeMode ch"
  by (auto simp: ChainEndsInCaptcha_def)

section \<open>Properties\<close>

text \<open>
  the serve always names one of the four chains, whatever the settings, the headers and
  the query hold.\<close>

lemma serveChain_valid: "IsValidRateChallengeMode (serveChain c k cfg info bp r f)"
  by (simp add: serveChain_def forced_chain_def backstop_def hint_chain_def Let_def)

lemma trim_captcha_chain: "ChainEndsInCaptcha ch \<Longrightarrow> trim_space ch = ch \<and> ch \<noteq> []"
proof -
  have "trim_space RateChallengeCaptchaOnly = RateChallengeCaptchaOnly" "trim_space RateChallengePoWThenCaptcha = RateChallengePoWThenCaptcha"
    by code_simp+
  then show "ChainEndsInCaptcha ch \<Longrightarrow> trim_space ch = ch \<and> ch \<noteq> []"
    by (auto simp: ChainEndsInCaptcha_def RateChallengeCaptchaOnly_def RateChallengePoWThenCaptcha_def)
qed

lemma captcha_hint_served:
  assumes "ChainEndsInCaptcha (q_chm r)" "banProbedOrigPath r bp \<noteq> []" "f_forceQuery f = []"
  shows "serveChain c k cfg info bp r f = q_chm r"
  using trim_captcha_chain [OF assms(1)] captcha_chain_valid [OF assms(1)] assms
  by (simp add: serveChain_def forced_chain_def backstop_def hint_chain_def Let_def)

definition exRequest :: "string \<Rightarrow> string \<Rightarrow> string \<Rightarrow> ServeRequest" where
  "exRequest ua uri chm = \<lparr>q_UserAgent = ua, q_XOriginalUA = ua, q_XOriginalSecCHUA = [], q_SecCHUA = [], q_XOriginalScheme = ''https'',
     q_XForwardedProto = [], q_XOriginalHTTP2 = [], q_XOriginalHTTP3 = [], q_TLS = False, q_ProtoMajor = 1, q_XHeaderMismatch = [],
     q_XUATLSMismatch = [], q_XUnmaskRuleAction = [], q_XOriginalURI = uri, q_orig = [], q_chm = chm, q_site = ''h''\<rparr>"

definition exServe :: serveChainInputs where
  "exServe = \<lparr>f_forceReason = ''none'', f_forceQuery = [], f_ppMode = [], f_netChMode = [], f_verdict = [], f_uaListed = True,
     f_uaRowAction = ''pow_only'', f_cbHitKind = []\<rparr>"

text \<open>
  the corner of a black-listed stale browser. The row says \<open>pow_only\<close>, the stale tier
  asks for a CAPTCHA: the check names the chain \<open>pow_only\<close>, and refuses the proof-of-work
  cookie that chain mints, naming \<open>pow_only\<close> again. A serve without the check's hint shows
  the tier's CAPTCHA, so the visitor gets out; a serve that is handed the hint shows
  \<open>pow_only\<close>, and its backstop does not see the tier: the visitor never gets out.\<close>

lemma stale_listed_loop:
  "let ua = ''Mozilla curl Chrome/100''; a = exInput ua ''/'';
       d = (\<lambda>bv. fst (decide 0 exCatalog exClassify exSettings exEnv exMatchers a bv None));
       serve = (\<lambda>hint. serveChain exCatalog exClassify exSettings (e_info exEnv) ''/unmask'' (exRequest ua ''/'' hint) exServe)
   in v_action (d None) = Challenge \<and> v_chMode (d None) = RateChallengePoWOnly
    \<and> v_action (d (Some ''pow'')) = Challenge \<and> v_chMode (d (Some ''pow'')) = RateChallengePoWOnly
    \<and> serve [] = RateChallengeCaptchaOnly \<and> serve (v_chMode (d (Some ''pow''))) = RateChallengePoWOnly"
proof -
  let ?ua = "''Mozilla curl Chrome/100''"
  let ?v = "\<lparr>v_action = Challenge, v_reason = ''ua:target:tools'', v_status = 401, v_chMode = ''pow_only''\<rparr>"
  have "fst (decide 0 exCatalog exClassify exSettings exEnv exMatchers (exInput ?ua ''/'') None None) = ?v"
    by code_simp
  moreover have "fst (decide 0 exCatalog exClassify exSettings exEnv exMatchers (exInput ?ua ''/'') (Some ''pow'') None) = ?v"
    by code_simp
  moreover have "serveChain exCatalog exClassify exSettings (e_info exEnv) ''/unmask'' (exRequest ?ua ''/'' []) exServe = ''captcha_only''"
    by code_simp
  moreover have "serveChain exCatalog exClassify exSettings (e_info exEnv) ''/unmask'' (exRequest ?ua ''/'' ''pow_only'') exServe = ''pow_only''"
    by code_simp
  ultimately show ?thesis by (simp only: Let_def Verdict.simps chain_defs simp_thms)
qed

end
