(* ===== verification/Captcha.thy ===== *)
theory Captcha
  imports Go_Crypto Signed_Token
begin

text \<open>
  Package \<open>captcha\<close> (\<open>admin/internal/captcha/captcha.go\<close>): the arithmetic question and
  its token, the proof-of-load token bound to the client and the challenge chain, the
  comparison of two TLS fingerprints, and \<open>UsedSet\<close>, the set of tokens that have earned a
  pass. Random draws and the clock (unix seconds) are arguments. The theorems say which
  tokens the verifiers accept and how long a consumed token stays refused.
\<close>

section \<open>Definitions\<close>

definition TokenValidSeconds :: int where
  "TokenValidSeconds = 900"

text \<open>\<open>TokenTTL\<close> is the same span as a duration; durations are whole seconds here.\<close>

definition TokenTTL :: int where
  "TokenTTL = TokenValidSeconds"

definition dayOf :: "int \<Rightarrow> int" where
  "dayOf unixSec = go_div unixSec 86400"

definition mathSecret :: "string \<Rightarrow> int \<Rightarrow> string" where
  "mathSecret base day = hmac sha256 base (format_int 10 day)"

text \<open>\<open>rand.Int\<close> is the argument \<open>draw\<close>: it may fail, and the clock then stands in.\<close>

definition randomInt :: "(int \<Rightarrow> int option) \<Rightarrow> int \<Rightarrow> int \<Rightarrow> int \<Rightarrow> int" where
  "randomInt draw nanos mn mx =
     (case draw (mx - mn + 1) of
        None \<Rightarrow> mn + (nanos - (mx - mn + 1) * go_div nanos (mx - mn + 1))
      | Some n \<Rightarrow> mn + n)"

subsection \<open>The arithmetic question\<close>

definition math_msg :: "string \<Rightarrow> string \<Rightarrow> string \<Rightarrow> string" where
  "math_msg issuedS answer ct = ''math:'' @ issuedS @ '':'' @ answer @ '':'' @ ct"

definition math_mac :: "string \<Rightarrow> int \<Rightarrow> string \<Rightarrow> string \<Rightarrow> string \<Rightarrow> string" where
  "math_mac base issued issuedS answer ct = hex_encode (hmac sha256 (mathSecret base (dayOf issued)) (math_msg issuedS answer ct))"

definition mathChallengeAt :: "(int \<Rightarrow> int option) \<Rightarrow> (int \<Rightarrow> int option) \<Rightarrow> int \<Rightarrow> string \<Rightarrow> string \<Rightarrow> int \<Rightarrow> int \<times> int \<times> string" where
  "mathChallengeAt draw1 draw2 nanos base ct now =
     (let a = randomInt draw1 nanos 1 20; b = randomInt draw2 nanos 1 20; issued = now in
      (a, b, format_int 10 issued @ ''.'' @ math_mac base issued (format_int 10 issued) (format_int 10 (a + b)) ct))"

definition ascii_digit :: "char \<Rightarrow> bool" where
  "ascii_digit c \<longleftrightarrow> (48 :: nat) \<le> of_char c \<and> of_char c \<le> (57 :: nat)"

definition token_window :: "int \<Rightarrow> int \<Rightarrow> int \<Rightarrow> bool" where
  "token_window now issued validSecs \<longleftrightarrow> \<not> (issued > wrap64 (now + 60) \<or> wrap64 (now - issued) > validSecs)"

definition verifyMathAt :: "string \<Rightarrow> string \<Rightarrow> string \<Rightarrow> string \<Rightarrow> int \<Rightarrow> int \<Rightarrow> bool" where
  "verifyMathAt answerStr token ct base validSecs now =
     (let s = trim_space answerStr in
      if s = '''' then False
      else if \<not> list_all ascii_digit s then False
      else case index_byte (CHR ''.'') token of None \<Rightarrow> False
        | Some dot \<Rightarrow>
          if dot = 0 \<or> int dot \<ge> int (length token) - 1 then False
          else let issuedS = take dot token; sig = drop (Suc dot) token in
            case parse_int 10 64 issuedS of None \<Rightarrow> False
            | Some issued \<Rightarrow>
              if \<not> token_window now issued validSecs then False
              else math_mac base issued issuedS s ct = sig)"

subsection \<open>The proof-of-load token\<close>

record Binding =
  b_Key :: string
  b_Host :: string
  b_JA4 :: string
  b_Chain :: string

record Claims =
  c_Issued :: int
  c_JA4 :: string
  c_Chain :: string

definition newline :: char where
  "newline = CHR 0x0A"

definition token_msg :: "string \<Rightarrow> string \<Rightarrow> Binding \<Rightarrow> string" where
  "token_msg issued nonce b = join newline [''ct2'', issued, nonce, b_Chain b, b_Key b, b_Host b, b_JA4 b]"

definition tokenMAC :: "string \<Rightarrow> int \<Rightarrow> string \<Rightarrow> string \<Rightarrow> Binding \<Rightarrow> string" where
  "tokenMAC base issuedSec issued nonce b =
     hex_encode (hmac sha256 (mathSecret base (dayOf issuedSec)) (token_msg issued nonce b))"

text \<open>\<open>tokenNonce\<close>: eight random bytes, or the clock's eight bytes when the source fails.\<close>

definition tokenNonce :: "string option \<Rightarrow> string \<Rightarrow> string" where
  "tokenNonce random8 nano8 = hex_encode (case random8 of Some b \<Rightarrow> b | None \<Rightarrow> nano8)"

definition IssueToken :: "string \<Rightarrow> string \<Rightarrow> int \<Rightarrow> Binding \<Rightarrow> string" where
  "IssueToken nonce base now b =
     (let issuedSec = now; issued = format_int 10 issuedSec; sig = tokenMAC base issuedSec issued nonce b
      in issued @ ''.'' @ nonce @ ''.'' @ b_Chain b @ ''.'' @ b_JA4 b @ ''.'' @ sig)"

definition ja4CipherHash :: "string \<Rightarrow> string" where
  "ja4CipherHash s = (let parts = split (CHR ''_'') s in if length parts \<noteq> 3 then '''' else parts ! 1)"

definition SameTLSStack :: "string \<Rightarrow> string \<Rightarrow> bool" where
  "SameTLSStack a b =
     (if a = b \<or> a = '''' \<or> b = '''' then True
      else if (a ! 0 = CHR ''t'' \<and> b ! 0 = CHR ''q'') \<or> (a ! 0 = CHR ''q'' \<and> b ! 0 = CHR ''t'') then True
      else ja4CipherHash a \<noteq> '''' \<and> ja4CipherHash a = ja4CipherHash b)"

definition verifyTokenAt :: "string \<Rightarrow> string \<Rightarrow> int \<Rightarrow> string \<Rightarrow> string \<Rightarrow> string \<Rightarrow> int \<Rightarrow> Claims option" where
  "verifyTokenAt token base validSecs key host ja4 now =
     (let parts = split (CHR ''.'') token in
      if length parts \<noteq> 5 \<or> parts ! 0 = '''' \<or> parts ! 1 = '''' \<or> parts ! 4 = '''' then None
      else case parse_int 10 64 (parts ! 0) of None \<Rightarrow> None
        | Some issued \<Rightarrow>
          if \<not> token_window now issued validSecs then None
          else if tokenMAC base issued (parts ! 0) (parts ! 1)
                    \<lparr>b_Key = key, b_Host = host, b_JA4 = parts ! 3, b_Chain = parts ! 2\<rparr> \<noteq> parts ! 4 then None
          else if \<not> SameTLSStack (parts ! 3) ja4 then None
          else Some \<lparr>c_Issued = issued, c_JA4 = parts ! 3, c_Chain = parts ! 2\<rparr>)"

definition TokenMinAgeSeconds :: int where
  "TokenMinAgeSeconds = 2"

definition TokenAge :: "string \<Rightarrow> int \<Rightarrow> int option" where
  "TokenAge token now =
     (let issuedS = (case index_byte (CHR ''.'') token of None \<Rightarrow> token | Some i \<Rightarrow> take i token) in
      case parse_int 10 64 issuedS of None \<Rightarrow> None | Some issued \<Rightarrow> Some (wrap64 (now - issued)))"

subsection \<open>Consumed tokens\<close>

record UsedSet =
  us_m :: "(string \<times> int) list"
  us_ops :: int

definition maxUsedTokens :: nat where
  "maxUsedTokens = 2 ^ 17"

definition emptyUsedSet :: UsedSet where
  "emptyUsedSet = \<lparr>us_m = [], us_ops = 0\<rparr>"

definition consumeAt :: "UsedSet \<Rightarrow> string \<Rightarrow> int \<Rightarrow> int \<Rightarrow> bool \<times> UsedSet" where
  "consumeAt u token ttl now =
     (let n = now in
      if (case map_of (us_m u) token of Some e \<Rightarrow> e > n | None \<Rightarrow> False) then (False, u)
      else let ex = now + ttl;
               m = aput token ex (us_m u);
               ops = us_ops u + 1
           in if ops \<ge> 1024 \<or> length m > maxUsedTokens
              then let m' = filter (\<lambda>(k, e). \<not> e \<le> n) m
                   in (True, \<lparr>us_m = (if length m' > maxUsedTokens then [(token, ex)] else m'), us_ops = 0\<rparr>)
              else (True, \<lparr>us_m = m, us_ops = ops\<rparr>))"

section \<open>Lemmas\<close>

subsection \<open>Token text\<close>

lemma length_5_iff: "length fs = 5 \<longleftrightarrow> (\<exists>f1 f2 f3 f4 f5. fs = [f1, f2, f3, f4, f5])"
  by (auto simp: numeral_eq_Suc length_Suc_conv)

lemma hex_dotless: "dotless (hex_encode s)"
  using hex_chars [of "CHR ''.''" "length (hex_encode s)" s] by (auto simp: dotless_def)

lemma tokenMAC_dotless: "dotless (tokenMAC base i is n b)"
  by (simp add: tokenMAC_def hex_dotless)

lemma tokenMAC_not_Nil: "tokenMAC base i is n b \<noteq> []" "[] \<noteq> tokenMAC base i is n b"
proof -
  have "length (tokenMAC base i is n b) = 64" by (simp add: tokenMAC_def)
  then show "tokenMAC base i is n b \<noteq> []" "[] \<noteq> tokenMAC base i is n b" by force+
qed

definition sign_ct :: "string \<Rightarrow> string \<Rightarrow> string \<Rightarrow> string \<times> string \<Rightarrow> Claims \<Rightarrow> string" where
  "sign_ct base key host tn c =
     join (CHR ''.'') [fst tn, snd tn, c_Chain c, c_JA4 c,
       tokenMAC base (c_Issued c) (fst tn) (snd tn) \<lparr>b_Key = key, b_Host = host, b_JA4 = c_JA4 c, b_Chain = c_Chain c\<rparr>]"

definition variant_ct :: "string \<times> string \<Rightarrow> Claims \<Rightarrow> bool" where
  "variant_ct tn c \<longleftrightarrow> dotless (fst tn) \<and> dotless (snd tn) \<and> snd tn \<noteq> [] \<and> parse_int 10 64 (fst tn) = Some (c_Issued c)"

definition admissible_ct :: "int \<Rightarrow> int \<Rightarrow> string \<Rightarrow> Claims \<Rightarrow> bool" where
  "admissible_ct now valid ja4 c \<longleftrightarrow>
     token_window now (c_Issued c) valid \<and> dotless (c_Chain c) \<and> dotless (c_JA4 c) \<and> SameTLSStack (c_JA4 c) ja4"

lemma parse_int_Nil: "parse_int b n [] = None"
  by (simp add: parse_int_def)

lemma verifyTokenAt_split:
  "verifyTokenAt v base valid key host ja4 now = Some c \<longleftrightarrow>
     (\<exists>i n. split (CHR ''.'') v = [i, n, c_Chain c, c_JA4 c,
         tokenMAC base (c_Issued c) i n \<lparr>b_Key = key, b_Host = host, b_JA4 = c_JA4 c, b_Chain = c_Chain c\<rparr>]
       \<and> n \<noteq> [] \<and> parse_int 10 64 i = Some (c_Issued c)
       \<and> token_window now (c_Issued c) valid \<and> SameTLSStack (c_JA4 c) ja4)"
proof (cases "length (split (CHR ''.'') v) = 5")
  case True
  then obtain i n ch j s where sp: "split (CHR ''.'') v = [i, n, ch, j, s]"
    unfolding length_5_iff by blast
  show ?thesis
    unfolding verifyTokenAt_def Let_def sp
    by (cases c) (auto simp: parse_int_Nil tokenMAC_not_Nil split: option.splits)
next
  case False
  then show ?thesis by (auto simp: verifyTokenAt_def)
qed

interpretation ct: signed_token "sign_ct base key host" variant_ct
    "\<lambda>v. verifyTokenAt v base valid key host ja4 now" "admissible_ct now valid ja4"
  for base key host valid ja4 now
proof
  fix v c
  show "verifyTokenAt v base valid key host ja4 now = Some c \<longleftrightarrow>
      admissible_ct now valid ja4 c \<and> (\<exists>h. variant_ct h c \<and> v = sign_ct base key host h c)"
    unfolding verifyTokenAt_split split_dot_iff
    by (auto simp: admissible_ct_def variant_ct_def sign_ct_def tokenMAC_dotless)
qed

lemma IssueToken_sign:
  "IssueToken nonce base now b =
     sign_ct base (b_Key b) (b_Host b) (format_int 10 now, nonce) \<lparr>c_Issued = now, c_JA4 = b_JA4 b, c_Chain = b_Chain b\<rparr>"
  by (simp add: IssueToken_def sign_ct_def Let_def tokenMAC_def token_msg_def)

lemma format10_dotless: "dotless (format_int 10 i)"
  using format_int_chars [of 10 "CHR ''.''" i] by (auto simp: dotless_def)

subsection \<open>The used set\<close>

definition us_inv :: "UsedSet \<Rightarrow> bool" where
  "us_inv u \<longleftrightarrow> amap_wf (us_m u) \<and> length (us_m u) \<le> maxUsedTokens"

definition us_held :: "UsedSet \<Rightarrow> string \<Rightarrow> int \<Rightarrow> bool" where
  "us_held u t n \<longleftrightarrow> (case map_of (us_m u) t of Some e \<Rightarrow> e > n | None \<Rightarrow> False)"

definition us_room :: "UsedSet \<Rightarrow> nat" where
  "us_room u = maxUsedTokens - length (us_m u)"

lemma maxUsedTokens_pos: "1 \<le> maxUsedTokens"
  by (simp add: maxUsedTokens_def)

lemma length_aput_le: "length (aput k v m) \<le> Suc (length m)"
  using length_adel_le [of k m] by (simp add: aput_def)

lemma consumeAt_inv: "us_inv u \<Longrightarrow> us_inv (snd (consumeAt u t ttl n))"
  using maxUsedTokens_pos by (auto simp: us_inv_def consumeAt_def Let_def amap_wf_def [of "[_]"] not_less)

lemma consumeAt_fst: "fst (consumeAt u t ttl n) \<longleftrightarrow> \<not> us_held u t n"
  by (simp add: consumeAt_def us_held_def Let_def)

lemma map_of_sweep:
  "amap_wf m \<Longrightarrow> map_of (filter (\<lambda>(k, e). \<not> e \<le> n) m) k = (case map_of m k of Some e \<Rightarrow> if e > (n :: int) then Some e else None | None \<Rightarrow> None)"
  using map_of_filter_wf [of m "\<lambda>k e. \<not> e \<le> n" k] by (simp add: case_prod_unfold not_le split: option.splits)

lemma consumeAt_self:
  assumes "us_inv u" "fst (consumeAt u t ttl n)" "0 < ttl"
  shows "map_of (us_m (snd (consumeAt u t ttl n))) t = Some (n + ttl)"
  using assms by (auto simp: consumeAt_def us_inv_def Let_def map_of_sweep split: if_splits)

lemma consumeAt_other:
  assumes "us_inv u" "0 < us_room u" "n \<le> n'" "us_held u t' n'"
  shows "us_held (snd (consumeAt u t ttl n)) t' n'"
proof (cases "us_held u t n")
  case True
  then have "consumeAt u t ttl n = (False, u)" by (simp add: consumeAt_def us_held_def)
  with assms show ?thesis by simp
next
  case False
  let ?m = "aput t (n + ttl) (us_m u)"
  have wf: "amap_wf ?m" using assms(1) by (simp add: us_inv_def)
  have ne: "t' \<noteq> t" using False assms(3,4) by (auto simp: us_held_def split: option.splits)
  obtain e where e: "map_of (us_m u) t' = Some e" "e > n'" using assms(4) by (auto simp: us_held_def split: option.splits)
  have len: "length ?m \<le> maxUsedTokens" using length_aput_le [of t "n + ttl" "us_m u"] assms(2) by (simp add: us_room_def)
  then have "length (filter (\<lambda>(k, e). \<not> e \<le> n) ?m) \<le> maxUsedTokens"
    using length_filter_le order_trans by blast
  then show ?thesis
    using False len wf ne e assms(3) unfolding us_held_def
    by (auto simp: consumeAt_def Let_def map_of_sweep not_less)
qed

lemma us_room_consumeAt: "us_room u \<le> Suc (us_room (snd (consumeAt u t ttl n)))"
proof -
  let ?m = "aput t (n + ttl) (us_m u)"
  have "length (filter (\<lambda>(k, e). \<not> e \<le> n) ?m) \<le> Suc (length (us_m u))"
    using length_filter_le length_aput_le order_trans by metis
  then have "length (us_m (snd (consumeAt u t ttl n))) \<le> Suc (length (us_m u))"
    using length_aput_le [of t "n + ttl" "us_m u"] by (simp add: consumeAt_def Let_def)
  then show ?thesis by (simp add: us_room_def)
qed

interpretation used: expiring_set us_held "\<lambda>u t n. consumeAt u t TokenTTL n" us_inv us_room TokenTTL
proof
  show "us_held (snd (consumeAt s k TokenTTL n)) k n'"
    if "us_inv s" "fst (consumeAt s k TokenTTL n)" "n' < n + TokenTTL" for s k n n'
    using consumeAt_self [OF that(1,2)] that(3) by (simp add: us_held_def TokenTTL_def TokenValidSeconds_def)
qed (simp_all add: consumeAt_inv consumeAt_fst consumeAt_other us_room_consumeAt)

subsection \<open>Decimal answers\<close>

lemma format_nat_digits: "\<forall>c \<in> set (format_nat 10 n). ascii_digit c"
proof (induction n rule: less_induct)
  case (less n)
  have d: "d < 10 \<Longrightarrow> ascii_digit (digit_char d)" for d by (simp add: ascii_digit_def digit_char_ascii)
  show ?case
  proof (cases "n < 10")
    case True
    then show ?thesis by (simp add: format_nat.simps [of 10 n] d)
  next
    case False
    then show ?thesis using less [of "n div 10"] by (simp add: format_nat.simps [of 10 n] d)
  qed
qed

section \<open>Properties\<close>

text \<open>
  the challenge verifier accepts a proof-of-load token exactly when it spells five
  dot-separated fields whose last is the daemon's MAC over the others, this client's key
  and host, the issue time is inside the window (60 seconds of forward skew), and the
  answering connection can be the device the page went to; the claims it returns are the
  ones the token carries.
\<close>

lemma verifyTokenAt_accepts_exactly:
  "verifyTokenAt token base valid key host ja4 now = Some c \<longleftrightarrow>
     token_window now (c_Issued c) valid \<and> dotless (c_Chain c) \<and> dotless (c_JA4 c) \<and> SameTLSStack (c_JA4 c) ja4
     \<and> (\<exists>i n. dotless i \<and> dotless n \<and> n \<noteq> [] \<and> parse_int 10 64 i = Some (c_Issued c)
          \<and> token = join (CHR ''.'') [i, n, c_Chain c, c_JA4 c,
              tokenMAC base (c_Issued c) i n \<lparr>b_Key = key, b_Host = host, b_JA4 = c_JA4 c, b_Chain = c_Chain c\<rparr>])"
  unfolding ct.accept_iff by (auto simp: admissible_ct_def variant_ct_def sign_ct_def)

text \<open>
  a token issued for a binding verifies for the same key and host, on the same TLS
  stack and inside its window, and gives back the chain and fingerprint it was issued with:
  a page served under one chain is never answered as another.
\<close>

lemma IssueToken_verifies:
  assumes "dotless nonce" "nonce \<noteq> []" "dotless (b_Chain b)" "dotless (b_JA4 b)" "in64 t"
    and "token_window now t valid" "SameTLSStack (b_JA4 b) ja4"
  shows "verifyTokenAt (IssueToken nonce base t b) base valid (b_Key b) (b_Host b) ja4 now
     = Some \<lparr>c_Issued = t, c_JA4 = b_JA4 b, c_Chain = b_Chain b\<rparr>"
  unfolding IssueToken_sign
  by (rule ct.parse_sign) (use assms in \<open>auto simp: admissible_ct_def variant_ct_def format10_dotless parse_format_int\<close>)

text \<open>
  the set of consumed tokens never holds more than \<open>maxUsedTokens\<close> entries and keeps
  one entry per token, whatever sequence of tokens and times is consumed from the empty set.
\<close>

lemma usedSet_bounded:
  "length (us_m (fold (\<lambda>(t, n) u. snd (consumeAt u t TokenTTL n)) es emptyUsedSet)) \<le> maxUsedTokens
   \<and> distinct (map fst (us_m (fold (\<lambda>(t, n) u. snd (consumeAt u t TokenTTL n)) es emptyUsedSet)))"
proof -
  have "us_inv emptyUsedSet" by (simp add: us_inv_def emptyUsedSet_def)
  from used.run_inv [OF this, of es] show ?thesis
    unfolding used.run_consume_def by (simp add: us_inv_def amap_wf_def)
qed

text \<open>
  C5: one fetch of a challenge earns one pass for 900 seconds: after a token has been
  consumed, every later attempt at a second less than 900 after that is refused, whatever
  other tokens are consumed in between, as long as they are not more than the set has room
  for. For a token consumed at least a second after its issue this is the rest of its life;
  one consumed in the second of its issue verifies once more at age 900
  (\<open>token_second_life\<close> below), which these 900 seconds do not reach.
\<close>

theorem token_consumed_once:
  assumes "us_inv u" "fst (consumeAt u tok TokenTTL n)"
    "length es \<le> maxUsedTokens - length (us_m (snd (consumeAt u tok TokenTTL n)))"
    "list_all (\<lambda>e. snd e \<le> t) es" "t < n + 900"
  shows "\<not> fst (consumeAt (fold (\<lambda>(k, m) v. snd (consumeAt v k TokenTTL m)) es (snd (consumeAt u tok TokenTTL n)))
      tok TokenTTL t)"
proof -
  have "t < n + TokenTTL" using assms(5) by (simp add: TokenTTL_def TokenValidSeconds_def)
  then show ?thesis
    using used.no_second_pass [of u tok n es t] assms unfolding used.run_consume_def us_room_def by blast
qed

theorem token_consumed_once_witness:
  "\<not> fst (consumeAt (snd (consumeAt (snd (consumeAt emptyUsedSet ''a'' TokenTTL 100)) ''b'' TokenTTL 150)) ''a'' TokenTTL 900)"
  using token_consumed_once [of emptyUsedSet "''a''" 100 "[(''b'', 150)]" 900]
  by (simp add: us_inv_def emptyUsedSet_def consumeAt_def TokenTTL_def TokenValidSeconds_def maxUsedTokens_def Let_def aput_def adel_def)

text \<open>
  remembering a consumed token covers its whole life when it is consumed at least one
  second after it was issued, and misses exactly the last second when it is consumed in the
  second of its issue: the token then verifies once more at age 900, and the set lets it
  through again.
\<close>

lemma token_second_life:
  assumes "us_inv u" "\<not> us_held u tok n" "in64 n" "in64 (t + 900)" "in64 (t - 900)" "t \<le> n"
  shows "token_window m t TokenValidSeconds \<and> in64 m \<and> n \<le> m \<and> in64 (m + 60) \<and> in64 (m - t)
      \<and> fst (consumeAt (snd (consumeAt u tok TokenTTL n)) tok TokenTTL m)
    \<longleftrightarrow> n = t \<and> m = t + 900 \<and> in64 (m + 60)"
proof -
  have "map_of (us_m (snd (consumeAt u tok TokenTTL n))) tok = Some (n + 900)"
    using consumeAt_self [OF assms(1), of tok TokenTTL n] assms(2)
    by (simp add: consumeAt_fst TokenTTL_def TokenValidSeconds_def)
  then have "fst (consumeAt (snd (consumeAt u tok TokenTTL n)) tok TokenTTL m) \<longleftrightarrow> n + 900 \<le> m"
    by (simp add: consumeAt_fst us_held_def not_less)
  moreover have "token_window m t TokenValidSeconds \<longleftrightarrow> t \<le> m + 60 \<and> m - t \<le> 900" if "in64 (m + 60)" "in64 (m - t)"
    using that by (auto simp: token_window_def TokenValidSeconds_def)
  ultimately show ?thesis using assms(3-6) by (auto simp: in64_def)
qed

text \<open>
  an arithmetic question is answered by its sum under the page it was drawn for: the
  token of \<open>mathChallengeAt\<close> is accepted with the decimal sum and the same page token
  inside the window, also across midnight, since the daily key is the one of the issue day.
\<close>

lemma math_question_answered:
  assumes "mathChallengeAt d1 d2 nanos base ct t = (a, b, token)" "0 \<le> a + b" "in64 t" "token_window now t valid"
  shows "verifyMathAt (format_int 10 (a + b)) token ct base valid now"
proof -
  let ?s = "format_int 10 (a + b)" and ?i = "format_int 10 t"
  let ?m = "math_mac base t ?i ?s ct"
  have tok: "token = ?i @ CHR ''.'' # ?m" using assms(1) by (auto simp: mathChallengeAt_def Let_def)
  have nat: "?s = format_nat 10 (nat (a + b))" using assms(2) by (simp add: format_int_def)
  have trim: "trim_space ?s = ?s"
    using format_int_chars [of 10 _ "a + b"] by (intro trim_space_graphic) auto
  have digits: "list_all ascii_digit ?s"
    unfolding nat list_all_iff by (rule format_nat_digits)
  have idx: "index_byte (CHR ''.'') token = Some (length ?i)"
    unfolding tok using format10_dotless [of t] by (simp add: index_byte_append dotless_def)
  have "length ?m = 64" by (simp add: math_mac_def)
  then have len: "\<not> (length ?i = 0 \<or> int (length ?i) \<ge> int (length token) - 1)" by (simp add: tok)
  have "take (length ?i) token = ?i" "drop (Suc (length ?i)) token = ?m" by (simp_all add: tok)
  then show ?thesis
    using assms(3,4) len by (simp add: verifyMathAt_def Let_def trim digits idx parse_format_int)
qed

end
