(* ===== verification/Hll.thy ===== *)
theory Hll
  imports Go_Crypto
begin

text \<open>
  Package \<open>hll\<close> (\<open>admin/internal/hll/hll.go\<close>): the HyperLogLog sketch whose registers
  the log pipeline stores per minute and merges over windows. A sketch is the list of its
  1024 register bytes; the hash is a 64-bit word, shifted and masked as the code does. The
  theorems are what makes the stored sketches mergeable: merging two is the sketch of both
  key streams, and order and repetition do not matter. The floating-point estimate is not
  modelled.
\<close>

unbundle bit_operations_syntax

section \<open>Definitions\<close>

definition hll_p :: nat where
  "hll_p = 10"

definition hll_m :: nat where
  "hll_m = 2 ^ hll_p"

type_synonym Sketch = "nat list"

definition emptySketch :: Sketch where
  "emptySketch = replicate hll_m 0"

definition be64 :: "string \<Rightarrow> 64 word" where
  "be64 b = foldl (\<lambda>a c. push_bit 8 a OR word_of_nat (of_char c)) 0 (take 8 b)"

definition hash :: "string \<Rightarrow> 64 word" where
  "hash b = be64 (sha256 b)"

fun Len :: "nat \<Rightarrow> nat" where
  "Len n = (if n = 0 then 0 else Suc (Len (n div 2)))"

declare Len.simps [simp del]

text \<open>\<open>bits.LeadingZeros64\<close>.\<close>

definition LeadingZeros64 :: "64 word \<Rightarrow> nat" where
  "LeadingZeros64 w = 64 - Len (unat w)"

definition register_of :: "64 word \<Rightarrow> nat" where
  "register_of x = unat (drop_bit (64 - hll_p) x)"

definition rank_of :: "64 word \<Rightarrow> nat" where
  "rank_of x = LeadingZeros64 (push_bit hll_p x OR push_bit (hll_p - 1) 1) + 1"

definition Add :: "string \<Rightarrow> Sketch \<Rightarrow> Sketch" where
  "Add key s =
     (let x = hash key; j = register_of x; rank = rank_of x in
      if rank > s ! j then s[j := rank] else s)"

definition Merge :: "Sketch \<Rightarrow> Sketch \<Rightarrow> Sketch" where
  "Merge s other = map2 (\<lambda>a b. if b > a then b else a) s other"

definition Empty :: "Sketch \<Rightarrow> bool" where
  "Empty s \<longleftrightarrow> s = emptySketch"

text \<open>\<open>copy\<close> into a fresh array: a short blob leaves zeros, a long one is cut.\<close>

definition Load :: "string \<Rightarrow> Sketch" where
  "Load b = take hll_m (map of_char b) @ replicate (hll_m - length b) 0"

definition Bytes :: "Sketch \<Rightarrow> string" where
  "Bytes s = map char_of s"

definition sketch_of :: "string list \<Rightarrow> Sketch" where
  "sketch_of keys = fold Add keys emptySketch"

section \<open>Lemmas\<close>

lemma Len_le: "n < 2 ^ k \<Longrightarrow> Len n \<le> k"
proof (induction k arbitrary: n)
  case (Suc k)
  then show ?case by (cases "n = 0") (auto simp: Len.simps [of n] Len.simps [of 0] div_less_iff_less_mult)
qed (simp add: Len.simps)

lemma Len_ge: "2 ^ k \<le> n \<Longrightarrow> k < Len n"
proof (induction k arbitrary: n)
  case 0
  then show ?case by (simp add: Len.simps [of n])
next
  case (Suc k)
  then have "2 ^ k \<le> n div 2" by (simp add: less_eq_div_iff_mult_less_eq mult.commute)
  then have "k < Len (n div 2)" by (rule Suc.IH)
  moreover have "n \<noteq> 0" using Suc.prems by (metis not_le zero_less_numeral zero_less_power)
  ultimately show ?case by (simp add: Len.simps [of n])
qed

lemma register_of_bound: "register_of x < hll_m"
proof -
  have "unat (drop_bit 54 x) = unat x div 2 ^ 54" by (subst unat_drop_bit_eq) (rule drop_bit_eq_div)
  moreover have "unat x < 2 ^ 64" using unsigned_less [of x] by simp
  ultimately show ?thesis by (simp add: register_of_def hll_p_def hll_m_def div_less_iff_less_mult)
qed

lemma rank_of_bounds: "1 \<le> rank_of x \<and> rank_of x \<le> 55"
proof -
  let ?w = "push_bit 10 x OR push_bit 9 1 :: 64 word"
  have "bit ?w 9" by (simp add: bit_or_iff bit_push_bit_iff)
  then have "bit (unat ?w) 9" by (simp add: bit_unsigned_iff)
  then have "2 ^ 9 \<le> unat ?w" by (metis bit_iff_odd div_less not_le even_zero)
  then have "9 < Len (unat ?w)" by (rule Len_ge)
  then show ?thesis by (simp add: rank_of_def LeadingZeros64_def hll_p_def)
qed

lemma length_Add [simp]: "length (Add k s) = length s"
  by (simp add: Add_def Let_def)

lemma nth_Add:
  "length s = hll_m \<Longrightarrow> i < hll_m \<Longrightarrow>
     Add k s ! i = (if i = register_of (hash k) then max (s ! i) (rank_of (hash k)) else s ! i)"
  using register_of_bound [of "hash k"] by (auto simp: Add_def Let_def max_def)

lemma Add_fold_nth:
  "length s = hll_m \<Longrightarrow> i < hll_m \<Longrightarrow>
     fold Add ks s ! i = foldl max (s ! i) (map (\<lambda>k. rank_of (hash k)) (filter (\<lambda>k. register_of (hash k) = i) ks))"
  by (induction ks arbitrary: s) (auto simp: nth_Add)

lemma length_fold_Add [simp]: "length (fold Add ks s) = length s"
  by (induction ks arbitrary: s) auto

lemma length_sketch_of [simp]: "length (sketch_of ks) = hll_m"
  by (simp add: sketch_of_def emptySketch_def)

lemma foldl_max_Max: "foldl max a xs = Max (insert a (set (xs :: nat list)))"
proof (induction xs arbitrary: a)
  case (Cons x xs)
  show ?case using Cons [of "max a x"] by (cases "xs = []") (auto simp: max.assoc max.left_commute)
qed simp

lemma nth_sketch_of:
  "i < hll_m \<Longrightarrow> sketch_of ks ! i = Max (insert 0 ((\<lambda>k. rank_of (hash k)) ` {k \<in> set ks. register_of (hash k) = i}))"
  by (simp add: sketch_of_def Add_fold_nth emptySketch_def foldl_max_Max)

section \<open>Properties\<close>

text \<open>
  sketches merge: the register-wise maximum of the sketches of two key streams is the
  sketch of both streams together, so per-minute sketches roll up without the raw rows.
\<close>

lemma Merge_sketches: "Merge (sketch_of xs) (sketch_of ys) = sketch_of (xs @ ys)"
proof (rule nth_equalityI)
  show "length (Merge (sketch_of xs) (sketch_of ys)) = length (sketch_of (xs @ ys))" by (simp add: Merge_def)
  fix i assume "i < length (Merge (sketch_of xs) (sketch_of ys))"
  then have i: "i < hll_m" by (simp add: Merge_def)
  let ?R = "\<lambda>ks. (\<lambda>k. rank_of (hash k)) ` {k \<in> set ks. register_of (hash k) = i}"
  have "Merge (sketch_of xs) (sketch_of ys) ! i = max (sketch_of xs ! i) (sketch_of ys ! i)"
    using i by (simp add: Merge_def max_def)
  also have "\<dots> = Max (insert 0 (?R xs) \<union> insert 0 (?R ys))"
    using i by (subst Max_Un) (simp_all add: nth_sketch_of)
  also have "insert 0 (?R xs) \<union> insert 0 (?R ys) = insert 0 (?R (xs @ ys))" by auto
  finally show "Merge (sketch_of xs) (sketch_of ys) ! i = sketch_of (xs @ ys) ! i" using i by (simp add: nth_sketch_of)
qed

text \<open>
  a sketch depends only on the set of keys added: order and repetition of the stream
  leave every register the same, and every register is at most 55.
\<close>

lemma sketch_of_set:
  "(set xs = set ys \<longrightarrow> sketch_of xs = sketch_of ys)
   \<and> (i < hll_m \<longrightarrow> sketch_of xs ! i \<le> 55)"
proof -
  have "sketch_of xs = sketch_of ys" if "set xs = set ys"
    by (rule nth_equalityI) (use that in \<open>simp_all add: nth_sketch_of\<close>)
  moreover have "sketch_of xs ! i \<le> 55" if "i < hll_m"
    using that rank_of_bounds by (simp add: nth_sketch_of)
  ultimately show ?thesis by blast
qed

text \<open>
  The stored form round-trips: loading the bytes of a sketch of any key stream gives the
  sketch back, and loading an empty blob gives the empty sketch.
\<close>

theorem Load_Bytes: "Load (Bytes (sketch_of ks)) = sketch_of ks \<and> Empty (Load [])"
proof -
  have "x < 256" if m: "x \<in> set (sketch_of ks)" for x
  proof -
    obtain i where "i < hll_m" "x = sketch_of ks ! i" using m by (auto simp: in_set_conv_nth)
    moreover have "sketch_of ks ! i \<le> 55" using \<open>i < hll_m\<close> rank_of_bounds by (simp add: nth_sketch_of)
    ultimately show ?thesis by simp
  qed
  then have "map (of_char \<circ> char_of) (sketch_of ks) = sketch_of ks" by (intro map_idI) simp
  then show ?thesis by (simp add: Load_def Bytes_def Empty_def emptySketch_def)
qed

end
