(* ===== verification/Login_Throttle.thy ===== *)
theory Login_Throttle
  imports Go_Netip
begin

text \<open>
  The brute-force guard of the credential endpoints
  (\<open>admin/internal/handlers/login_throttle.go\<close>, \<open>login_throttle_db.go\<close>): counters per
  address, in the database when it answers and in this node's memory otherwise. Times and
  durations are integers in nanoseconds; the database works in whole seconds. Both sides
  implement one lockout contract, stated as a locale and interpreted on each; the theorems
  about attackers are proved once from it.
\<close>

section \<open>Definitions\<close>

definition second :: int where
  "second = 1000000000"

definition minute :: int where
  "minute = 60 * second"

text \<open>The zero \<open>time.Time\<close> lies before every clock reading.\<close>

definition zeroTime :: int where
  "zeroTime = - 62135596800 * second"

record throttleCell =
  tc_events :: "int list"
  tc_lockedUntil :: int

definition newCell :: throttleCell where
  "newCell = \<lparr>tc_events = [], tc_lockedUntil = zeroTime\<rparr>"

record loginThrottle =
  lt_cells :: "(string, throttleCell) amap"
  lt_failLimit :: int
  lt_failWindow :: int
  lt_lockFor :: int
  lt_forgotLimit :: int
  lt_forgotWindow :: int

definition newLoginThrottle :: loginThrottle where
  "newLoginThrottle = \<lparr>lt_cells = [], lt_failLimit = 10, lt_failWindow = 15 * minute, lt_lockFor = 15 * minute,
     lt_forgotLimit = 5, lt_forgotWindow = 15 * minute\<rparr>"

subsection \<open>In memory\<close>

definition lockedForMem :: "loginThrottle \<Rightarrow> string \<Rightarrow> int \<Rightarrow> int" where
  "lockedForMem t key now =
     (case map_of (lt_cells t) key of None \<Rightarrow> 0
      | Some c \<Rightarrow> if \<not> now < tc_lockedUntil c then 0 else tc_lockedUntil c - now)"

definition cell_dead :: "loginThrottle \<Rightarrow> int \<Rightarrow> throttleCell \<Rightarrow> bool" where
  "cell_dead t now c \<longleftrightarrow>
     (let expiredLock = (\<not> now < tc_lockedUntil c);
          fresh = list_ex (\<lambda>e. now - e < lt_failWindow t \<or> now - e < lt_forgotWindow t) (tc_events c)
      in expiredLock \<and> \<not> fresh)"

definition pruneLocked :: "loginThrottle \<Rightarrow> int \<Rightarrow> loginThrottle" where
  "pruneLocked t now =
     (if length (lt_cells t) < 4096 then t
      else t\<lparr>lt_cells := filter (\<lambda>(k, c). \<not> cell_dead t now c) (lt_cells t)\<rparr>)"

text \<open>One event on a cell: the remaining lock and the cell afterwards.\<close>

definition note_cell :: "throttleCell \<Rightarrow> int \<Rightarrow> int \<Rightarrow> int \<Rightarrow> int \<Rightarrow> int \<times> throttleCell" where
  "note_cell c now limit window lock =
     (if now < tc_lockedUntil c then (tc_lockedUntil c - now, c)
      else let keep = filter (\<lambda>e. now - e < window) (tc_events c); events = keep @ [now] in
        if int (length events) \<ge> limit then (lock, \<lparr>tc_events = [], tc_lockedUntil = now + lock\<rparr>)
        else (0, c\<lparr>tc_events := events\<rparr>))"

definition noteMem :: "loginThrottle \<Rightarrow> string \<Rightarrow> int \<Rightarrow> int \<Rightarrow> int \<Rightarrow> int \<Rightarrow> int \<times> loginThrottle" where
  "noteMem t key now limit window lock =
     (let t = pruneLocked t now;
          c = (case map_of (lt_cells t) key of Some c \<Rightarrow> c | None \<Rightarrow> newCell);
          (d, c') = note_cell c now limit window lock
      in (d, t\<lparr>lt_cells := aput key c' (lt_cells t)\<rparr>))"

definition clearMem :: "loginThrottle \<Rightarrow> string \<Rightarrow> loginThrottle" where
  "clearMem t key = t\<lparr>lt_cells := adel key (lt_cells t)\<rparr>"

subsection \<open>Keys\<close>

definition throttleAddr :: "string \<Rightarrow> string" where
  "throttleAddr ip =
     (case parse_addr ip of None \<Rightarrow> ip
      | Some a \<Rightarrow>
        if is4 a \<or> is4in6 a then addr_string (unmap a)
        else prefix_string \<lparr>p_addr = mask_addr 64 (without_zone a), p_bits = 64\<rparr>)"

definition loginKey :: "string \<Rightarrow> string" where
  "loginKey ip = ''l|'' @ throttleAddr ip"

definition forgotKey :: "string \<Rightarrow> string" where
  "forgotKey ip = ''f|'' @ throttleAddr ip"

definition throttleDBKey :: "string \<Rightarrow> string" where
  "throttleDBKey key = (if length key > 80 then take 80 key else key)"

subsection \<open>In the database\<close>

record LoginThrottleRow =
  row_cnt :: int
  row_window_start :: int
  row_locked_until :: int
  row_updated_at :: int

type_synonym throttle_table = "string \<rightharpoonup> LoginThrottleRow"

definition unix :: "int \<Rightarrow> int" where
  "unix now = now div second"

definition remainingLock :: "int \<Rightarrow> int \<Rightarrow> int" where
  "remainingLock until now = (let d = until - unix now in if d > 0 then d * second else 0)"

definition store_lockedFor :: "throttle_table \<Rightarrow> string \<Rightarrow> int \<Rightarrow> int" where
  "store_lockedFor db key now = (case db key of None \<Rightarrow> 0 | Some row \<Rightarrow> remainingLock (row_locked_until row) now)"

text \<open>The transaction of \<open>note\<close>: insert if absent, the guarded update, the read, the trip.\<close>

definition store_insert :: "throttle_table \<Rightarrow> string \<Rightarrow> int \<Rightarrow> throttle_table" where
  "store_insert db key n =
     (case db key of
        Some row \<Rightarrow> db
      | None \<Rightarrow> db(key \<mapsto> \<lparr>row_cnt = 0, row_window_start = n, row_locked_until = 0, row_updated_at = n\<rparr>))"

definition count_row :: "LoginThrottleRow \<Rightarrow> int \<Rightarrow> int \<Rightarrow> LoginThrottleRow" where
  "count_row row n w =
     (if row_locked_until row \<le> n
      then row\<lparr>row_cnt := (if row_window_start row + w \<le> n then 1 else row_cnt row + 1),
              row_window_start := (if row_window_start row + w \<le> n then n else row_window_start row),
              row_updated_at := n\<rparr>
      else row)"

definition store_note :: "throttle_table \<Rightarrow> string \<Rightarrow> int \<Rightarrow> int \<Rightarrow> int \<Rightarrow> int \<Rightarrow> int \<times> throttle_table" where
  "store_note db key now limit window lock =
     (let n = unix now; w = go_div window second;
          db1 = store_insert db key n;
          row = count_row (the (db1 key)) n w;
          db2 = db1(key \<mapsto> row);
          r = remainingLock (row_locked_until row) now
      in if r > 0 then (r, db2)
         else if row_cnt row \<ge> limit
         then (lock, db2(key \<mapsto> row\<lparr>row_locked_until := n + go_div lock second, row_cnt := 0, row_updated_at := n\<rparr>))
         else (0, db2))"

definition store_clear :: "throttle_table \<Rightarrow> string \<Rightarrow> throttle_table" where
  "store_clear db key = db(key := None)"

subsection \<open>Database first, memory as the fallback\<close>

text \<open>
  \<open>answers\<close> is what the database does with this call: \<open>usable\<close> and no error. A call that
  fails leaves the table as it was.
\<close>

definition lockedFor :: "bool \<Rightarrow> throttle_table \<times> loginThrottle \<Rightarrow> string \<Rightarrow> int \<Rightarrow> int" where
  "lockedFor answers s key now =
     (if answers then store_lockedFor (fst s) (throttleDBKey key) now else lockedForMem (snd s) key now)"

definition throttle_note :: "bool \<Rightarrow> throttle_table \<times> loginThrottle \<Rightarrow> string \<Rightarrow> int \<Rightarrow> int \<Rightarrow> int \<Rightarrow> int \<Rightarrow> int \<times> throttle_table \<times> loginThrottle" where
  "throttle_note answers s key now limit window lock =
     (if answers
      then (let (d, db) = store_note (fst s) (throttleDBKey key) now limit window lock in (d, db, snd s))
      else (let (d, t) = noteMem (snd s) key now limit window lock in (d, fst s, t)))"

definition clear :: "bool \<Rightarrow> throttle_table \<times> loginThrottle \<Rightarrow> string \<Rightarrow> throttle_table \<times> loginThrottle" where
  "clear answers s key =
     (if answers then store_clear (fst s) (throttleDBKey key) else fst s, clearMem (snd s) key)"

section \<open>The lockout contract\<close>

locale lockout =
  fixes locked_for :: "'s \<Rightarrow> string \<Rightarrow> int \<Rightarrow> int"
    and note_event :: "'s \<Rightarrow> string \<Rightarrow> int \<Rightarrow> int \<times> 's"
    and forget :: "'s \<Rightarrow> string \<Rightarrow> 's"
    and inv :: "'s \<Rightarrow> bool"
  assumes nonneg: "0 \<le> locked_for s k now"
    and inv_note: "inv s \<Longrightarrow> inv (snd (note_event s k now))"
    and note_result: "inv s \<Longrightarrow> fst (note_event s k now) = locked_for (snd (note_event s k now)) k now"
    and note_locked: "inv s \<Longrightarrow> 0 < locked_for s k now \<Longrightarrow> now \<le> now' \<Longrightarrow> locked_for (snd (note_event s k now)) k now' = locked_for s k now'"
    and note_other: "inv s \<Longrightarrow> k' \<noteq> k \<Longrightarrow> now \<le> now' \<Longrightarrow> locked_for (snd (note_event s k now)) k' now' = locked_for s k' now'"
    and forget_self: "locked_for (forget s k) k now = 0"
    and forget_other: "k' \<noteq> k \<Longrightarrow> locked_for (forget s k) k' now = locked_for s k' now"
    and expires: "now \<le> now' \<Longrightarrow> 0 < locked_for s k now' \<Longrightarrow> 0 < locked_for s k now"
begin

definition run_notes :: "(string \<times> int) list \<Rightarrow> 's \<Rightarrow> 's" where
  "run_notes es s = fold (\<lambda>(k, n) s. snd (note_event s k n)) es s"

text \<open>Hammering does not open a lock early, whoever hammers and on whatever key.\<close>

lemma hammering_keeps_lock:
  "inv s \<Longrightarrow> 0 < locked_for s k now \<Longrightarrow> list_all (\<lambda>e. snd e \<le> now) es \<Longrightarrow>
     locked_for (run_notes es s) k now = locked_for s k now"
proof (induction es arbitrary: s)
  case (Cons e es)
  obtain k' n where e: "e = (k', n)" by (cases e)
  have le: "n \<le> now" using Cons.prems(3) e by simp
  have "locked_for (snd (note_event s k' n)) k now = locked_for s k now"
  proof (cases "k' = k")
    case True
    then show ?thesis using note_locked [of s k n now] expires [OF le Cons.prems(2)] Cons.prems(1) le by simp
  next
    case False
    then show ?thesis using note_other [of s k k' n now] Cons.prems(1) le by simp
  qed
  then show ?case
    using Cons.IH [of "snd (note_event s k' n)"] Cons.prems inv_note e by (simp add: run_notes_def)
qed (simp add: run_notes_def)

lemma run_notes_inv: "inv s \<Longrightarrow> inv (run_notes es s)"
  unfolding run_notes_def by (induction es arbitrary: s) (auto simp: inv_note)

lemma other_addresses_unaffected:
  "inv s \<Longrightarrow> list_all (\<lambda>e. fst e \<noteq> k \<and> snd e \<le> now) es \<Longrightarrow> locked_for (run_notes es s) k now = locked_for s k now"
proof (induction es arbitrary: s)
  case (Cons e es)
  obtain k' n where e: "e = (k', n)" by (cases e)
  then have "locked_for (snd (note_event s k' n)) k now = locked_for s k now"
    using Cons.prems note_other [of s k k' n now] by auto
  then show ?case
    using Cons.IH [of "snd (note_event s k' n)"] Cons.prems inv_note e by (simp add: run_notes_def)
qed (simp add: run_notes_def)

end

section \<open>The two sides implement it\<close>

subsection \<open>Memory\<close>

definition lt_wf :: "loginThrottle \<Rightarrow> bool" where
  "lt_wf t \<longleftrightarrow> amap_wf (lt_cells t)"

definition cell_of :: "loginThrottle \<Rightarrow> string \<Rightarrow> throttleCell" where
  "cell_of t key = (case map_of (lt_cells t) key of Some c \<Rightarrow> c | None \<Rightarrow> newCell)"

lemma map_of_prune:
  "lt_wf t \<Longrightarrow> map_of (lt_cells (pruneLocked t now)) k =
     (case map_of (lt_cells t) k of None \<Rightarrow> None
      | Some c \<Rightarrow> if 4096 \<le> length (lt_cells t) \<and> cell_dead t now c then None else Some c)"
  using map_of_filter_wf [of "lt_cells t" "\<lambda>k c. \<not> cell_dead t now c" k]
  by (auto simp: pruneLocked_def lt_wf_def case_prod_unfold split: option.splits)

lemma prune_wf: "lt_wf t \<Longrightarrow> lt_wf (pruneLocked t now)"
  by (simp add: lt_wf_def pruneLocked_def)

lemma prune_windows [simp]:
  "lt_failWindow (pruneLocked t now) = lt_failWindow t" "lt_forgotWindow (pruneLocked t now) = lt_forgotWindow t"
  by (simp_all add: pruneLocked_def)

lemma lockedForMem_prune: "lt_wf t \<Longrightarrow> now \<le> now' \<Longrightarrow> lockedForMem (pruneLocked t now) k now' = lockedForMem t k now'"
  by (auto simp: lockedForMem_def map_of_prune cell_dead_def Let_def split: option.splits)

lemma lockedForMem_cell: "zeroTime \<le> now \<Longrightarrow> lockedForMem t k now = (if now < tc_lockedUntil (cell_of t k) then tc_lockedUntil (cell_of t k) - now else 0)"
  by (auto simp: lockedForMem_def cell_of_def newCell_def split: option.splits)

lemma noteMem_eq:
  "noteMem t key now limit window lock =
     (let r = note_cell (cell_of (pruneLocked t now) key) now limit window lock
      in (fst r, (pruneLocked t now)\<lparr>lt_cells := aput key (snd r) (lt_cells (pruneLocked t now))\<rparr>))"
  by (simp add: noteMem_def Let_def cell_of_def case_prod_unfold)

lemma noteMem_wf: "lt_wf t \<Longrightarrow> lt_wf (snd (noteMem t key now limit window lock))"
  using prune_wf [of t now] by (simp add: noteMem_eq Let_def lt_wf_def)

lemma note_cell_result:
  "0 < lock \<Longrightarrow> fst (note_cell c now limit window lock) =
     (let u = tc_lockedUntil (snd (note_cell c now limit window lock)) in if \<not> now < u then 0 else u - now)"
  by (auto simp: note_cell_def Let_def)

lemma noteMem_result:
  "0 < lock \<Longrightarrow> fst (noteMem t k now limit window lock) = lockedForMem (snd (noteMem t k now limit window lock)) k now"
  using note_cell_result [of lock "cell_of (pruneLocked t now) k" now limit window]
  by (simp add: noteMem_eq lockedForMem_def Let_def)

lemma noteMem_locked:
  assumes "lt_wf t" "0 < lockedForMem t k now" "now \<le> now'"
  shows "lockedForMem (snd (noteMem t k now limit window lock)) k now' = lockedForMem t k now'"
proof -
  from assms(2) obtain c where c: "map_of (lt_cells t) k = Some c" "now < tc_lockedUntil c"
    by (auto simp: lockedForMem_def split: option.splits if_splits)
  then have "cell_of (pruneLocked t now) k = c" using assms(1) by (simp add: cell_of_def map_of_prune cell_dead_def)
  then show ?thesis using c by (simp add: noteMem_eq note_cell_def Let_def lockedForMem_def)
qed

lemma noteMem_other:
  assumes "lt_wf t" "k' \<noteq> k" "now \<le> now'"
  shows "lockedForMem (snd (noteMem t k now limit window lock)) k' now' = lockedForMem t k' now'"
proof -
  have "lockedForMem (snd (noteMem t k now limit window lock)) k' now' = lockedForMem (pruneLocked t now) k' now'"
    using assms(2) by (simp add: noteMem_eq Let_def lockedForMem_def)
  then show ?thesis using lockedForMem_prune assms by simp
qed

interpretation mem: lockout lockedForMem "\<lambda>t k n. noteMem t k n limit window (15 * minute)" clearMem lt_wf
  for limit window
proof
  show "0 \<le> lockedForMem s k now" for s k now by (simp add: lockedForMem_def split: option.splits)
  show "fst (noteMem s k now limit window (15 * minute)) = lockedForMem (snd (noteMem s k now limit window (15 * minute))) k now" for s k now
    by (rule noteMem_result) (simp add: minute_def second_def)
  show "0 < lockedForMem s k now" if "now \<le> now'" "0 < lockedForMem s k now'" for now now' s k
    using that by (auto simp: lockedForMem_def split: option.splits if_splits)
  show "lockedForMem (clearMem s k) k now = 0" for s k now by (simp add: lockedForMem_def clearMem_def)
  show "lockedForMem (clearMem s k) k' now = lockedForMem s k' now" if "k' \<noteq> k" for s k k' now
    using that by (simp add: lockedForMem_def clearMem_def)
qed (simp_all add: noteMem_wf noteMem_locked noteMem_other)

subsection \<open>Database\<close>

lemma remainingLock_nonneg: "0 \<le> remainingLock u now"
  by (simp add: remainingLock_def Let_def second_def)

lemma unix_mono: "a \<le> b \<Longrightarrow> unix a \<le> unix b"
  unfolding unix_def second_def by (rule zdiv_mono1) simp_all

lemma remainingLock_pos: "0 < remainingLock u now \<longleftrightarrow> unix now < u"
  by (simp add: remainingLock_def Let_def second_def)

lemma count_row_locked_until [simp]: "row_locked_until (count_row row n w) = row_locked_until row"
  by (simp add: count_row_def)

lemma store_note_result:
  assumes "0 < lock" "lock mod second = 0"
  shows "fst (store_note db k now limit window lock) = store_lockedFor (snd (store_note db k now limit window lock)) k now"
proof -
  have g: "go_div lock second = lock div second" using assms(1) by (simp add: go_div_pos second_def)
  have d: "lock div second * second = lock" using assms(2) by (metis mult_div_mod_eq add.right_neutral mult.commute)
  moreover have "0 < lock div second" using d assms(1) by (metis less_le_not_le mult_eq_0_iff not_less zero_less_mult_iff second_def zero_less_numeral)
  ultimately have "remainingLock (unix now + go_div lock second) now = lock" by (simp add: remainingLock_def g)
  then show ?thesis
    using remainingLock_nonneg
    by (auto simp: store_note_def store_lockedFor_def Let_def intro: antisym)
qed

lemma store_note_locked:
  assumes "0 < store_lockedFor db k now"
  shows "store_lockedFor (snd (store_note db k now limit window lock)) k now' = store_lockedFor db k now'"
proof -
  from assms obtain row where row: "db k = Some row" "0 < remainingLock (row_locked_until row) now"
    by (auto simp: store_lockedFor_def split: option.splits)
  then show ?thesis by (simp add: store_note_def store_insert_def Let_def store_lockedFor_def)
qed

lemma store_note_other:
  "k' \<noteq> k \<Longrightarrow> store_lockedFor (snd (store_note db k now limit window lock)) k' now' = store_lockedFor db k' now'"
  by (simp add: store_note_def store_insert_def Let_def store_lockedFor_def split: option.splits)

interpretation store: lockout store_lockedFor "\<lambda>db k n. store_note db k n limit window (15 * minute)" store_clear "\<lambda>db. True"
  for limit window
proof
  show "0 \<le> store_lockedFor s k now" for s k now
    using remainingLock_nonneg by (simp add: store_lockedFor_def split: option.splits)
  show "fst (store_note s k now limit window (15 * minute)) = store_lockedFor (snd (store_note s k now limit window (15 * minute))) k now" for s k now
    by (rule store_note_result) (simp_all add: minute_def second_def)
  show "0 < store_lockedFor s k now" if "now \<le> now'" "0 < store_lockedFor s k now'" for now now' s k
    using that unix_mono [OF that(1)] by (auto simp: store_lockedFor_def remainingLock_pos split: option.splits)
qed (simp_all add: store_note_locked store_note_other, simp_all add: store_lockedFor_def store_clear_def)

subsection \<open>Counting up to the limit\<close>

definition run_mem :: "string \<Rightarrow> int \<Rightarrow> int \<Rightarrow> int \<Rightarrow> int list \<Rightarrow> loginThrottle \<Rightarrow> loginThrottle" where
  "run_mem key limit window lock ts t = fold (\<lambda>n t. snd (noteMem t key n limit window lock)) ts t"

definition run_store :: "string \<Rightarrow> int \<Rightarrow> int \<Rightarrow> int \<Rightarrow> int list \<Rightarrow> throttle_table \<Rightarrow> throttle_table" where
  "run_store key limit window lock ts db = fold (\<lambda>n db. snd (store_note db key n limit window lock)) ts db"

lemma noteMem_windows [simp]:
  "lt_failWindow (snd (noteMem t key n limit window lock)) = lt_failWindow t"
  "lt_forgotWindow (snd (noteMem t key n limit window lock)) = lt_forgotWindow t"
  by (simp_all add: noteMem_eq Let_def)

lemma run_mem_windows [simp]:
  "lt_failWindow (run_mem key limit window lock ts t) = lt_failWindow t"
  "lt_forgotWindow (run_mem key limit window lock ts t) = lt_forgotWindow t"
  unfolding run_mem_def by (induction ts arbitrary: t) simp_all

lemma run_mem_wf: "lt_wf t \<Longrightarrow> lt_wf (run_mem key limit window lock ts t)"
  unfolding run_mem_def by (induction ts arbitrary: t) (simp_all add: noteMem_wf)

definition counting_cell :: "loginThrottle \<Rightarrow> string \<Rightarrow> int list \<Rightarrow> bool" where
  "counting_cell t key ts \<longleftrightarrow> tc_events (cell_of t key) = ts \<and> tc_lockedUntil (cell_of t key) = zeroTime"

lemma prune_counting:
  assumes "lt_wf t" "counting_cell t key ts" "\<forall>e \<in> set ts. now - e < window"
    and "window \<le> lt_failWindow t \<or> window \<le> lt_forgotWindow t"
  shows "counting_cell (pruneLocked t now) key ts"
proof (cases "ts = []")
  case True
  then show ?thesis using assms(1,2)
    by (auto simp: counting_cell_def cell_of_def map_of_prune newCell_def split: option.splits)
next
  case False
  have "\<not> cell_dead t now c" if "tc_events c = ts" for c
    using that False assms(3,4) by (cases ts) (auto simp: cell_dead_def Let_def)
  then show ?thesis using assms(1,2) False
    by (auto simp: counting_cell_def cell_of_def map_of_prune newCell_def split: option.splits)
qed

lemma noteMem_counting:
  assumes "lt_wf t" "counting_cell t key ts" "\<forall>e \<in> set ts. now - e < window" "zeroTime \<le> now"
    and "window \<le> lt_failWindow t \<or> window \<le> lt_forgotWindow t"
  shows "int (length ts) + 1 < limit \<Longrightarrow> counting_cell (snd (noteMem t key now limit window lock)) key (ts @ [now])"
    and "limit \<le> int (length ts) + 1 \<Longrightarrow> fst (noteMem t key now limit window lock) = lock"
proof -
  let ?c = "cell_of (pruneLocked t now) key"
  have c: "tc_events ?c = ts" "tc_lockedUntil ?c = zeroTime"
    using prune_counting [OF assms(1,2,3,5)] by (simp_all add: counting_cell_def)
  have f: "filter (\<lambda>e. now - e < window) ts = ts" using assms(3) by simp
  show "counting_cell (snd (noteMem t key now limit window lock)) key (ts @ [now])" if "int (length ts) + 1 < limit"
    using that c f assms(4) by (simp add: noteMem_eq note_cell_def Let_def counting_cell_def cell_of_def)
  show "fst (noteMem t key now limit window lock) = lock" if "limit \<le> int (length ts) + 1"
    using that c f assms(4) by (simp add: noteMem_eq note_cell_def Let_def)
qed

lemma run_mem_counting:
  assumes "lt_wf t" "map_of (lt_cells t) key = None"
    and "window \<le> lt_failWindow t \<or> window \<le> lt_forgotWindow t"
  shows "int (length ts) < limit \<Longrightarrow> \<forall>a \<in> set ts. zeroTime \<le> a \<and> (\<forall>b \<in> set ts. a - b < window) \<Longrightarrow>
     counting_cell (run_mem key limit window lock ts t) key ts"
proof (induction ts rule: rev_induct)
  case Nil
  then show ?case using assms(2) by (simp add: run_mem_def counting_cell_def cell_of_def newCell_def)
next
  case (snoc n ts)
  have "counting_cell (run_mem key limit window lock ts t) key ts" using snoc by auto
  then have "counting_cell (snd (noteMem (run_mem key limit window lock ts t) key n limit window lock)) key (ts @ [n])"
    using snoc.prems assms by (intro noteMem_counting(1)) (auto simp: run_mem_wf)
  then show ?case by (simp add: run_mem_def)
qed

definition counting_row :: "throttle_table \<Rightarrow> string \<Rightarrow> int list \<Rightarrow> bool" where
  "counting_row db key ts \<longleftrightarrow>
     (if ts = [] then db key = None
      else \<exists>row. db key = Some row \<and> row_cnt row = int (length ts) \<and> row_window_start row = unix (hd ts)
             \<and> row_locked_until row = 0)"

lemma store_note_counting:
  assumes "counting_row db key ts" "0 \<le> unix now" "unix now - unix (hd (ts @ [now])) < go_div window second"
  shows "int (length ts) + 1 < limit \<Longrightarrow> counting_row (snd (store_note db key now limit window lock)) key (ts @ [now])"
    and "limit \<le> int (length ts) + 1 \<Longrightarrow> fst (store_note db key now limit window lock) = lock"
proof -
  let ?n = "unix now" and ?w = "go_div window second"
  let ?row = "count_row (the (store_insert db key ?n key)) ?n ?w"
  have row: "row_cnt ?row = int (length ts) + 1" "row_window_start ?row = unix (hd (ts @ [now]))" "row_locked_until ?row = 0"
    using assms by (auto simp: counting_row_def store_insert_def count_row_def split: if_splits)
  have r: "\<not> 0 < remainingLock (row_locked_until ?row) now" using assms(2) row(3) by (simp add: remainingLock_pos)
  show "counting_row (snd (store_note db key now limit window lock)) key (ts @ [now])" if "int (length ts) + 1 < limit"
    using that r row by (simp add: store_note_def Let_def counting_row_def)
  show "fst (store_note db key now limit window lock) = lock" if "limit \<le> int (length ts) + 1"
    using that r row by (simp add: store_note_def Let_def)
qed

lemma run_store_counting:
  assumes "db key = None"
  shows "int (length ts) < limit \<Longrightarrow> \<forall>a \<in> set ts. 0 \<le> unix a \<and> unix a - unix (hd ts) < go_div window second \<Longrightarrow>
     counting_row (run_store key limit window lock ts db) key ts"
proof (induction ts rule: rev_induct)
  case Nil
  then show ?case using assms by (simp add: run_store_def counting_row_def)
next
  case (snoc n ts)
  have "counting_row (run_store key limit window lock ts db) key ts"
    using snoc by (cases ts) auto
  moreover have "unix n - unix (hd (ts @ [n])) < go_div window second" "0 \<le> unix n" using snoc.prems(2) by auto
  moreover have "int (length ts) + 1 < limit" using snoc.prems(1) by simp
  ultimately have "counting_row (snd (store_note (run_store key limit window lock ts db) key n limit window lock)) key (ts @ [n])"
    using store_note_counting(1) by blast
  then show ?case by (simp add: run_store_def)
qed

section \<open>Properties\<close>

text \<open>
  in memory an address is locked by exactly the limit-th failure: with the failures
  inside one window, every earlier one leaves it free and this one returns the full lock,
  also when the sweep of idle cells runs in between.
\<close>

lemma lock_trips_at_limit_mem:
  assumes "lt_wf t" "map_of (lt_cells t) key = None"
    and "window \<le> lt_failWindow t \<or> window \<le> lt_forgotWindow t" "int (length ts) + 1 = limit"
    and "\<forall>a \<in> set (ts @ [now]). zeroTime \<le> a \<and> (\<forall>b \<in> set (ts @ [now]). a - b < window)"
  shows "lockedForMem (run_mem key limit window lock ts t) key now = 0
       \<and> fst (noteMem (run_mem key limit window lock ts t) key now limit window lock) = lock"
proof -
  have c: "counting_cell (run_mem key limit window lock ts t) key ts"
    using run_mem_counting [OF assms(1,2,3)] assms(4,5) by auto
  have "fst (noteMem (run_mem key limit window lock ts t) key now limit window lock) = lock"
    using assms c by (intro noteMem_counting(2) [where ts = ts]) (auto simp: run_mem_wf)
  moreover have "zeroTime \<le> now" using assms(5) by auto
  ultimately show ?thesis using c by (simp add: lockedForMem_cell counting_cell_def)
qed

text \<open>
  the database side locks by exactly the limit-th failure counted from the first one of
  the window, and the lock it returns is the one a later lookup on any node reads.
\<close>

lemma lock_trips_at_limit_db:
  assumes "db key = None" "int (length ts) + 1 = limit" "0 < lock" "lock mod second = 0"
    and "\<forall>a \<in> set (ts @ [now]). 0 \<le> unix a \<and> unix a - unix (hd (ts @ [now])) < go_div window second"
  shows "store_lockedFor (run_store key limit window lock ts db) key now = 0
       \<and> fst (store_note (run_store key limit window lock ts db) key now limit window lock) = lock
       \<and> store_lockedFor (snd (store_note (run_store key limit window lock ts db) key now limit window lock)) key now = lock"
proof -
  have c: "counting_row (run_store key limit window lock ts db) key ts"
    using assms(1,2,5) by (cases "ts = []") (auto simp: hd_append intro!: run_store_counting)
  have "fst (store_note (run_store key limit window lock ts db) key now limit window lock) = lock"
    using store_note_counting(2) [OF c] assms(2,5) by auto
  moreover have "0 \<le> unix now" using assms(5) by auto
  then have "store_lockedFor (run_store key limit window lock ts db) key now = 0"
    using c by (auto simp: store_lockedFor_def counting_row_def remainingLock_def split: if_splits)
  ultimately show ?thesis using store_note_result [OF assms(3,4)] by metis
qed

text \<open>
  a lock can neither be renewed away nor opened early by hammering: on both sides,
  any sequence of further failures (of this address or of others) before a moment leaves
  the remaining lock of a locked address at that moment unchanged.
\<close>

lemma hammering_keeps_the_lock:
  "(lt_wf t \<and> 0 < lockedForMem t k now \<and> list_all (\<lambda>e. snd e \<le> now) es \<longrightarrow>
      lockedForMem (fold (\<lambda>(k, n) t. snd (noteMem t k n limit window (15 * minute))) es t) k now = lockedForMem t k now)
   \<and> (0 < store_lockedFor db k now \<and> list_all (\<lambda>e. snd e \<le> now) es \<longrightarrow>
      store_lockedFor (fold (\<lambda>(k, n) db. snd (store_note db k n limit window (15 * minute))) es db) k now = store_lockedFor db k now)"
  using mem.hammering_keeps_lock [of t k now es limit window] store.hammering_keeps_lock [of db k now es limit window]
  unfolding mem.run_notes_def store.run_notes_def by simp

text \<open>
  an IPv6 client cannot obtain a fresh counter by moving inside its /64: two IPv6
  addresses with the same first eight bytes are counted under the same key, whatever zone
  they carry.
\<close>

lemma throttleAddr_by_64:
  assumes "parse_addr a = Some (V6 x z)" "parse_addr b = Some (V6 y z')"
    and "\<not> is4in6 (V6 x z)" "\<not> is4in6 (V6 y z')" "take 8 x = take 8 y"
  shows "loginKey a = loginKey b \<and> forgotKey a = forgotKey b"
proof -
  have x: "\<forall>v \<in> set x. v < 256" "length x = 16" using parse_addr_wf [OF assms(1)] by auto
  have y: "\<forall>v \<in> set y. v < 256" "length y = 16" using parse_addr_wf [OF assms(2)] by auto
  have "mask_bytes 64 x = mask_bytes 64 y"
    using mask_bytes_bytes [OF x(1), of 8] mask_bytes_bytes [OF y(1), of 8] x(2) y(2) assms(5) by simp
  then show ?thesis using assms(1-4) by (simp add: loginKey_def forgotKey_def throttleAddr_def)
qed

end
