(* ===== verification/Go_Netip_Text.thy ===== *)
theory Go_Netip_Text
  imports Go_Netip
begin

text \<open>
  The text form of an address reads back: \<open>ParseAddr\<close> after \<open>String\<close> is the identity on
  the addresses \<open>ParseAddr\<close> returns, for dotted IPv4, for IPv6 with or without a
  \<open>::\<close>, and for a v4-mapped address; likewise for prefixes.
\<close>

section \<open>Digits\<close>

lemma format_nat_length:
  assumes "2 \<le> b" "n < b ^ k" "0 < k"
  shows "length (format_nat b n) \<le> k"
  using assms(2,3)
proof (induction k arbitrary: n)
  case (Suc k)
  show ?case
  proof (cases "n < b")
    case True
    then show ?thesis by (simp add: format_nat.simps [of b n])
  next
    case False
    with Suc.prems have "k \<noteq> 0" by (cases k) auto
    moreover have "n div b < b ^ k" using Suc.prems assms(1) by (simp add: div_less_iff_less_mult mult.commute)
    ultimately have "length (format_nat b (n div b)) \<le> k" by (intro Suc.IH) auto
    then show ?thesis using False assms(1) by (simp add: format_nat.simps [of b n])
  qed
qed simp

lemma format_nat_no_zero:
  assumes "2 \<le> b" "b \<le> 36" "0 < n"
  shows "hd (format_nat b n) \<noteq> CHR ''0''"
  using assms(3)
proof (induction n rule: less_induct)
  case (less n)
  show ?case
  proof (cases "n < b")
    case True
    then have "hd (format_nat b n) = digit_char n" by (simp add: format_nat.simps [of b n])
    moreover have "digit_val (digit_char n) = Some n" using True assms by (intro digit_val_char) simp
    moreover have "digit_val (CHR ''0'') = Some 0" by (simp add: digit_val_def)
    ultimately show ?thesis using less.prems by auto
  next
    case False
    then have "n div b < n" "0 < n div b" using assms(1) by (auto simp: div_less_dividend div_greater_zero_iff)
    then have "hd (format_nat b (n div b)) \<noteq> CHR ''0''" by (rule less.IH)
    then show ?thesis using False assms(1) by (simp add: format_nat.simps [of b n] hd_append)
  qed
qed

lemma format_nat_no_leading_zero:
  assumes "2 \<le> b" "b \<le> 36" "length (format_nat b n) > 1"
  shows "hd (format_nat b n) \<noteq> CHR ''0''"
proof (cases "n = 0")
  case True
  with assms show ?thesis by (simp add: format_nat.simps [of b 0])
next
  case False
  with assms show ?thesis by (intro format_nat_no_zero) auto
qed

lemma parse_digits_hex:
  "parse_digits 16 acc w = Some n \<Longrightarrow>
     (\<forall>c \<in> set w. hex_val c \<noteq> None) \<and> n = foldl (\<lambda>a d. a * 16 + d) acc (map (the \<circ> hex_val) w)"
  by (induction "16 :: nat" acc w rule: parse_digits.induct) (auto simp: hex_val_def split: option.splits if_splits)

lemma parse_digits_dec: "parse_digits 10 acc w = Some n \<Longrightarrow> \<forall>c \<in> set w. hex_val c \<noteq> None"
  by (induction "10 :: nat" acc w rule: parse_digits.induct) (auto simp: hex_val_def split: option.splits if_splits)

lemma span_hex_append:
  "\<forall>c \<in> set w. hex_val c \<noteq> None \<Longrightarrow> r = [] \<or> hex_val (hd r) = None \<Longrightarrow>
     span_hex (w @ r) = (map (the \<circ> hex_val) w, r)"
proof (induction w)
  case Nil
  then show ?case by (cases r) auto
qed auto

lemma span_hex_format:
  assumes "r = [] \<or> hex_val (hd r) = None" "g < 65536"
  shows "\<exists>ds. span_hex (format_nat 16 g @ r) = (ds, r) \<and> hex_group ds = g \<and> ds \<noteq> [] \<and> length ds \<le> 4"
proof -
  have p: "parse_digits 16 0 (format_nat 16 g) = Some g" by (rule parse_format_nat) auto
  from parse_digits_hex [OF p] have w: "\<forall>c \<in> set (format_nat 16 g). hex_val c \<noteq> None"
    and g: "g = hex_group (map (the \<circ> hex_val) (format_nat 16 g))"
    by (auto simp: hex_group_def)
  have "length (format_nat 16 g) \<le> 4" using assms(2) by (intro format_nat_length) auto
  then show ?thesis using span_hex_append [OF w assms(1)] g by auto
qed

section \<open>IPv4\<close>

lemma v4_field_format: "x < 256 \<Longrightarrow> v4_field (format_nat 10 x) = Some x"
  using format_nat_length [of 10 x 3] format_nat_no_leading_zero [of 10 x] parse_format_nat [of 10 x]
  by (auto simp: v4_field_def)

lemma format_nat_no_sep: "2 \<le> b \<Longrightarrow> b \<le> 36 \<Longrightarrow> CHR ''.'' \<notin> set (format_nat b x) \<and> CHR '':'' \<notin> set (format_nat b x) \<and> CHR ''%'' \<notin> set (format_nat b x) \<and> CHR ''/'' \<notin> set (format_nat b x)"
  using format_nat_numeric [of b x] by (auto simp: numeric_def)

lemma split_v4_string: "b \<noteq> [] \<Longrightarrow> split (CHR ''.'') (v4_string b) = map (format_nat 10) b"
  unfolding v4_string_def by (rule split_join) (auto simp: format_nat_no_sep)

lemma parse_v4_string:
  assumes "length b = 4" "\<forall>x \<in> set b. x < 256"
  shows "parse_v4_fields (v4_string b) = Some b"
proof -
  have f: "map v4_field (map (format_nat 10) b) = map Some b" using assms(2) by (simp add: v4_field_format)
  have "b \<noteq> []" using assms(1) by auto
  moreover have "map the (map Some b) = b" by (simp add: o_def)
  ultimately show ?thesis using assms(1) f
    by (auto simp: parse_v4_fields_def split_v4_string Let_def simp del: map_map)
qed

section \<open>IPv6\<close>

definition bytes_of :: "nat list \<Rightarrow> nat list" where
  "bytes_of gs = concat (map (\<lambda>g. [g div 256, g mod 256]) gs)"

definition show_groups :: "nat list \<Rightarrow> string" where
  "show_groups gs = join (CHR '':'') (map (format_nat 16) gs)"

lemma bytes_of_simps [simp]:
  "bytes_of [] = []" "bytes_of (g # gs) = g div 256 # g mod 256 # bytes_of gs" "bytes_of (xs @ ys) = bytes_of xs @ bytes_of ys"
  by (simp_all add: bytes_of_def)

lemma length_bytes_of [simp]: "length (bytes_of gs) = 2 * length gs"
  by (induction gs) simp_all

lemma bytes_of_zeros [simp]: "bytes_of (replicate n 0) = replicate (2 * n) 0"
  by (induction n) simp_all

lemma bytes_groups: "even (length b) \<Longrightarrow> \<forall>x \<in> set b. x < 256 \<Longrightarrow> bytes_of (groups_of b) = b"
  by (induction b rule: groups_of.induct) auto

lemma groups_bound: "\<forall>x \<in> set b. x < 256 \<Longrightarrow> \<forall>g \<in> set (groups_of b). g < 65536"
  by (induction b rule: groups_of.induct) auto

lemma length_groups: "length (groups_of b) = length b div 2"
  by (induction b rule: groups_of.induct) auto

lemma hex_val_sep [simp]: "hex_val (CHR '':'') = None" "hex_val (CHR ''.'') = None"
  by (simp_all add: hex_val_def digit_val_def)

lemma show_groups_Cons: "gs \<noteq> [] \<Longrightarrow> show_groups (g # gs) = format_nat 16 g @ CHR '':'' # show_groups gs"
  by (cases gs) (simp_all add: show_groups_def)

lemma show_groups_one: "show_groups [g] = format_nat 16 g"
  by (simp add: show_groups_def)

lemma show_groups_hd: "gs \<noteq> [] \<Longrightarrow> show_groups gs \<noteq> [] \<and> numeric (hd (show_groups gs))"
  using format_nat_hd [of 16 "hd gs"]
  by (cases "tl gs = []"; cases gs) (auto simp: show_groups_one show_groups_Cons)

lemma numeric_not_colon: "numeric c \<Longrightarrow> c \<noteq> CHR '':''"
  by (auto simp: numeric_def)

text \<open>One group, at the end of the text, before a single colon, and before a double one.\<close>

lemma v6_group_end:
  assumes "length ip < 16" "g < 65536"
  shows "v6_loop ip ell (format_nat 16 g) = Some (ip @ [g div 256, g mod 256], ell, [])"
  using span_hex_format [of "[]" g] assms by (subst v6_loop.simps) (auto simp: Let_def)

lemma v6_group_colon:
  assumes "length ip < 16" "g < 65536" "s \<noteq> []" "hd s \<noteq> CHR '':''"
  shows "v6_loop ip ell (format_nat 16 g @ CHR '':'' # s) = v6_loop (ip @ [g div 256, g mod 256]) ell s"
proof -
  obtain ds where ds: "span_hex (format_nat 16 g @ CHR '':'' # s) = (ds, CHR '':'' # s)" "hex_group ds = g" "ds \<noteq> []" "length ds \<le> 4"
    using span_hex_format [of "CHR '':'' # s" g] assms(2) by auto
  show ?thesis using v6_loop_step [OF assms(1) ds(1) ds(3) ds(4)] assms(3,4) ds(2) by (simp add: Let_def)
qed

lemma v6_group_double:
  assumes "length ip < 16" "g < 65536"
  shows "v6_loop ip None (format_nat 16 g @ ''::'' @ s) =
     (if s = [] then Some (ip @ [g div 256, g mod 256], Some (length ip + 2), [])
      else v6_loop (ip @ [g div 256, g mod 256]) (Some (length ip + 2)) s)"
proof -
  obtain ds where ds: "span_hex (format_nat 16 g @ ''::'' @ s) = (ds, ''::'' @ s)" "hex_group ds = g" "ds \<noteq> []" "length ds \<le> 4"
    using span_hex_format [of "''::'' @ s" g] assms(2) by auto
  show ?thesis using v6_loop_step [OF assms(1) ds(1) ds(3) ds(4)] ds(2) by (simp add: Let_def)
qed

lemma v6_loop_groups:
  assumes "gs \<noteq> []" "length ip + 2 * length gs \<le> 16" "\<forall>g \<in> set gs. g < 65536"
  shows "v6_loop ip ell (show_groups gs) = Some (ip @ bytes_of gs, ell, [])"
  using assms
proof (induction gs arbitrary: ip)
  case (Cons g gs)
  show ?case
  proof (cases "gs = []")
    case True
    with Cons.prems show ?thesis by (simp add: show_groups_one v6_group_end)
  next
    case False
    have "v6_loop ip ell (show_groups (g # gs)) = v6_loop (ip @ [g div 256, g mod 256]) ell (show_groups gs)"
      using Cons.prems False show_groups_hd [OF False] numeric_not_colon
      by (auto simp: show_groups_Cons intro!: v6_group_colon)
    also have "\<dots> = Some ((ip @ [g div 256, g mod 256]) @ bytes_of gs, ell, [])"
      using Cons.prems False by (intro Cons.IH) auto
    finally show ?thesis by simp
  qed
qed simp

lemma v6_loop_ellipsis:
  assumes "gs \<noteq> []" "length ip + 2 * length gs + 2 * length hs \<le> 16" "\<forall>g \<in> set (gs @ hs). g < 65536"
  shows "v6_loop ip None (show_groups gs @ ''::'' @ show_groups hs) =
     Some (ip @ bytes_of gs @ bytes_of hs, Some (length ip + 2 * length gs), [])"
  using assms
proof (induction gs arbitrary: ip)
  case (Cons g gs)
  show ?case
  proof (cases "gs = []")
    case True
    have h: "show_groups hs = [] \<longleftrightarrow> hs = []"
      using show_groups_hd [of hs] by (auto simp: show_groups_def)
    show ?thesis
    proof (cases "hs = []")
      case hs: True
      with True Cons.prems h show ?thesis
        using v6_group_double [of ip g "show_groups hs"] by (simp add: show_groups_one)
    next
      case hs: False
      have "v6_loop (ip @ [g div 256, g mod 256]) (Some (length ip + 2)) (show_groups hs)
          = Some ((ip @ [g div 256, g mod 256]) @ bytes_of hs, Some (length ip + 2), [])"
        using True hs Cons.prems by (intro v6_loop_groups) auto
      with True hs Cons.prems h show ?thesis
        using v6_group_double [of ip g "show_groups hs"] by (simp add: show_groups_one)
    qed
  next
    case False
    have "v6_loop ip None (format_nat 16 g @ CHR '':'' # (show_groups gs @ ''::'' @ show_groups hs))
        = v6_loop (ip @ [g div 256, g mod 256]) None (show_groups gs @ ''::'' @ show_groups hs)"
      using Cons.prems False show_groups_hd [OF False] numeric_not_colon
      by (intro v6_group_colon) (auto simp: hd_append)
    also have "\<dots> = Some ((ip @ [g div 256, g mod 256]) @ bytes_of gs @ bytes_of hs, Some (length (ip @ [g div 256, g mod 256]) + 2 * length gs), [])"
      using Cons.prems False by (intro Cons.IH) auto
    finally show ?thesis using False by (simp add: show_groups_Cons)
  qed
qed simp

section \<open>The compressed run\<close>

lemma zero_run_le: "zero_run gs \<le> length gs"
  by (induction gs) auto

lemma zero_run_take: "take (zero_run gs) gs = replicate (zero_run gs) 0"
  by (induction gs) auto

lemma best_run_sound:
  assumes "best_run gs = Some (i, n)"
  shows "n \<ge> 2 \<and> n = zero_run (drop i gs) \<and> i < length gs"
proof -
  let ?f = "\<lambda>best i. let n = zero_run (drop i gs)
            in if n \<ge> 2 \<and> (case best of None \<Rightarrow> True | Some (_, m) \<Rightarrow> n > m) then Some (i, n) else best"
  have "foldl ?f best is = Some (i, n) \<Longrightarrow> (\<forall>j m. best = Some (j, m) \<longrightarrow> m \<ge> 2 \<and> m = zero_run (drop j gs) \<and> j < length gs)
      \<Longrightarrow> set is \<subseteq> {..<length gs} \<Longrightarrow> n \<ge> 2 \<and> n = zero_run (drop i gs) \<and> i < length gs" for best "is"
  proof (induction "is" arbitrary: best)
    case (Cons j js)
    show ?case by (rule Cons.IH [of "?f best j"]) (use Cons.prems in \<open>auto simp: Let_def split: if_splits\<close>)
  qed auto
  from this [of None "[0..<length gs]"] assms show ?thesis by (simp add: best_run_def atLeast0LessThan)
qed

lemma run_split:
  assumes "best_run gs = Some (i, n)"
  shows "gs = take i gs @ replicate n 0 @ drop (i + n) gs" and "i + n \<le> length gs"
proof -
  from best_run_sound [OF assms] have n: "n = zero_run (drop i gs)" by simp
  have "drop i gs = take n (drop i gs) @ drop n (drop i gs)" by (rule append_take_drop_id [symmetric])
  also have "take n (drop i gs) = replicate n 0" using zero_run_take [of "drop i gs"] n by simp
  finally show "gs = take i gs @ replicate n 0 @ drop (i + n) gs"
    by (metis append_take_drop_id drop_drop add.commute)
  have "zero_run (drop i gs) \<le> length gs - i" "i < length gs"
    using zero_run_le [of "drop i gs"] best_run_sound [OF assms] by auto
  then show "i + n \<le> length gs" unfolding n by linarith
qed

lemma show_groups_colon: "2 \<le> length gs \<Longrightarrow> CHR '':'' \<in> set (show_groups gs)"
  by (cases gs; cases "tl gs") (auto simp: show_groups_Cons)

lemma find_sep:
  assumes "\<forall>c \<in> set w. c \<noteq> CHR ''.'' \<and> c \<noteq> CHR '':'' \<and> c \<noteq> CHR ''%''" "d = CHR ''.'' \<or> d = CHR '':'' \<or> d = CHR ''%''"
  shows "find (\<lambda>c. c = CHR ''.'' \<or> c = CHR '':'' \<or> c = CHR ''%'') (w @ d # s) = Some d"
  using assms by (induction w) auto

lemma set_show_groups: "c \<in> set (show_groups gs) \<Longrightarrow> numeric c \<or> c = CHR '':''"
proof (induction gs)
  case (Cons g gs)
  then show ?case using format_nat_numeric [of 16 g] by (cases "gs = []") (auto simp: show_groups_one show_groups_Cons)
qed (simp add: show_groups_def)

lemma set_v6_string: "c \<in> set (v6_string b) \<Longrightarrow> numeric c \<or> c = CHR '':''"
  by (auto simp: v6_string_def Let_def show_groups_def [symmetric] dest!: set_show_groups split: option.splits prod.splits)

lemma index_percent: "\<forall>c \<in> set s. numeric c \<or> c = CHR '':'' \<Longrightarrow> index_byte (CHR ''%'') s = None"
  by (auto simp: index_byte_None numeric_def)

lemma show_groups_shape: "gs \<noteq> [] \<Longrightarrow> \<exists>c cs. show_groups gs = c # cs \<and> c \<noteq> CHR '':''"
  using show_groups_hd [of gs] numeric_not_colon by (cases "show_groups gs") auto

lemma parse_v6_full:
  assumes "length gs = 8" "\<forall>g \<in> set gs. g < 65536"
  shows "parse_v6 (show_groups gs) = Some (V6 (bytes_of gs) [])"
proof -
  have ne: "gs \<noteq> []" using assms(1) by auto
  obtain c cs where c: "show_groups gs = c # cs" "c \<noteq> CHR '':''" using show_groups_shape [OF ne] by blast
  have "v6_loop [] None (show_groups gs) = Some ([] @ bytes_of gs, None, [])"
    using assms ne by (intro v6_loop_groups) auto
  moreover have "index_byte (CHR ''%'') (show_groups gs) = None"
    using set_show_groups by (intro index_percent) blast
  ultimately show ?thesis using c assms(1) by (simp add: parse_v6_def Let_def)
qed

lemma parse_v6_ellipsis:
  assumes "length a + length z \<le> 7" "\<forall>g \<in> set (a @ z). g < 65536"
  shows "parse_v6 (show_groups a @ ''::'' @ show_groups z)
    = Some (V6 (bytes_of a @ replicate (16 - 2 * length a - 2 * length z) 0 @ bytes_of z) [])"
proof -
  have "\<forall>c \<in> set (show_groups a @ ''::'' @ show_groups z). numeric c \<or> c = CHR '':''"
    using set_show_groups by auto
  note cut = index_percent [OF this]
  consider (head) "a \<noteq> []" | (tail) "a = []" "z \<noteq> []" | (none) "a = []" "z = []" by blast
  then show ?thesis
  proof cases
    case head
    obtain c cs where c: "show_groups a = c # cs" "c \<noteq> CHR '':''" using show_groups_shape [OF head] by blast
    have "v6_loop [] None (show_groups a @ ''::'' @ show_groups z) = Some ([] @ bytes_of a @ bytes_of z, Some (length ([] :: nat list) + 2 * length a), [])"
      using assms head by (intro v6_loop_ellipsis) auto
    with cut c assms(1) show ?thesis by (simp add: parse_v6_def Let_def diff_diff_left)
  next
    case tail
    have "v6_loop [] (Some 0) (show_groups z) = Some ([] @ bytes_of z, Some 0, [])"
      using assms tail by (intro v6_loop_groups) auto
    moreover have "show_groups z \<noteq> []" using show_groups_shape [OF tail(2)] by auto
    ultimately show ?thesis using cut tail assms(1) by (simp add: parse_v6_def Let_def show_groups_def [of "[]"])
  next
    case none
    with cut show ?thesis by (simp add: parse_v6_def Let_def show_groups_def)
  qed
qed

lemma parse_v6_string:
  assumes "length b = 16" "\<forall>x \<in> set b. x < 256"
  shows "parse_v6 (v6_string b) = Some (V6 b [])"
proof -
  let ?gs = "groups_of b"
  have gs: "length ?gs = 8" "\<forall>g \<in> set ?gs. g < 65536" "bytes_of ?gs = b"
    using assms groups_bound bytes_groups by (auto simp: length_groups)
  show ?thesis
  proof (cases "best_run ?gs")
    case None
    then show ?thesis using parse_v6_full [OF gs(1,2)] gs(3) by (simp add: v6_string_def show_groups_def)
  next
    case (Some p)
    then obtain i n where p: "best_run ?gs = Some (i, n)" by (cases p) auto
    note run = run_split [OF p] best_run_sound [OF p]
    have s: "v6_string b = show_groups (take i ?gs) @ ''::'' @ show_groups (drop (i + n) ?gs)"
      using p by (simp add: v6_string_def show_groups_def Let_def)
    have b: "bytes_of (take i ?gs) @ replicate (2 * n) 0 @ bytes_of (drop (i + n) ?gs) = b"
      using gs(3) arg_cong [OF run(1), of bytes_of] by simp
    have l: "length (take i ?gs) = i" "length (drop (i + n) ?gs) = 8 - (i + n)" using run(2) gs(1) by auto
    have g: "\<forall>g \<in> set (take i ?gs @ drop (i + n) ?gs). g < 65536" using gs(2) by (auto dest: in_set_takeD in_set_dropD)
    have le: "length (take i ?gs) + length (drop (i + n) ?gs) \<le> 7" using l run(2,3) gs(1) by linarith
    have "16 - 2 * i - 2 * (8 - (i + n)) = 2 * n" using run(2) gs(1) by simp
    then show ?thesis unfolding s parse_v6_ellipsis [OF le g] l using b by simp
  qed
qed

section \<open>Addresses and prefixes read back\<close>

lemma v4_string_chars: "c \<in> set (v4_string b) \<Longrightarrow> numeric c \<or> c = CHR ''.''"
proof (induction b)
  case (Cons x b)
  then show ?case using format_nat_numeric [of 10 x] by (cases b) (auto simp: v4_string_def)
qed (simp add: v4_string_def)

lemma v4_string_split:
  assumes "length b = 4"
  shows "\<exists>s. v4_string b = format_nat 10 (hd b) @ CHR ''.'' # s"
proof -
  obtain x y ys where "b = x # y # ys" using assms by (cases b; cases "tl b") auto
  then show ?thesis by (simp add: v4_string_def)
qed

lemma parse_v4_mapped:
  assumes "length b = 4" "\<forall>x \<in> set b. x < 256"
  shows "parse_v6 (''::ffff:'' @ v4_string b) = Some (V6 (v4_mapped_prefix @ b) [])"
proof -
  obtain s where s: "v4_string b = format_nat 10 (hd b) @ CHR ''.'' # s" using v4_string_split [OF assms(1)] by blast
  have lt: "hd b < 256" using assms by (cases b) auto
  have ne: "v4_string b \<noteq> []" "hd (v4_string b) \<noteq> CHR '':''"
    using s format_nat_hd [of 10 "hd b"] numeric_not_colon by auto
  have dec: "\<forall>c \<in> set (format_nat 10 (hd b)). hex_val c \<noteq> None"
  proof
    fix c
    assume "c \<in> set (format_nat 10 (hd b))"
    then show "hex_val c \<noteq> None" using parse_digits_dec [OF parse_format_nat [of 10 "hd b"]] by auto
  qed
  have "span_hex (v4_string b) = (map (the \<circ> hex_val) (format_nat 10 (hd b)), CHR ''.'' # s)"
    unfolding s by (rule span_hex_append [OF dec]) simp
  moreover have "length (format_nat 10 (hd b)) \<le> 3" using lt by (intro format_nat_length) auto
  ultimately have v4: "v6_loop [255, 255] (Some 0) (v4_string b) = Some ([255, 255] @ b, Some 0, [])"
    using parse_v4_string [OF assms] by (subst v6_loop.simps) simp
  have f: "format_nat 16 65535 = ''ffff''" by code_simp
  have "v6_loop [] (Some 0) (format_nat 16 65535 @ CHR '':'' # v4_string b) = v6_loop ([] @ [65535 div 256, 65535 mod 256]) (Some 0) (v4_string b)"
    using ne by (intro v6_group_colon) auto
  then have "v6_loop [] (Some 0) (''ffff:'' @ v4_string b) = Some ([255, 255] @ b, Some 0, [])" using v4 f by simp
  moreover have "index_byte (CHR ''%'') (''::ffff:'' @ v4_string b) = None"
    using v4_string_chars [of "CHR ''%''" b] by (auto simp: index_byte_None numeric_def)
  ultimately show ?thesis using assms(1)
    by (simp add: parse_v6_def Let_def v4_mapped_prefix_def numeral_eq_Suc)
qed
definition addr_ok :: "addr \<Rightarrow> bool" where
  "addr_ok a \<longleftrightarrow> (\<forall>x \<in> set (addr_bytes a). x < 256) \<and> length (addr_bytes a) = (if is4 a then 4 else 16) \<and> zone a = []"

definition prefix_ok :: "ip_prefix \<Rightarrow> bool" where
  "prefix_ok p \<longleftrightarrow> addr_ok (p_addr p) \<and> p_bits p \<le> (if is4 (p_addr p) then 32 else 128)"

lemma addr_string_chars: "zone a = [] \<Longrightarrow> c \<in> set (addr_string a) \<Longrightarrow> numeric c \<or> c = CHR ''.'' \<or> c = CHR '':''"
  by (cases a) (auto simp: Let_def numeric_def dest!: v4_string_chars set_v6_string split: if_splits)

lemma find_first_sep:
  assumes "\<forall>c \<in> set s. numeric c \<or> c = d" "d \<in> set s" "d = CHR ''.'' \<or> d = CHR '':''"
  shows "find (\<lambda>c. c = CHR ''.'' \<or> c = CHR '':'' \<or> c = CHR ''%'') s = Some d"
proof -
  obtain xs ys where s: "s = xs @ d # ys" "d \<notin> set xs" using split_list_first [OF assms(2)] by blast
  then have "\<forall>c \<in> set xs. numeric c" using assms(1) by auto
  then have "\<forall>c \<in> set xs. c \<noteq> CHR ''.'' \<and> c \<noteq> CHR '':'' \<and> c \<noteq> CHR ''%''" by (auto simp: numeric_def)
  then show ?thesis unfolding s(1) using assms(3) by (intro find_sep) auto
qed

lemma v6_string_colon: "length b = 16 \<Longrightarrow> CHR '':'' \<in> set (v6_string b)"
  using show_groups_colon [of "groups_of b"]
  by (auto simp: v6_string_def Let_def show_groups_def [symmetric] length_groups split: option.splits prod.splits)

theorem parse_addr_string: "addr_ok a \<Longrightarrow> parse_addr (addr_string a) = Some a"
proof (cases a)
  case (V4 b)
  assume "addr_ok a"
  with V4 have b: "length b = 4" "\<forall>x \<in> set b. x < 256" by (auto simp: addr_ok_def)
  have "find (\<lambda>c. c = CHR ''.'' \<or> c = CHR '':'' \<or> c = CHR ''%'') (v4_string b) = Some (CHR ''.'')"
    using v4_string_chars [of _ b] v4_string_split [OF b(1)] by (intro find_first_sep) auto
  then show ?thesis using V4 parse_v4_string [OF b] by (simp add: parse_addr_def)
next
  case (V6 b z)
  assume "addr_ok a"
  with V6 have b: "length b = 16" "\<forall>x \<in> set b. x < 256" "z = []" by (auto simp: addr_ok_def)
  show ?thesis
  proof (cases "take 12 b = v4_mapped_prefix")
    case True
    then have "v4_mapped_prefix @ drop 12 b = b" by (metis append_take_drop_id)
    moreover have "length (drop 12 b) = 4" "\<forall>x \<in> set (drop 12 b). x < 256" using b by (auto dest: in_set_dropD)
    ultimately show ?thesis using V6 True b(3) parse_v4_mapped [of "drop 12 b"] by (simp add: parse_addr_def)
  next
    case False
    have "find (\<lambda>c. c = CHR ''.'' \<or> c = CHR '':'' \<or> c = CHR ''%'') (v6_string b) = Some (CHR '':'')"
      using set_v6_string v6_string_colon [OF b(1)] by (intro find_first_sep) auto
    then show ?thesis using V6 False b parse_v6_string [OF b(1,2)] by (simp add: parse_addr_def)
  qed
qed

lemma last_slash_append: "CHR ''/'' \<notin> set t \<Longrightarrow> last_slash (s @ CHR ''/'' # t) = Some (length s)"
  using index_byte_append [of "CHR ''/''" "rev t" "rev s"] by (simp add: last_slash_def)

lemma parse_int_format_nat: "n < 2 ^ 63 \<Longrightarrow> parse_int 10 64 (format_nat 10 n) = Some (int n)"
  using parse_format_int [of 10 "int n"] by (simp add: format_int_def in64_def)

theorem parse_prefix_string:
  assumes "prefix_ok p"
  shows "parse_prefix (prefix_string p) = Some p"
proof -
  let ?d = "format_nat 10 (p_bits p)"
  have ok: "addr_ok (p_addr p)" and bits: "p_bits p \<le> (if is4 (p_addr p) then 32 else 128)"
    using assms by (auto simp: prefix_ok_def)
  have lead: "49 \<le> (of_char (hd ?d) :: nat) \<and> (of_char (hd ?d) :: nat) \<le> 57" if "length ?d > 1"
  proof -
    have "\<exists>k. digit_val (hd ?d) = Some k \<and> k < 10"
      using parse_format_nat [of 10 "p_bits p"] by (cases ?d) (auto split: option.splits if_splits)
    moreover have "hd ?d \<noteq> CHR ''0''" using that by (intro format_nat_no_leading_zero) auto
    then have "(of_char (hd ?d) :: nat) \<noteq> of_char (CHR ''0'')" by (simp only: of_char_eq_iff not_False_eq_True)
    then have "(of_char (hd ?d) :: nat) \<noteq> 48" by simp
    ultimately show ?thesis by (auto simp: digit_val_def Let_def split: if_splits)
  qed
  have "p_bits p < 2 ^ 63" using bits by (auto split: if_splits)
  then have "parse_int 10 64 ?d = Some (int (p_bits p))" by (rule parse_int_format_nat)
  moreover have "last_slash (prefix_string p) = Some (length (addr_string (p_addr p)))"
    using format_nat_no_sep [of 10 "p_bits p"] by (simp add: prefix_string_def last_slash_append)
  ultimately show ?thesis
    using lead ok parse_addr_string [OF ok] bits
    by (auto simp: parse_prefix_def prefix_string_def addr_ok_def Let_def split: if_splits)
qed

section \<open>Masking\<close>

lemma drop_mask_bytes: "drop k (mask_bytes n b) = mask_bytes (n - 8 * k) (drop k b)"
proof (induction k arbitrary: n b)
  case (Suc k)
  have "n - 8 - 8 * k = n - 8 * Suc k" by simp
  with Suc show ?case by (cases b) (auto simp: not_le)
qed simp

lemma length_mask_bytes [simp]: "length (mask_bytes n b) = length b"
  by (induction n b rule: mask_bytes.induct) auto

lemma mask_byte_le: "mask_byte n v \<le> v"
  by (simp add: mask_byte_def)

lemma mask_bytes_bound: "\<forall>v \<in> set b. v < 256 \<Longrightarrow> \<forall>v \<in> set (mask_bytes n b). v < 256"
proof (induction n b rule: mask_bytes.induct)
  case (2 n v vs)
  then show ?case using mask_byte_le [of n v] by (auto intro: le_less_trans)
qed simp

lemma masked_mapped_bits:
  assumes "length b = 16" "take 12 (mask_bytes n b) = v4_mapped_prefix"
  shows "n \<ge> 96"
proof (rule ccontr)
  assume "\<not> n \<ge> 96"
  then have m: "\<not> n - 88 \<ge> 8" by simp
  obtain v vs where d: "drop 11 b = v # vs" using assms(1) by (cases "drop 11 b") auto
  have "mask_byte (n - 88) v = hd (drop 11 (mask_bytes n b))" using m by (simp add: drop_mask_bytes d)
  also have "\<dots> = hd (drop 11 (take 12 (mask_bytes n b)))" using assms(1) by (simp add: hd_drop_conv_nth)
  also have "\<dots> = 255" by (simp add: assms(2) v4_mapped_prefix_def)
  finally have "(v div 2 ^ (8 - (n - 88))) * 2 ^ (8 - (n - 88)) = 255" by (simp add: mask_byte_def)
  moreover have "even ((v div 2 ^ (8 - (n - 88))) * 2 ^ (8 - (n - 88)))" using m by simp
  ultimately show False by simp
qed

definition range_ok :: "ip_prefix \<Rightarrow> bool" where
  "range_ok p \<longleftrightarrow> prefix_ok p \<and> masked p = p"

lemma parse_prefix_ok: "parse_prefix s = Some p \<Longrightarrow> prefix_ok p"
  using parse_addr_wf
  by (auto simp: parse_prefix_def prefix_ok_def addr_ok_def Let_def split: option.splits if_splits)

lemma range_ok_masked: "prefix_ok p \<Longrightarrow> range_ok (masked p)"
  using mask_bytes_bound
  by (cases "p_addr p") (auto simp: range_ok_def prefix_ok_def addr_ok_def masked_def)

lemma addr_ok_unmap: "addr_ok a \<Longrightarrow> addr_ok (unmap a)"
  by (cases a) (auto simp: addr_ok_def dest: in_set_dropD)

lemma unmap_unmap [simp]: "addr_ok a \<Longrightarrow> unmap (unmap a) = unmap a"
  by (cases a) auto

lemma take_mask_bytes: "8 * k \<le> n \<Longrightarrow> take k (mask_bytes n b) = take k b"
proof (induction k arbitrary: n b)
  case (Suc k)
  then show ?case by (cases b) auto
qed simp

lemma mask_byte_min:
  assumes "m \<le> 8" "n \<le> 8"
  shows "mask_byte m (mask_byte n v) = mask_byte (min m n) v"
proof (cases "m \<le> n")
  case True
  then have e: "(2::nat) ^ (8 - m) = 2 ^ (8 - n) * 2 ^ (n - m)" using assms by (simp flip: power_add)
  then show ?thesis using True by (simp add: mask_byte_def div_mult2_eq)
next
  case False
  then have "(2::nat) ^ (8 - n) = 2 ^ (8 - m) * 2 ^ (m - n)" using assms by (simp flip: power_add)
  then have "mask_byte n v = (v div 2 ^ (8 - n) * 2 ^ (m - n)) * 2 ^ (8 - m)" by (simp only: mask_byte_def mult_ac)
  moreover have "mask_byte m (w * 2 ^ (8 - m)) = w * 2 ^ (8 - m)" for w by (simp add: mask_byte_def)
  ultimately have "mask_byte m (mask_byte n v) = mask_byte n v" by simp
  then show ?thesis using False by (simp add: min_def)
qed

lemma mask_bytes_min: "mask_bytes m (mask_bytes n b) = mask_bytes (min m n) b"
proof (induction b arbitrary: m n)
  case (Cons v vs)
  have "min m n - 8 = min (m - 8) (n - 8)" by simp
  moreover have "mask_byte m (mask_byte n v) = mask_byte (min m n) v" if "\<not> m \<ge> 8" "\<not> n \<ge> 8" using that by (intro mask_byte_min) auto
  ultimately show ?case using Cons by (cases "m \<ge> 8"; cases "n \<ge> 8") (auto simp: min_def)
qed simp

end
