(* ===== verification/Ban_Mirror.thy ===== *)
theory Ban_Mirror
  imports Go_Netip_Text "HOL-Library.Multiset"
begin

text \<open>
  The in-memory ban list of \<open>ban/mirror.go\<close> with the address spelling of
  \<open>ban/normalize.go\<close>: five indexes over the bans in force, kept current by the manager's
  writes. The reference is the plain list of bans in arrival order, in which an upsert
  drops the ban on the same key and appends the new one; \<open>mirror_repr\<close> relates the
  indexes to that list, and every operation and the lookup are shown to follow it.
\<close>

section \<open>Address spelling\<close>

definition normalizeIP :: "string \<Rightarrow> string" where
  "normalizeIP s =
     (let s = trim_space s in
      if s = [] then s
      else if index_byte (CHR ''/'') s \<noteq> None
      then (case parse_prefix s of None \<Rightarrow> s | Some p \<Rightarrow> prefix_string (masked p))
      else (case parse_addr s of None \<Rightarrow> s | Some a \<Rightarrow> addr_string a))"

definition parsePrefixKey :: "string \<Rightarrow> ip_prefix option" where
  "parsePrefixKey ip =
     (if index_byte (CHR ''/'') ip = None then None
      else map_option masked (parse_prefix ip))"

definition addrInPrefix :: "ip_prefix \<Rightarrow> string \<Rightarrow> bool" where
  "addrInPrefix p ip =
     (case parse_addr ip of None \<Rightarrow> False
      | Some a \<Rightarrow> prefix_contains p (if is4in6 a \<and> is4 (p_addr p) then unmap a else a))"

section \<open>One spelling per address\<close>

lemma parse_v6_zone: "parse_v6 s = Some a \<Longrightarrow> CHR ''%'' \<notin> set s \<Longrightarrow> zone a = []"
  by (auto simp: parse_v6_def index_byte_None [THEN iffD2] Let_def split: if_splits option.splits prod.splits)

lemma parse_addr_zone: "parse_addr s = Some a \<Longrightarrow> CHR ''%'' \<notin> set s \<Longrightarrow> zone a = []"
  by (auto simp: parse_addr_def dest: parse_v6_zone split: option.splits if_splits)

lemma parse_addr_ok: "parse_addr s = Some a \<Longrightarrow> zone a = [] \<Longrightarrow> addr_ok a"
  using parse_addr_wf by (auto simp: addr_ok_def)

lemma masked_ok: "prefix_ok p \<Longrightarrow> prefix_ok (masked p)"
  using range_ok_masked by (simp add: range_ok_def)

lemma masked_idem [simp]: "masked (masked p) = masked p"
  by (cases "p_addr p") (simp_all add: masked_def)

lemma printable_graphic:
  "\<forall>c \<in> set s. numeric c \<or> c = CHR ''.'' \<or> c = CHR '':'' \<or> c = CHR ''/'' \<Longrightarrow> trim_space s = s"
  by (rule trim_space_graphic) (auto simp: numeric_def graphic_def)

lemma normalizeIP_prefix:
  assumes "prefix_ok p"
  shows "normalizeIP (prefix_string p) = prefix_string (masked p)"
proof -
  have "zone (p_addr p) = []" using assms by (simp add: prefix_ok_def addr_ok_def)
  then have "trim_space (prefix_string p) = prefix_string p"
    using addr_string_chars format_nat_numeric [of 10 "p_bits p"] by (intro printable_graphic) (auto simp: prefix_string_def)
  moreover have "index_byte (CHR ''/'') (prefix_string p) \<noteq> None" by (simp add: index_byte_None prefix_string_def del: not_None_eq)
  moreover have "prefix_string p \<noteq> []" by (simp add: prefix_string_def)
  ultimately show ?thesis using parse_prefix_string [OF assms] by (simp add: normalizeIP_def)
qed

lemma normalizeIP_addr:
  assumes "addr_ok a"
  shows "normalizeIP (addr_string a) = addr_string a"
proof -
  have ch: "\<forall>c \<in> set (addr_string a). numeric c \<or> c = CHR ''.'' \<or> c = CHR '':''"
    using assms addr_string_chars [of a] by (auto simp: addr_ok_def)
  then have "trim_space (addr_string a) = addr_string a" by (intro printable_graphic) auto
  moreover have "index_byte (CHR ''/'') (addr_string a) = None"
    using ch by (auto simp: index_byte_None numeric_def)
  moreover have "addr_string a \<noteq> []" using parse_addr_string [OF assms] by (auto simp: parse_addr_def)
  ultimately show ?thesis using parse_addr_string [OF assms] by (simp add: normalizeIP_def)
qed

lemma normalizeIP_cases:
  assumes "CHR ''%'' \<notin> set s"
  obtains (addr) a where "addr_ok a" "normalizeIP s = addr_string a"
    | (prefix) p where "prefix_ok p" "normalizeIP s = prefix_string (masked p)"
    | (other) "normalizeIP s = trim_space s" "normalizeIP (trim_space s) = trim_space s"
proof -
  have z: "CHR ''%'' \<notin> set (trim_space s)" using assms set_trim_space by blast
  show thesis
  proof (cases "trim_space s = []")
    case True
    then have "normalizeIP s = trim_space s" "normalizeIP (trim_space s) = trim_space s"
      using trim_space_idem [of s] by (simp_all add: normalizeIP_def)
    then show ?thesis by (rule other)
  next
    case ne: False
    show ?thesis
    proof (cases "index_byte (CHR ''/'') (trim_space s)")
      case None
      have ok: "addr_ok a" if "parse_addr (trim_space s) = Some a" for a
        using parse_addr_ok [OF that parse_addr_zone [OF that z]] .
      from None show ?thesis using ne addr [OF ok] other
        by (cases "parse_addr (trim_space s)") (auto simp: normalizeIP_def)
    next
      case (Some i)
      then show ?thesis using ne prefix other parse_prefix_ok
        by (cases "parse_prefix (trim_space s)") (auto simp: normalizeIP_def)
    qed
  qed
qed

lemma normalizeIP_idem:
  assumes "CHR ''%'' \<notin> set s"
  shows "normalizeIP (normalizeIP s) = normalizeIP s"
  using assms
proof (cases rule: normalizeIP_cases)
  case (addr a)
  then show ?thesis by (simp add: normalizeIP_addr)
next
  case (prefix p)
  then show ?thesis by (simp add: normalizeIP_prefix masked_ok)
next
  case other
  then show ?thesis by simp
qed

section \<open>Scopes and keys\<close>

definition ScopeIPJA4 :: string where "ScopeIPJA4 = ''ip_ja4''"
definition ScopeJA4Only :: string where "ScopeJA4Only = ''ja4_only''"
definition ScopeIPOnly :: string where "ScopeIPOnly = ''ip_only''"

lemmas scope_defs = ScopeIPJA4_def ScopeJA4Only_def ScopeIPOnly_def

definition ValidateScope :: "string \<Rightarrow> string" where
  "ValidateScope s = (if s = ScopeIPJA4 \<or> s = ScopeJA4Only \<or> s = ScopeIPOnly then s else ScopeIPJA4)"

definition DeriveScope :: "string \<Rightarrow> string \<Rightarrow> string" where
  "DeriveScope ip ja4 =
     (if ip = [] \<and> ja4 \<noteq> [] then ScopeJA4Only else if ja4 = [] \<and> ip \<noteq> [] then ScopeIPOnly else ScopeIPJA4)"

definition effectiveScope :: "string \<Rightarrow> string \<Rightarrow> string \<Rightarrow> string" where
  "effectiveScope ip ja4 scope =
     (if scope = ScopeJA4Only \<and> ja4 \<noteq> [] then ScopeJA4Only
      else if scope = ScopeIPOnly \<and> ip \<noteq> [] then ScopeIPOnly
      else DeriveScope ip ja4)"

definition banKey :: "string \<Rightarrow> string \<Rightarrow> string \<Rightarrow> string" where
  "banKey ip ja4 scope =
     (let s = effectiveScope ip ja4 scope in
      if s = ScopeJA4Only then ''|'' @ ja4
      else if s = ScopeIPOnly then ip @ ''|''
      else ip @ ''|'' @ ja4)"

section \<open>Entries and indexes\<close>

record mirrorEntry =
  e_id :: int
  e_ip :: string
  e_ja4 :: string
  e_scope :: string
  e_source :: string
  e_action :: string
  e_bannedBy :: string
  e_bannedAt :: int
  e_expiresAt :: int

definition live :: "mirrorEntry \<Rightarrow> int \<Rightarrow> bool" where
  "live e now \<longleftrightarrow> e_expiresAt e = 0 \<or> e_expiresAt e > now"

record mirrorPrefix =
  mp_prefix :: ip_prefix
  mp_e :: mirrorEntry

record mirror =
  mr_tuple :: "(string, mirrorEntry list) amap"
  mr_ja4 :: "(string, mirrorEntry list) amap"
  mr_ip :: "(string, mirrorEntry list) amap"
  mr_prefix :: "mirrorPrefix list"
  mr_byIP :: "(string, mirrorEntry list) amap"
  mr_n :: int

definition newMirror :: mirror where
  "newMirror = \<lparr>mr_tuple = [], mr_ja4 = [], mr_ip = [], mr_prefix = [], mr_byIP = [], mr_n = 0\<rparr>"

text \<open>The nil slice a Go map of slices gives for an absent key.\<close>

definition list_at :: "('k, 'a list) amap \<Rightarrow> 'k \<Rightarrow> 'a list" where
  "list_at m k = (case map_of m k of None \<Rightarrow> [] | Some l \<Rightarrow> l)"

definition append_at :: "'k \<Rightarrow> 'a \<Rightarrow> ('k, 'a list) amap \<Rightarrow> ('k, 'a list) amap" where
  "append_at k x m = aput k (list_at m k @ [x]) m"

definition tuple_key :: "string \<Rightarrow> string \<Rightarrow> string" where
  "tuple_key ip ja4 = ip @ ''|'' @ ja4"

definition by_bits_desc :: "mirrorPrefix list \<Rightarrow> mirrorPrefix list" where
  "by_bits_desc mps = sort_key (\<lambda>mp. - int (p_bits (mp_prefix mp))) mps"

definition index_byIP :: "mirrorEntry \<Rightarrow> mirror \<Rightarrow> mirror" where
  "index_byIP e mr = (if e_ip e \<noteq> [] then mr\<lparr>mr_byIP := append_at (e_ip e) e (mr_byIP mr)\<rparr> else mr)"

definition mirror_add :: "mirror \<Rightarrow> mirrorEntry \<Rightarrow> mirror" where
  "mirror_add mr e =
     (if e_scope e = ScopeJA4Only
      then index_byIP e (mr\<lparr>mr_ja4 := append_at (e_ja4 e) e (mr_ja4 mr), mr_n := mr_n mr + 1\<rparr>)
      else if e_scope e = ScopeIPOnly
      then (case parsePrefixKey (e_ip e) of
              Some p \<Rightarrow> mr\<lparr>mr_prefix := by_bits_desc (mr_prefix mr @ [\<lparr>mp_prefix = p, mp_e = e\<rparr>]), mr_n := mr_n mr + 1\<rparr>
            | None \<Rightarrow> index_byIP e (mr\<lparr>mr_ip := append_at (e_ip e) e (mr_ip mr), mr_n := mr_n mr + 1\<rparr>))
      else index_byIP e (mr\<lparr>mr_tuple := append_at (tuple_key (e_ip e) (e_ja4 e)) e (mr_tuple mr), mr_n := mr_n mr + 1\<rparr>))"

definition same_key :: "string \<Rightarrow> string \<Rightarrow> string \<Rightarrow> mirrorEntry \<Rightarrow> bool" where
  "same_key ip ja4 scope e \<longleftrightarrow> e_ip e = ip \<and> e_ja4 e = ja4 \<and> e_scope e = scope"

definition drop_at :: "(mirrorEntry \<Rightarrow> bool) \<Rightarrow> string \<Rightarrow> (string, mirrorEntry list) amap \<Rightarrow> (string, mirrorEntry list) amap" where
  "drop_at same k m =
     (let kept = filter (\<lambda>e. \<not> same e) (list_at m k) in if kept = [] then adel k m else aput k kept m)"

definition dropped :: "(mirrorEntry \<Rightarrow> bool) \<Rightarrow> mirrorEntry list \<Rightarrow> int" where
  "dropped same l = int (length (filter same l))"

definition drop_byIP :: "(mirrorEntry \<Rightarrow> bool) \<Rightarrow> string \<Rightarrow> mirror \<Rightarrow> mirror" where
  "drop_byIP same ip mr = (if ip \<noteq> [] then mr\<lparr>mr_byIP := drop_at same ip (mr_byIP mr)\<rparr> else mr)"

definition mirror_remove :: "mirror \<Rightarrow> string \<Rightarrow> string \<Rightarrow> string \<Rightarrow> mirror" where
  "mirror_remove mr ip ja4 scope =
     (let same = same_key ip ja4 scope in
      if scope = ScopeJA4Only
      then drop_byIP same ip (mr\<lparr>mr_ja4 := drop_at same ja4 (mr_ja4 mr), mr_n := mr_n mr - dropped same (list_at (mr_ja4 mr) ja4)\<rparr>)
      else if scope = ScopeIPOnly
      then (if parsePrefixKey ip \<noteq> None
            then mr\<lparr>mr_prefix := filter (\<lambda>mp. \<not> same (mp_e mp)) (mr_prefix mr),
                    mr_n := mr_n mr - dropped same (map mp_e (mr_prefix mr))\<rparr>
            else drop_byIP same ip (mr\<lparr>mr_ip := drop_at same ip (mr_ip mr), mr_n := mr_n mr - dropped same (list_at (mr_ip mr) ip)\<rparr>))
      else drop_byIP same ip
             (mr\<lparr>mr_tuple := drop_at same (tuple_key ip ja4) (mr_tuple mr),
                 mr_n := mr_n mr - dropped same (list_at (mr_tuple mr) (tuple_key ip ja4))\<rparr>))"

definition mirror_put :: "mirror \<Rightarrow> mirrorEntry \<Rightarrow> mirror" where
  "mirror_put mr e = mirror_add (mirror_remove mr (e_ip e) (e_ja4 e) (e_scope e)) e"

section \<open>The lookup\<close>

text \<open>\<open>skip\<close> is the caller's exclusion; a nil one excludes nothing.\<close>

definition in_force :: "int \<Rightarrow> (mirrorEntry \<Rightarrow> bool) \<Rightarrow> mirrorEntry \<Rightarrow> bool" where
  "in_force now skip e \<longleftrightarrow> live e now \<and> \<not> skip e"

definition first :: "mirrorEntry list \<Rightarrow> int \<Rightarrow> (mirrorEntry \<Rightarrow> bool) \<Rightarrow> mirrorEntry option" where
  "first l now skip = find (in_force now skip) l"

definition match_prefix :: "mirrorPrefix list \<Rightarrow> string \<Rightarrow> int \<Rightarrow> (mirrorEntry \<Rightarrow> bool) \<Rightarrow> mirrorEntry option" where
  "match_prefix mps ip now skip =
     (if mps = [] then None
      else case parse_addr ip of None \<Rightarrow> None
      | Some a \<Rightarrow> map_option mp_e (find (\<lambda>mp. in_force now skip (mp_e mp)
            \<and> prefix_contains (mp_prefix mp) (if is4in6 a \<and> is4 (p_addr (mp_prefix mp)) then unmap a else a)) mps))"

definition or_else :: "'a option \<Rightarrow> 'a option \<Rightarrow> 'a option" where
  "or_else x y = (case x of None \<Rightarrow> y | Some _ \<Rightarrow> x)"

definition mirror_match :: "mirror \<Rightarrow> string \<Rightarrow> string \<Rightarrow> int \<Rightarrow> (mirrorEntry \<Rightarrow> bool) \<Rightarrow> mirrorEntry option" where
  "mirror_match mr ip ja4 now skip =
     (if ja4 \<noteq> []
      then or_else (first (list_at (mr_tuple mr) (tuple_key ip ja4)) now skip)
             (or_else (first (list_at (mr_ja4 mr) ja4) now skip)
                (or_else (first (list_at (mr_ip mr) ip) now skip)
                   (match_prefix (mr_prefix mr) ip now skip)))
      else or_else (first (list_at (mr_byIP mr) ip) now skip) (match_prefix (mr_prefix mr) ip now skip))"

section \<open>The reference: a list of bans\<close>

definition prefix_ban :: "mirrorEntry \<Rightarrow> bool" where
  "prefix_ban e \<longleftrightarrow> e_scope e = ScopeIPOnly \<and> parsePrefixKey (e_ip e) \<noteq> None"

definition tuple_ban :: "mirrorEntry \<Rightarrow> bool" where
  "tuple_ban e \<longleftrightarrow> e_scope e \<noteq> ScopeJA4Only \<and> e_scope e \<noteq> ScopeIPOnly"

definition address_ban :: "mirrorEntry \<Rightarrow> bool" where
  "address_ban e \<longleftrightarrow> e_scope e = ScopeIPOnly \<and> parsePrefixKey (e_ip e) = None"

definition prefix_of :: "mirrorEntry \<Rightarrow> mirrorPrefix" where
  "prefix_of e = \<lparr>mp_prefix = the (parsePrefixKey (e_ip e)), mp_e = e\<rparr>"

definition upsert_ban :: "mirrorEntry list \<Rightarrow> mirrorEntry \<Rightarrow> mirrorEntry list" where
  "upsert_ban xs e = filter (\<lambda>x. \<not> same_key (e_ip e) (e_ja4 e) (e_scope e) x) xs @ [e]"

text \<open>What a ban holds on: the request's address and fingerprint against its scope.\<close>

definition covers :: "mirrorEntry \<Rightarrow> string \<Rightarrow> string \<Rightarrow> bool" where
  "covers e ip ja4 \<longleftrightarrow>
     (if prefix_ban e then addrInPrefix (the (parsePrefixKey (e_ip e))) ip
      else if ja4 = [] then e_ip e \<noteq> [] \<and> e_ip e = ip
      else if e_scope e = ScopeJA4Only then e_ja4 e = ja4
      else if e_scope e = ScopeIPOnly then e_ip e = ip
      else tuple_key (e_ip e) (e_ja4 e) = tuple_key ip ja4)"

definition ref_match :: "mirrorEntry list \<Rightarrow> string \<Rightarrow> string \<Rightarrow> int \<Rightarrow> (mirrorEntry \<Rightarrow> bool) \<Rightarrow> mirrorEntry option" where
  "ref_match xs ip ja4 now skip =
     (let hit = (\<lambda>kind. find (\<lambda>e. in_force now skip e \<and> kind e \<and> covers e ip ja4) xs);
          wide = find (\<lambda>e. in_force now skip e \<and> covers e ip ja4)
                   (sort_key (\<lambda>e. - int (p_bits (the (parsePrefixKey (e_ip e))))) (filter prefix_ban xs))
      in if ja4 \<noteq> []
         then or_else (hit tuple_ban) (or_else (hit (\<lambda>e. e_scope e = ScopeJA4Only)) (or_else (hit address_ban) wide))
         else or_else (hit (\<lambda>e. \<not> prefix_ban e)) wide)"

section \<open>The indexes follow the list\<close>

text \<open>
  An index of the bans of a kind by a key: under each key it holds the bans of that kind
  and key, in arrival order.
\<close>

definition index_repr :: "(string, mirrorEntry list) amap \<Rightarrow> (mirrorEntry \<Rightarrow> bool) \<Rightarrow> (mirrorEntry \<Rightarrow> string) \<Rightarrow> mirrorEntry list \<Rightarrow> bool" where
  "index_repr m kind key xs \<longleftrightarrow> (\<forall>k. list_at m k = filter (\<lambda>e. kind e \<and> key e = k) xs)"

definition named_ban :: "mirrorEntry \<Rightarrow> bool" where
  "named_ban e \<longleftrightarrow> \<not> prefix_ban e \<and> e_ip e \<noteq> []"

definition entry_key :: "mirrorEntry \<Rightarrow> string" where
  "entry_key e = tuple_key (e_ip e) (e_ja4 e)"

definition mirror_repr :: "mirror \<Rightarrow> mirrorEntry list \<Rightarrow> bool" where
  "mirror_repr mr xs \<longleftrightarrow>
     index_repr (mr_tuple mr) tuple_ban entry_key xs \<and>
     index_repr (mr_ja4 mr) (\<lambda>e. e_scope e = ScopeJA4Only) e_ja4 xs \<and>
     index_repr (mr_ip mr) address_ban e_ip xs \<and>
     index_repr (mr_byIP mr) named_ban e_ip xs \<and>
     mr_prefix mr = by_bits_desc (map prefix_of (filter prefix_ban xs)) \<and>
     mr_n mr = int (length xs)"

lemmas ban_kinds = tuple_ban_def address_ban_def prefix_ban_def named_ban_def

lemma scopes_distinct [simp]:
  "ScopeIPOnly \<noteq> ScopeJA4Only" "ScopeJA4Only \<noteq> ScopeIPOnly" "ScopeIPJA4 \<noteq> ScopeJA4Only"
  "ScopeJA4Only \<noteq> ScopeIPJA4" "ScopeIPJA4 \<noteq> ScopeIPOnly" "ScopeIPOnly \<noteq> ScopeIPJA4"
  by (simp_all add: scope_defs)

lemma list_at_append [amap]:
  "list_at (append_at k x m) k' = (if k' = k then list_at m k @ [x] else list_at m k')"
  by (simp add: append_at_def list_at_def)

lemma list_at_drop [amap]:
  "list_at (drop_at same k m) k' = (if k' = k then filter (\<lambda>e. \<not> same e) (list_at m k) else list_at m k')"
  by (auto simp: drop_at_def Let_def list_at_def)

lemma index_empty: "index_repr [] kind key []"
  by (simp add: index_repr_def list_at_def)

lemma index_at: "index_repr m kind key xs \<Longrightarrow> list_at m k = filter (\<lambda>e. kind e \<and> key e = k) xs"
  by (simp add: index_repr_def)

lemma index_append: "index_repr m kind key xs \<Longrightarrow> kind e \<Longrightarrow> key e = k \<Longrightarrow> index_repr (append_at k e m) kind key (xs @ [e])"
  by (auto simp: index_repr_def amap)

lemma index_other: "index_repr m kind key xs \<Longrightarrow> \<not> kind e \<Longrightarrow> index_repr m kind key (xs @ [e])"
  by (simp add: index_repr_def)

lemma index_drop:
  assumes "index_repr m kind key xs" and "\<And>e. same e \<Longrightarrow> key e = k0"
  shows "index_repr (drop_at same k0 m) kind key (filter (\<lambda>e. \<not> same e) xs)"
  using assms by (auto simp: index_repr_def amap intro!: filter_cong)

lemma index_keep:
  assumes "index_repr m kind key xs" and "\<And>e. same e \<Longrightarrow> \<not> kind e"
  shows "index_repr m kind key (filter (\<lambda>e. \<not> same e) xs)"
  using assms by (auto simp: index_repr_def intro!: filter_cong)

lemma length_filter_not:
  assumes "\<And>x. same x \<Longrightarrow> P x"
  shows "int (length (filter (\<lambda>x. \<not> same x) xs)) = int (length xs) - dropped same (filter P xs)"
proof -
  have "filter same (filter P xs) = filter same xs" using assms by (auto intro: filter_cong)
  then show ?thesis using length_filter_split [of same xs] by (simp add: dropped_def del: filter_filter)
qed

lemma sort_key_snoc:
  fixes f :: "'a \<Rightarrow> 'b :: linorder"
  shows "sort_key f (sort_key f xs @ [y]) = sort_key f (xs @ [y])"
proof (rule properties_for_sort_key)
  show "mset (sort_key f (xs @ [y])) = mset (sort_key f xs @ [y])" by simp
  show "filter (\<lambda>x. f k = f x) (sort_key f (xs @ [y])) = filter (\<lambda>x. f k = f x) (sort_key f xs @ [y])" for k
    by (simp add: sort_key_stable eq_commute [of "f k"])
qed simp

lemma filter_by_bits:
  "filter P (by_bits_desc (map prefix_of xs)) = by_bits_desc (map prefix_of (filter (\<lambda>e. P (prefix_of e)) xs))"
  by (simp add: by_bits_desc_def filter_sort filter_map o_def)

lemma prefix_of_e [simp]: "mp_e (prefix_of e) = e"
  by (simp add: prefix_of_def)

lemma newMirror_repr [intro, simp]: "mirror_repr newMirror []"
  by (simp add: mirror_repr_def newMirror_def by_bits_desc_def index_empty)

lemma mirror_add_repr [intro]:
  assumes "mirror_repr mr xs"
  shows "mirror_repr (mirror_add mr e) (xs @ [e])"
proof (cases "prefix_ban e")
  case True
  then obtain p where p: "parsePrefixKey (e_ip e) = Some p" and s: "e_scope e = ScopeIPOnly"
    by (auto simp: prefix_ban_def)
  have "by_bits_desc (by_bits_desc (map prefix_of (filter prefix_ban xs)) @ [prefix_of e])
      = by_bits_desc (map prefix_of (filter prefix_ban xs) @ [prefix_of e])"
    unfolding by_bits_desc_def by (rule sort_key_snoc)
  then show ?thesis
    using assms True p s by (simp add: mirror_add_def mirror_repr_def index_repr_def ban_kinds prefix_of_def)
next
  case False
  then show ?thesis
    using assms
    by (auto simp: mirror_add_def mirror_repr_def ban_kinds index_byIP_def entry_key_def index_other
        intro!: index_append split: option.splits)
qed

lemma drop_byIP_fields [simp]:
  "mr_tuple (drop_byIP s i m) = mr_tuple m" "mr_ja4 (drop_byIP s i m) = mr_ja4 m" "mr_ip (drop_byIP s i m) = mr_ip m"
  "mr_prefix (drop_byIP s i m) = mr_prefix m" "mr_n (drop_byIP s i m) = mr_n m"
  by (simp_all add: drop_byIP_def)

lemma drop_byIP_repr:
  assumes "index_repr (mr_byIP m) named_ban e_ip xs" and "\<And>e. same e \<Longrightarrow> e_ip e = ip"
  shows "index_repr (mr_byIP (drop_byIP same ip m)) named_ban e_ip (filter (\<lambda>e. \<not> same e) xs)"
proof (cases "ip = []")
  case True
  with assms show ?thesis unfolding drop_byIP_def by (auto simp: named_ban_def intro!: index_keep)
next
  case False
  with assms show ?thesis by (simp add: drop_byIP_def index_drop)
qed

text \<open>The counter after a removal from the index of a kind.\<close>

lemma dropped_index:
  assumes "index_repr m kind key xs" and "\<And>e. same e \<Longrightarrow> kind e \<and> key e = k"
  shows "int (length xs) - dropped same (list_at m k) = int (length (filter (\<lambda>e. \<not> same e) xs))"
  unfolding index_at [OF assms(1)] by (rule length_filter_not [symmetric]) (use assms(2) in simp)

lemma prefix_keep:
  assumes "\<And>e. same e \<Longrightarrow> \<not> prefix_ban e"
  shows "filter prefix_ban (filter (\<lambda>e. \<not> same e) xs) = filter prefix_ban xs"
  using assms by (auto intro: filter_cong)

lemma prefix_drop:
  assumes "mps = by_bits_desc (map prefix_of (filter prefix_ban xs))" and "\<And>e. same e \<Longrightarrow> prefix_ban e"
  shows "filter (\<lambda>mp. \<not> same (mp_e mp)) mps = by_bits_desc (map prefix_of (filter prefix_ban (filter (\<lambda>e. \<not> same e) xs)))"
    and "int (length xs) - dropped same (map mp_e mps) = int (length (filter (\<lambda>e. \<not> same e) xs))"
proof -
  show "filter (\<lambda>mp. \<not> same (mp_e mp)) mps = by_bits_desc (map prefix_of (filter prefix_ban (filter (\<lambda>e. \<not> same e) xs)))"
    unfolding assms(1) filter_by_bits prefix_of_e filter_filter by (simp add: conj_commute)
  have "dropped same (map mp_e mps) = dropped same (filter prefix_ban xs)"
    unfolding dropped_def assms(1) filter_map o_def length_map filter_by_bits by (simp add: by_bits_desc_def)
  then show "int (length xs) - dropped same (map mp_e mps) = int (length (filter (\<lambda>e. \<not> same e) xs))"
    using length_filter_not [of same prefix_ban xs] assms(2) by simp
qed

lemma mirror_remove_repr [intro]:
  assumes "mirror_repr mr xs"
  shows "mirror_repr (mirror_remove mr ip ja4 scope) (filter (\<lambda>x. \<not> same_key ip ja4 scope x) xs)"
proof -
  let ?same = "same_key ip ja4 scope"
  have ix: "index_repr (mr_tuple mr) tuple_ban entry_key xs" "index_repr (mr_ja4 mr) (\<lambda>e. e_scope e = ScopeJA4Only) e_ja4 xs"
    "index_repr (mr_ip mr) address_ban e_ip xs" "index_repr (mr_byIP mr) named_ban e_ip xs"
    and px: "mr_prefix mr = by_bits_desc (map prefix_of (filter prefix_ban xs))" and n: "mr_n mr = int (length xs)"
    using assms by (simp_all add: mirror_repr_def)
  have same: "e_ip e = ip \<and> e_ja4 e = ja4 \<and> e_scope e = scope \<and> entry_key e = tuple_key ip ja4" if "?same e" for e
    using that by (simp add: same_key_def entry_key_def)
  have byip: "index_repr (mr_byIP (drop_byIP ?same ip m)) named_ban e_ip (filter (\<lambda>e. \<not> ?same e) xs)"
    if "mr_byIP m = mr_byIP mr" for m
    using that ix(4) same by (intro drop_byIP_repr) auto
  consider (j) "scope = ScopeJA4Only" | (p) "scope = ScopeIPOnly" "parsePrefixKey ip \<noteq> None"
    | (a) "scope = ScopeIPOnly" "parsePrefixKey ip = None" | (t) "scope \<noteq> ScopeJA4Only" "scope \<noteq> ScopeIPOnly" by blast
  then show ?thesis
  proof cases
    case j
    with same have k: "?same e \<Longrightarrow> \<not> tuple_ban e \<and> \<not> address_ban e \<and> \<not> prefix_ban e \<and> e_scope e = ScopeJA4Only \<and> e_ja4 e = ja4" for e
      by (auto simp: ban_kinds)
    show ?thesis using j k ix byip
      by (simp add: mirror_remove_def mirror_repr_def Let_def px n index_keep index_drop prefix_keep
          dropped_index [OF ix(2)] del: filter_filter)
  next
    case p
    with same have k: "?same e \<Longrightarrow> \<not> tuple_ban e \<and> \<not> address_ban e \<and> prefix_ban e \<and> e_scope e \<noteq> ScopeJA4Only \<and> \<not> named_ban e" for e
      by (auto simp: ban_kinds)
    show ?thesis using p k ix
      by (simp add: mirror_remove_def mirror_repr_def Let_def n index_keep prefix_drop [OF px] del: filter_filter)
  next
    case a
    with same have k: "?same e \<Longrightarrow> \<not> tuple_ban e \<and> address_ban e \<and> \<not> prefix_ban e \<and> e_scope e \<noteq> ScopeJA4Only \<and> e_ip e = ip" for e
      by (auto simp: ban_kinds)
    show ?thesis using a k ix byip
      by (simp add: mirror_remove_def mirror_repr_def Let_def px n index_keep index_drop prefix_keep
          dropped_index [OF ix(3)] del: filter_filter)
  next
    case t
    with same have k: "?same e \<Longrightarrow> tuple_ban e \<and> \<not> address_ban e \<and> \<not> prefix_ban e \<and> e_scope e \<noteq> ScopeJA4Only \<and> entry_key e = tuple_key ip ja4" for e
      by (auto simp: ban_kinds)
    show ?thesis using t k ix byip
      by (simp add: mirror_remove_def mirror_repr_def Let_def px n index_keep index_drop prefix_keep
          dropped_index [OF ix(1)] del: filter_filter)
  qed
qed

lemma mirror_put_repr [intro]: "mirror_repr mr xs \<Longrightarrow> mirror_repr (mirror_put mr e) (upsert_ban xs e)"
  unfolding mirror_put_def upsert_ban_def by blast

section \<open>The lookup follows the list\<close>

lemma insort_key_map: "insort_key f (g x) (map g xs) = map g (insort_key (\<lambda>y. f (g y)) x xs)"
  by (induction xs) auto

lemma sort_key_map: "sort_key f (map g xs) = map g (sort_key (\<lambda>x. f (g x)) xs)"
  by (induction xs) (auto simp: insort_key_map)

lemma first_index:
  assumes "index_repr m kind key xs" and "\<And>e. kind e \<Longrightarrow> covers e ip ja4 \<longleftrightarrow> key e = k"
  shows "first (list_at m k) now skip = find (\<lambda>e. in_force now skip e \<and> kind e \<and> covers e ip ja4) xs"
  unfolding first_def index_at [OF assms(1)] find_filter using assms(2) by (auto intro: find_cong)

lemma match_prefix_list:
  "match_prefix (by_bits_desc (map prefix_of (filter prefix_ban xs))) ip now skip =
     find (\<lambda>e. in_force now skip e \<and> covers e ip ja4)
       (sort_key (\<lambda>e. - int (p_bits (the (parsePrefixKey (e_ip e))))) (filter prefix_ban xs))"
  (is "match_prefix ?mps _ _ _ = find ?hit ?ps")
proof -
  have mps: "?mps = map prefix_of ?ps"
    by (simp add: by_bits_desc_def sort_key_map prefix_of_def)
  have pb: "e \<in> set ?ps \<Longrightarrow> prefix_ban e" for e by simp
  show ?thesis
  proof (cases "parse_addr ip")
    case None
    then have "?hit e = False" if "e \<in> set ?ps" for e using pb [OF that] by (simp add: covers_def addrInPrefix_def)
    then have "find ?hit ?ps = None" by (auto simp: find_None_iff)
    then show ?thesis using None by (simp add: match_prefix_def)
  next
    case (Some a)
    have "find ?hit ?ps = find (\<lambda>e. in_force now skip e
        \<and> prefix_contains (mp_prefix (prefix_of e)) (if is4in6 a \<and> is4 (p_addr (mp_prefix (prefix_of e))) then unmap a else a)) ?ps"
      using pb Some by (intro find_cong) (auto simp: covers_def addrInPrefix_def prefix_of_def)
    then show ?thesis using Some unfolding match_prefix_def mps
      by (simp add: find_map o_def option.map_comp option.map_ident)
  qed
qed

lemma mirror_match_repr:
  assumes "mirror_repr mr xs"
  shows "mirror_match mr ip ja4 now skip = ref_match xs ip ja4 now skip"
proof -
  have ix: "index_repr (mr_tuple mr) tuple_ban entry_key xs" "index_repr (mr_ja4 mr) (\<lambda>e. e_scope e = ScopeJA4Only) e_ja4 xs"
    "index_repr (mr_ip mr) address_ban e_ip xs" "index_repr (mr_byIP mr) named_ban e_ip xs"
    and px: "mr_prefix mr = by_bits_desc (map prefix_of (filter prefix_ban xs))"
    using assms by (simp_all add: mirror_repr_def)
  show ?thesis
  proof (cases "ja4 = []")
    case True
    have "first (list_at (mr_byIP mr) ip) now skip = find (\<lambda>e. in_force now skip e \<and> named_ban e \<and> covers e ip ja4) xs"
      using True by (intro first_index [OF ix(4)]) (auto simp: covers_def ban_kinds)
    also have "\<dots> = find (\<lambda>e. in_force now skip e \<and> \<not> prefix_ban e \<and> covers e ip ja4) xs"
      using True by (intro find_cong) (auto simp: named_ban_def covers_def)
    finally show ?thesis using True by (simp add: mirror_match_def ref_match_def Let_def px match_prefix_list [where ?ja4.0 = ja4])
  next
    case False
    have "first (list_at (mr_tuple mr) (tuple_key ip ja4)) now skip = find (\<lambda>e. in_force now skip e \<and> tuple_ban e \<and> covers e ip ja4) xs"
      using False by (intro first_index [OF ix(1)]) (auto simp: covers_def ban_kinds entry_key_def)
    moreover have "first (list_at (mr_ja4 mr) ja4) now skip = find (\<lambda>e. in_force now skip e \<and> e_scope e = ScopeJA4Only \<and> covers e ip ja4) xs"
      using False by (intro first_index [OF ix(2)]) (auto simp: covers_def ban_kinds)
    moreover have "first (list_at (mr_ip mr) ip) now skip = find (\<lambda>e. in_force now skip e \<and> address_ban e \<and> covers e ip ja4) xs"
      using False by (intro first_index [OF ix(3)]) (auto simp: covers_def ban_kinds)
    ultimately show ?thesis using False
      by (simp add: mirror_match_def ref_match_def Let_def px match_prefix_list [where ?ja4.0 = ja4])
  qed
qed

lemma or_else_None [simp]: "or_else x y = None \<longleftrightarrow> x = None \<and> y = None"
  by (simp add: or_else_def split: option.splits)

lemma or_else_Some: "or_else x y = Some e \<longleftrightarrow> x = Some e \<or> x = None \<and> y = Some e"
  by (auto simp: or_else_def split: option.splits)

lemma ref_match_None: "ref_match xs ip ja4 now skip = None \<longleftrightarrow> (\<forall>e \<in> set xs. in_force now skip e \<longrightarrow> \<not> covers e ip ja4)"
  by (auto simp: ref_match_def Let_def find_None_iff ban_kinds) (metis not_None_eq)+

lemma ref_match_Some:
  "ref_match xs ip ja4 now skip = Some e \<Longrightarrow> e \<in> set xs \<and> in_force now skip e \<and> covers e ip ja4"
  by (auto simp: ref_match_def Let_def or_else_Some dest!: find_Some_iff2 split: if_splits)

section \<open>The contract of a ban index\<close>

text \<open>
  What the checks rely on: an index that represents a list of bans, whose \<open>put\<close> is the
  table's upsert and whose lookup is the search of the list.
\<close>

locale ban_index =
  fixes repr :: "'m \<Rightarrow> mirrorEntry list \<Rightarrow> bool"
    and empty :: 'm
    and put :: "'m \<Rightarrow> mirrorEntry \<Rightarrow> 'm"
    and lookup :: "'m \<Rightarrow> string \<Rightarrow> string \<Rightarrow> int \<Rightarrow> (mirrorEntry \<Rightarrow> bool) \<Rightarrow> mirrorEntry option"
    and size_of :: "'m \<Rightarrow> int"
  assumes repr_empty: "repr empty []"
    and repr_put: "repr m xs \<Longrightarrow> repr (put m e) (upsert_ban xs e)"
    and repr_lookup: "repr m xs \<Longrightarrow> lookup m ip ja4 now skip = ref_match xs ip ja4 now skip"
    and repr_size: "repr m xs \<Longrightarrow> size_of m = int (length xs)"
begin

lemma repr_puts: "repr m xs \<Longrightarrow> repr (foldl put m es) (foldl upsert_ban xs es)"
  by (induction es arbitrary: m xs) (auto intro: repr_put)

lemma lookup_puts: "lookup (foldl put empty es) ip ja4 now skip = ref_match (foldl upsert_ban [] es) ip ja4 now skip"
  by (rule repr_lookup [OF repr_puts [OF repr_empty]])

lemma size_puts: "size_of (foldl put empty es) = int (length (foldl upsert_ban [] es))"
  by (rule repr_size [OF repr_puts [OF repr_empty]])

lemma put_enforced:
  assumes "repr m xs" "in_force now skip e" "covers e ip ja4"
  shows "lookup (put m e) ip ja4 now skip \<noteq> None"
  unfolding repr_lookup [OF repr_put [OF assms(1)]] ref_match_None
  using assms(2,3) by (auto simp: upsert_ban_def)

lemma lookup_None: "repr m xs \<Longrightarrow> lookup m ip ja4 now skip = None \<longleftrightarrow> (\<forall>e \<in> set xs. in_force now skip e \<longrightarrow> \<not> covers e ip ja4)"
  by (simp add: repr_lookup ref_match_None)

end

interpretation mirror_index: ban_index mirror_repr newMirror mirror_put mirror_match mr_n
  by unfold_locales (auto simp: mirror_match_repr, auto simp: mirror_repr_def)

section \<open>What the mirror holds after a run of bans\<close>

text \<open>A ban of the run is standing when no later one was placed on its key.\<close>

definition same_ban :: "mirrorEntry \<Rightarrow> mirrorEntry \<Rightarrow> bool" where
  "same_ban e x \<longleftrightarrow> same_key (e_ip e) (e_ja4 e) (e_scope e) x"

definition standing :: "mirrorEntry list \<Rightarrow> mirrorEntry \<Rightarrow> bool" where
  "standing es e \<longleftrightarrow> (\<exists>before after. es = before @ e # after \<and> (\<forall>x \<in> set after. \<not> same_ban x e))"

lemma set_upserts: "e \<in> set (foldl upsert_ban [] es) \<longleftrightarrow> standing es e"
proof (induction es rule: rev_induct)
  case Nil
  then show ?case by (simp add: standing_def)
next
  case (snoc x es)
  have "standing (es @ [x]) e \<longleftrightarrow> e = x \<or> standing es e \<and> \<not> same_ban x e"
  proof
    assume "standing (es @ [x]) e"
    then obtain b a where s: "es @ [x] = b @ e # a" "\<forall>y \<in> set a. \<not> same_ban y e" by (auto simp: standing_def)
    then show "e = x \<or> standing es e \<and> \<not> same_ban x e"
      by (cases a rule: rev_cases) (auto simp: standing_def)
  next
    assume "e = x \<or> standing es e \<and> \<not> same_ban x e"
    then show "standing (es @ [x]) e"
    proof
      assume "e = x"
      then show ?thesis unfolding standing_def by (intro exI [of _ es] exI [of _ "[]"]) simp
    next
      assume s: "standing es e \<and> \<not> same_ban x e"
      then obtain b a where "es = b @ e # a" "\<forall>y \<in> set a. \<not> same_ban y e" by (auto simp: standing_def)
      with s show ?thesis unfolding standing_def by (intro exI [of _ b] exI [of _ "a @ [x]"]) auto
    qed
  qed
  then show ?case using snoc by (auto simp: upsert_ban_def same_ban_def)
qed

lemma append_sep_eq:
  assumes "c \<notin> set a" "c \<notin> set b"
  shows "a @ c # b = x @ c # y \<longleftrightarrow> a = x \<and> b = y"
  using assms by (auto simp: append_eq_append_conv2 Cons_eq_append_conv append_eq_Cons_conv)

lemma tuple_key_exact:
  assumes "CHR ''|'' \<notin> set (e_ip e)" "CHR ''|'' \<notin> set (e_ja4 e)"
  shows "tuple_key (e_ip e) (e_ja4 e) = tuple_key ip ja4 \<longleftrightarrow> e_ip e = ip \<and> e_ja4 e = ja4"
  using append_sep_eq [OF assms] by (simp add: tuple_key_def)

section \<open>Properties\<close>

text \<open>
  C15: the five indexes of the mirror answer like one list. After any run of bans placed on
  an empty mirror, a lookup finds the ban that a search of the upserted list finds (the
  tuple, then the fingerprint, the address, the longest prefix), and the counter is the
  number of bans in that list.\<close>

theorem mirror_refines_list:
  "mirror_match (foldl mirror_put newMirror es) ip ja4 now skip = ref_match (foldl upsert_ban [] es) ip ja4 now skip
   \<and> mr_n (foldl mirror_put newMirror es) = int (length (foldl upsert_ban [] es))"
  using mirror_index.lookup_puts mirror_index.size_puts by simp

text \<open>
  a request is banned by the mirror exactly when some ban of the run that no later one
  replaced on its key is unexpired, not ruled out by the caller and covers the request; and
  what the lookup returns is such a ban.\<close>

lemma banned_iff_standing_ban:
  "(mirror_match (foldl mirror_put newMirror es) ip ja4 now skip \<noteq> None
      \<longleftrightarrow> (\<exists>e. standing es e \<and> live e now \<and> \<not> skip e \<and> covers e ip ja4))
   \<and> (\<forall>e. mirror_match (foldl mirror_put newMirror es) ip ja4 now skip = Some e
        \<longrightarrow> standing es e \<and> live e now \<and> \<not> skip e \<and> covers e ip ja4)"
proof (intro conjI allI impI)
  show "mirror_match (foldl mirror_put newMirror es) ip ja4 now skip \<noteq> None
      \<longleftrightarrow> (\<exists>e. standing es e \<and> live e now \<and> \<not> skip e \<and> covers e ip ja4)"
    by (auto simp: mirror_index.lookup_puts ref_match_None set_upserts in_force_def)
next
  fix e
  assume "mirror_match (foldl mirror_put newMirror es) ip ja4 now skip = Some e"
  then have "standing es e \<and> in_force now skip e \<and> covers e ip ja4"
    using ref_match_Some by (fastforce simp: mirror_index.lookup_puts set_upserts)
  then show "standing es e" "live e now" "\<not> skip e" "covers e ip ja4" by (simp_all add: in_force_def)
qed

text \<open>Bans used to evaluate the definitions: a tuple, an address, a prefix.\<close>

definition exTuple :: mirrorEntry where
  "exTuple = \<lparr>e_id = 0, e_ip = ''203.0.113.9'', e_ja4 = ''t13d'', e_scope = ScopeIPJA4, e_source = ''honeypot'',
     e_action = ''captcha_only'', e_bannedBy = [], e_bannedAt = 100, e_expiresAt = 200\<rparr>"

definition exPrefix :: mirrorEntry where
  "exPrefix = exTuple\<lparr>e_ip := ''203.0.113.0/24'', e_ja4 := [], e_scope := ScopeIPOnly, e_action := ''deny''\<rparr>"

text \<open>
  an address has one spelling in the ban list. Two texts of addresses (no zone) are
  normalised to the same text exactly when they are the same address, and the normal form
  is its own normal form, so a ban typed in any spelling meets the request's.\<close>

lemma normalizeIP_one_spelling:
  assumes "parse_addr (trim_space s) = Some a" "parse_addr (trim_space t) = Some b"
    and "set s \<inter> {CHR ''/'', CHR ''%''} = {}" "set t \<inter> {CHR ''/'', CHR ''%''} = {}"
  shows "(normalizeIP s = normalizeIP t \<longleftrightarrow> a = b) \<and> normalizeIP (normalizeIP s) = normalizeIP s"
proof -
  have n: "normalizeIP u = addr_string x \<and> addr_ok x"
    if "parse_addr (trim_space u) = Some x" "set u \<inter> {CHR ''/'', CHR ''%''} = {}" for u x
  proof -
    have ch: "CHR ''/'' \<notin> set (trim_space u)" "CHR ''%'' \<notin> set (trim_space u)" using that(2) set_trim_space [of u] by auto
    have "trim_space u \<noteq> []" using that(1) by (auto simp: parse_addr_def)
    with that(1) ch show ?thesis
      using parse_addr_ok [OF that(1) parse_addr_zone [OF that(1)]]
      by (simp add: normalizeIP_def Let_def index_byte_None [THEN iffD2])
  qed
  have "addr_string a = addr_string b \<longleftrightarrow> a = b"
    using n [OF assms(1,3)] n [OF assms(2,4)] parse_addr_string by (metis option.inject)
  then show ?thesis using n [OF assms(1,3)] n [OF assms(2,4)] by (simp add: normalizeIP_addr)
qed

end
