(* ===== verification/Ban_Manager.thy ===== *)
theory Ban_Manager
  imports Ban_Mirror Prelude "HOL-Library.List_Lexorder" "HOL-Library.Char_ord"
begin

text \<open>
  The ban manager of \<open>ban/ban.go\<close> and the manager half of \<open>ban/mirror.go\<close>: the table, the
  bans kept while a schema update holds the database's writes, the rows lifted meanwhile, the
  mirror the checks read, the file written for nginx and the escalations. Every operation is
  a function from the manager to the manager; what it asks of the clock, the database and
  the file system comes in a \<open>BanEnv\<close>: the time of the call, whether writes are held, and
  which writes, reads and file writes succeed. Announcements (\<open>OnCreated\<close>) are recorded in
  order; logging is left out.
\<close>

section \<open>State\<close>

definition SourceManual :: string where "SourceManual = ''manual''"
definition SourceHoneypot :: string where "SourceHoneypot = ''honeypot''"

text \<open>A row of \<open>unmask_ban\<close>.\<close>

record Ban =
  b_ID :: int
  b_IP :: string
  b_JA4 :: string
  b_Source :: string
  b_Reason :: string
  b_BannedAt :: int
  b_ExpiresAt :: int
  b_BannedBy :: string
  b_Action :: string
  b_Scope :: string

record heldBan =
  h_ip :: string
  h_ja4 :: string
  h_source :: string
  h_reason :: string
  h_bannedBy :: string
  h_action :: string
  h_scope :: string
  h_bannedAt :: int
  h_expiresAt :: int
  h_announced :: bool

record Announcement =
  n_ip :: string
  n_ja4 :: string
  n_source :: string
  n_reason :: string
  n_bannedBy :: string

record banLine =
  l_key :: string
  l_source :: string
  l_action :: string

record Manager =
  g_rows :: "Ban list"
  g_nextID :: int
  g_hasFile :: bool
  g_file :: "banLine list"
  g_flushed :: bool
  g_duration :: int
  g_whitelistFn :: "(string \<Rightarrow> bool) option"
  g_egressFn :: "(string \<Rightarrow> bool) option"
  g_actionResolver :: "(string \<Rightarrow> string) option"
  g_egressSkipped :: nat
  g_dirty :: bool
  g_held :: "heldBan list"
  g_heldFull :: bool
  g_lifted :: "int list"
  g_mirror :: "mirror option"
  g_flushTimer :: bool
  g_lastFlushAt :: "int option"
  g_flushes :: nat
  g_repeatTrips :: nat
  g_created :: "Announcement list"
  g_wake :: bool

record BanEnv =
  v_now :: int
  v_clock :: int
  v_held :: bool
  v_write :: "string \<Rightarrow> string \<Rightarrow> string \<Rightarrow> bool"
  v_delete :: "int \<Rightarrow> bool"
  v_load :: bool
  v_query :: bool
  v_file :: bool

text \<open>\<open>New\<close>: the table as it is, no mirror, nothing kept. The duration is in whole seconds.\<close>

definition New :: "Ban list \<Rightarrow> int \<Rightarrow> bool \<Rightarrow> int \<Rightarrow> Manager" where
  "New rows nextID hasFile duration =
     \<lparr>g_rows = rows, g_nextID = nextID, g_hasFile = hasFile, g_file = [], g_flushed = False, g_duration = duration,
      g_whitelistFn = None, g_egressFn = None, g_actionResolver = None, g_egressSkipped = 0, g_dirty = False,
      g_held = [], g_heldFull = False, g_lifted = [], g_mirror = None, g_flushTimer = False, g_lastFlushAt = None,
      g_flushes = 0, g_repeatTrips = 0, g_created = [], g_wake = False\<rparr>"

definition SetActionResolver :: "(string \<Rightarrow> string) option \<Rightarrow> Manager \<Rightarrow> Manager" where
  "SetActionResolver r m = m\<lparr>g_actionResolver := r\<rparr>"

definition SetWhitelist :: "(string \<Rightarrow> bool) option \<Rightarrow> Manager \<Rightarrow> Manager" where
  "SetWhitelist f m = m\<lparr>g_whitelistFn := f\<rparr>"

definition SetEgress :: "(string \<Rightarrow> bool) option \<Rightarrow> Manager \<Rightarrow> Manager" where
  "SetEgress f m = m\<lparr>g_egressFn := f\<rparr>"

definition EffectiveAction :: "Manager \<Rightarrow> string \<Rightarrow> string \<Rightarrow> string" where
  "EffectiveAction m action source =
     (let a = trim_space action in
      if a \<noteq> [] then a
      else case g_actionResolver m of None \<Rightarrow> ''deny''
        | Some r \<Rightarrow> let a = trim_space (r source) in if a \<noteq> [] then a else ''deny'')"

definition isEgress :: "Manager \<Rightarrow> string \<Rightarrow> bool" where
  "isEgress m ip = (ip \<noteq> [] \<and> (case g_egressFn m of None \<Rightarrow> False | Some f \<Rightarrow> f ip))"

definition isWhitelisted :: "Manager \<Rightarrow> string \<Rightarrow> bool" where
  "isWhitelisted m ip = (ip \<noteq> [] \<and> (case g_whitelistFn m of None \<Rightarrow> False | Some f \<Rightarrow> f ip))"

definition markDirty :: "Manager \<Rightarrow> Manager" where
  "markDirty m = m\<lparr>g_dirty := True\<rparr>"

definition announce :: "string \<Rightarrow> string \<Rightarrow> string \<Rightarrow> string \<Rightarrow> string \<Rightarrow> Manager \<Rightarrow> Manager" where
  "announce ip ja4 source reason bannedBy m =
     m\<lparr>g_created := g_created m @ [\<lparr>n_ip = ip, n_ja4 = ja4, n_source = source, n_reason = reason, n_bannedBy = bannedBy\<rparr>]\<rparr>"

section \<open>The table\<close>

definition row_key :: "string \<Rightarrow> string \<Rightarrow> string \<Rightarrow> Ban \<Rightarrow> bool" where
  "row_key ip ja4 scope b \<longleftrightarrow> b_IP b = ip \<and> b_JA4 b = ja4 \<and> b_Scope b = scope"

text \<open>
  \<open>upsertOn\<close>: the row on the unique key (ip, ja4, scope) has its other columns rewritten,
  else a row with a fresh id is inserted.
\<close>

definition upsertOn :: "Ban \<Rightarrow> Manager \<Rightarrow> Manager" where
  "upsertOn b m =
     (if list_ex (row_key (b_IP b) (b_JA4 b) (b_Scope b)) (g_rows m)
      then m\<lparr>g_rows := map (\<lambda>r. if row_key (b_IP b) (b_JA4 b) (b_Scope b) r then b\<lparr>b_ID := b_ID r\<rparr> else r) (g_rows m)\<rparr>
      else m\<lparr>g_rows := g_rows m @ [b\<lparr>b_ID := g_nextID m\<rparr>], g_nextID := g_nextID m + 1\<rparr>)"

definition upsert :: "BanEnv \<Rightarrow> Ban \<Rightarrow> Manager \<Rightarrow> bool \<times> Manager" where
  "upsert v b m = (if v_write v (b_IP b) (b_JA4 b) (b_Scope b) then (True, upsertOn b m) else (False, m))"

definition row_live :: "int \<Rightarrow> Ban \<Rightarrow> bool" where
  "row_live now b \<longleftrightarrow> b_ExpiresAt b = 0 \<or> b_ExpiresAt b > now"

definition prune :: "BanEnv \<Rightarrow> Manager \<Rightarrow> nat \<times> Manager" where
  "prune v m =
     (let dead = (\<lambda>b. b_ExpiresAt b > 0 \<and> b_ExpiresAt b \<le> v_now v) in
      if v_query v then (length (filter dead (g_rows m)), m\<lparr>g_rows := filter (\<lambda>b. \<not> dead b) (g_rows m)\<rparr>) else (0, m))"

section \<open>The mirror\<close>

definition row_entry :: "Ban \<Rightarrow> mirrorEntry" where
  "row_entry b =
     (let ip = normalizeIP (b_IP b) in
      \<lparr>e_id = b_ID b, e_ip = ip, e_ja4 = b_JA4 b, e_scope = effectiveScope ip (b_JA4 b) (b_Scope b), e_source = b_Source b,
       e_action = b_Action b, e_bannedBy = b_BannedBy b, e_bannedAt = b_BannedAt b, e_expiresAt = b_ExpiresAt b\<rparr>)"

text \<open>\<open>ORDER BY ip, ja4, id\<close>.\<close>

definition in_file_order :: "Ban list \<Rightarrow> Ban list" where
  "in_file_order bs = sort_key b_IP (sort_key b_JA4 (sort_key b_ID bs))"

definition live_rows :: "int \<Rightarrow> Manager \<Rightarrow> Ban list" where
  "live_rows now m = filter (\<lambda>b. b_ID b \<notin> set (g_lifted m)) (in_file_order (filter (row_live now) (g_rows m)))"

definition loadMirror :: "BanEnv \<Rightarrow> Manager \<Rightarrow> mirrorEntry list option \<times> Manager" where
  "loadMirror v m =
     (if v_load v
      then let all = map row_entry (live_rows (v_now v) m) in (Some all, m\<lparr>g_mirror := Some (foldl mirror_add newMirror all)\<rparr>)
      else (None, m))"

definition ensureMirror :: "BanEnv \<Rightarrow> Manager \<Rightarrow> bool \<times> Manager" where
  "ensureMirror v m =
     (case g_mirror m of Some _ \<Rightarrow> (True, m)
      | None \<Rightarrow> (let (all, m') = loadMirror v m in (all \<noteq> None, m')))"

definition mirrorPut :: "BanEnv \<Rightarrow> mirrorEntry \<Rightarrow> Manager \<Rightarrow> Manager" where
  "mirrorPut v e m =
     (let ip = normalizeIP (e_ip e); e = e\<lparr>e_ip := ip, e_scope := effectiveScope ip (e_ja4 e) (e_scope e)\<rparr> in
      case g_mirror m of None \<Rightarrow> snd (ensureMirror v m)
      | Some mr \<Rightarrow> m\<lparr>g_mirror := Some (mirror_put mr e)\<rparr>)"

definition reloadMirror :: "BanEnv \<Rightarrow> Manager \<Rightarrow> Manager" where
  "reloadMirror v m = snd (loadMirror v m)"

definition mirror_skip :: "Manager \<Rightarrow> mirrorEntry \<Rightarrow> bool" where
  "mirror_skip m e \<longleftrightarrow>
     e_id e \<noteq> 0 \<and> e_id e \<in> set (g_lifted m) \<or> e_bannedBy e = [] \<and> e_ip e \<noteq> [] \<and> isEgress m (e_ip e)"

text \<open>\<open>mirrorMatch\<close>: \<open>None\<close> when there is no mirror to ask.\<close>

definition mirrorMatch :: "BanEnv \<Rightarrow> string \<Rightarrow> string \<Rightarrow> Manager \<Rightarrow> mirrorEntry option option \<times> Manager" where
  "mirrorMatch v ip ja4 m =
     (let (ok, m') = ensureMirror v m in
      case g_mirror m' of None \<Rightarrow> (None, m')
      | Some mr \<Rightarrow> ((if ok then Some (mirror_match mr ip ja4 (v_now v) (mirror_skip m')) else None), m'))"

definition MirrorSize :: "Manager \<Rightarrow> int" where
  "MirrorSize m = (case g_mirror m of None \<Rightarrow> 0 | Some mr \<Rightarrow> mr_n mr)"

definition refreshInterval :: "Manager \<Rightarrow> int" where
  "refreshInterval m = (if g_duration m > 0 \<and> g_duration m div 2 < 3600 then g_duration m div 2 else 3600)"

definition held_entry :: "heldBan \<Rightarrow> mirrorEntry" where
  "held_entry h =
     \<lparr>e_id = 0, e_ip = h_ip h, e_ja4 = h_ja4 h, e_scope = effectiveScope (h_ip h) (h_ja4 h) (h_scope h), e_source = h_source h,
      e_action = h_action h, e_bannedBy = h_bannedBy h, e_bannedAt = h_bannedAt h, e_expiresAt = h_expiresAt h\<rparr>"

definition recentlyPlaced :: "Manager \<Rightarrow> string \<Rightarrow> string \<Rightarrow> string \<Rightarrow> string \<Rightarrow> int \<Rightarrow> bool" where
  "recentlyPlaced m ip ja4 source action now =
     (let scope = DeriveScope ip ja4;
          since = now - refreshInterval m;
          fresh = (\<lambda>e. e_ip e = ip \<and> e_ja4 e = ja4 \<and> e_scope e = scope \<and> e_source e = source \<and> e_action e = action
                     \<and> e_bannedBy e = [] \<and> e_bannedAt e > since \<and> live e now)
      in if list_ex (\<lambda>h. fresh (held_entry h)) (g_held m) then True
         else case g_mirror m of None \<Rightarrow> False
           | Some mr \<Rightarrow> list_ex fresh
               (if scope = ScopeJA4Only then list_at (mr_ja4 mr) ja4
                else if scope = ScopeIPOnly then list_at (mr_ip mr) ip
                else list_at (mr_tuple mr) (tuple_key ip ja4)))"

section \<open>The file\<close>

definition resolve_line :: "Manager \<Rightarrow> string \<Rightarrow> string \<Rightarrow> string \<times> string" where
  "resolve_line m source action =
     (let action = (if trim_space action = [] then (case g_actionResolver m of None \<Rightarrow> action | Some r \<Rightarrow> r source) else action);
          action = (if trim_space action = [] then ''deny'' else action)
      in (if trim_space source = [] then ''manual'' else source, action))"

definition line_of :: "Manager \<Rightarrow> mirrorEntry \<Rightarrow> banLine" where
  "line_of m e =
     (let (source, action) = resolve_line m (e_source e) (e_action e) in
      \<lparr>l_key = banKey (e_ip e) (e_ja4 e) (e_scope e), l_source = source, l_action = action\<rparr>)"

fun first_of_key :: "string list \<Rightarrow> banLine list \<Rightarrow> banLine list" where
  "first_of_key seen [] = []"
| "first_of_key seen (l # ls) =
     (if l_key l \<in> set seen then first_of_key seen ls else l # first_of_key (l_key l # seen) ls)"

definition on_egress :: "Manager \<Rightarrow> mirrorEntry \<Rightarrow> bool" where
  "on_egress m e \<longleftrightarrow> e_bannedBy e = [] \<and> e_ip e \<noteq> [] \<and> isEgress m (e_ip e)"

text \<open>The kept bans first, then the rows: the file keeps the first line of a key.\<close>

definition enforced_list :: "int \<Rightarrow> Manager \<Rightarrow> mirrorEntry list \<Rightarrow> mirrorEntry list" where
  "enforced_list now m rows = map held_entry (filter (\<lambda>h. h_expiresAt h = 0 \<or> h_expiresAt h > now) (g_held m)) @ rows"

definition file_lines :: "Manager \<Rightarrow> mirrorEntry list \<Rightarrow> banLine list" where
  "file_lines m es = sort_key l_key (first_of_key [] (map (line_of m) (filter (\<lambda>e. \<not> on_egress m e) es)))"

definition flush :: "BanEnv \<Rightarrow> Manager \<Rightarrow> bool \<times> Manager" where
  "flush v m =
     (if \<not> g_hasFile m then (True, m)
      else case loadMirror v (m\<lparr>g_dirty := False\<rparr>) of
        (None, m) \<Rightarrow> (False, markDirty m)
      | (Some rows, m) \<Rightarrow>
          (let es = enforced_list (v_now v) m rows;
               m = m\<lparr>g_egressSkipped := length (filter (on_egress m) es)\<rparr>
           in if \<not> v_file v then (False, markDirty m)
              else (True, m\<lparr>g_file := file_lines m es, g_flushed := True, g_lastFlushAt := Some (v_clock v),
                            g_flushes := g_flushes m + 1\<rparr>)))"

definition flushDebounce :: int where
  "flushDebounce = 200 * 1000000"

definition requestFlush :: "BanEnv \<Rightarrow> Manager \<Rightarrow> Manager" where
  "requestFlush v m =
     (if \<not> g_hasFile m \<or> g_flushTimer m then m
      else if (case g_lastFlushAt m of None \<Rightarrow> True | Some t \<Rightarrow> flushDebounce - (v_clock v - t) \<le> 0)
      then snd (flush v m)
      else m\<lparr>g_flushTimer := True\<rparr>)"

text \<open>The timer of \<open>requestFlush\<close> firing.\<close>

definition flushTimerFires :: "BanEnv \<Rightarrow> Manager \<Rightarrow> Manager" where
  "flushTimerFires v m = (if g_flushTimer m then snd (flush v (m\<lparr>g_flushTimer := False\<rparr>)) else m)"

section \<open>Bans kept while writes are held\<close>

definition heldBansMax :: nat where
  "heldBansMax = 10000"

definition held_key :: "string \<Rightarrow> string \<Rightarrow> string \<Rightarrow> heldBan \<Rightarrow> bool" where
  "held_key ip ja4 scope h \<longleftrightarrow> h_ip h = ip \<and> h_ja4 h = ja4 \<and> h_scope h = scope"

text \<open>The refresh in place of the first kept ban on the key, if there is one.\<close>

fun refresh_held :: "heldBan \<Rightarrow> heldBan list \<Rightarrow> heldBan list option" where
  "refresh_held b [] = None"
| "refresh_held b (h # hs) =
     (if held_key (h_ip b) (h_ja4 b) (h_scope b) h
      then Some (b\<lparr>h_announced := h_announced b \<or> h_announced h\<rparr> # hs)
      else map_option ((#) h) (refresh_held b hs))"

definition hold :: "heldBan \<Rightarrow> Manager \<Rightarrow> bool \<times> Manager" where
  "hold b m =
     (case refresh_held b (g_held m) of Some hs \<Rightarrow> (True, m\<lparr>g_held := hs\<rparr>)
      | None \<Rightarrow>
          if length (g_held m) \<ge> heldBansMax then (False, m\<lparr>g_heldFull := True\<rparr>)
          else (True, m\<lparr>g_held := g_held m @ [b]\<rparr>))"

definition heldMatches :: "heldBan \<Rightarrow> string \<Rightarrow> string \<Rightarrow> bool" where
  "heldMatches h ip ja4 =
     (let onAddress = (case parsePrefixKey (h_ip h) of Some p \<Rightarrow> addrInPrefix p ip | None \<Rightarrow> h_ip h \<noteq> [] \<and> h_ip h = ip);
          scope = effectiveScope (h_ip h) (h_ja4 h) (h_scope h)
      in if ja4 = [] then onAddress
         else if scope = ScopeJA4Only then h_ja4 h = ja4
         else if scope = ScopeIPOnly then onAddress
         else h_ip h = ip \<and> h_ja4 h = ja4)"

definition heldMatch :: "int \<Rightarrow> string \<Rightarrow> string \<Rightarrow> Manager \<Rightarrow> heldBan option" where
  "heldMatch now ip ja4 m =
     find (\<lambda>h. \<not> (h_expiresAt h \<noteq> 0 \<and> h_expiresAt h \<le> now) \<and> heldMatches h ip ja4) (g_held m)"

fun drop_first :: "('a \<Rightarrow> bool) \<Rightarrow> 'a list \<Rightarrow> 'a list" where
  "drop_first P [] = []"
| "drop_first P (x # xs) = (if P x then xs else x # drop_first P xs)"

definition DropHeld :: "BanEnv \<Rightarrow> string \<Rightarrow> string \<Rightarrow> string \<Rightarrow> Manager \<Rightarrow> bool \<times> Manager" where
  "DropHeld v ip ja4 scope m =
     (let ip = normalizeIP ip; ja4 = trim_space ja4;
          scope = (if scope = [] then DeriveScope ip ja4 else scope);
          found = list_ex (held_key ip ja4 scope) (g_held m);
          m = m\<lparr>g_held := drop_first (held_key ip ja4 scope) (g_held m)\<rparr>
      in (found, if found then requestFlush v (markDirty m) else m))"

definition held_row :: "heldBan \<Rightarrow> Ban" where
  "held_row h =
     \<lparr>b_ID = 0, b_IP = h_ip h, b_JA4 = h_ja4 h, b_Source = h_source h, b_Reason = h_reason h, b_BannedAt = h_bannedAt h,
      b_ExpiresAt = h_expiresAt h, b_BannedBy = h_bannedBy h, b_Action = h_action h, b_Scope = h_scope h\<rparr>"

definition delete_lifted :: "BanEnv \<Rightarrow> int \<Rightarrow> nat \<times> Manager \<Rightarrow> nat \<times> Manager" where
  "delete_lifted v i st =
     (case st of (n, m) \<Rightarrow>
        if v_delete v i
        then (n + 1, m\<lparr>g_rows := filter (\<lambda>b. b_ID b \<noteq> i) (g_rows m), g_lifted := filter (\<lambda>j. j \<noteq> i) (g_lifted m)\<rparr>)
        else (n, m))"

definition write_held_ban :: "BanEnv \<Rightarrow> heldBan \<Rightarrow> nat \<times> Manager \<Rightarrow> nat \<times> Manager" where
  "write_held_ban v h st =
     (case st of (n, m) \<Rightarrow>
        (case upsert v (held_row h) m of
           (False, m) \<Rightarrow> (n, m)
         | (True, m) \<Rightarrow> (n + 1, if h_announced h then m else announce (h_ip h) (h_ja4 h) (h_source h) (h_reason h) (h_bannedBy h) m)))"

text \<open>
  \<open>writeHeld\<close>: the lifted rows are deleted, the kept bans written, the mirror reloaded, and
  every ban of the copy leaves the list. It holds the writer's lock; the copy of the list is
  the list itself here, since nothing is kept while one operation runs.
\<close>

definition writeHeld :: "BanEnv \<Rightarrow> Manager \<Rightarrow> Manager" where
  "writeHeld v m =
     (let held = g_held m; lifted = g_lifted m in
      if held = [] \<and> lifted = [] then m
      else let (deleted, m) = fold (delete_lifted v) lifted (0, m);
               (n, m) = fold (write_held_ban v) held (0, m);
               m = (if n > 0 \<or> deleted > 0 then reloadMirror v m else m);
               m = m\<lparr>g_held := filter (\<lambda>b. b \<notin> set held) (g_held m), g_heldFull := False\<rparr>
           in if n > 0 \<or> deleted > 0 then requestFlush v (markDirty m) else m)"

definition FlushHeld :: "BanEnv \<Rightarrow> Manager \<Rightarrow> Manager" where
  "FlushHeld v m = (if v_held v then m else writeHeld v m)"

section \<open>Escalation\<close>

definition ipEscalateMinJA4 :: nat where "ipEscalateMinJA4 = 3"
definition ipEscalateWindow :: int where "ipEscalateWindow = 24 * 3600"
definition prefix64EscalateMin :: nat where "prefix64EscalateMin = 3"
definition prefix64EscalateWindow :: int where "prefix64EscalateWindow = 24 * 3600"

text \<open>The row an escalation writes: the address or the prefix alone, with the tipping ban's source, action and lifetime.\<close>

definition place_wide :: "BanEnv \<Rightarrow> string \<Rightarrow> string \<Rightarrow> string \<Rightarrow> string \<Rightarrow> int \<Rightarrow> int \<Rightarrow> Manager \<Rightarrow> Manager" where
  "place_wide v ip source action reason now expires m =
     (case upsert v \<lparr>b_ID = 0, b_IP = ip, b_JA4 = [], b_Source = source, b_Reason = reason, b_BannedAt = now, b_ExpiresAt = expires,
                    b_BannedBy = [], b_Action = action, b_Scope = ScopeIPOnly\<rparr> m of
        (False, m) \<Rightarrow> m
      | (True, m) \<Rightarrow>
          announce ip [] source reason []
            (requestFlush v (markDirty (mirrorPut v
               \<lparr>e_id = 0, e_ip = ip, e_ja4 = [], e_scope = ScopeIPOnly, e_source = source, e_action = action, e_bannedBy = [],
                e_bannedAt = now, e_expiresAt = expires\<rparr> m))))"

definition escalation_ja4s :: "mirror \<Rightarrow> string \<Rightarrow> int \<Rightarrow> string list" where
  "escalation_ja4s mr ip now =
     remdups (map e_ja4 (filter (\<lambda>e. live e now \<and> e_scope e = ScopeIPJA4 \<and> e_ja4 e \<noteq> [] \<and> e_bannedBy e = []
        \<and> e_bannedAt e \<ge> now - ipEscalateWindow) (list_at (mr_byIP mr) ip)))"

definition escalateIP :: "BanEnv \<Rightarrow> string \<Rightarrow> string \<Rightarrow> string \<Rightarrow> int \<Rightarrow> int \<Rightarrow> Manager \<Rightarrow> Manager" where
  "escalateIP v ip source action now expires m =
     (if ip = [] \<or> isEgress m ip then m
      else let (have_it, ja4s) = (case g_mirror m of None \<Rightarrow> (False, [])
                 | Some mr \<Rightarrow> (list_ex (\<lambda>e. live e now \<and> e_scope e = ScopeIPOnly) (list_at (mr_byIP mr) ip), escalation_ja4s mr ip now))
      in if have_it \<or> length ja4s < ipEscalateMinJA4 then m
         else place_wide v ip source action
                (''escalated: '' @ format_nat 10 (length ja4s) @ '' fingerprints from this address were banned within a day'') now expires m)"

definition escalation_addrs :: "mirror \<Rightarrow> ip_prefix \<Rightarrow> int \<Rightarrow> string list" where
  "escalation_addrs mr p now =
     map fst (filter (\<lambda>(addr, l). (case parse_addr addr of None \<Rightarrow> False | Some b \<Rightarrow> prefix_contains p b)
        \<and> list_ex (\<lambda>e. e_bannedBy e = [] \<and> e_bannedAt e \<ge> now - prefix64EscalateWindow \<and> live e now) l) (mr_byIP mr))"

definition escalate64 :: "BanEnv \<Rightarrow> string \<Rightarrow> string \<Rightarrow> string \<Rightarrow> int \<Rightarrow> int \<Rightarrow> Manager \<Rightarrow> Manager" where
  "escalate64 v ip source action now expires m =
     (case parse_addr ip of None \<Rightarrow> m
      | Some a \<Rightarrow>
        if is4 a \<or> is4in6 a \<or> zone a \<noteq> [] then m
        else let p = masked \<lparr>p_addr = a, p_bits = 64\<rparr>;
                 key = prefix_string p;
                 (have_it, addrs) = (case g_mirror m of None \<Rightarrow> (False, [])
                   | Some mr \<Rightarrow> if list_ex (\<lambda>mp. mp_prefix mp = p \<and> live (mp_e mp) now) (mr_prefix mr) then (True, [])
                       else (False, escalation_addrs mr p now))
        in if have_it \<or> length addrs < prefix64EscalateMin then m
           else if isWhitelisted m key then m
           else place_wide v key source action
                  (''escalated: '' @ format_nat 10 (length addrs) @ '' addresses in the same /64 were banned within a day'') now expires m)"

section \<open>Placing bans\<close>

datatype BanError =
    ErrNoKey
  | ErrWhitelisted
  | ErrSeparator
  | ErrTupleIncomplete
  | ErrNoJA4
  | ErrNoIP
  | ErrBadPrefix
  | ErrPrefixScope
  | ErrHeldFull
  | ErrWritesHeld
  | ErrDatabase
  | ErrDuplicate
  | ErrNotEditable
  | ErrNotFound

definition validateBanKey :: "string \<Rightarrow> string \<Rightarrow> BanError option" where
  "validateBanKey ip ja4 =
     (if list_ex (\<lambda>c. c = CHR ''|'' \<or> c = CHR 0x0A \<or> c = CHR 0x0D) ip \<or> list_ex (\<lambda>c. c = CHR ''|'' \<or> c = CHR 0x0A \<or> c = CHR 0x0D) ja4
      then Some ErrSeparator else None)"

definition validateScopeKey :: "string \<Rightarrow> string \<Rightarrow> string \<Rightarrow> BanError option" where
  "validateScopeKey ip ja4 scope =
     (if scope = ScopeIPJA4 \<and> (ip = [] \<or> ja4 = []) then Some ErrTupleIncomplete
      else if scope = ScopeJA4Only \<and> ja4 = [] then Some ErrNoJA4
      else if scope = ScopeIPOnly \<and> ip = [] then Some ErrNoIP
      else if index_byte (CHR ''/'') ip \<noteq> None
      then (if parsePrefixKey ip = None then Some ErrBadPrefix else if scope \<noteq> ScopeIPOnly then Some ErrPrefixScope else None)
      else None)"

text \<open>\<open>wakeLoop\<close>: the channel holds one wake; another while one waits is the same.\<close>

definition wakeLoop :: "Manager \<Rightarrow> Manager" where
  "wakeLoop m = m\<lparr>g_wake := True\<rparr>"

definition expiry :: "BanEnv \<Rightarrow> int \<Rightarrow> int" where
  "expiry v secs = (if secs > 0 then wrap64 (v_now v + secs) else 0)"

definition ban_row :: "BanEnv \<Rightarrow> string \<Rightarrow> string \<Rightarrow> string \<Rightarrow> string \<Rightarrow> string \<Rightarrow> string \<Rightarrow> string \<Rightarrow> int \<Rightarrow> Ban" where
  "ban_row v ip ja4 source reason bannedBy action scope expires =
     \<lparr>b_ID = 0, b_IP = ip, b_JA4 = ja4, b_Source = source, b_Reason = reason, b_BannedAt = v_now v, b_ExpiresAt = expires,
      b_BannedBy = bannedBy, b_Action = action, b_Scope = scope\<rparr>"

definition ban_held :: "Ban \<Rightarrow> bool \<Rightarrow> heldBan" where
  "ban_held b announced =
     \<lparr>h_ip = b_IP b, h_ja4 = b_JA4 b, h_source = b_Source b, h_reason = b_Reason b, h_bannedBy = b_BannedBy b, h_action = b_Action b,
      h_scope = b_Scope b, h_bannedAt = b_BannedAt b, h_expiresAt = b_ExpiresAt b, h_announced = announced\<rparr>"

definition ban_entry :: "Ban \<Rightarrow> mirrorEntry" where
  "ban_entry b =
     \<lparr>e_id = 0, e_ip = b_IP b, e_ja4 = b_JA4 b, e_scope = b_Scope b, e_source = b_Source b, e_action = b_Action b,
      e_bannedBy = b_BannedBy b, e_bannedAt = b_BannedAt b, e_expiresAt = b_ExpiresAt b\<rparr>"

text \<open>After a row was written: into the mirror, the file owed, announced.\<close>

definition written :: "BanEnv \<Rightarrow> Ban \<Rightarrow> Manager \<Rightarrow> Manager" where
  "written v b m =
     announce (b_IP b) (b_JA4 b) (b_Source b) (b_Reason b) (b_BannedBy b)
       (requestFlush v (markDirty (mirrorPut v (ban_entry b) m)))"

definition AddWithSourceAction :: "BanEnv \<Rightarrow> string \<Rightarrow> string \<Rightarrow> string \<Rightarrow> string \<Rightarrow> string \<Rightarrow> string \<Rightarrow> Manager \<Rightarrow> Manager" where
  "AddWithSourceAction v ip ja4 source reason bannedBy action m =
     (let ip = normalizeIP ip; ja4 = trim_space ja4; action = trim_space action; now = v_now v in
      if ip = [] \<or> isWhitelisted m ip \<or> bannedBy = [] \<and> isEgress m ip then m
      else if bannedBy = [] \<and> recentlyPlaced m ip ja4 source action now then m\<lparr>g_repeatTrips := g_repeatTrips m + 1\<rparr>
      else let expires = expiry v (g_duration m);
               b = ban_row v ip ja4 source reason bannedBy action (DeriveScope ip ja4) expires
      in if v_held v then requestFlush v (markDirty (snd (hold (ban_held b False) m)))
         else case upsert v b m of
           (False, m) \<Rightarrow> wakeLoop (markDirty (snd (hold (ban_held b False) m)))
         | (True, m) \<Rightarrow>
             (let m = written v b m in
              if bannedBy \<noteq> [] then m
              else let m = (if ja4 \<noteq> [] then escalateIP v ip source action now expires m else m)
                   in escalate64 v ip source action now expires m))"

definition AddWithSource :: "BanEnv \<Rightarrow> string \<Rightarrow> string \<Rightarrow> string \<Rightarrow> string \<Rightarrow> string \<Rightarrow> Manager \<Rightarrow> Manager" where
  "AddWithSource v ip ja4 source reason bannedBy m = AddWithSourceAction v ip ja4 source reason bannedBy [] m"

definition Add :: "BanEnv \<Rightarrow> string \<Rightarrow> string \<Rightarrow> Manager \<Rightarrow> Manager" where
  "Add v ip ja4 m = AddWithSource v ip ja4 SourceHoneypot [] [] m"

text \<open>The closure \<open>keep\<close> of \<open>AddAuto\<close>.\<close>

definition keep_ban :: "BanEnv \<Rightarrow> Ban \<Rightarrow> Manager \<Rightarrow> Manager" where
  "keep_ban v b m = requestFlush v (markDirty (snd (hold (ban_held b False) m)))"

definition AddAuto :: "BanEnv \<Rightarrow> string \<Rightarrow> string \<Rightarrow> string \<Rightarrow> string \<Rightarrow> string \<Rightarrow> string \<Rightarrow> int \<Rightarrow> Manager \<Rightarrow> Manager" where
  "AddAuto v ip ja4 scope source reason action expiresSec m =
     (let ip = normalizeIP ip; ja4 = trim_space ja4 in
      if ip = [] \<or> isWhitelisted m ip \<or> validateBanKey ip ja4 \<noteq> None \<or> isEgress m ip then m
      else let scope = (if scope = [] \<or> ja4 = [] \<and> (scope = ScopeIPJA4 \<or> scope = ScopeJA4Only) then DeriveScope ip ja4 else ValidateScope scope);
               action = trim_space action;
               expires = expiry v expiresSec;
               b = ban_row v ip ja4 source reason [] action scope expires
      in if v_held v then keep_ban v b m
         else case upsert v b m of
           (False, m) \<Rightarrow> wakeLoop (keep_ban v b m)
         | (True, m) \<Rightarrow>
             (let m = written v b m;
                  m = (if scope = ScopeIPJA4 \<and> ja4 \<noteq> [] then escalateIP v ip source action (v_now v) expires m else m)
              in escalate64 v ip source action (v_now v) expires m))"

text \<open>The checks an operator's ban and an operator's edit share; the normalised key and scope when they pass.\<close>

definition manual_key :: "string \<Rightarrow> string \<Rightarrow> string \<Rightarrow> Manager \<Rightarrow> BanError + string \<times> string \<times> string" where
  "manual_key ip ja4 scope m =
     (let ip = normalizeIP ip; ja4 = trim_space ja4 in
      if ip = [] \<and> ja4 = [] then Inl ErrNoKey
      else if isWhitelisted m ip then Inl ErrWhitelisted
      else case validateBanKey ip ja4 of Some e \<Rightarrow> Inl e
      | None \<Rightarrow>
          (let scope = (if scope = [] then DeriveScope ip ja4 else ValidateScope scope) in
           case validateScopeKey ip ja4 scope of Some e \<Rightarrow> Inl e | None \<Rightarrow> Inr (ip, ja4, scope)))"

definition AddManualWithScope :: "BanEnv \<Rightarrow> string \<Rightarrow> string \<Rightarrow> string \<Rightarrow> string \<Rightarrow> string \<Rightarrow> string \<Rightarrow> int \<Rightarrow> Manager \<Rightarrow> BanError option \<times> Manager" where
  "AddManualWithScope v ip ja4 scope reason bannedBy action expiresSec m =
     (case manual_key ip ja4 scope m of Inl e \<Rightarrow> (Some e, m)
      | Inr (ip, ja4, scope) \<Rightarrow>
          (let b = ban_row v ip ja4 SourceManual reason bannedBy (trim_space action) scope (expiry v expiresSec) in
           if v_held v
           then (case hold (ban_held b True) m of
                   (False, m) \<Rightarrow> (Some ErrHeldFull, m)
                 | (True, m) \<Rightarrow> (None, announce ip ja4 SourceManual reason bannedBy (requestFlush v (markDirty m))))
           else (case upsert v b m of
                   (False, m) \<Rightarrow> (Some ErrDatabase, m)
                 | (True, m) \<Rightarrow> (None, written v b m))))"

definition AddManual :: "BanEnv \<Rightarrow> string \<Rightarrow> string \<Rightarrow> string \<Rightarrow> string \<Rightarrow> string \<Rightarrow> int \<Rightarrow> Manager \<Rightarrow> BanError option \<times> Manager" where
  "AddManual v ip ja4 reason bannedBy action expiresSec m = AddManualWithScope v ip ja4 [] reason bannedBy action expiresSec m"

definition UpdateManual :: "BanEnv \<Rightarrow> int \<Rightarrow> string \<Rightarrow> string \<Rightarrow> string \<Rightarrow> string \<Rightarrow> string \<Rightarrow> int \<Rightarrow> Manager \<Rightarrow> BanError option \<times> Manager" where
  "UpdateManual v i ip ja4 scope reason action expiresSec m =
     (if v_held v then (Some ErrWritesHeld, m)
      else case manual_key ip ja4 scope m of Inl e \<Rightarrow> (Some e, m)
      | Inr (ip, ja4, scope) \<Rightarrow>
          if \<not> v_query v then (Some ErrDatabase, m)
          else if list_ex (\<lambda>b. row_key ip ja4 scope b \<and> b_ID b \<noteq> i) (g_rows m) then (Some ErrDuplicate, m)
          else if \<not> v_write v ip ja4 scope then (Some ErrDatabase, m)
          else let mine = (\<lambda>b. b_ID b = i \<and> b_Source b = SourceManual) in
            if \<not> list_ex mine (g_rows m) then (Some ErrNotEditable, m)
            else (None, requestFlush v (markDirty (reloadMirror v
                   (m\<lparr>g_rows := map (\<lambda>b. if mine b
                        then b\<lparr>b_IP := ip, b_JA4 := ja4, b_Reason := reason, b_ExpiresAt := expiry v expiresSec,
                               b_Action := trim_space action, b_Scope := scope\<rparr>
                        else b) (g_rows m)\<rparr>)))))"

definition Remove :: "BanEnv \<Rightarrow> int \<Rightarrow> Manager \<Rightarrow> BanError option \<times> Manager" where
  "Remove v i m =
     (let there = list_ex (\<lambda>b. b_ID b = i) (g_rows m) in
      if v_held v
      then (if \<not> v_query v then (Some ErrDatabase, m)
            else if \<not> there then (Some ErrNotFound, m)
            else (None, requestFlush v (markDirty (m\<lparr>g_lifted := List.insert i (g_lifted m)\<rparr>))))
      else if \<not> v_delete v i then (Some ErrDatabase, m)
      else if \<not> there then (Some ErrNotFound, m)
      else (None, requestFlush v (markDirty (reloadMirror v (m\<lparr>g_rows := filter (\<lambda>b. b_ID b \<noteq> i) (g_rows m)\<rparr>)))))"

section \<open>The checks\<close>

text \<open>The table asked directly, while there is no mirror: the rows by id.\<close>

definition table_match :: "BanEnv \<Rightarrow> string \<Rightarrow> string \<Rightarrow> Manager \<Rightarrow> (string \<times> string) option" where
  "table_match v ip ja4 m =
     (if \<not> v_query v then None
      else let hit = (\<lambda>b. (if ja4 \<noteq> [] then b_IP b = ip \<and> b_JA4 b = ja4 \<or> b_IP b = ip \<and> b_JA4 b = [] \<or> b_IP b = [] \<and> b_JA4 b = ja4
                           else b_IP b = ip) \<and> row_live (v_now v) b)
      in map_option (\<lambda>b. (b_Action b, b_Source b))
           (find (\<lambda>b. b_ID b \<notin> set (g_lifted m) \<and> \<not> (b_BannedBy b = [] \<and> b_IP b \<noteq> [] \<and> isEgress m (b_IP b)))
              (sort_key b_ID (filter hit (g_rows m)))))"

definition IsBannedActionSource :: "BanEnv \<Rightarrow> string \<Rightarrow> string \<Rightarrow> Manager \<Rightarrow> (string \<times> string) option \<times> Manager" where
  "IsBannedActionSource v ip ja4 m =
     (if ip = [] then (None, m)
      else let ip = normalizeIP ip in
        case heldMatch (v_now v) ip ja4 m of Some h \<Rightarrow> (Some (h_action h, h_source h), m)
        | None \<Rightarrow>
            (case mirrorMatch v ip ja4 m of
               (Some found, m) \<Rightarrow> (map_option (\<lambda>e. (e_action e, e_source e)) found, m)
             | (None, m) \<Rightarrow> (table_match v ip ja4 m, m)))"

definition IsBanned :: "BanEnv \<Rightarrow> string \<Rightarrow> string \<Rightarrow> Manager \<Rightarrow> bool" where
  "IsBanned v ip ja4 m = (fst (IsBannedActionSource v ip ja4 m) \<noteq> None)"

section \<open>The loop\<close>

definition loop_tick :: "BanEnv \<Rightarrow> Manager \<Rightarrow> Manager" where
  "loop_tick v m =
     (let m = (if v_held v then m
               else let m = writeHeld v m; (pruned, m) = prune v m in if pruned > 0 then markDirty m else m)
      in if g_dirty m \<and> g_hasFile m then snd (flush v m) else m)"

definition loop_wake :: "BanEnv \<Rightarrow> Manager \<Rightarrow> Manager" where
  "loop_wake v m =
     (if \<not> g_wake m then m
      else let m = m\<lparr>g_wake := False\<rparr>;
               m = (if g_dirty m \<and> g_hasFile m then snd (flush v m) else m)
      in if v_held v then m else writeHeld v m)"

section \<open>Start and stop\<close>

text \<open>One row of \<open>normalizeStoredIPs\<close>: rewritten in the spelling requests carry, or dropped for the row that has it.\<close>

definition fix_spelling :: "BanEnv \<Rightarrow> Ban \<Rightarrow> nat \<times> Manager \<Rightarrow> nat \<times> Manager" where
  "fix_spelling v r st =
     (case st of (n, m) \<Rightarrow>
        let want = normalizeIP (b_IP r) in
        if \<not> v_query v then (n, m)
        else if list_ex (\<lambda>b. row_key want (b_JA4 r) (b_Scope r) b \<and> b_ID b \<noteq> b_ID r) (g_rows m)
        then (if v_delete v (b_ID r) then (n + 1, m\<lparr>g_rows := filter (\<lambda>b. b_ID b \<noteq> b_ID r) (g_rows m)\<rparr>) else (n, m))
        else (if v_write v want (b_JA4 r) (b_Scope r)
              then (n + 1, m\<lparr>g_rows := map (\<lambda>b. if b_ID b = b_ID r then b\<lparr>b_IP := want\<rparr> else b) (g_rows m)\<rparr>)
              else (n, m)))"

definition normalizeStoredIPs :: "BanEnv \<Rightarrow> Manager \<Rightarrow> Manager" where
  "normalizeStoredIPs v m =
     (if v_held v \<or> \<not> v_load v then m
      else let todo = filter (\<lambda>r. b_IP r \<noteq> [] \<and> normalizeIP (b_IP r) \<noteq> b_IP r) (g_rows m);
               (n, m) = fold (fix_spelling v) todo (0, m)
           in if n > 0 then markDirty m else m)"

definition Start :: "BanEnv \<Rightarrow> Manager \<Rightarrow> Manager" where
  "Start v m =
     (let m = (if v_query v then m\<lparr>g_rows := filter (\<lambda>b. b_Source b \<noteq> ''community_bans'') (g_rows m)\<rparr> else m);
          m = normalizeStoredIPs v m
      in if g_hasFile m then snd (flush v m) else snd (ensureMirror v m))"

definition Close :: "BanEnv \<Rightarrow> Manager \<Rightarrow> Manager" where
  "Close v m = (let m = m\<lparr>g_flushTimer := False\<rparr> in if g_hasFile m then snd (flush v m) else m)"

section \<open>The list for the pages\<close>

record BanEntry =
  en_row :: Ban
  en_Held :: bool

definition Snapshot :: "BanEnv \<Rightarrow> Manager \<Rightarrow> BanEntry list" where
  "Snapshot v m =
     (if \<not> v_load v then []
      else let scoped = (\<lambda>b. if b_Scope b = [] then b\<lparr>b_Scope := DeriveScope (b_IP b) (b_JA4 b)\<rparr> else b);
               rows = map scoped (filter (\<lambda>b. b_ID b \<notin> set (g_lifted m))
                        (sort_key b_IP (sort_key b_JA4 (filter (row_live (v_now v)) (g_rows m)))));
               kept = filter (\<lambda>h. \<not> (h_expiresAt h \<noteq> 0 \<and> h_expiresAt h \<le> v_now v)
                        \<and> (h_ip h, h_ja4 h, h_scope h) \<notin> (\<lambda>b. (b_IP b, b_JA4 b, b_Scope b)) ` set rows) (g_held m);
               out = map (\<lambda>b. \<lparr>en_row = b, en_Held = False\<rparr>) rows @ map (\<lambda>h. \<lparr>en_row = held_row h, en_Held = True\<rparr>) kept
           in if kept = [] then out else sort_key (b_IP \<circ> en_row) (sort_key (b_JA4 \<circ> en_row) out))"

section \<open>What each step leaves alone\<close>

text \<open>The fields the flush machinery and the mirror updates do not touch.\<close>

definition same_core :: "Manager \<Rightarrow> Manager \<Rightarrow> bool" where
  "same_core m m' \<longleftrightarrow> g_rows m' = g_rows m \<and> g_nextID m' = g_nextID m \<and> g_held m' = g_held m \<and> g_lifted m' = g_lifted m
     \<and> g_egressFn m' = g_egressFn m \<and> g_whitelistFn m' = g_whitelistFn m \<and> g_duration m' = g_duration m"

lemma same_core_refl [simp]: "same_core m m"
  by (simp add: same_core_def)

lemma same_core_trans [trans]: "same_core a b \<Longrightarrow> same_core b c \<Longrightarrow> same_core a c"
  by (simp add: same_core_def)

lemma core_loadMirror [simp]: "same_core m (snd (loadMirror v m))"
  by (simp add: same_core_def loadMirror_def Let_def)

lemma core_ensureMirror [simp]: "same_core m (snd (ensureMirror v m))"
  using core_loadMirror [of m v] by (simp add: ensureMirror_def split_beta split: option.splits)

lemma core_mirrorPut [simp]: "same_core m (mirrorPut v e m)"
  using core_ensureMirror [of m v] by (auto simp: mirrorPut_def Let_def same_core_def split: option.splits)

lemma core_markDirty [simp]: "same_core m (markDirty m)"
  by (simp add: same_core_def markDirty_def)

lemma core_announce [simp]: "same_core m (announce a b c d e m)"
  by (simp add: same_core_def announce_def)

lemma flush_cases:
  "snd (flush v m) = m \<or> (\<exists>m'. g_mirror m' = g_mirror (snd (loadMirror v (m\<lparr>g_dirty := False\<rparr>)))
      \<and> same_core (m\<lparr>g_dirty := False\<rparr>) m' \<and> snd (flush v m) = m')"
  using core_loadMirror [of "m\<lparr>g_dirty := False\<rparr>" v]
  by (auto simp: flush_def Let_def markDirty_def same_core_def split: option.splits prod.splits)

lemma core_flush [simp]: "same_core m (snd (flush v m))"
  using flush_cases [of v m] by (auto simp: same_core_def)

lemma core_requestFlush [simp]: "same_core m (requestFlush v m)"
  using core_flush [of m v] by (auto simp: requestFlush_def same_core_def split: option.splits)

lemmas same_coreD = same_core_def [THEN iffD1]

lemma core_written: "same_core m (written v b m)"
  unfolding written_def by (meson core_announce core_markDirty core_mirrorPut core_requestFlush same_core_trans)

section \<open>The invariant\<close>

definition mirror_ok :: "Manager \<Rightarrow> bool" where
  "mirror_ok m \<longleftrightarrow> (\<forall>mr. g_mirror m = Some mr \<longrightarrow> (\<exists>xs. mirror_repr mr xs))"

definition row_id_key :: "Ban \<Rightarrow> string \<times> string \<times> string" where
  "row_id_key b = (b_IP b, b_JA4 b, b_Scope b)"

definition held_id_key :: "heldBan \<Rightarrow> string \<times> string \<times> string" where
  "held_id_key h = (h_ip h, h_ja4 h, h_scope h)"

definition table_ok :: "Manager \<Rightarrow> bool" where
  "table_ok m \<longleftrightarrow> distinct (map row_id_key (g_rows m)) \<and> distinct (map b_ID (g_rows m)) \<and> (\<forall>b \<in> set (g_rows m). b_ID b < g_nextID m)"

definition held_ok :: "Manager \<Rightarrow> bool" where
  "held_ok m \<longleftrightarrow> length (g_held m) \<le> heldBansMax \<and> distinct (map held_id_key (g_held m))"

definition mgr_ok :: "Manager \<Rightarrow> bool" where
  "mgr_ok m \<longleftrightarrow> mirror_ok m \<and> table_ok m \<and> held_ok m"

lemma row_key_id: "row_key ip ja4 scope b \<longleftrightarrow> row_id_key b = (ip, ja4, scope)"
  by (auto simp: row_key_def row_id_key_def)

lemma held_key_id: "held_key ip ja4 scope h \<longleftrightarrow> held_id_key h = (ip, ja4, scope)"
  by (auto simp: held_key_def held_id_key_def)

lemma adds_repr: "mirror_repr mr xs \<Longrightarrow> mirror_repr (foldl mirror_add mr es) (xs @ es)"
proof (induction es arbitrary: mr xs)
  case (Cons e es)
  then show ?case using Cons.IH [OF mirror_add_repr [OF Cons.prems, of e]] by simp
qed simp

lemma load_repr: "mirror_repr (foldl mirror_add newMirror es) es"
  using adds_repr [OF newMirror_repr, of es] by simp

lemma mirror_ok_load: "mirror_ok m \<Longrightarrow> mirror_ok (snd (loadMirror v m))"
  using load_repr by (auto simp: mirror_ok_def loadMirror_def Let_def)

lemma mirror_ok_ensure: "mirror_ok m \<Longrightarrow> mirror_ok (snd (ensureMirror v m))"
  using mirror_ok_load [of m v] by (simp add: ensureMirror_def split_beta split: option.splits)

lemma mirror_ok_put: "mirror_ok m \<Longrightarrow> mirror_ok (mirrorPut v e m)"
proof (cases "g_mirror m")
  case (Some mr)
  assume "mirror_ok m"
  with Some obtain xs where "mirror_repr mr xs" by (auto simp: mirror_ok_def)
  then show ?thesis using Some by (simp add: mirrorPut_def Let_def mirror_ok_def) (blast intro: mirror_put_repr)
qed (simp add: mirrorPut_def Let_def mirror_ok_ensure)

lemma mirror_ok_flush: "mirror_ok m \<Longrightarrow> mirror_ok (snd (flush v m))"
  using flush_cases [of v m] mirror_ok_load [of "m\<lparr>g_dirty := False\<rparr>" v] by (auto simp: mirror_ok_def)

lemma mirror_ok_requestFlush: "mirror_ok m \<Longrightarrow> mirror_ok (requestFlush v m)"
  using mirror_ok_flush [of m v] by (auto simp: requestFlush_def mirror_ok_def)

lemma mirror_ok_marks [simp]: "mirror_ok (markDirty m) = mirror_ok m" "mirror_ok (announce a b c d e m) = mirror_ok m"
  by (simp_all add: mirror_ok_def markDirty_def announce_def)

lemma table_ok_core: "same_core m m' \<Longrightarrow> table_ok m' = table_ok m"
  by (simp add: same_core_def table_ok_def)

lemma held_ok_core: "same_core m m' \<Longrightarrow> held_ok m' = held_ok m"
  by (simp add: same_core_def held_ok_def)

lemma mgr_ok_core:
  assumes "mgr_ok m" "same_core m m'" "mirror_ok m'"
  shows "mgr_ok m'"
  using assms by (simp add: mgr_ok_def table_ok_core held_ok_core)

section \<open>A ban is in force once placed\<close>

text \<open>The table, and the mirror if there is one, have an unexpired ban on the key.\<close>

definition table_has :: "string \<Rightarrow> string \<Rightarrow> string \<Rightarrow> int \<Rightarrow> Manager \<Rightarrow> bool" where
  "table_has ip ja4 scope now m \<longleftrightarrow> (\<exists>b \<in> set (g_rows m). row_key ip ja4 scope b \<and> row_live now b)"

definition mirror_has :: "string \<Rightarrow> string \<Rightarrow> string \<Rightarrow> int \<Rightarrow> Manager \<Rightarrow> bool" where
  "mirror_has ip ja4 scope now m \<longleftrightarrow>
     (\<forall>mr. g_mirror m = Some mr \<longrightarrow> (\<exists>xs. mirror_repr mr xs \<and> (\<exists>e \<in> set xs. same_key ip ja4 scope e \<and> live e now)))"

definition key_settled :: "string \<Rightarrow> string \<Rightarrow> string \<Rightarrow> bool" where
  "key_settled ip ja4 scope \<longleftrightarrow> normalizeIP ip = ip \<and> effectiveScope ip ja4 scope = scope"

lemma effectiveScope_values: "effectiveScope ip ja4 s \<in> {ScopeIPJA4, ScopeJA4Only, ScopeIPOnly}"
  by (simp add: effectiveScope_def DeriveScope_def)

lemma effectiveScope_derived [simp]: "effectiveScope ip ja4 (DeriveScope ip ja4) = DeriveScope ip ja4"
  by (simp add: effectiveScope_def DeriveScope_def)

lemma effectiveScope_idem [simp]: "effectiveScope ip ja4 (effectiveScope ip ja4 s) = effectiveScope ip ja4 s"
proof (cases "s = ScopeJA4Only \<and> ja4 \<noteq> [] \<or> s = ScopeIPOnly \<and> ip \<noteq> []")
  case True
  then show ?thesis by (elim disjE) (simp_all add: effectiveScope_def)
next
  case False
  then have "effectiveScope ip ja4 s = DeriveScope ip ja4" by (auto simp: effectiveScope_def)
  then show ?thesis by simp
qed

lemma upsert_fields [simp]:
  "g_held (snd (upsert v b m)) = g_held m" "g_lifted (snd (upsert v b m)) = g_lifted m" "g_mirror (snd (upsert v b m)) = g_mirror m"
  "g_egressFn (snd (upsert v b m)) = g_egressFn m" "g_whitelistFn (snd (upsert v b m)) = g_whitelistFn m" "g_duration (snd (upsert v b m)) = g_duration m"
  by (simp_all add: upsert_def upsertOn_def)

definition rewritten :: "Ban \<Rightarrow> Ban \<Rightarrow> Ban" where
  "rewritten b r = (if row_key (b_IP b) (b_JA4 b) (b_Scope b) r then b\<lparr>b_ID := b_ID r\<rparr> else r)"

lemma upsertOn_rows:
  "g_rows (upsertOn b m) =
     (if \<exists>r \<in> set (g_rows m). row_key (b_IP b) (b_JA4 b) (b_Scope b) r then map (rewritten b) (g_rows m)
      else g_rows m @ [b\<lparr>b_ID := g_nextID m\<rparr>])"
  by (simp add: upsertOn_def rewritten_def list_ex_iff)

lemma rewritten_key: "row_key (b_IP b) (b_JA4 b) (b_Scope b) r \<Longrightarrow> row_live now b \<Longrightarrow>
    row_key (b_IP b) (b_JA4 b) (b_Scope b) (rewritten b r) \<and> row_live now (rewritten b r)"
  by (simp add: rewritten_def row_key_def row_live_def)

lemma upsertOn_has:
  assumes "row_live now b"
  shows "table_has (b_IP b) (b_JA4 b) (b_Scope b) now (upsertOn b m)"
proof (cases "\<exists>r \<in> set (g_rows m). row_key (b_IP b) (b_JA4 b) (b_Scope b) r")
  case True
  then obtain r where r: "r \<in> set (g_rows m)" "row_key (b_IP b) (b_JA4 b) (b_Scope b) r" by blast
  then have "rewritten b r \<in> set (g_rows (upsertOn b m))" using True by (simp add: upsertOn_rows)
  with rewritten_key [OF r(2) assms] show ?thesis by (auto simp: table_has_def)
next
  case False
  then have "b\<lparr>b_ID := g_nextID m\<rparr> \<in> set (g_rows (upsertOn b m))" by (simp add: upsertOn_rows)
  moreover have "row_key (b_IP b) (b_JA4 b) (b_Scope b) (b\<lparr>b_ID := g_nextID m\<rparr>) \<and> row_live now (b\<lparr>b_ID := g_nextID m\<rparr>)"
    using assms by (simp add: row_key_def row_live_def)
  ultimately show ?thesis unfolding table_has_def by blast
qed

lemma upsertOn_keeps:
  assumes "row_live now b" "table_has ip ja4 scope now m"
  shows "table_has ip ja4 scope now (upsertOn b m)"
proof -
  obtain r where r: "r \<in> set (g_rows m)" "row_key ip ja4 scope r" "row_live now r" using assms(2) by (auto simp: table_has_def)
  show ?thesis
  proof (cases "row_key (b_IP b) (b_JA4 b) (b_Scope b) r")
    case True
    with r have "b_IP b = ip" "b_JA4 b = ja4" "b_Scope b = scope" by (auto simp: row_key_def)
    with upsertOn_has [OF assms(1), of m] show ?thesis by simp
  next
    case False
    then have "rewritten b r = r" by (simp add: rewritten_def)
    with r(1) have "r \<in> rewritten b ` set (g_rows m)" by (metis image_eqI)
    with r show ?thesis unfolding table_has_def upsertOn_rows by auto
  qed
qed

lemma set_live_rows: "g_lifted m = [] \<Longrightarrow> set (live_rows now m) = {b \<in> set (g_rows m). row_live now b}"
  by (auto simp: live_rows_def in_file_order_def)

lemma loadMirror_has:
  assumes "table_has ip ja4 scope now m" "g_lifted m = []" "key_settled ip ja4 scope" "v_now v = now" "mirror_has ip ja4 scope now m"
  shows "mirror_has ip ja4 scope now (snd (loadMirror v m))"
proof (cases "v_load v")
  case True
  obtain b where b: "b \<in> set (live_rows now m)" "row_key ip ja4 scope b" "row_live now b"
    using assms(1,2) by (auto simp: table_has_def set_live_rows)
  then have "same_key ip ja4 scope (row_entry b)" "live (row_entry b) now"
    using assms(3) by (auto simp: same_key_def row_entry_def row_key_def key_settled_def Let_def live_def row_live_def)
  with b(1) load_repr [of "map row_entry (live_rows now m)"] show ?thesis
    using True assms(4) by (auto simp: mirror_has_def loadMirror_def Let_def intro!: exI [of _ "map row_entry (live_rows now m)"])
next
  case False
  then show ?thesis using assms(5) by (simp add: loadMirror_def)
qed

text \<open>What the steps after a write keep: the ban stays in the table and in the mirror.\<close>

definition placed :: "string \<Rightarrow> string \<Rightarrow> string \<Rightarrow> int \<Rightarrow> Manager \<Rightarrow> bool" where
  "placed ip ja4 scope now m \<longleftrightarrow>
     g_lifted m = [] \<and> key_settled ip ja4 scope \<and> table_has ip ja4 scope now m \<and> mirror_has ip ja4 scope now m"

lemma placed_load: "placed ip ja4 scope (v_now v) m \<Longrightarrow> placed ip ja4 scope (v_now v) (snd (loadMirror v m))"
  using same_coreD [OF core_loadMirror [of m v]] loadMirror_has [of ip ja4 scope "v_now v" m v]
  by (simp add: placed_def table_has_def)

lemma placed_marks [simp]:
  "placed ip ja4 scope now (markDirty m) = placed ip ja4 scope now m"
  "placed ip ja4 scope now (announce a b c d e m) = placed ip ja4 scope now m"
  "placed ip ja4 scope now (m\<lparr>g_dirty := x\<rparr>) = placed ip ja4 scope now m"
  "placed ip ja4 scope now (m\<lparr>g_flushTimer := x\<rparr>) = placed ip ja4 scope now m"
  by (simp_all add: placed_def table_has_def mirror_has_def markDirty_def announce_def)

lemma placed_mirror_only:
  assumes "placed ip ja4 scope now m" "same_core m m'" "g_mirror m' = g_mirror m"
  shows "placed ip ja4 scope now m'"
  using assms by (simp add: placed_def table_has_def mirror_has_def same_core_def)

lemma placed_flush:
  assumes "placed ip ja4 scope (v_now v) m"
  shows "placed ip ja4 scope (v_now v) (snd (flush v m))"
proof -
  let ?m = "m\<lparr>g_dirty := False\<rparr>"
  have "placed ip ja4 scope (v_now v) (snd (loadMirror v ?m))" using assms by (intro placed_load) simp
  moreover have "same_core (snd (loadMirror v ?m)) m'" if "same_core ?m m'" for m'
    using that core_loadMirror [of ?m v] by (simp add: same_core_def)
  ultimately show ?thesis using flush_cases [of v m] assms by (auto intro: placed_mirror_only)
qed

lemma placed_requestFlush: "placed ip ja4 scope (v_now v) m \<Longrightarrow> placed ip ja4 scope (v_now v) (requestFlush v m)"
  by (simp add: requestFlush_def placed_flush)

lemma upsert_ban_has:
  assumes "live e now" "\<exists>x \<in> set xs. same_key ip ja4 scope x \<and> live x now"
  shows "\<exists>x \<in> set (upsert_ban xs e). same_key ip ja4 scope x \<and> live x now"
  using assms by (auto simp: upsert_ban_def same_key_def)

lemma mirrorPut_has:
  assumes "live e (v_now v)" "placed ip ja4 scope (v_now v) m"
  shows "placed ip ja4 scope (v_now v) (mirrorPut v e m)"
proof (cases "g_mirror m")
  case None
  then have "mirrorPut v e m = snd (loadMirror v m)" by (simp add: mirrorPut_def ensureMirror_def Let_def split_beta)
  then show ?thesis using placed_load [OF assms(2)] by simp
next
  case (Some mr)
  let ?ip = "normalizeIP (e_ip e)"
  let ?e = "e\<lparr>e_ip := ?ip, e_scope := effectiveScope ?ip (e_ja4 e) (e_scope e)\<rparr>"
  obtain xs where xs: "mirror_repr mr xs" "\<exists>x \<in> set xs. same_key ip ja4 scope x \<and> live x (v_now v)"
    using assms(2) Some by (auto simp: placed_def mirror_has_def)
  have "live ?e (v_now v)" using assms(1) by (simp add: live_def)
  from upsert_ban_has [OF this xs(2)] mirror_put_repr [OF xs(1), of ?e] show ?thesis
    using assms(2) Some by (auto simp: mirrorPut_def Let_def placed_def table_has_def mirror_has_def)
qed

lemma mirrorPut_places:
  assumes "live e (v_now v)" "g_lifted m = []" "key_settled (e_ip e) (e_ja4 e) (e_scope e)" "mirror_ok m"
    "table_has (e_ip e) (e_ja4 e) (e_scope e) (v_now v) m"
  shows "placed (e_ip e) (e_ja4 e) (e_scope e) (v_now v) (mirrorPut v e m)"
proof (cases "g_mirror m")
  case None
  then have "placed (e_ip e) (e_ja4 e) (e_scope e) (v_now v) m" using assms by (simp add: placed_def mirror_has_def)
  then show ?thesis using mirrorPut_has assms(1) by blast
next
  case (Some mr)
  then obtain xs where xs: "mirror_repr mr xs" using assms(4) by (auto simp: mirror_ok_def)
  have e: "e\<lparr>e_ip := normalizeIP (e_ip e), e_scope := effectiveScope (normalizeIP (e_ip e)) (e_ja4 e) (e_scope e)\<rparr> = e"
    using assms(3) by (simp add: key_settled_def)
  have "e \<in> set (upsert_ban xs e) \<and> same_key (e_ip e) (e_ja4 e) (e_scope e) e" by (simp add: upsert_ban_def same_key_def)
  then show ?thesis using Some assms mirror_put_repr [OF xs, of e] unfolding placed_def mirror_has_def mirrorPut_def Let_def e
    by (auto simp: table_has_def)
qed

lemma placed_wide:
  assumes "placed ip ja4 scope (v_now v) m" "expires = 0 \<or> expires > v_now v"
  shows "placed ip ja4 scope (v_now v) (place_wide v i source action reason now expires m)"
proof -
  let ?b = "\<lparr>b_ID = 0, b_IP = i, b_JA4 = [], b_Source = source, b_Reason = reason, b_BannedAt = now, b_ExpiresAt = expires,
     b_BannedBy = [], b_Action = action, b_Scope = ScopeIPOnly\<rparr>"
  have "placed ip ja4 scope (v_now v) (upsertOn ?b m)"
    using assms upsertOn_keeps [of "v_now v" ?b ip ja4 scope m] upsert_fields [of v ?b m]
    by (auto simp: placed_def mirror_has_def row_live_def upsertOn_def)
  then show ?thesis using assms
    by (auto simp: place_wide_def upsert_def live_def intro!: placed_requestFlush mirrorPut_has)
qed

lemma placed_escalateIP:
  "placed ip ja4 scope (v_now v) m \<Longrightarrow> expires = 0 \<or> expires > v_now v \<Longrightarrow> placed ip ja4 scope (v_now v) (escalateIP v i source action now expires m)"
  unfolding escalateIP_def Let_def by (auto simp: split_beta intro!: placed_wide)

lemma placed_escalate64:
  "placed ip ja4 scope (v_now v) m \<Longrightarrow> expires = 0 \<or> expires > v_now v \<Longrightarrow> placed ip ja4 scope (v_now v) (escalate64 v i source action now expires m)"
  unfolding escalate64_def Let_def by (auto simp: split_beta intro!: placed_wide split: option.split)

lemma no_slash_normalize: "CHR ''/'' \<notin> set ip \<Longrightarrow> CHR ''%'' \<notin> set ip \<Longrightarrow> CHR ''/'' \<notin> set (normalizeIP ip)"
proof -
  assume "CHR ''/'' \<notin> set ip" "CHR ''%'' \<notin> set ip"
  then have s: "CHR ''/'' \<notin> set (trim_space ip)" "CHR ''%'' \<notin> set (trim_space ip)" using set_trim_space by blast+
  have "CHR ''/'' \<notin> set (addr_string a)" if "parse_addr (trim_space ip) = Some a" for a
    using addr_string_chars [OF parse_addr_zone [OF that s(2)], of "CHR ''/''"] by (auto simp: numeric_def)
  then show ?thesis using s(1) by (auto simp: normalizeIP_def Let_def index_byte_None [THEN iffD2] split: option.splits)
qed

lemma no_slash_prefix: "CHR ''/'' \<notin> set ip \<Longrightarrow> parsePrefixKey ip = None"
  by (simp add: parsePrefixKey_def index_byte_None)

lemma covers_own_key:
  assumes "same_key ip ja4 (DeriveScope ip ja4) e" "ip \<noteq> []" "parsePrefixKey ip = None"
  shows "covers e ip ja4"
  using assms by (auto simp: covers_def same_key_def DeriveScope_def prefix_ban_def)

lemma heldMatches_own_key:
  assumes "held_key ip ja4 (DeriveScope ip ja4) h" "ip \<noteq> []" "parsePrefixKey ip = None"
  shows "heldMatches h ip ja4"
  using assms by (auto simp: heldMatches_def held_key_def DeriveScope_def effectiveScope_def Let_def)

lemma IsBanned_held:
  assumes "ip \<noteq> []" "h \<in> set (g_held m)" "h_expiresAt h = 0 \<or> h_expiresAt h > v_now v" "heldMatches h (normalizeIP ip) ja4"
  shows "IsBanned v ip ja4 m"
proof -
  have "heldMatch (v_now v) (normalizeIP ip) ja4 m \<noteq> None"
    unfolding heldMatch_def find_None_iff using assms by force
  then show ?thesis using assms(1) by (auto simp: IsBanned_def IsBannedActionSource_def Let_def)
qed

lemma IsBanned_mirror:
  assumes "ip \<noteq> []" "g_mirror m = Some mr" "mirror_repr mr xs" "e \<in> set xs" "live e (v_now v)" "\<not> mirror_skip m e" "covers e (normalizeIP ip) ja4"
  shows "IsBanned v ip ja4 m"
proof -
  have "mirror_match mr (normalizeIP ip) ja4 (v_now v) (mirror_skip m) \<noteq> None"
    using assms mirror_index.lookup_None [OF assms(3)] by (auto simp: in_force_def)
  then show ?thesis using assms(1,2)
    by (auto simp: IsBanned_def IsBannedActionSource_def mirrorMatch_def ensureMirror_def Let_def split: option.splits)
qed

lemma IsBanned_unloaded:
  assumes "g_mirror m = None" "v_load v"
  shows "IsBanned v ip ja4 m = IsBanned v ip ja4 (snd (loadMirror v m))"
proof -
  have h: "heldMatch now ip ja4 (snd (loadMirror v m)) = heldMatch now ip ja4 m" for now ip
    by (simp add: heldMatch_def loadMirror_def Let_def)
  have "mirrorMatch v ip ja4 m = mirrorMatch v ip ja4 (snd (loadMirror v m))" for ip
    using assms by (simp add: mirrorMatch_def ensureMirror_def loadMirror_def Let_def)
  with h show ?thesis by (simp add: IsBanned_def IsBannedActionSource_def Let_def split: option.splits prod.splits)
qed

lemma skip_clear: "g_lifted m = [] \<Longrightarrow> \<not> isEgress m (e_ip e) \<Longrightarrow> \<not> mirror_skip m e"
  by (simp add: mirror_skip_def)

lemma IsBanned_placed:
  assumes p: "placed (normalizeIP ip) ja4 (DeriveScope (normalizeIP ip) ja4) (v_now v) m" and l: "v_load v"
    and ip: "normalizeIP ip \<noteq> []" "ip \<noteq> []" "parsePrefixKey (normalizeIP ip) = None" and eg: "\<not> isEgress m (normalizeIP ip)"
  shows "IsBanned v ip ja4 m"
proof -
  have found: "IsBanned v ip ja4 m'" if m': "placed (normalizeIP ip) ja4 (DeriveScope (normalizeIP ip) ja4) (v_now v) m'"
    "g_mirror m' = Some mr" "\<not> isEgress m' (normalizeIP ip)" for m' mr
  proof -
    obtain xs e where "mirror_repr mr xs" "e \<in> set xs" "same_key (normalizeIP ip) ja4 (DeriveScope (normalizeIP ip) ja4) e" "live e (v_now v)"
      using m'(1,2) by (auto simp: placed_def mirror_has_def)
    moreover from this have "\<not> mirror_skip m' e" using m' by (intro skip_clear) (auto simp: placed_def same_key_def)
    ultimately show ?thesis using m'(2) ip covers_own_key by (intro IsBanned_mirror [of ip m' mr xs e]) auto
  qed
  show ?thesis
  proof (cases "g_mirror m")
    case None
    have "g_mirror (snd (loadMirror v m)) \<noteq> None" using l by (simp add: loadMirror_def Let_def)
    then show ?thesis using None l found [OF placed_load [OF p]] eg
      by (auto simp: IsBanned_unloaded isEgress_def same_coreD [OF core_loadMirror])
  qed (use found p eg in blast)
qed

lemma hold_keeps:
  assumes "length (g_held m) < heldBansMax"
  shows "\<exists>h \<in> set (g_held (snd (hold b m))). held_key (h_ip b) (h_ja4 b) (h_scope b) h \<and> h_expiresAt h = h_expiresAt b"
proof -
  have r: "refresh_held b hs = Some hs' \<Longrightarrow> \<exists>h \<in> set hs'. held_key (h_ip b) (h_ja4 b) (h_scope b) h \<and> h_expiresAt h = h_expiresAt b" for hs hs'
    by (induction hs arbitrary: hs') (auto simp: held_key_def split: if_splits)
  show ?thesis using r assms by (auto simp: hold_def held_key_def split: option.splits)
qed

lemma heldMatches_scope:
  assumes "h_ip h = ip" "h_ja4 h = ja4" "effectiveScope ip ja4 (h_scope h) = DeriveScope ip ja4" "ip \<noteq> []" "parsePrefixKey ip = None"
  shows "heldMatches h ip ja4"
  using assms by (auto simp: heldMatches_def DeriveScope_def Let_def)

lemma recentlyPlaced_found:
  assumes "recentlyPlaced m ip ja4 source action now" "mirror_ok m" "ip \<noteq> []"
  obtains (held) h where "h \<in> set (g_held m)" "h_ip h = ip" "h_ja4 h = ja4" "effectiveScope ip ja4 (h_scope h) = DeriveScope ip ja4"
      "h_expiresAt h = 0 \<or> h_expiresAt h > now"
    | (mirror) mr xs e where "g_mirror m = Some mr" "mirror_repr mr xs" "e \<in> set xs" "same_key ip ja4 (DeriveScope ip ja4) e" "live e now"
proof (cases "\<exists>h \<in> set (g_held m). h_ip h = ip \<and> h_ja4 h = ja4 \<and> effectiveScope ip ja4 (h_scope h) = DeriveScope ip ja4
    \<and> (h_expiresAt h = 0 \<or> h_expiresAt h > now)")
  case True
  then show ?thesis using held by blast
next
  case False
  obtain mr where mr: "g_mirror m = Some mr"
    using assms(1) False by (auto simp: recentlyPlaced_def Let_def held_entry_def live_def list_ex_iff split: option.splits if_splits)
  obtain xs where xs: "mirror_repr mr xs" using assms(2) mr by (auto simp: mirror_ok_def)
  have ix: "set (list_at (mr_tuple mr) k) \<subseteq> set xs" "set (list_at (mr_ja4 mr) k) \<subseteq> set xs" "set (list_at (mr_ip mr) k) \<subseteq> set xs" for k
    using xs by (auto simp: mirror_repr_def index_at)
  obtain e where "e \<in> set (list_at (mr_tuple mr) (tuple_key ip ja4)) \<union> set (list_at (mr_ja4 mr) ja4) \<union> set (list_at (mr_ip mr) ip)"
    "same_key ip ja4 (DeriveScope ip ja4) e" "live e now"
    using assms(1) False mr
    by (auto simp: recentlyPlaced_def Let_def held_entry_def live_def list_ex_iff same_key_def split: if_splits)
  then show ?thesis using mirror [OF mr xs] ix by blast
qed

lemma expiry_live: "in64 (v_now v + secs) \<Longrightarrow> expiry v secs = 0 \<or> expiry v secs > v_now v"
  by (simp add: expiry_def)

lemma isEgress_core: "same_core m m' \<Longrightarrow> isEgress m' ip = isEgress m ip"
  by (simp add: same_core_def isEgress_def)

lemma egressFn_wide: "g_egressFn (place_wide v i s a r n x m) = g_egressFn m"
proof -
  have "g_egressFn (announce i [] s r [] (requestFlush v (markDirty (mirrorPut v e m')))) = g_egressFn m'" for e m'
    by (metis core_announce core_markDirty core_mirrorPut core_requestFlush same_core_def)
  then show ?thesis using upsert_fields(4) by (auto simp: place_wide_def upsert_def upsertOn_def split: bool.splits prod.splits)
qed

lemma egressFn_escalate [simp]:
  "g_egressFn (escalateIP v i s a n x m) = g_egressFn m" "g_egressFn (escalate64 v i s a n x m) = g_egressFn m"
  by (simp_all add: escalateIP_def escalate64_def Let_def split_beta egressFn_wide split: option.split)

lemma written_places:
  assumes "mirror_ok m" "g_lifted m = []" "key_settled (b_IP b) (b_JA4 b) (b_Scope b)" "row_live (v_now v) b"
  shows "placed (b_IP b) (b_JA4 b) (b_Scope b) (v_now v) (written v b (upsertOn b m))"
proof -
  have "placed (e_ip (ban_entry b)) (e_ja4 (ban_entry b)) (e_scope (ban_entry b)) (v_now v) (mirrorPut v (ban_entry b) (upsertOn b m))"
    using assms upsertOn_has [OF assms(4), of m]
    by (intro mirrorPut_places) (auto simp: ban_entry_def live_def row_live_def mirror_ok_def upsertOn_def)
  then show ?thesis by (simp add: written_def ban_entry_def placed_requestFlush)
qed

text \<open>What is asked of the client's address: it has a text, is no prefix and names no zone.\<close>

definition client_address :: "string \<Rightarrow> bool" where
  "client_address ip \<longleftrightarrow> normalizeIP ip \<noteq> [] \<and> CHR ''/'' \<notin> set ip \<and> CHR ''%'' \<notin> set ip"

lemma client_addressD:
  assumes "client_address ip"
  shows "ip \<noteq> []" "normalizeIP ip \<noteq> []" "parsePrefixKey (normalizeIP ip) = None" "normalizeIP (normalizeIP ip) = normalizeIP ip"
proof -
  have "normalizeIP [] = []" by code_simp
  then show "ip \<noteq> []" using assms by (auto simp: client_address_def)
  show "normalizeIP ip \<noteq> []" using assms by (simp add: client_address_def)
  show "parsePrefixKey (normalizeIP ip) = None"
    using assms no_slash_normalize no_slash_prefix by (auto simp: client_address_def)
  show "normalizeIP (normalizeIP ip) = normalizeIP ip"
    using assms by (simp add: client_address_def normalizeIP_idem)
qed

lemma IsBanned_kept:
  assumes ip: "client_address ip" and full: "length (g_held m) < heldBansMax"
    and b: "h_ip b = normalizeIP ip" "h_ja4 b = ja4" "h_scope b = DeriveScope (normalizeIP ip) ja4" "h_expiresAt b = 0 \<or> h_expiresAt b > v_now v"
    and c: "same_core (snd (hold b m)) m'"
  shows "IsBanned v ip ja4 m'"
proof -
  obtain h where h: "h \<in> set (g_held m')" "held_key (normalizeIP ip) ja4 (DeriveScope (normalizeIP ip) ja4) h" "h_expiresAt h = h_expiresAt b"
    using hold_keeps [OF full, of b] c b by (auto simp: same_core_def)
  then have "heldMatches h (normalizeIP ip) ja4" using client_addressD [OF ip] by (intro heldMatches_own_key) auto
  then show ?thesis using h b(4) client_addressD [OF ip] by (intro IsBanned_held [of ip h]) auto
qed

lemma IsBanned_recent:
  assumes ip: "client_address ip" and m: "mirror_ok m" "g_lifted m = []" "\<not> isEgress m (normalizeIP ip)"
    and r: "recentlyPlaced m (normalizeIP ip) ja4 source action (v_now v)"
  shows "IsBanned v ip ja4 m"
  using r m(1) client_addressD(2) [OF ip]
proof (cases rule: recentlyPlaced_found)
  case (held h)
  then show ?thesis using client_addressD [OF ip] heldMatches_scope [of h "normalizeIP ip" ja4] by (intro IsBanned_held [of ip h]) auto
next
  case (mirror mr xs e)
  then show ?thesis using client_addressD [OF ip] covers_own_key [of "normalizeIP ip" ja4 e] m(2,3)
    by (intro IsBanned_mirror [of ip m mr xs e]) (auto simp: mirror_skip_def same_key_def)
qed

lemma IsBanned_repeatTrips [simp]: "IsBanned v ip ja4 (m\<lparr>g_repeatTrips := n\<rparr>) = IsBanned v ip ja4 m"
proof -
  have l: "live_rows now (m\<lparr>g_repeatTrips := n\<rparr>) = live_rows now m" for now by (simp add: live_rows_def)
  have e: "isEgress (m\<lparr>g_repeatTrips := n\<rparr>) = isEgress m" "mirror_skip (m\<lparr>g_repeatTrips := n\<rparr>) = mirror_skip m"
    by (auto simp: isEgress_def mirror_skip_def fun_eq_iff)
  have s: "mirror_skip (m\<lparr>g_repeatTrips := n, g_mirror := mr\<rparr>) = mirror_skip (m\<lparr>g_mirror := mr\<rparr>)" for mr
    by (auto simp: isEgress_def mirror_skip_def fun_eq_iff)
  have "heldMatch now i ja4 (m\<lparr>g_repeatTrips := n\<rparr>) = heldMatch now i ja4 m" for now i by (simp add: heldMatch_def)
  moreover have "fst (mirrorMatch v i ja4 (m\<lparr>g_repeatTrips := n\<rparr>)) = fst (mirrorMatch v i ja4 m)" for i
    using e s by (simp add: mirrorMatch_def ensureMirror_def loadMirror_def Let_def l split: option.splits)
  moreover have "table_match v i ja4 (snd (mirrorMatch v i ja4 (m\<lparr>g_repeatTrips := n\<rparr>))) = table_match v i ja4 (snd (mirrorMatch v i ja4 m))" for i
    by (simp add: mirrorMatch_def ensureMirror_def loadMirror_def table_match_def isEgress_def Let_def split: option.splits)
  ultimately show ?thesis
    by (simp add: IsBanned_def IsBannedActionSource_def Let_def split_beta split: option.splits)
qed

lemma ban_placed_holds:
  assumes ok: "mgr_ok m" "g_lifted m = []" "length (g_held m) < heldBansMax" "v_load v" and ip: "client_address ip"
    and out: "\<not> isWhitelisted m (normalizeIP ip)" "\<not> isEgress m (normalizeIP ip)" and t: "in64 (v_now v + g_duration m)"
  shows "IsBanned v ip (trim_space ja4) (AddWithSourceAction v ip ja4 source reason bannedBy action m)"
proof -
  let ?ip = "normalizeIP ip" and ?j = "trim_space ja4" and ?x = "expiry v (g_duration m)"
  let ?sc = "DeriveScope ?ip ?j"
  let ?b = "ban_row v ?ip ?j source reason bannedBy (trim_space action) ?sc ?x"
  let ?recent = "bannedBy = [] \<and> recentlyPlaced m ?ip ?j source (trim_space action) (v_now v)"
  let ?m' = "AddWithSourceAction v ip ja4 source reason bannedBy action m"
  have mok: "mirror_ok m" using ok(1) by (simp add: mgr_ok_def)
  note ipD = client_addressD [OF ip]
  have x: "?x = 0 \<or> ?x > v_now v" using t by (rule expiry_live)
  consider (recent) "?recent" | (hold) "\<not> ?recent" "v_held v \<or> \<not> v_write v ?ip ?j ?sc"
    | (through) "\<not> ?recent" "\<not> v_held v" "v_write v ?ip ?j ?sc" by blast
  then show ?thesis
  proof cases
    case recent
    then have "?m' = m\<lparr>g_repeatTrips := g_repeatTrips m + 1\<rparr>" using out ipD by (simp add: AddWithSourceAction_def Let_def)
    moreover have "IsBanned v ip ?j m" using recent by (intro IsBanned_recent [OF ip mok ok(2) out(2)]) auto
    ultimately show ?thesis by simp
  next
    case hold
    have core: "same_core h (requestFlush v (markDirty h))" "same_core h (wakeLoop (markDirty h))" for h
      by (meson core_markDirty core_requestFlush same_core_trans) (simp add: wakeLoop_def markDirty_def same_core_def)
    have "same_core (snd (hold (ban_held ?b False) m)) ?m'"
      using hold out ipD core by (auto simp: AddWithSourceAction_def Let_def upsert_def ban_row_def)
    then show ?thesis using x by (intro IsBanned_kept [OF ip ok(3)]) (auto simp: ban_held_def ban_row_def)
  next
    case through
    let ?w = "written v ?b (upsertOn ?b m)"
    have w: "placed ?ip ?j ?sc (v_now v) ?w"
      using written_places [OF mok ok(2), of ?b v] ipD x by (simp add: ban_row_def row_live_def key_settled_def)
    have "placed ?ip ?j ?sc (v_now v) ?m' \<and> g_egressFn ?m' = g_egressFn ?w"
      using through out ipD w x
      by (auto simp: AddWithSourceAction_def Let_def upsert_def ban_row_def intro!: placed_escalate64 placed_escalateIP)
    moreover have "isEgress ?w ?ip = isEgress m ?ip"
      using isEgress_core [OF core_written [of "upsertOn ?b m" v ?b]] by (simp add: isEgress_def upsertOn_def)
    ultimately show ?thesis using ok(4) ipD out(2) by (intro IsBanned_placed) (auto simp: isEgress_def)
  qed
qed

section \<open>Properties\<close>

text \<open>
  C14: a ban takes hold the moment it is placed. Whatever the database does with the write
  (takes it, refuses it, is held by a schema update), once \<open>AddWithSourceAction\<close> has run
  for a client that is neither on the bypass list nor a CDN's egress, the check answers
  banned for that client at that instant, provided the list of kept bans is not full, no
  unban is pending and the table can be read.\<close>

theorem ban_in_force_at_once:
  assumes ok: "mgr_ok m" "g_lifted m = []" "length (g_held m) < heldBansMax" "v_load v" and ip: "client_address ip"
    and out: "\<not> isWhitelisted m (normalizeIP ip)" "\<not> isEgress m (normalizeIP ip)" and t: "in64 (v_now v + g_duration m)"
  shows "IsBanned v ip (trim_space ja4) (AddWithSourceAction v ip ja4 source reason bannedBy action m)"
  using assms by (rule ban_placed_holds)

text \<open>A manager with an empty table, and a quiet moment, for evaluation.\<close>

definition exManager :: Manager where
  "exManager = New [] 1 True 3600"

definition exMoment :: BanEnv where
  "exMoment = \<lparr>v_now = 1000, v_clock = 0, v_held = False, v_write = (\<lambda>_ _ _. True), v_delete = (\<lambda>_. True),
     v_load = True, v_query = True, v_file = True\<rparr>"

lemma exManager_ok: "mgr_ok exManager"
  by (simp add: mgr_ok_def mirror_ok_def table_ok_def held_ok_def exManager_def New_def)

theorem ban_in_force_at_once_witness:
  "IsBanned exMoment ''2001:DB8::1'' ''t13d''
     (AddWithSourceAction exMoment ''2001:DB8::1'' ''t13d'' SourceHoneypot [] [] [] exManager)"
proof -
  have "client_address ''2001:DB8::1''" by code_simp
  moreover have "trim_space ''t13d'' = ''t13d''" by code_simp
  moreover have "g_lifted exManager = []" "length (g_held exManager) < heldBansMax"
    "\<not> isWhitelisted exManager (normalizeIP ''2001:DB8::1'')" "\<not> isEgress exManager (normalizeIP ''2001:DB8::1'')"
    "in64 (v_now exMoment + g_duration exManager)" "v_load exMoment"
    by (simp_all add: exManager_def New_def heldBansMax_def isWhitelisted_def isEgress_def exMoment_def in64_def)
  ultimately show ?thesis
    using ban_in_force_at_once [OF exManager_ok, of exMoment "''2001:DB8::1''" "''t13d''" SourceHoneypot "[]" "[]" "[]"] by simp
qed

text \<open>
  a kept ban whose write fails at the end of the hold is lost. While a schema update
  holds the writes, a ban is kept and the check answers banned; once the hold ends,
  \<open>writeHeld\<close> takes every ban of its copy off the list, the ones whose upsert failed
  included, so the client is neither kept, nor in the table, nor banned.\<close>

lemma failed_write_loses_kept_ban:
  "let kept = AddWithSourceAction (exMoment\<lparr>v_held := True\<rparr>) ''203.0.113.9'' ''t13d'' SourceHoneypot [] [] [] exManager;
       after = writeHeld (exMoment\<lparr>v_write := (\<lambda>_ _ _. False)\<rparr>) kept
   in IsBanned exMoment ''203.0.113.9'' ''t13d'' kept
      \<and> g_held after = [] \<and> g_rows after = [] \<and> \<not> IsBanned exMoment ''203.0.113.9'' ''t13d'' after"
  by code_simp

text \<open>
  a client banned again between the end of a hold and the loop's next pass loses the ban.
  An operator lifts a row during the hold; the hold ends; the operator bans the client
  again, which rewrites the lifted row; the write of the file that follows leaves the row
  out, so the check answers not banned, and the loop's next pass deletes it.\<close>

lemma reban_of_lifted_row_is_lost:
  "let m1 = snd (AddManual exMoment ''203.0.113.9'' ''t13d'' [] ''admin'' [] 0 exManager);
       m2 = snd (Remove (exMoment\<lparr>v_held := True, v_clock := 10 ^ 10\<rparr>) 1 m1);
       (err, m3) = AddManual (exMoment\<lparr>v_clock := 2 * 10 ^ 10\<rparr>) ''203.0.113.9'' ''t13d'' [] ''admin'' [] 0 m2;
       m4 = loop_tick (exMoment\<lparr>v_clock := 3 * 10 ^ 10\<rparr>) m3
   in IsBanned exMoment ''203.0.113.9'' ''t13d'' m1 \<and> err = None
      \<and> \<not> IsBanned exMoment ''203.0.113.9'' ''t13d'' m3 \<and> g_rows m4 = [] \<and> \<not> IsBanned exMoment ''203.0.113.9'' ''t13d'' m4"
  by code_simp

section \<open>Every operation keeps the invariant\<close>

lemma mgr_okI_core: "mgr_ok m \<Longrightarrow> same_core m m' \<Longrightarrow> mirror_ok m' \<Longrightarrow> mgr_ok m'"
  by (rule mgr_ok_core)

lemma mgr_ok_load: "mgr_ok m \<Longrightarrow> mgr_ok (snd (loadMirror v m))"
  by (rule mgr_ok_core) (auto simp: mgr_ok_def mirror_ok_load)

lemma mgr_ok_ensure: "mgr_ok m \<Longrightarrow> mgr_ok (snd (ensureMirror v m))"
  by (rule mgr_ok_core) (auto simp: mgr_ok_def mirror_ok_ensure)

lemma mgr_ok_put: "mgr_ok m \<Longrightarrow> mgr_ok (mirrorPut v e m)"
  by (rule mgr_ok_core) (auto simp: mgr_ok_def mirror_ok_put)

lemma mgr_ok_flush: "mgr_ok m \<Longrightarrow> mgr_ok (snd (flush v m))"
  by (rule mgr_ok_core) (auto simp: mgr_ok_def mirror_ok_flush)

lemma mgr_ok_requestFlush: "mgr_ok m \<Longrightarrow> mgr_ok (requestFlush v m)"
  by (rule mgr_ok_core) (auto simp: mgr_ok_def mirror_ok_requestFlush)

lemma mgr_ok_fields [simp]:
  "mgr_ok (markDirty m) = mgr_ok m" "mgr_ok (announce a b c d e m) = mgr_ok m" "mgr_ok (wakeLoop m) = mgr_ok m"
  "mgr_ok (m\<lparr>g_flushTimer := x\<rparr>) = mgr_ok m" "mgr_ok (m\<lparr>g_wake := x\<rparr>) = mgr_ok m" "mgr_ok (m\<lparr>g_lifted := y\<rparr>) = mgr_ok m"
  "mgr_ok (m\<lparr>g_heldFull := x\<rparr>) = mgr_ok m" "mgr_ok (m\<lparr>g_repeatTrips := z\<rparr>) = mgr_ok m"
  "mgr_ok (m\<lparr>g_actionResolver := r\<rparr>) = mgr_ok m" "mgr_ok (m\<lparr>g_whitelistFn := w\<rparr>) = mgr_ok m" "mgr_ok (m\<lparr>g_egressFn := g\<rparr>) = mgr_ok m"
  by (simp_all add: mgr_ok_def mirror_ok_def table_ok_def held_ok_def markDirty_def announce_def wakeLoop_def)

lemma mgr_ok_written: "mgr_ok m \<Longrightarrow> mgr_ok (written v b m)"
  by (simp add: written_def mgr_ok_requestFlush mgr_ok_put)

lemma rewritten_ids: "map b_ID (map (rewritten b) rs) = map b_ID rs" "map row_id_key (map (rewritten b) rs) = map row_id_key rs"
  by (auto simp: rewritten_def row_key_def row_id_key_def)

lemma mgr_ok_upsertOn:
  assumes "mgr_ok m"
  shows "mgr_ok (upsertOn b m)"
proof -
  have t: "table_ok m" using assms by (simp add: mgr_ok_def)
  have "table_ok (upsertOn b m)"
  proof (cases "\<exists>r \<in> set (g_rows m). row_key (b_IP b) (b_JA4 b) (b_Scope b) r")
    case True
    then have "g_rows (upsertOn b m) = map (rewritten b) (g_rows m)" "g_nextID (upsertOn b m) = g_nextID m"
      by (simp_all add: upsertOn_rows) (simp add: upsertOn_def list_ex_iff)
    then show ?thesis using t rewritten_ids [of b "g_rows m"] by (auto simp: table_ok_def rewritten_def simp del: map_map)
  next
    case False
    then have "g_rows (upsertOn b m) = g_rows m @ [b\<lparr>b_ID := g_nextID m\<rparr>]" "g_nextID (upsertOn b m) = g_nextID m + 1"
      by (simp_all add: upsertOn_rows) (simp add: upsertOn_def list_ex_iff)
    moreover have "(b_IP b, b_JA4 b, b_Scope b) \<notin> row_id_key ` set (g_rows m)" using False by (auto simp: row_key_id)
    ultimately show ?thesis using t by (auto simp: table_ok_def row_id_key_def)
  qed
  then show ?thesis using assms by (auto simp: mgr_ok_def mirror_ok_def held_ok_def upsertOn_def)
qed

lemma mgr_ok_upsert: "mgr_ok m \<Longrightarrow> mgr_ok (snd (upsert v b m))"
  by (simp add: upsert_def mgr_ok_upsertOn)

lemma refresh_held_None: "refresh_held b hs = None \<longleftrightarrow> held_id_key b \<notin> held_id_key ` set hs"
  by (induction hs) (auto simp: held_key_def held_id_key_def)

lemma refresh_held_keys: "refresh_held b hs = Some hs' \<Longrightarrow> map held_id_key hs' = map held_id_key hs"
  by (induction hs arbitrary: hs') (auto simp: held_key_def held_id_key_def split: if_splits)

lemma mgr_ok_hold:
  assumes "mgr_ok m"
  shows "mgr_ok (snd (hold b m))"
proof -
  have "held_ok (snd (hold b m))"
  proof (cases "refresh_held b (g_held m)")
    case None
    with assms refresh_held_None [of b "g_held m"] show ?thesis by (auto simp: hold_def held_ok_def mgr_ok_def)
  next
    case (Some hs)
    from refresh_held_keys [OF this] have "map held_id_key hs = map held_id_key (g_held m)" .
    moreover from this have "length hs = length (g_held m)" by (rule map_eq_imp_length_eq)
    ultimately show ?thesis using Some assms by (simp add: hold_def held_ok_def mgr_ok_def)
  qed
  then show ?thesis using assms by (auto simp: hold_def mgr_ok_def table_ok_def mirror_ok_def split: option.splits)
qed

lemma mgr_ok_rows_filter: "mgr_ok m \<Longrightarrow> mgr_ok (m\<lparr>g_rows := filter P (g_rows m)\<rparr>)"
  by (auto simp: mgr_ok_def table_ok_def mirror_ok_def held_ok_def distinct_map_filter)

lemma mgr_ok_held_filter: "mgr_ok m \<Longrightarrow> mgr_ok (m\<lparr>g_held := filter P (g_held m)\<rparr>)"
  using order_trans [OF length_filter_le [of P "g_held m"]]
  by (simp add: mgr_ok_def table_ok_def mirror_ok_def held_ok_def distinct_map_filter)

lemma mgr_ok_wide: "mgr_ok m \<Longrightarrow> mgr_ok (place_wide v i s a r n x m)"
  by (simp add: place_wide_def upsert_def mgr_ok_requestFlush mgr_ok_put mgr_ok_upsertOn)

lemma mgr_ok_escalate: "mgr_ok m \<Longrightarrow> mgr_ok (escalateIP v i s a n x m)" "mgr_ok m \<Longrightarrow> mgr_ok (escalate64 v i s a n x m)"
  by (simp_all add: escalateIP_def escalate64_def Let_def split_beta mgr_ok_wide split: option.split)

lemmas mgr_ok_steps = mgr_ok_requestFlush mgr_ok_written mgr_ok_upsertOn mgr_ok_hold mgr_ok_escalate mgr_ok_flush mgr_ok_load

lemma mgr_ok_AddWithSourceAction: "mgr_ok m \<Longrightarrow> mgr_ok (AddWithSourceAction v ip ja4 source reason bannedBy action m)"
  by (simp add: AddWithSourceAction_def Let_def upsert_def mgr_ok_steps)

text \<open>The control structure of an operation: a binding, a branch, the outcome of an upsert.\<close>

lemma mgr_ok_control:
  "mgr_ok m0 \<Longrightarrow> (\<And>m'. mgr_ok m' \<Longrightarrow> mgr_ok (k m')) \<Longrightarrow> mgr_ok (Let m0 k)"
  "(\<And>x. mgr_ok (f x)) \<Longrightarrow> mgr_ok (Let a f)"
  "mgr_ok m1 \<Longrightarrow> mgr_ok m2 \<Longrightarrow> mgr_ok (if c then m1 else m2)"
  "mgr_ok m \<Longrightarrow> (\<And>m'. mgr_ok m' \<Longrightarrow> mgr_ok (g m')) \<Longrightarrow> (\<And>m'. mgr_ok m' \<Longrightarrow> mgr_ok (h m')) \<Longrightarrow>
     mgr_ok (case upsert v b m of (True, m') \<Rightarrow> g m' | (False, m') \<Rightarrow> h m')"
  by (simp_all add: upsert_def mgr_ok_upsertOn)

lemma mgr_ok_AddAuto: "mgr_ok m \<Longrightarrow> mgr_ok (AddAuto v ip ja4 scope source reason action secs m)"
  unfolding AddAuto_def by (intro mgr_ok_control) (simp_all add: keep_ban_def mgr_ok_steps)

lemma mgr_ok_AddManual:
  assumes "mgr_ok m"
  shows "mgr_ok (snd (AddManualWithScope v ip ja4 scope reason bannedBy action secs m))"
proof -
  have "mgr_ok m'" if "hold b m = (ok, m')" for b ok m'
    using mgr_ok_hold [OF assms, of b] that by simp
  then show ?thesis using assms
    by (auto simp: AddManualWithScope_def Let_def upsert_def mgr_ok_steps split: sum.split prod.split bool.split)
qed

lemma mgr_ok_Remove: "mgr_ok m \<Longrightarrow> mgr_ok (snd (Remove v i m))"
  by (simp add: Remove_def Let_def reloadMirror_def mgr_ok_steps mgr_ok_rows_filter)

lemma mgr_ok_edit:
  assumes "mgr_ok m" "\<not> (\<exists>b \<in> set (g_rows m). row_key ip ja4 scope b \<and> b_ID b \<noteq> i)"
    and f: "\<And>b. b_ID (f b) = b_ID b \<and> row_id_key (f b) = (if b_ID b = i \<and> P b then (ip, ja4, scope) else row_id_key b)"
  shows "mgr_ok (m\<lparr>g_rows := map f (g_rows m)\<rparr>)"
proof -
  have t: "distinct (map row_id_key (g_rows m))" "distinct (map b_ID (g_rows m))" "\<forall>b \<in> set (g_rows m). b_ID b < g_nextID m"
    using assms(1) by (auto simp: mgr_ok_def table_ok_def)
  have ids: "map b_ID (map f (g_rows m)) = map b_ID (g_rows m)" using f by simp
  have inj: "inj_on row_id_key (set (g_rows m))" "inj_on b_ID (set (g_rows m))" using t by (simp_all add: distinct_map)
  have "inj_on (\<lambda>b. row_id_key (f b)) (set (g_rows m))"
  proof (rule inj_onI)
    fix a b
    assume ab: "a \<in> set (g_rows m)" "b \<in> set (g_rows m)" "row_id_key (f a) = row_id_key (f b)"
    have other: "row_id_key c \<noteq> (ip, ja4, scope) \<or> b_ID c = i" if "c \<in> set (g_rows m)" for c
      using that assms(2) by (auto simp: row_key_id)
    show "a = b"
    proof (cases "b_ID a = b_ID b")
      case True
      then show ?thesis using inj(2) ab by (auto dest: inj_onD)
    next
      case False
      then have "row_id_key a = row_id_key b"
        using ab(3) f [of a] f [of b] other [OF ab(1)] other [OF ab(2)] by (auto split: if_splits)
      then show ?thesis using inj(1) ab by (auto dest: inj_onD)
    qed
  qed
  then have "distinct (map row_id_key (map f (g_rows m)))" using t(1) by (simp add: distinct_map o_def)
  moreover have "distinct (map b_ID (map f (g_rows m)))" using t(2) ids by (simp only:)
  ultimately show ?thesis using assms(1) t(3) f by (auto simp: mgr_ok_def table_ok_def mirror_ok_def held_ok_def)
qed

lemma mgr_ok_UpdateManual:
  assumes "mgr_ok m"
  shows "mgr_ok (snd (UpdateManual v i ip ja4 scope reason action secs m))"
proof -
  have "mgr_ok (m\<lparr>g_rows := map (\<lambda>b. if b_ID b = i \<and> b_Source b = SourceManual
      then b\<lparr>b_IP := ip', b_JA4 := ja4', b_Reason := reason, b_ExpiresAt := expiry v secs, b_Action := trim_space action, b_Scope := scope'\<rparr>
      else b) (g_rows m)\<rparr>)"
    if "\<not> list_ex (\<lambda>b. row_key ip' ja4' scope' b \<and> b_ID b \<noteq> i) (g_rows m)" for ip' ja4' scope'
    by (rule mgr_ok_edit [OF assms, where P = "\<lambda>b. b_Source b = SourceManual"])
      (use that in \<open>auto simp: list_ex_iff row_id_key_def\<close>)
  then show ?thesis using assms
    by (simp add: UpdateManual_def Let_def reloadMirror_def mgr_ok_steps split: sum.split)
qed

lemma drop_first_filter: "\<exists>P'. drop_first P xs = filter P' xs" if "distinct (map f xs)"
proof -
  have "drop_first P xs = filter (\<lambda>x. \<not> (\<exists>y. find P xs = Some y \<and> f x = f y)) xs"
    using that by (induction xs) (auto intro!: filter_cong [symmetric] filter_True [symmetric] dest!: find_Some_iff2, metis imageI)
  then show ?thesis by blast
qed

lemma mgr_ok_DropHeld:
  assumes "mgr_ok m"
  shows "mgr_ok (snd (DropHeld v ip ja4 scope m))"
proof -
  have "mgr_ok (m\<lparr>g_held := drop_first P (g_held m)\<rparr>)" for P
    using drop_first_filter [of held_id_key "g_held m" P] assms mgr_ok_held_filter [OF assms]
    by (auto simp: mgr_ok_def held_ok_def)
  then show ?thesis by (simp add: DropHeld_def Let_def mgr_ok_steps)
qed

lemma mgr_ok_fold:
  assumes "\<And>x st. mgr_ok (snd st) \<Longrightarrow> mgr_ok (snd (f x st))" "mgr_ok (snd st)"
  shows "mgr_ok (snd (fold f xs st))"
  using assms(2)
proof (induction xs arbitrary: st)
  case (Cons x xs)
  then show ?case using Cons.IH [OF assms(1) [OF Cons.prems]] by simp
qed simp

lemma mgr_ok_delete_lifted: "mgr_ok (snd st) \<Longrightarrow> mgr_ok (snd (delete_lifted v i st))"
  using mgr_ok_rows_filter [of "snd st" "\<lambda>b. b_ID b \<noteq> i"]
  by (auto simp: delete_lifted_def mgr_ok_def table_ok_def mirror_ok_def held_ok_def split: prod.splits)

lemma mgr_ok_write_held: "mgr_ok (snd st) \<Longrightarrow> mgr_ok (snd (write_held_ban v h st))"
  by (auto simp: write_held_ban_def upsert_def mgr_ok_upsertOn split: prod.splits)

lemma mgr_ok_writeHeld: "mgr_ok m \<Longrightarrow> mgr_ok (writeHeld v m)"
  using mgr_ok_fold [of "delete_lifted v" "(0, m)" "g_lifted m"]
    mgr_ok_fold [of "write_held_ban v" "(0, snd (fold (delete_lifted v) (g_lifted m) (0, m)))" "g_held m"]
  by (simp add: writeHeld_def Let_def split_beta reloadMirror_def mgr_ok_delete_lifted mgr_ok_write_held mgr_ok_steps mgr_ok_held_filter)

lemma mgr_ok_prune: "mgr_ok m \<Longrightarrow> mgr_ok (snd (prune v m))"
  by (simp add: prune_def Let_def mgr_ok_rows_filter)

lemma mgr_ok_loop: "mgr_ok m \<Longrightarrow> mgr_ok (loop_tick v m)" "mgr_ok m \<Longrightarrow> mgr_ok (loop_wake v m)"
  by (simp_all add: loop_tick_def loop_wake_def Let_def split_beta mgr_ok_writeHeld mgr_ok_prune mgr_ok_flush)

lemma mgr_ok_check: "mgr_ok m \<Longrightarrow> mgr_ok (snd (IsBannedActionSource v ip ja4 m))"
  using mgr_ok_ensure [of m v]
  by (auto simp: IsBannedActionSource_def mirrorMatch_def Let_def split_beta split: option.splits)

inductive ban_step :: "Manager \<Rightarrow> Manager \<Rightarrow> bool" where
  step_add: "ban_step m (AddWithSourceAction v ip ja4 source reason bannedBy action m)"
| step_auto: "ban_step m (AddAuto v ip ja4 scope source reason action secs m)"
| step_manual: "ban_step m (snd (AddManualWithScope v ip ja4 scope reason bannedBy action secs m))"
| step_update: "ban_step m (snd (UpdateManual v i ip ja4 scope reason action secs m))"
| step_remove: "ban_step m (snd (Remove v i m))"
| step_drop: "ban_step m (snd (DropHeld v ip ja4 scope m))"
| step_flushHeld: "ban_step m (FlushHeld v m)"
| step_timer: "ban_step m (flushTimerFires v m)"
| step_tick: "ban_step m (loop_tick v m)"
| step_wake: "ban_step m (loop_wake v m)"
| step_check: "ban_step m (snd (IsBannedActionSource v ip ja4 m))"
| step_resolver: "ban_step m (SetActionResolver r m)"
| step_whitelist: "ban_step m (SetWhitelist w m)"
| step_egress: "ban_step m (SetEgress g m)"

definition ban_start :: "Manager \<Rightarrow> bool" where
  "ban_start m \<longleftrightarrow> (\<exists>rows nextID hasFile duration. m = New rows nextID hasFile duration \<and> table_ok m)"

interpretation ban_manager: invariant_system ban_start ban_step mgr_ok
proof
  show "ban_start m \<Longrightarrow> mgr_ok m" for m
    by (auto simp: ban_start_def mgr_ok_def mirror_ok_def held_ok_def New_def)
  show "mgr_ok m \<Longrightarrow> ban_step m m' \<Longrightarrow> mgr_ok m'" for m m'
    by (erule ban_step.cases)
      (auto simp: mgr_ok_AddWithSourceAction mgr_ok_AddAuto mgr_ok_AddManual mgr_ok_UpdateManual mgr_ok_Remove mgr_ok_DropHeld
        FlushHeld_def mgr_ok_writeHeld flushTimerFires_def mgr_ok_flush mgr_ok_loop mgr_ok_check SetActionResolver_def SetWhitelist_def SetEgress_def)
qed

text \<open>
  C16: whatever operations run, in any order and with any writes, reads and file writes
  failing, the manager keeps its invariant: the mirror's indexes agree with one list of
  bans, the table has one row per (ip, ja4, scope) and distinct ids, and the kept bans
  stay within their limit with one entry per key.\<close>

theorem ban_manager_invariant:
  assumes "reachable ban_start ban_step m"
  shows "(\<forall>mr. g_mirror m = Some mr \<longrightarrow> (\<exists>xs. mirror_repr mr xs))
     \<and> distinct (map row_id_key (g_rows m)) \<and> distinct (map b_ID (g_rows m))
     \<and> length (g_held m) \<le> heldBansMax \<and> distinct (map held_id_key (g_held m))"
  using ban_manager.reachable_inv [OF assms] by (simp add: mgr_ok_def mirror_ok_def table_ok_def held_ok_def)

lemma exManager_start: "ban_start exManager"
  unfolding ban_start_def exManager_def by (intro exI [of _ "[]"] exI) (simp add: table_ok_def New_def)

theorem ban_manager_invariant_witness:
  "let m = AddWithSourceAction exMoment ''203.0.113.9'' ''t13d'' SourceHoneypot [] [] [] exManager
   in reachable ban_start ban_step m \<and> distinct (map row_id_key (g_rows m)) \<and> length (g_held m) \<le> heldBansMax"
proof -
  let ?m = "AddWithSourceAction exMoment ''203.0.113.9'' ''t13d'' SourceHoneypot [] [] [] exManager"
  have r: "reachable ban_start ban_step ?m"
    by (rule reachable_step [where step = ban_step, OF reachable_init [where init = ban_start, OF exManager_start] step_add])
  then show ?thesis using ban_manager_invariant [OF r] unfolding Let_def by blast
qed

section \<open>Kept bans and the mirror\<close>











definition exKeptBan :: heldBan where
  "exKeptBan = \<lparr>h_ip = ''203.0.113.9'', h_ja4 = ''t13d'', h_source = SourceHoneypot, h_reason = [], h_bannedBy = [], h_action = [],
     h_scope = ScopeIPJA4, h_bannedAt = 1000, h_expiresAt = 4600, h_announced = False\<rparr>"




definition exKeptWide :: heldBan where
  "exKeptWide = exKeptBan\<lparr>h_ja4 := [], h_scope := ScopeIPOnly, h_action := ''pow_only''\<rparr>"

text \<open>
  kept bans are searched in the order they arrived, not in the mirror's order. With an
  address-wide ban kept before a ban on the tuple, the search of the kept bans returns the
  address-wide one, while the mirror given the same two bans returns the tuple's.\<close>

lemma kept_bans_match_in_arrival_order:
  "heldMatch 1000 ''203.0.113.9'' ''t13d'' (exManager\<lparr>g_held := [exKeptWide, exKeptBan]\<rparr>) = Some exKeptWide
   \<and> mirror_match (foldl mirror_put newMirror (map held_entry [exKeptWide, exKeptBan])) ''203.0.113.9'' ''t13d'' 1000 (\<lambda>_. False)
       = Some (held_entry exKeptBan)"
proof
  show "heldMatch 1000 ''203.0.113.9'' ''t13d'' (exManager\<lparr>g_held := [exKeptWide, exKeptBan]\<rparr>) = Some exKeptWide" by code_simp
  show "mirror_match (foldl mirror_put newMirror (map held_entry [exKeptWide, exKeptBan])) ''203.0.113.9'' ''t13d'' 1000 (\<lambda>_. False)
      = Some (held_entry exKeptBan)" by code_simp
qed

section \<open>The file\<close>

lemma first_of_key_spec:
  "distinct (map l_key (first_of_key seen ls)) \<and> set (map l_key (first_of_key seen ls)) \<inter> set seen = {}
   \<and> (\<forall>l. l \<in> set (first_of_key seen ls) \<longleftrightarrow> l_key l \<notin> set seen \<and> find (\<lambda>x. l_key x = l_key l) ls = Some l)"
proof (induction seen ls rule: first_of_key.induct)
  case (2 seen l ls)
  then show ?case by (cases "l_key l \<in> set seen") (auto split: if_splits)
qed simp

lemma line_of_key: "l_key (line_of m e) = banKey (e_ip e) (e_ja4 e) (e_scope e)"
  by (simp add: line_of_def split_beta)

text \<open>
  a file that was written holds exactly the bans in force. Its keys are strictly
  ascending, as the module's binary search needs; a line is there exactly when it is the
  line of the first ban on its key among the kept bans and then the table's unexpired
  rows, leaving out the lifted ones and automatic bans on a CDN's egress.\<close>

lemma flush_writes_bans_in_force:
  assumes "g_hasFile m" "flush v m = (True, m')"
  shows "sorted (map l_key (g_file m')) \<and> distinct (map l_key (g_file m'))
    \<and> (\<forall>l. l \<in> set (g_file m') \<longleftrightarrow>
         (\<exists>e. find (\<lambda>x. banKey (e_ip x) (e_ja4 x) (e_scope x) = l_key l)
                (filter (\<lambda>x. \<not> on_egress m x) (enforced_list (v_now v) m (map row_entry (live_rows (v_now v) m)))) = Some e
              \<and> l = line_of m e))"
proof -
  let ?es = "filter (\<lambda>x. \<not> on_egress m x) (enforced_list (v_now v) m (map row_entry (live_rows (v_now v) m)))"
  let ?ls = "first_of_key [] (map (line_of m) ?es)"
  have "g_file m' = sort_key l_key ?ls"
  proof -
    have fields: "on_egress (m\<lparr>g_dirty := a, g_mirror := b, g_egressSkipped := c\<rparr>) = on_egress m"
      "on_egress (m\<lparr>g_dirty := a, g_mirror := b\<rparr>) = on_egress m"
      "line_of (m\<lparr>g_dirty := a, g_mirror := b, g_egressSkipped := c\<rparr>) = line_of m"
      "enforced_list now (m\<lparr>g_dirty := a, g_mirror := b\<rparr>) = enforced_list now m"
      "live_rows now (m\<lparr>g_dirty := a\<rparr>) = live_rows now m" for a b c now
      by (auto simp: on_egress_def isEgress_def line_of_def resolve_line_def enforced_list_def live_rows_def fun_eq_iff)
    show ?thesis using assms by (auto simp: flush_def loadMirror_def Let_def file_lines_def fields split: if_splits)
  qed
  moreover have "find (\<lambda>x. l_key x = k) (map (line_of m) ?es) = map_option (line_of m) (find (\<lambda>x. banKey (e_ip x) (e_ja4 x) (e_scope x) = k) ?es)" for k
    by (simp add: find_map o_def line_of_key)
  moreover have "mset (map l_key (sort_key l_key ?ls)) = mset (map l_key ?ls)" by simp
  then have "distinct (map l_key (sort_key l_key ?ls)) = distinct (map l_key ?ls)" by (rule mset_eq_imp_distinct_iff)
  ultimately show ?thesis using first_of_key_spec [of "[]" "map (line_of m) ?es"] by auto
qed

end
