(* ===== verification/Ban_Check.thy ===== *)
theory Ban_Check
  imports Auth_Check Ban_Manager
begin

text \<open>
  The check endpoint wired to the ban manager: \<open>banDecide\<close> asks the manager, without a
  fingerprint, before anything else, and a honeypot trip of the same request places its ban
  through \<open>AddWithSourceAction\<close>. What one request records decides the next.
\<close>

definition banDecide :: "BanEnv \<Rightarrow> string \<Rightarrow> Settings \<Rightarrow> Manager \<Rightarrow> axisDecision option \<times> Manager" where
  "banDecide v ip cfg mgr =
     (let (found, mgr) = IsBannedActionSource v ip [] mgr in
      (case found of None \<Rightarrow> None | Some (rowAction, src) \<Rightarrow> Some (banDecideFromSource rowAction src (s_Nginx cfg)), mgr))"

definition record_trip :: "BanEnv \<Rightarrow> BanAdd option \<Rightarrow> Manager \<Rightarrow> Manager" where
  "record_trip v trip mgr =
     (case trip of None \<Rightarrow> mgr
      | Some b \<Rightarrow> AddWithSourceAction v (ba_ip b) [] (ba_source b) (ba_reason b) [] (ba_action b) mgr)"

text \<open>One request: the environment's ban fields are the manager's answers.\<close>

definition CheckRequest :: "BanEnv \<Rightarrow> int \<Rightarrow> Catalog \<Rightarrow> Classify \<Rightarrow> Settings \<Rightarrow> CookiePolicy \<Rightarrow> Env \<Rightarrow> AuthInput \<Rightarrow> Limiter option \<Rightarrow> Manager
    \<Rightarrow> AuthResult \<times> Manager" where
  "CheckRequest v rlNow c k cfg p e a rl mgr =
     (let (found, mgr) = IsBannedActionSource v (a_ip a) [] mgr;
          R = AuthCheck (v_now v) rlNow c k cfg p (e\<lparr>e_hasBanMgr := True, e_ban := found\<rparr>) a rl
      in (R, record_trip v (res_ban R) mgr))"

section \<open>Lemmas\<close>

lemma banDecide_first:
  "decide now c k cfg (e\<lparr>e_hasBanMgr := True, e_ban := fst (IsBannedActionSource v (a_ip a) [] mgr)\<rparr>) m a bv rl =
     (case fst (banDecide v (a_ip a) cfg mgr) of
        Some d \<Rightarrow> (terminal_verdict d, rl, None)
      | None \<Rightarrow> decide now c k cfg (e\<lparr>e_hasBanMgr := True, e_ban := None\<rparr>) m a bv rl)"
  by (cases "fst (IsBannedActionSource v (a_ip a) [] mgr)")
    (auto simp: banDecide_def decide_def split_beta Let_def)

lemma trip_is_the_client: "res_ban (AuthCheck u now c k cfg p e a rl) = Some b \<Longrightarrow> ba_ip b = a_ip a"
  by (auto simp: AuthCheck_def decide_def collect_votes_def honeypotDecide_def Let_def split_beta
      split: option.splits if_splits prod.splits)

lemma banned_not_passed:
  assumes "e_ban e = Some found"
  shows "res_recorded (AuthCheck u now c k cfg p e a rl) \<noteq> Pass
    \<and> (e_observeOnly e \<or> r_action (res_response (AuthCheck u now c k cfg p e a rl)) \<noteq> Pass)"
proof -
  let ?m = "bypassMatchers c (s_Nginx cfg) (a_site a) (e_ipBypass e) (e_rangePats e)"
  let ?bv = "map_option snd (pickValidBV u p (a_ip a) (a_bvHost a) (a_bvCookies a))"
  let ?d = "decide now c k cfg e ?m a ?bv rl"
  let ?zones = "ResolveZonesAll (c_rex c) (s_RateLimit cfg) (a_uri a) (a_site a)"
  let ?r = "rate_limit now a ?zones (fst ?d) (fst (snd ?d))"
  have "v_action (fst ?d) \<noteq> Pass" using assms by (simp add: decide_def Let_def split: prod.splits)
  then have np: "v_action (fst ?r) \<noteq> Pass" using rate_limit_passes [of now a ?zones "fst ?d" "fst (snd ?d)"] by simp
  have "r_action (respond ob v t) = (if ob then Pass else v_action v)" for ob v t by (cases "v_action v") (simp_all add: respond_def Let_def)
  then show ?thesis using np by (simp add: AuthCheck_def Let_def split_def)
qed

lemma core_check: "same_core m (snd (IsBannedActionSource v ip ja4 m))"
  using core_ensureMirror [of m v]
  by (auto simp: IsBannedActionSource_def mirrorMatch_def Let_def split_beta split: option.splits)


section \<open>Properties\<close>

text \<open>
  C13: a client that tripped a honeypot is stopped from its next request on. When a checked
  request places a ban, every later check of that address in the same instant records a
  challenge or a block, and answers one outside monitor mode, whatever the path, the user
  agent, the pass cookies, signatures and allowlists of the request: the ban is read first.\<close>

theorem honeypot_trip_stops_the_client:
  assumes mgr: "mgr_ok mgr" "g_lifted mgr = []" "length (g_held mgr) < heldBansMax" "v_load v" "in64 (v_now v + g_duration mgr)"
    and ip: "client_address (a_ip a)" "\<not> isWhitelisted mgr (normalizeIP (a_ip a))" "\<not> isEgress mgr (normalizeIP (a_ip a))"
    and trip: "CheckRequest v rlNow c k cfg p e a rl mgr = (R, mgr')" "res_ban R \<noteq> None"
    and later: "a_ip a' = a_ip a" "R' = fst (CheckRequest v rlNow' c k cfg p e' a' rl' mgr')"
  shows "res_recorded R' \<noteq> Pass \<and> (e_observeOnly e' \<or> r_action (res_response R') \<noteq> Pass)"
proof -
  let ?m = "snd (IsBannedActionSource v (a_ip a) [] mgr)"
  obtain b where b: "res_ban R = Some b" using trip(2) by auto
  have "ba_ip b = a_ip a" using trip(1) b by (auto simp: CheckRequest_def Let_def split_beta dest: trip_is_the_client)
  then have m': "mgr' = AddWithSourceAction v (a_ip a) [] (ba_source b) (ba_reason b) [] (ba_action b) ?m"
    using trip(1) b by (auto simp: CheckRequest_def Let_def split_beta record_trip_def)
  note core = same_coreD [OF core_check [of mgr v "a_ip a" "[]"]]
  have empty: "trim_space [] = []" by code_simp
  have "IsBanned v (a_ip a) (trim_space []) mgr'"
    unfolding m' using mgr ip core mgr_ok_check [OF mgr(1), of v "a_ip a" "[]"]
    by (intro ban_placed_holds) (auto simp: isWhitelisted_def isEgress_def)
  then obtain found where "fst (IsBannedActionSource v (a_ip a') [] mgr') = Some found"
    using later(1) empty by (auto simp: IsBanned_def)
  then show ?thesis using banned_not_passed [of "e'\<lparr>e_hasBanMgr := True, e_ban := Some found\<rparr>" found "v_now v" rlNow' c k cfg p a' rl'] later(2)
    by (simp add: CheckRequest_def Let_def split_beta)
qed

definition exPolicy :: CookiePolicy where
  "exPolicy = \<lparr>p_secret = ''s'', p_powValid = 3600, p_captchaValid = 3600, p_difficulty = 18\<rparr>"

theorem honeypot_trip_stops_the_client_witness:
  "let (R, mgr') = CheckRequest exMoment 0 exCatalog exClassify exSettings exPolicy exEnv (exInput ''Mozilla'' ''/.env'') None exManager
   in res_ban R \<noteq> None
    \<and> res_recorded (fst (CheckRequest exMoment 0 exCatalog exClassify exSettings exPolicy exEnv (exInput ''Googlebot'' ''/'') None mgr')) \<noteq> Pass"
proof -
  let ?check = "CheckRequest exMoment 0 exCatalog exClassify exSettings exPolicy exEnv"
  obtain R mgr' where c: "?check (exInput ''Mozilla'' ''/.env'') None exManager = (R, mgr')" by (metis prod.exhaust)
  have f: "fst (IsBannedActionSource exMoment ''192.0.2.1'' [] exManager) = None" by code_simp
  have "res_ban (AuthCheck 1000 0 exCatalog exClassify exSettings exPolicy (exEnv\<lparr>e_hasBanMgr := True, e_ban := None\<rparr>)
      (exInput ''Mozilla'' ''/.env'') None) \<noteq> None" by code_simp
  then have b: "res_ban R \<noteq> None" using c f by (auto simp: CheckRequest_def Let_def split_beta exMoment_def exInput_def)
  have "client_address ''192.0.2.1''" by code_simp
  then have "res_recorded (fst (?check (exInput ''Googlebot'' ''/'') None mgr')) \<noteq> Pass"
    using honeypot_trip_stops_the_client [OF exManager_ok _ _ _ _ _ _ _ c b, of "exInput ''Googlebot'' ''/''" _ 0 exEnv None]
    by (simp add: exInput_def exManager_def New_def heldBansMax_def isWhitelisted_def isEgress_def exMoment_def in64_def)
  then show ?thesis using b by (simp add: c)
qed

end
