(* ===== verification/Cdn.thy ===== *)
theory Cdn
  imports Go_Netip_Text "HOL-Library.List_Lexorder" "HOL-Library.Char_ord"
begin

text \<open>
  The table of CDN egress ranges (\<open>cdn/cdn.go\<close>): a document of prefixes per vendor is
  compiled into sorted, non-overlapping spans, an address is looked up by bisection, and a
  pulled document replaces the table in use only when it is neither older nor much smaller.
  The order of addresses (\<open>netip.Addr.Less\<close>) is an instance of \<open>linorder\<close>; the
  JSON decoder and the RFC 3339 parser are outside the model, which starts from the decoded
  document with its time as seconds, \<open>None\<close> for the zero time.
\<close>

section \<open>The order of addresses\<close>

text \<open>
  \<open>Addr.Compare\<close>: the family first (the bit length), then the bytes as a big-endian
  number, which on equal lengths is the lexicographic order, then the zone.
\<close>

instantiation addr :: linorder
begin

definition less_eq_addr :: "addr \<Rightarrow> addr \<Rightarrow> bool" where
  "less_eq_addr a b \<longleftrightarrow> (if is4 a \<noteq> is4 b then is4 a
     else addr_bytes a < addr_bytes b \<or> addr_bytes a = addr_bytes b \<and> zone a \<le> zone b)"

definition less_addr :: "addr \<Rightarrow> addr \<Rightarrow> bool" where
  "less_addr a b \<longleftrightarrow> (if is4 a \<noteq> is4 b then is4 a
     else addr_bytes a < addr_bytes b \<or> addr_bytes a = addr_bytes b \<and> zone a < zone b)"

instance
proof
  fix a b c :: addr
  show "a < b \<longleftrightarrow> a \<le> b \<and> \<not> b \<le> a" by (auto simp: less_addr_def less_eq_addr_def)
  show "a \<le> a" by (simp add: less_eq_addr_def)
  show "a \<le> b \<Longrightarrow> b \<le> c \<Longrightarrow> a \<le> c" by (auto simp: less_eq_addr_def split: if_splits)
  show "a \<le> b \<Longrightarrow> b \<le> a \<Longrightarrow> a = b" by (cases a; cases b) (auto simp: less_eq_addr_def split: if_splits)
  show "a \<le> b \<or> b \<le> a" by (auto simp: less_eq_addr_def)
qed

end

section \<open>Bisection\<close>

text \<open>\<open>sort.Search\<close>: the loop of the standard library.\<close>

function bisect :: "(nat \<Rightarrow> bool) \<Rightarrow> nat \<Rightarrow> nat \<Rightarrow> nat" where
  "bisect f i j = (if i < j then let h = (i + j) div 2 in if \<not> f h then bisect f (Suc h) j else bisect f i h else i)"
  by pat_completeness auto
termination
  by (relation "measure (\<lambda>(f, i, j). j - i)") (auto simp: Let_def)

declare bisect.simps [simp del]

definition sort_Search :: "nat \<Rightarrow> (nat \<Rightarrow> bool) \<Rightarrow> nat" where
  "sort_Search n f = bisect f 0 n"

lemma bisect_first:
  assumes "i \<le> j" "\<And>k. k < i \<Longrightarrow> \<not> f k" "\<And>k. j \<le> k \<Longrightarrow> k < n \<Longrightarrow> f k"
    "\<And>k l. k \<le> l \<Longrightarrow> l < n \<Longrightarrow> f k \<Longrightarrow> f l" "j \<le> n"
  shows "bisect f i j \<le> n \<and> (\<forall>k < n. f k \<longleftrightarrow> bisect f i j \<le> k)"
  using assms
proof (induction f i j rule: bisect.induct)
  case (1 f i j)
  show ?case
  proof (cases "i < j")
    case False
    with "1.prems" show ?thesis by (subst (1 2) bisect.simps) (auto simp: not_less le_antisym intro: leI)
  next
    case True
    let ?h = "(i + j) div 2"
    have h: "i \<le> ?h" "?h < j" using True by auto
    show ?thesis
    proof (cases "f ?h")
      case True
      have "bisect f i ?h \<le> n \<and> (\<forall>k < n. f k \<longleftrightarrow> bisect f i ?h \<le> k)"
        using "1.prems" h True by (intro "1.IH"(2)) (auto simp: \<open>i < j\<close>)
      then show ?thesis using \<open>i < j\<close> True by (subst (1 2) bisect.simps) simp
    next
      case False
      have "bisect f (Suc ?h) j \<le> n \<and> (\<forall>k < n. f k \<longleftrightarrow> bisect f (Suc ?h) j \<le> k)"
        using "1.prems" h False by (intro "1.IH"(1)) (auto simp: \<open>i < j\<close> less_Suc_eq_le)
      then show ?thesis using \<open>i < j\<close> False by (subst (1 2) bisect.simps) simp
    qed
  qed
qed

lemma sort_Search_first:
  assumes "\<And>k l. k \<le> l \<Longrightarrow> l < n \<Longrightarrow> f k \<Longrightarrow> f l"
  shows "sort_Search n f \<le> n \<and> (\<forall>k < n. f k \<longleftrightarrow> sort_Search n f \<le> k)"
  unfolding sort_Search_def by (rule bisect_first) (use assms in auto)

section \<open>The table\<close>

text \<open>\<open>lastAddr\<close>: every bit from the prefix length on is set; the address has no zone.\<close>

definition lastAddr :: "ip_prefix \<Rightarrow> addr" where
  "lastAddr p =
     (let b = addr_bytes (p_addr p);
          b = fold (\<lambda>i b. b[i div 8 := or (b ! (i div 8)) (2 ^ (7 - i mod 8))]) [p_bits p..<length b * 8] b
      in if is4 (p_addr p) then V4 b else V6 b [])"

record cdn_entry =
  ce_Name :: string
  ce_Source :: string
  ce_Ranges :: "string list"

record Doc =
  d_SchemaVersion :: int
  d_GeneratedAt :: "int option"
  d_CDNs :: "(string, cdn_entry) amap"

record span =
  sp_p :: ip_prefix
  sp_lo :: addr
  sp_hi :: addr
  sp_hit :: string

record Table =
  t_spans :: "span list"
  t_ranges :: "(string, string list) amap"
  t_GeneratedAt :: "int option"
  t_Prefixes :: nat
  t_Vendors :: nat
  t_Snapshot :: bool

definition SchemaVersion :: int where
  "SchemaVersion = 1"

definition key_char :: "char \<Rightarrow> bool" where
  "key_char c = (let v = of_char c :: nat in 97 \<le> v \<and> v \<le> 122 \<or> 65 \<le> v \<and> v \<le> 90 \<or> 48 \<le> v \<and> v \<le> 57
     \<or> c = CHR ''.'' \<or> c = CHR ''_'' \<or> c = CHR ''-'')"

definition validKey :: "string \<Rightarrow> bool" where
  "validKey i \<longleftrightarrow> i \<noteq> [] \<and> length i \<le> 64 \<and> list_all key_char i"

text \<open>One listed range: masked, and a mapped IPv4 range as the IPv4 range it is.\<close>

definition compile_range :: "string \<Rightarrow> ip_prefix option" where
  "compile_range s =
     (case parse_prefix (trim_space s) of None \<Rightarrow> None
      | Some p \<Rightarrow>
          let p = masked p in
          Some (if is4in6 (p_addr p) then \<lparr>p_addr = unmap (p_addr p), p_bits = p_bits p - 96\<rparr> else p))"

definition compile_ranges :: "string list \<Rightarrow> ip_prefix list" where
  "compile_ranges ss = List.map_filter compile_range ss"

definition span_of :: "string \<Rightarrow> ip_prefix \<Rightarrow> span" where
  "span_of i p = \<lparr>sp_p = p, sp_lo = p_addr p, sp_hi = lastAddr p, sp_hit = i\<rparr>"

definition doc_ids :: "Doc \<Rightarrow> string list" where
  "doc_ids doc = sort (filter validKey (map fst (d_CDNs doc)))"

definition entry_of :: "Doc \<Rightarrow> string \<Rightarrow> cdn_entry" where
  "entry_of doc i = (case map_of (d_CDNs doc) i of Some e \<Rightarrow> e | None \<Rightarrow> \<lparr>ce_Name = [], ce_Source = [], ce_Ranges = []\<rparr>)"

definition doc_spans :: "Doc \<Rightarrow> span list" where
  "doc_spans doc = concat (map (\<lambda>i. map (span_of i) (compile_ranges (ce_Ranges (entry_of doc i)))) (doc_ids doc))"

definition same_family :: "addr \<Rightarrow> addr \<Rightarrow> bool" where
  "same_family a b \<longleftrightarrow> is4 a = is4 b"

text \<open>
  The overlap pass: a span that starts inside the last one kept is dropped. The sort is by
  the start alone; spans with the same start overlap, and which of them is kept is the
  sort's choice. The model's sort is stable.
\<close>

fun keep_first :: "span option \<Rightarrow> span list \<Rightarrow> span list" where
  "keep_first prev [] = []"
| "keep_first prev (s # ss) =
     (case prev of
        Some l \<Rightarrow> if same_family (sp_lo l) (sp_lo s) \<and> \<not> sp_hi l < sp_lo s then keep_first prev ss else s # keep_first (Some s) ss
      | None \<Rightarrow> s # keep_first (Some s) ss)"

definition Compile :: "Doc \<Rightarrow> Table option" where
  "Compile doc =
     (if d_SchemaVersion doc \<noteq> SchemaVersion then None
      else let out = keep_first None (sort_key sp_lo (doc_spans doc));
               listed = map (\<lambda>i. (i, map prefix_string (compile_ranges (ce_Ranges (entry_of doc i))))) (doc_ids doc);
               carried = filter (\<lambda>ir. snd ir \<noteq> []) listed
           in Some \<lparr>t_spans = out, t_ranges = carried, t_GeneratedAt = d_GeneratedAt doc, t_Prefixes = length out,
                    t_Vendors = length carried, t_Snapshot = False\<rparr>)"

definition starts_after :: "addr \<Rightarrow> span \<Rightarrow> bool" where
  "starts_after a s \<longleftrightarrow> (if is4 (sp_lo s) \<noteq> is4 a then \<not> is4 (sp_lo s) else a < sp_lo s)"

definition Lookup :: "Table \<Rightarrow> addr \<Rightarrow> string option" where
  "Lookup t a =
     (let a = unmap a; i = sort_Search (length (t_spans t)) (\<lambda>i. starts_after a (t_spans t ! i)) in
      if i = 0 then None
      else let s = t_spans t ! (i - 1) in
           if \<not> same_family (sp_lo s) a \<or> sp_hi s < a then None else Some (sp_hit s))"

definition Ranges :: "Table \<Rightarrow> string \<Rightarrow> string list" where
  "Ranges t i = (case map_of (t_ranges t) i of Some rs \<Rightarrow> rs | None \<Rightarrow> [])"

definition VendorIDs :: "Table \<Rightarrow> string list" where
  "VendorIDs t = sort (map fst (t_ranges t))"

section \<open>The table in use\<close>

definition ParsePrefixes :: "string list \<Rightarrow> ip_prefix list" where
  "ParsePrefixes strs =
     List.map_filter (\<lambda>s. case parse_prefix (trim_space s) of Some p \<Rightarrow> Some (masked p)
       | None \<Rightarrow> (case parse_addr (trim_space s) of None \<Rightarrow> None
           | Some a \<Rightarrow> Some (masked \<lparr>p_addr = without_zone a, p_bits = (if is4 a then 32 else 128)\<rparr>))) strs"

definition Custom :: string where
  "Custom = ''custom''"

text \<open>\<open>current\<close> is the hub document installed, if any; the built-in snapshot stands in.\<close>

definition Active :: "Table \<Rightarrow> Table option \<Rightarrow> Table" where
  "Active snapshot current = (case current of Some t \<Rightarrow> t | None \<Rightarrow> snapshot)"

definition cdn_Match :: "Table \<Rightarrow> string \<Rightarrow> ip_prefix list \<Rightarrow> string option" where
  "cdn_Match active ip extra =
     (case parse_addr (trim_space ip) of None \<Rightarrow> None
      | Some a \<Rightarrow>
          let a = unmap a in
          case Lookup active a of Some h \<Rightarrow> Some h
          | None \<Rightarrow> if list_ex (\<lambda>p. prefix_contains p a) extra then Some Custom else None)"

datatype IngestError = ErrParse | ErrRollback | ErrShrunk | ErrWrite

text \<open>
  \<open>Ingest\<close>: the pulled document decoded, \<open>None\<close> when it does not decode; \<open>written\<close> tells
  whether the copy could be written. The share \<open>MinRetention\<close> is one half, so the
  comparison in floating point is the one on the doubled counts.
\<close>

definition Ingest :: "bool \<Rightarrow> Table \<Rightarrow> Doc option \<Rightarrow> Table option \<Rightarrow> IngestError option \<times> Table option" where
  "Ingest written snapshot doc current =
     (case doc of None \<Rightarrow> (Some ErrParse, current)
      | Some d \<Rightarrow>
        (case Compile d of None \<Rightarrow> (Some ErrParse, current)
         | Some t \<Rightarrow>
             let cur = Active snapshot current in
             if (case (t_GeneratedAt t, t_GeneratedAt cur) of (Some g, Some g') \<Rightarrow> g < g' | _ \<Rightarrow> False) then (Some ErrRollback, current)
             else if 2 * t_Prefixes t < t_Prefixes cur then (Some ErrShrunk, current)
             else if \<not> written then (Some ErrWrite, current)
             else (None, Some t)))"

section \<open>A prefix is a span\<close>

fun fill_bytes :: "nat \<Rightarrow> nat list \<Rightarrow> nat list" where
  "fill_bytes n [] = []"
| "fill_bytes n (v # vs) = (if n \<ge> 8 then v # fill_bytes (n - 8) vs else or v (2 ^ (8 - n) - 1) # fill_bytes 0 vs)"

definition set_bits :: "nat list \<Rightarrow> nat list \<Rightarrow> nat list" where
  "set_bits is b = fold (\<lambda>i b. b[i div 8 := or (b ! (i div 8)) (2 ^ (7 - i mod 8))]) is b"

lemma set_bits_tail: "set_bits (map ((+) 8) is) (v # vs) = v # set_bits is vs"
proof (induction "is" arbitrary: vs)
  case (Cons i "is")
  have "(8 + i) div 8 = Suc (i div 8)" by simp
  with Cons show ?case by (simp add: set_bits_def del: div_add_self1)
qed (simp add: set_bits_def)

lemma set_bits_head:
  assumes "n < 8"
  shows "set_bits [n..<8] (v # vs) = or v (2 ^ (8 - n) - 1) # vs"
proof -
  have "n = 0 \<or> n = 1 \<or> n = 2 \<or> n = 3 \<or> n = 4 \<or> n = 5 \<or> n = 6 \<or> n = 7" using assms by linarith
  then show ?thesis by (elim disjE) (simp_all add: set_bits_def upt_conv_Cons or.assoc)
qed

lemma set_bits_fill: "set_bits [n..<length b * 8] b = fill_bytes n b"
proof (induction b arbitrary: n)
  case (Cons v vs)
  have shift: "[8 + k..<8 + m] = map ((+) 8) [k..<m]" for k m
    using map_add_upt [of 8 "m - k"] by (intro nth_equalityI) auto
  show ?case
  proof (cases "n \<ge> 8")
    case True
    then have "[n..<8 + length vs * 8] = map ((+) 8) [n - 8..<length vs * 8]" using shift [of "n - 8"] by simp
    with True Cons show ?thesis by (simp add: set_bits_tail add.commute)
  next
    case False
    then have "[n..<8 + length vs * 8] = [n..<8] @ map ((+) 8) [0..<length vs * 8]"
      using shift [of 0 "length vs * 8"] upt_add_eq_append [of n 8 "length vs * 8"] by simp
    moreover have "set_bits (is @ js) b = set_bits js (set_bits is b)" for "is" js b by (simp add: set_bits_def)
    ultimately show ?thesis using False Cons set_bits_head [of n v vs] by (simp add: set_bits_tail add.commute)
  qed
qed (simp add: set_bits_def)

lemma or_low_bits: "or (w * 2 ^ k) (2 ^ k - 1) = w * 2 ^ k + (2 ^ k - 1 :: nat)"
proof -
  have "or (push_bit k w) (mask k) = push_bit k w + mask k" for w :: nat
    by (rule disjunctive_add [symmetric]) (auto simp: bit_push_bit_iff bit_mask_iff)
  then show ?thesis by (simp add: push_bit_eq_mult mask_eq_exp_minus_1)
qed

lemma masked_byte_range:
  assumes "mask_byte n v = v" "x < 256" "n \<le> 8"
  shows "mask_byte n x = v \<longleftrightarrow> v \<le> x \<and> x \<le> or v (2 ^ (8 - n) - 1)"
proof -
  let ?k = "8 - n"
  let ?w = "v div 2 ^ ?k"
  have v: "v = ?w * 2 ^ ?k" using assms(1) by (simp add: mask_byte_def)
  then have o: "or v (2 ^ ?k - 1) = ?w * 2 ^ ?k + (2 ^ ?k - 1)" using or_low_bits [of ?w ?k] by simp
  have pos: "(0::nat) < 2 ^ ?k" by simp
  have "mask_byte n x = v \<longleftrightarrow> x div 2 ^ ?k = ?w" using v pos by (metis mask_byte_def nonzero_mult_div_cancel_right less_numeral_extra(3))
  also have "\<dots> \<longleftrightarrow> ?w * 2 ^ ?k \<le> x \<and> x < (?w + 1) * 2 ^ ?k"
    using pos by (metis Suc_eq_plus1 div_nat_eqI dividend_less_times_div div_times_less_eq_dividend mult.commute mult_Suc)
  also have "\<dots> \<longleftrightarrow> v \<le> x \<and> x < v + 2 ^ ?k" using v by (simp add: algebra_simps)
  also have "\<dots> \<longleftrightarrow> v \<le> x \<and> x \<le> or v (2 ^ ?k - 1)" using o v pos by (metis Nat.add_diff_assoc Suc_leI Suc_pred' One_nat_def add_gr_0 less_Suc_eq_le)
  finally show ?thesis .
qed

lemma masked_bytes_range:
  assumes "mask_bytes n b = b" "length x = length b" "\<forall>v \<in> set x. v < 256" "\<forall>v \<in> set b. v < 256"
  shows "mask_bytes n x = b \<longleftrightarrow> b \<le> x \<and> x \<le> fill_bytes n b"
  using assms
proof (induction n b arbitrary: x rule: mask_bytes.induct)
  case (2 n v vs)
  then obtain y ys where x: "x = y # ys" by (cases x) auto
  have len: "length (fill_bytes m vs) = length vs" for m by (induction m vs rule: fill_bytes.induct) auto
  show ?case
  proof (cases "n \<ge> 8")
    case True
    with 2 x show ?thesis by auto
  next
    case False
    have tail: "mask_bytes 0 vs = vs" using "2.prems"(1) False by simp
    have all: "mask_bytes 0 zs = replicate (length zs) 0" if "\<forall>v \<in> set zs. v < 256" for zs
      using mask_bytes_bytes [of zs 0] that by simp
    have "mask_bytes 0 ys = vs" using all [of ys] all [of vs] "2.prems" tail x by simp
    moreover have "vs \<le> ys \<and> ys \<le> fill_bytes 0 vs"
      using "2.IH"(2) [OF False tail, of ys] "2.prems" x calculation by simp
    moreover have "mask_byte n y = v \<longleftrightarrow> v \<le> y \<and> y \<le> or v (2 ^ (8 - n) - 1)"
      using "2.prems" x False by (intro masked_byte_range) auto
    ultimately show ?thesis using x False by auto
  qed
qed auto

lemma compile_range_ok:
  assumes "compile_range s = Some p"
  shows "range_ok p"
proof -
  obtain q where q: "parse_prefix (trim_space s) = Some q" using assms by (auto simp: compile_range_def split: option.splits)
  then have ok: "prefix_ok q" "range_ok (masked q)" using parse_prefix_ok range_ok_masked by auto
  show ?thesis
  proof (cases "is4in6 (p_addr (masked q))")
    case False
    with assms q ok show ?thesis by (simp add: compile_range_def)
  next
    case True
    then obtain b where b: "p_addr q = V6 b []" "take 12 (mask_bytes (p_bits q) b) = v4_mapped_prefix"
      using ok(1) by (cases "p_addr q") (auto simp: masked_def prefix_ok_def addr_ok_def)
    have len: "length b = 16" and byte: "\<forall>v \<in> set b. v < 256" using ok(1) b by (auto simp: prefix_ok_def addr_ok_def)
    have "p_bits q \<ge> 96" "p_bits q \<le> 128" using masked_mapped_bits [OF len b(2)] ok(1) b by (auto simp: prefix_ok_def)
    moreover have "p = \<lparr>p_addr = V4 (mask_bytes (p_bits q - 96) (drop 12 b)), p_bits = p_bits q - 96\<rparr>"
      using assms q True b by (simp add: compile_range_def masked_def drop_mask_bytes)
    moreover have "\<forall>v \<in> set (mask_bytes (p_bits q - 96) (drop 12 b)). v < 256"
      using byte by (intro mask_bytes_bound) (auto dest: in_set_dropD)
    ultimately show ?thesis using len by (simp add: range_ok_def prefix_ok_def addr_ok_def masked_def)
  qed
qed

lemma lastAddr_fill: "lastAddr p = (if is4 (p_addr p) then V4 else (\<lambda>b. V6 b [])) (fill_bytes (p_bits p) (addr_bytes (p_addr p)))"
  using set_bits_fill [of "p_bits p" "addr_bytes (p_addr p)"] by (simp add: lastAddr_def set_bits_def Let_def)

lemma prefix_is_span:
  assumes "range_ok p" "addr_ok a"
  shows "prefix_contains p a \<longleftrightarrow> p_addr p \<le> a \<and> a \<le> lastAddr p"
proof (cases "is4 (p_addr p) = is4 a")
  case True
  then have "mask_bytes (p_bits p) (addr_bytes a) = addr_bytes (p_addr p)
      \<longleftrightarrow> addr_bytes (p_addr p) \<le> addr_bytes a \<and> addr_bytes a \<le> fill_bytes (p_bits p) (addr_bytes (p_addr p))"
    using assms by (intro masked_bytes_range) (auto simp: range_ok_def prefix_ok_def addr_ok_def masked_def dest: arg_cong [of _ _ "\<lambda>p. addr_bytes (p_addr p)"])
  moreover have "mask_bytes (p_bits p) (addr_bytes (p_addr p)) = addr_bytes (p_addr p)"
    using assms(1) by (metis addr_bytes_mask ip_prefix.select_convs(1) ip_prefix.surjective ip_prefix.update_convs(1) masked_def range_ok_def)
  ultimately show ?thesis
    using True assms by (cases "is4 a"; cases "p_addr p"; cases a)
      (auto simp: prefix_contains_def lastAddr_fill less_eq_addr_def le_less addr_ok_def range_ok_def prefix_ok_def)
next
  case False
  then show ?thesis by (auto simp: prefix_contains_def lastAddr_fill less_eq_addr_def split: if_splits)
qed

section \<open>Spans and bisection\<close>

definition span_ok :: "span \<Rightarrow> bool" where
  "span_ok s \<longleftrightarrow> sp_lo s \<le> sp_hi s \<and> same_family (sp_lo s) (sp_hi s)"

definition in_span :: "addr \<Rightarrow> span \<Rightarrow> bool" where
  "in_span a s \<longleftrightarrow> sp_lo s \<le> a \<and> a \<le> sp_hi s"

definition apart :: "span list \<Rightarrow> bool" where
  "apart ss \<longleftrightarrow> sorted_wrt (\<lambda>s t. sp_hi s < sp_lo t) ss"

lemma other_family_after: "span_ok l \<Longrightarrow> sp_lo l \<le> sp_lo s \<Longrightarrow> \<not> same_family (sp_lo l) (sp_lo s) \<Longrightarrow> sp_hi l < sp_lo s"
  by (auto simp: span_ok_def same_family_def less_addr_def less_eq_addr_def split: if_splits)

lemma keep_first_apart:
  assumes "sorted (map sp_lo ss)" "\<forall>s \<in> set ss. span_ok s"
    and "\<forall>l. prev = Some l \<longrightarrow> span_ok l \<and> (\<forall>s \<in> set ss. sp_lo l \<le> sp_lo s)"
  shows "apart (keep_first prev ss) \<and> set (keep_first prev ss) \<subseteq> set ss
    \<and> (\<forall>l. prev = Some l \<longrightarrow> (\<forall>s \<in> set (keep_first prev ss). sp_hi l < sp_lo s))"
  using assms
proof (induction ss arbitrary: prev)
  case (Cons s ss)
  show ?case
  proof (cases "\<exists>l. prev = Some l \<and> same_family (sp_lo l) (sp_lo s) \<and> \<not> sp_hi l < sp_lo s")
    case True
    then show ?thesis using Cons.IH [of prev] Cons.prems by auto
  next
    case False
    have step: "keep_first prev (s # ss) = s # keep_first (Some s) ss" using False by (auto split: option.splits)
    have rest: "apart (keep_first (Some s) ss) \<and> set (keep_first (Some s) ss) \<subseteq> set ss
        \<and> (\<forall>t \<in> set (keep_first (Some s) ss). sp_hi s < sp_lo t)"
      using Cons.IH [of "Some s"] Cons.prems by simp
    have new: "sp_hi l < sp_lo s" if "prev = Some l" for l
      using False that Cons.prems other_family_after [of l s] by auto
    have "sp_hi l < sp_lo t" if "prev = Some l" "t \<in> set (keep_first (Some s) ss)" for l t
    proof -
      have "sp_lo s \<le> sp_hi s" "sp_hi s < sp_lo t" using rest that(2) Cons.prems(2) by (auto simp: span_ok_def)
      with new [OF that(1)] show ?thesis by (meson less_le_trans order_less_trans)
    qed
    then show ?thesis using step rest new by (auto simp: apart_def)
  qed
qed (simp add: apart_def)

lemma keep_first_all:
  assumes "sorted (map sp_lo ss)" "\<forall>s \<in> set ss. span_ok s" "sorted_wrt (\<lambda>s t. \<nexists>a. in_span a s \<and> in_span a t) ss"
    and "\<forall>l. prev = Some l \<longrightarrow> (\<forall>s \<in> set ss. sp_lo l \<le> sp_lo s \<and> \<not> (\<exists>a. in_span a l \<and> in_span a s))"
  shows "keep_first prev ss = ss"
  using assms
proof (induction ss arbitrary: prev)
  case (Cons s ss)
  have clear: "sp_hi l < sp_lo s" if "prev = Some l" for l
  proof (rule ccontr)
    assume "\<not> sp_hi l < sp_lo s"
    then have "in_span (sp_lo s) l \<and> in_span (sp_lo s) s" using Cons.prems that by (auto simp: in_span_def span_ok_def)
    then show False using Cons.prems(4) that by auto
  qed
  have "keep_first (Some s) ss = ss"
    using Cons.IH [of "Some s"] Cons.prems by auto
  then show ?case using clear by (cases prev) auto
qed simp

lemma starts_after_less: "starts_after a s \<longleftrightarrow> a < sp_lo s"
  by (auto simp: starts_after_def less_addr_def)

lemma bisect_span:
  assumes "apart ss" "\<forall>s \<in> set ss. span_ok s"
  shows "(let i = sort_Search (length ss) (\<lambda>i. starts_after a (ss ! i)) in
          if i = 0 then None
          else let s = ss ! (i - 1) in if \<not> same_family (sp_lo s) a \<or> sp_hi s < a then None else Some (sp_hit s)) = Some h
    \<longleftrightarrow> (\<exists>s \<in> set ss. in_span a s \<and> sp_hit s = h)" (is "?L = Some h \<longleftrightarrow> ?R")
proof -
  let ?f = "\<lambda>i. starts_after a (ss ! i)"
  let ?i = "sort_Search (length ss) ?f"
  have lo: "sp_lo (ss ! k) < sp_lo (ss ! l)" if "k < l" "l < length ss" for k l
  proof -
    have "sp_hi (ss ! k) < sp_lo (ss ! l)" using assms(1) that by (simp add: apart_def sorted_wrt_iff_nth_less)
    moreover have "sp_lo (ss ! k) \<le> sp_hi (ss ! k)" using assms(2) that by (simp add: span_ok_def)
    ultimately show ?thesis by (rule le_less_trans [rotated])
  qed
  have i: "?i \<le> length ss" "\<forall>k < length ss. ?f k \<longleftrightarrow> ?i \<le> k"
  proof -
    have "?f l" if "k \<le> l" "l < length ss" "?f k" for k l
      using that lo [of k l] by (cases "k = l") (auto simp: starts_after_less intro: order_less_trans)
    from sort_Search_first [of "length ss" ?f, OF this] show "?i \<le> length ss" "\<forall>k < length ss. ?f k \<longleftrightarrow> ?i \<le> k" by auto
  qed
  have only: "k = ?i - 1 \<and> ?i \<noteq> 0" if k: "k < length ss" "in_span a (ss ! k)" for k
  proof -
    have "\<not> ?f k" using k by (auto simp: starts_after_less in_span_def)
    then have "k < ?i" using i k by auto
    moreover have "\<not> k < ?i - 1"
    proof
      assume "k < ?i - 1"
      then have "sp_hi (ss ! k) < sp_lo (ss ! (?i - 1))" "\<not> ?f (?i - 1)"
        using assms(1) i by (auto simp: apart_def sorted_wrt_iff_nth_less)
      then show False using k by (auto simp: starts_after_less in_span_def)
    qed
    ultimately show ?thesis by linarith
  qed
  show ?thesis
  proof (cases "?i = 0")
    case True
    then show ?thesis using only by (fastforce simp: in_set_conv_nth)
  next
    case False
    let ?s = "ss ! (?i - 1)"
    have at: "?i - 1 < length ss" "sp_lo ?s \<le> a" using False i by (auto simp: starts_after_less not_less [symmetric])
    have "span_ok ?s" using at assms(2) by auto
    then have "\<not> sp_hi ?s < a \<Longrightarrow> same_family (sp_lo ?s) a"
      using at by (auto simp: span_ok_def same_family_def less_eq_addr_def less_addr_def split: if_splits)
    then have "\<not> same_family (sp_lo ?s) a \<or> sp_hi ?s < a \<longleftrightarrow> \<not> in_span a ?s" using at(2) by (auto simp: in_span_def not_less)
    then have "?L = Some h \<longleftrightarrow> in_span a ?s \<and> sp_hit ?s = h" using False by (simp add: Let_def)
    also have "\<dots> \<longleftrightarrow> ?R"
    proof
      show "in_span a ?s \<and> sp_hit ?s = h \<Longrightarrow> ?R" using at(1) nth_mem by blast
      assume ?R
      then obtain k where k: "k < length ss" "in_span a (ss ! k)" "sp_hit (ss ! k) = h" by (metis in_set_conv_nth)
      with only [OF k(1,2)] show "in_span a ?s \<and> sp_hit ?s = h" by metis
    qed
    finally show ?thesis .
  qed
qed

section \<open>What the table says\<close>

text \<open>The document lists the range under the vendor.\<close>

definition lists_range :: "Doc \<Rightarrow> string \<Rightarrow> ip_prefix \<Rightarrow> bool" where
  "lists_range doc i p \<longleftrightarrow> i \<in> set (doc_ids doc) \<and> p \<in> set (compile_ranges (ce_Ranges (entry_of doc i)))"

lemma compile_ranges_set: "p \<in> set (compile_ranges ss) \<longleftrightarrow> (\<exists>s \<in> set ss. compile_range s = Some p)"
  by (induction ss) (auto simp: compile_ranges_def List.map_filter_simps split: option.splits)

lemma doc_spans_set: "s \<in> set (doc_spans doc) \<longleftrightarrow> (\<exists>i p. lists_range doc i p \<and> s = span_of i p)"
  by (auto simp: doc_spans_def lists_range_def)

lemma lists_range_ok: "lists_range doc i p \<Longrightarrow> range_ok p"
  using compile_range_ok by (auto simp: lists_range_def compile_ranges_set)

lemma in_span_of: "range_ok p \<Longrightarrow> addr_ok a \<Longrightarrow> in_span a (span_of i p) \<longleftrightarrow> prefix_contains p a"
  by (simp add: prefix_is_span in_span_def span_of_def)

lemma span_of_ok:
  assumes "range_ok p"
  shows "span_ok (span_of i p)"
proof -
  have "addr_ok (p_addr p)" using assms by (simp add: range_ok_def prefix_ok_def)
  moreover have "prefix_contains p (p_addr p)" using assms by (simp add: prefix_contains_def range_ok_def prefix_ok_def addr_ok_def)
  ultimately have "p_addr p \<le> lastAddr p" using prefix_is_span [OF assms] by blast
  then show ?thesis by (simp add: span_ok_def span_of_def same_family_def lastAddr_fill)
qed

definition ranges_disjoint :: "Doc \<Rightarrow> bool" where
  "ranges_disjoint doc \<longleftrightarrow> sorted_wrt (\<lambda>s t. sp_hi s < sp_lo t \<or> sp_hi t < sp_lo s) (doc_spans doc)"

lemma disjoint_spans: "sp_hi s < sp_lo t \<or> sp_hi t < sp_lo s \<Longrightarrow> \<not> (in_span a s \<and> in_span a t)"
  by (auto simp: in_span_def)

lemma sorted_wrt_sort_key:
  assumes "sorted_wrt P xs" "\<And>x y. P x y \<Longrightarrow> P y x"
  shows "sorted_wrt P (sort_key f xs)"
proof -
  have ins: "sorted_wrt P (insort_key f x ys)" if "sorted_wrt P ys" "\<forall>y \<in> set ys. P x y" for x ys
    using that assms(2) by (induction ys) (auto simp: set_insort_key)
  show ?thesis using assms(1) by (induction xs) (auto simp: ins sort_key_def set_insort_key simp flip: sort_key_def)
qed

lemma compiled_spans:
  assumes "Compile doc = Some t"
  shows "apart (t_spans t)" "set (t_spans t) \<subseteq> set (doc_spans doc)" "\<forall>s \<in> set (t_spans t). span_ok s"
    and "ranges_disjoint doc \<Longrightarrow> set (t_spans t) = set (doc_spans doc)"
proof -
  let ?ss = "sort_key sp_lo (doc_spans doc)"
  have t: "t_spans t = keep_first None ?ss" using assms by (auto simp: Compile_def Let_def split: if_splits)
  have ok: "\<forall>s \<in> set ?ss. span_ok s" using span_of_ok lists_range_ok by (auto simp: doc_spans_set)
  note k = keep_first_apart [of ?ss None, OF _ ok]
  show "apart (t_spans t)" "set (t_spans t) \<subseteq> set (doc_spans doc)" "\<forall>s \<in> set (t_spans t). span_ok s" using k ok t by auto
  show "set (t_spans t) = set (doc_spans doc)" if "ranges_disjoint doc"
  proof -
    have "sorted_wrt (\<lambda>s t. sp_hi s < sp_lo t \<or> sp_hi t < sp_lo s) ?ss"
      using that by (intro sorted_wrt_sort_key) (auto simp: ranges_disjoint_def)
    then have "sorted_wrt (\<lambda>s t. \<nexists>a. in_span a s \<and> in_span a t) ?ss"
      by (rule sorted_wrt_mono_rel [rotated]) (use disjoint_spans in blast)
    then show ?thesis using keep_first_all [of ?ss None] ok t by simp
  qed
qed

lemma Lookup_span:
  assumes "Compile doc = Some t"
  shows "Lookup t a = Some h \<longleftrightarrow> (\<exists>s \<in> set (t_spans t). in_span (unmap a) s \<and> sp_hit s = h)"
  using bisect_span [OF compiled_spans(1,3) [OF assms], of "unmap a" h] by (simp add: Lookup_def Let_def)

lemma Lookup_listed:
  assumes "Compile doc = Some t" "addr_ok a" "Lookup t a = Some h"
  shows "\<exists>p. lists_range doc h p \<and> prefix_contains p (unmap a)"
proof -
  obtain s where s: "s \<in> set (t_spans t)" "in_span (unmap a) s" "sp_hit s = h" using Lookup_span [OF assms(1)] assms(3) by blast
  then obtain i p where ip: "lists_range doc i p" "s = span_of i p" using compiled_spans(2) [OF assms(1)] doc_spans_set by blast
  moreover have "h = i" using s(3) ip(2) by (simp add: span_of_def)
  ultimately show ?thesis
    using s(2) in_span_of [OF lists_range_ok addr_ok_unmap [OF assms(2)]] by blast
qed

lemma Lookup_complete:
  assumes "Compile doc = Some t" "addr_ok a" "ranges_disjoint doc" "lists_range doc h p" "prefix_contains p (unmap a)"
  shows "Lookup t a = Some h"
proof -
  have "span_of h p \<in> set (t_spans t)" using compiled_spans(4) [OF assms(1,3)] assms(4) doc_spans_set by blast
  moreover have "in_span (unmap a) (span_of h p)" using in_span_of [OF lists_range_ok addr_ok_unmap] assms by blast
  moreover have "sp_hit (span_of h p) = h" by (simp add: span_of_def)
  ultimately show ?thesis using Lookup_span [OF assms(1)] by blast
qed

section \<open>Pulled documents\<close>

text \<open>A run of pulls: each is a decoded document and whether its copy could be written.\<close>

definition pulls :: "Table \<Rightarrow> (bool \<times> Doc option) list \<Rightarrow> Table option \<Rightarrow> Table option" where
  "pulls snapshot ps current = foldl (\<lambda>cur p. snd (Ingest (fst p) snapshot (snd p) cur)) current ps"

lemma Ingest_cases:
  "snd (Ingest w snapshot doc cur) = cur
   \<or> (\<exists>d t. doc = Some d \<and> Compile d = Some t \<and> snd (Ingest w snapshot doc cur) = Some t
        \<and> t_Prefixes (Active snapshot cur) \<le> 2 * t_Prefixes t
        \<and> (\<forall>g g'. t_GeneratedAt t = Some g \<longrightarrow> t_GeneratedAt (Active snapshot cur) = Some g' \<longrightarrow> g' \<le> g))"
  by (auto simp: Ingest_def Let_def split: option.splits)

lemma Compile_date: "Compile d = Some t \<Longrightarrow> t_GeneratedAt t = d_GeneratedAt d"
  by (auto simp: Compile_def Let_def split: if_splits)

lemma pulls_newer:
  assumes "\<And>w d. (w, Some d) \<in> set ps \<Longrightarrow> d_GeneratedAt d \<noteq> None" "t_GeneratedAt (Active snapshot cur) = Some g"
  shows "\<exists>g'. t_GeneratedAt (Active snapshot (pulls snapshot ps cur)) = Some g' \<and> g \<le> g'"
  using assms
proof (induction ps arbitrary: cur g)
  case (Cons p ps)
  let ?cur = "snd (Ingest (fst p) snapshot (snd p) cur)"
  have "\<exists>g'. t_GeneratedAt (Active snapshot ?cur) = Some g' \<and> g \<le> g'"
    using Ingest_cases [of "fst p" snapshot "snd p" cur]
  proof (elim disjE exE conjE)
    fix d t
    assume d: "snd p = Some d" "Compile d = Some t" "?cur = Some t"
      and mono: "\<forall>g g'. t_GeneratedAt t = Some g \<longrightarrow> t_GeneratedAt (Active snapshot cur) = Some g' \<longrightarrow> g' \<le> g"
    obtain g' where "d_GeneratedAt d = Some g'" using Cons.prems(1) [of "fst p" d] d(1) by (cases p) auto
    then show ?thesis using d mono Cons.prems(2) Compile_date by (fastforce simp: Active_def)
  qed (use Cons.prems(2) in auto)
  then obtain g' where g': "t_GeneratedAt (Active snapshot ?cur) = Some g'" "g \<le> g'" by blast
  have "\<exists>h. t_GeneratedAt (Active snapshot (pulls snapshot ps ?cur)) = Some h \<and> g' \<le> h"
    using Cons.IH [OF _ g'(1)] Cons.prems(1) by auto
  then show ?case using g'(2) by (auto simp: pulls_def)
qed (simp add: pulls_def)

section \<open>Properties\<close>

text \<open>
  C34: the bisection over the compiled spans answers like the listed prefixes. A vendor it
  names has listed a range that contains the address; and when the listed ranges do not
  overlap, an address inside a listed range is found, under that range's vendor.\<close>

theorem cdn_lookup_exact:
  assumes "Compile doc = Some t" "addr_ok a"
  shows "(Lookup t a = Some h \<longrightarrow> (\<exists>p. lists_range doc h p \<and> prefix_contains p (unmap a)))
    \<and> (ranges_disjoint doc \<longrightarrow> (Lookup t a = Some h \<longleftrightarrow> (\<exists>p. lists_range doc h p \<and> prefix_contains p (unmap a))))"
  using Lookup_listed [OF assms] Lookup_complete [OF assms] by blast

definition exDoc :: Doc where
  "exDoc = \<lparr>d_SchemaVersion = 1, d_GeneratedAt = Some 100,
     d_CDNs = [(''fastly'', \<lparr>ce_Name = ''Fastly'', ce_Source = [], ce_Ranges = [''151.101.0.0/16'', ''2a04:4e40:8:9::/64'']\<rparr>),
               (''cloudfront'', \<lparr>ce_Name = ''Amazon CloudFront'', ce_Source = [], ce_Ranges = [''13.32.0.0/15'', ''bad'']\<rparr>)]\<rparr>"

lemma exDoc_compiles: "Compile exDoc = Some (the (Compile exDoc))" "ranges_disjoint exDoc"
proof -
  show "Compile exDoc = Some (the (Compile exDoc))" by (simp add: Compile_def exDoc_def SchemaVersion_def Let_def)
  show "ranges_disjoint exDoc" by code_simp
qed

theorem cdn_lookup_exact_witness:
  "Lookup (the (Compile exDoc)) (V4 [13, 33, 255, 255]) = Some ''cloudfront''
   \<and> Lookup (the (Compile exDoc)) (V4 [13, 34, 0, 0]) \<noteq> Some ''cloudfront''"
proof -
  have "addr_ok (V4 [13, 33, 255, 255])" "addr_ok (V4 [13, 34, 0, 0])" by (simp_all add: addr_ok_def)
  note at = this [THEN cdn_lookup_exact [OF exDoc_compiles(1), of _ "''cloudfront''"]]
  have r: "set (compile_ranges (ce_Ranges (entry_of exDoc ''cloudfront''))) = {\<lparr>p_addr = V4 [13, 32, 0, 0], p_bits = 15\<rparr>}"
    "''cloudfront'' \<in> set (doc_ids exDoc)" by code_simp+
  have p: "lists_range exDoc ''cloudfront'' p \<longleftrightarrow> p = \<lparr>p_addr = V4 [13, 32, 0, 0], p_bits = 15\<rparr>" for p
    using r by (auto simp: lists_range_def)
  have "prefix_contains \<lparr>p_addr = V4 [13, 32, 0, 0], p_bits = 15\<rparr> (V4 [13, 33, 255, 255])"
    "\<not> prefix_contains \<lparr>p_addr = V4 [13, 32, 0, 0], p_bits = 15\<rparr> (V4 [13, 34, 0, 0])" by code_simp+
  then show ?thesis using at exDoc_compiles(2) p by auto
qed

text \<open>
  no run of pulled documents takes the table back in time. As long as every document
  carries its date, the table in use after any number of pulls, refused and failed ones
  included, is dated no earlier than the one before them.\<close>

lemma cdn_no_rollback:
  assumes "\<And>w d. (w, Some d) \<in> set ps \<Longrightarrow> d_GeneratedAt d \<noteq> None" "t_GeneratedAt (Active snapshot cur) = Some g"
  shows "\<exists>g'. t_GeneratedAt (Active snapshot (foldl (\<lambda>cur p. snd (Ingest (fst p) snapshot (snd p) cur)) cur ps)) = Some g' \<and> g \<le> g'"
  using pulls_newer [OF assms] by (simp add: pulls_def)

end
