(* ===== verification/Ip_Bypass.thy ===== *)
theory Ip_Bypass
  imports Go_Netip_Text
begin

text \<open>
  The allowlist test (\<open>nginxconf/ipbypass.go\<close>): the enabled presets' ranges and the
  operator's rows, compiled into networks and single addresses, asked for a client address
  and, as the guard of an address-wide ban, for a prefix. The presets' published ranges are
  data (\<open>presets\<close>, already expanded); \<open>net.ParseCIDR\<close>, \<open>net.IPNet.Contains\<close>,
  \<open>net.IP.String\<close> and \<open>netip.Prefix.Overlaps\<close> are modelled here.
\<close>

section \<open>The standard library\<close>

text \<open>\<open>dtoi\<close> of package \<open>net\<close>: decimal digits only, below \<open>0xFFFFFF\<close>; leading zeros pass.\<close>

definition dtoi :: "string \<Rightarrow> nat option" where
  "dtoi s = (if s = [] then None
     else case parse_digits 10 0 s of None \<Rightarrow> None | Some n \<Rightarrow> if n < 16777215 then Some n else None)"

text \<open>
  \<open>net.ParseCIDR\<close>. A network is kept as the number and mask \<open>networkNumberAndMask\<close> reads
  out of it: an IPv4 network also when it was written in its mapped form.
\<close>

definition normal_range :: "ip_prefix \<Rightarrow> ip_prefix" where
  "normal_range p = (if is4in6 (p_addr p) \<and> p_bits p \<ge> 96 then masked \<lparr>p_addr = unmap (p_addr p), p_bits = p_bits p - 96\<rparr> else masked p)"

definition parse_cidr :: "string \<Rightarrow> ip_prefix option" where
  "parse_cidr s =
     (case index_byte (CHR ''/'') s of None \<Rightarrow> None
      | Some i \<Rightarrow>
        (case (parse_addr (take i s), dtoi (drop (Suc i) s)) of
           (Some a, Some n) \<Rightarrow>
             if zone a \<noteq> [] \<or> n > (if is4 a then 32 else 128) then None
             else Some (normal_range \<lparr>p_addr = a, p_bits = n\<rparr>)
         | _ \<Rightarrow> None))"

text \<open>A 16-byte \<open>net.IP\<close> as the address it stands for, and its text.\<close>

definition ip_addr :: "nat list \<Rightarrow> addr" where
  "ip_addr b = (case to4 b of Some x \<Rightarrow> V4 x | None \<Rightarrow> V6 b [])"

definition ip_string :: "nat list \<Rightarrow> string" where
  "ip_string b = (case to4 b of Some x \<Rightarrow> v4_string x | None \<Rightarrow> v6_string b)"

definition prefix_overlaps :: "ip_prefix \<Rightarrow> ip_prefix \<Rightarrow> bool" where
  "prefix_overlaps p q \<longleftrightarrow> p = q \<or>
     is4 (p_addr p) = is4 (p_addr q) \<and>
     (let n = min (p_bits p) (p_bits q) in n = 0 \<or> mask_addr n (p_addr p) = mask_addr n (p_addr q))"

section \<open>The matcher\<close>

record IPBypassMatcher =
  bm_nets :: "ip_prefix list"
  bm_ips :: "string list"

text \<open>One listed row, as \<open>parseBypassRanges\<close> reads it: a network, an address, or nothing.\<close>

definition row_net :: "string \<Rightarrow> ip_prefix option" where
  "row_net c = (let c = trim_space c in if c = [] \<or> \<not> contains c ''/'' then None else parse_cidr c)"

definition row_ip :: "string \<Rightarrow> string option" where
  "row_ip c = (let c = trim_space c in if c = [] \<or> contains c ''/'' then None else map_option ip_string (parse_ip c))"

definition parseBypassRanges :: "string list \<Rightarrow> IPBypassMatcher" where
  "parseBypassRanges cidrs = \<lparr>bm_nets = List.map_filter row_net cidrs, bm_ips = List.map_filter row_ip cidrs\<rparr>"

definition BypassIPCIDRs :: "string list \<Rightarrow> string list \<Rightarrow> bool list \<Rightarrow> string list" where
  "BypassIPCIDRs presets BypassIPs BypassIPsDisabled =
     presets @ filter (\<lambda>ip. ip \<noteq> []) (map (\<lambda>i. trim_space (BypassIPs ! i))
       (filter (\<lambda>i. \<not> (i < length BypassIPsDisabled \<and> BypassIPsDisabled ! i)) [0..<length BypassIPs]))"

definition ChallengeBypassIPCIDRs :: "string list \<Rightarrow> string list \<Rightarrow> bool list \<Rightarrow> string list \<Rightarrow> string list" where
  "ChallengeBypassIPCIDRs presets BypassIPs BypassIPsDisabled statsExclude =
     BypassIPCIDRs presets BypassIPs BypassIPsDisabled @ statsExclude"

definition NewIPBypassMatcher :: "string list \<Rightarrow> string list \<Rightarrow> bool list \<Rightarrow> IPBypassMatcher" where
  "NewIPBypassMatcher presets BypassIPs BypassIPsDisabled = parseBypassRanges (BypassIPCIDRs presets BypassIPs BypassIPsDisabled)"

definition NewChallengeBypassMatcher :: "string list \<Rightarrow> string list \<Rightarrow> bool list \<Rightarrow> string list \<Rightarrow> IPBypassMatcher" where
  "NewChallengeBypassMatcher presets BypassIPs BypassIPsDisabled statsExclude =
     parseBypassRanges (ChallengeBypassIPCIDRs presets BypassIPs BypassIPsDisabled statsExclude)"

definition unmapPrefix :: "ip_prefix \<Rightarrow> ip_prefix" where
  "unmapPrefix p = (if is4in6 (p_addr p) \<and> p_bits p \<ge> 96 then masked \<lparr>p_addr = unmap (p_addr p), p_bits = p_bits p - 96\<rparr> else masked p)"

definition Overlaps :: "IPBypassMatcher \<Rightarrow> ip_prefix \<Rightarrow> bool" where
  "Overlaps m p =
     (let p = unmapPrefix p in
      list_ex (\<lambda>nw. case parse_prefix (prefix_string nw) of None \<Rightarrow> False | Some q \<Rightarrow> prefix_overlaps p (unmapPrefix q)) (bm_nets m)
      \<or> list_ex (\<lambda>ip. case parse_addr ip of None \<Rightarrow> False | Some a \<Rightarrow> prefix_contains p (unmap a)) (bm_ips m))"

definition bypass_Match :: "IPBypassMatcher \<Rightarrow> string \<Rightarrow> bool" where
  "bypass_Match m ip =
     (if ip = [] then False
      else if index_byte (CHR ''/'') ip \<noteq> None
      then (case parse_prefix (trim_space ip) of None \<Rightarrow> False | Some p \<Rightarrow> Overlaps m p)
      else case parse_ip ip of None \<Rightarrow> False
        | Some pip \<Rightarrow> ip_string pip \<in> set (bm_ips m) \<or> list_ex (\<lambda>nw. prefix_contains nw (ip_addr pip)) (bm_nets m))"

definition bypass_Empty :: "IPBypassMatcher \<Rightarrow> bool" where
  "bypass_Empty m \<longleftrightarrow> bm_nets m = [] \<and> bm_ips m = []"

section \<open>Normal ranges\<close>

text \<open>A masked range that is not a mapped IPv4 range in disguise.\<close>

definition normal_ok :: "ip_prefix \<Rightarrow> bool" where
  "normal_ok p \<longleftrightarrow> range_ok p \<and> \<not> is4in6 (p_addr p)"

lemma unmapPrefix_normal: "unmapPrefix = normal_range"
  by (rule ext) (simp add: unmapPrefix_def normal_range_def)

lemma normal_range_ok:
  assumes "prefix_ok p"
  shows "normal_ok (normal_range p)"
proof (cases "is4in6 (p_addr p) \<and> p_bits p \<ge> 96")
  case True
  then obtain b where b: "p_addr p = V6 b []" using assms by (cases "p_addr p") (auto simp: prefix_ok_def addr_ok_def)
  have "prefix_ok \<lparr>p_addr = unmap (p_addr p), p_bits = p_bits p - 96\<rparr>"
    using assms True b addr_ok_unmap [of "p_addr p"] by (auto simp: prefix_ok_def)
  from range_ok_masked [OF this] show ?thesis using True b by (simp add: normal_range_def normal_ok_def masked_def)
next
  case False
  have "\<not> is4in6 (p_addr (masked p))"
  proof
    assume m: "is4in6 (p_addr (masked p))"
    then obtain b where b: "p_addr p = V6 b []" "take 12 (mask_bytes (p_bits p) b) = v4_mapped_prefix" "length b = 16"
      using assms by (cases "p_addr p") (auto simp: masked_def prefix_ok_def addr_ok_def)
    then have n: "p_bits p \<ge> 96" using masked_mapped_bits by blast
    have "mask_bytes (p_bits p) b = take 12 b @ mask_bytes (p_bits p - 96) (drop 12 b)"
      using take_mask_bytes [of 12 "p_bits p" b] drop_mask_bytes [of 12 "p_bits p" b] n append_take_drop_id [of 12 "mask_bytes (p_bits p) b"] by simp
    then have "take 12 b = v4_mapped_prefix" using b by simp
    then show False using False n b by simp
  qed
  then show ?thesis using False range_ok_masked [OF assms] by (auto simp: normal_range_def normal_ok_def)
qed

lemma normal_range_masked:
  assumes "prefix_ok p"
  shows "normal_range (masked p) = normal_range p"
proof (cases "is4in6 (p_addr p) \<and> p_bits p \<ge> 96")
  case True
  then obtain b where b: "p_addr p = V6 b []" using assms by (cases "p_addr p") (auto simp: prefix_ok_def addr_ok_def)
  have "take 12 (mask_bytes (p_bits p) b) = take 12 b" using True by (intro take_mask_bytes) simp
  then show ?thesis using True b by (simp add: normal_range_def masked_def drop_mask_bytes)
next
  case False
  then have m: "normal_range p = masked p" by (auto simp: normal_range_def)
  then have "\<not> is4in6 (p_addr (masked p))" "range_ok (masked p)" using normal_range_ok [OF assms] by (simp_all add: normal_ok_def)
  then show ?thesis unfolding m by (simp add: normal_range_def range_ok_def)
qed

lemma parse_cidr_normal:
  assumes "parse_cidr s = Some p"
  shows "normal_ok p"
proof -
  obtain w a n where an: "parse_addr w = Some a" "zone a = []" "\<not> n > (if is4 a then 32 else 128)" "p = normal_range \<lparr>p_addr = a, p_bits = n\<rparr>"
    using assms unfolding parse_cidr_def by (auto simp del: not_less split: option.splits if_split_asm)
  then have "prefix_ok \<lparr>p_addr = a, p_bits = n\<rparr>" using parse_addr_wf by (auto simp: prefix_ok_def addr_ok_def)
  then show ?thesis using an normal_range_ok by simp
qed

lemma normal_range_id: "normal_ok p \<Longrightarrow> normal_range p = p"
  by (simp add: normal_ok_def range_ok_def normal_range_def)

lemma ip_addr_parse:
  assumes "addr_ok a" "\<not> is4in6 a"
  shows "\<exists>b. parse_ip (addr_string a) = Some b \<and> ip_addr b = a \<and> ip_string b = addr_string a"
  using parse_addr_string [OF assms(1)] assms
  by (cases a) (auto simp: parse_ip_def ip_addr_def ip_string_def to4_def addr_ok_def v4_mapped_prefix_def)

lemma parse_ip_addr:
  assumes "parse_ip s = Some b"
  shows "addr_ok (ip_addr b)" "\<not> is4in6 (ip_addr b)" "ip_string b = addr_string (ip_addr b)"
proof -
  obtain a where a: "parse_addr s = Some a" using assms by (auto simp: parse_ip_def split: option.splits)
  then have wf: "\<forall>x \<in> set (addr_bytes a). x < 256" "length (addr_bytes a) = (if is4 a then 4 else 16)" using parse_addr_wf by auto
  have b: "b = (case a of V4 x \<Rightarrow> v4_mapped_prefix @ x | V6 x z \<Rightarrow> x)" using assms a by (auto simp: parse_ip_def split: addr.splits if_splits)
  have byte: "\<forall>x \<in> set b. x < 256" using wf b by (auto simp: v4_mapped_prefix_def split: addr.splits)
  have len: "length b = 16" using wf b by (auto simp: v4_mapped_prefix_def split: addr.splits)
  show "addr_ok (ip_addr b)" "\<not> is4in6 (ip_addr b)" "ip_string b = addr_string (ip_addr b)"
    using byte len by (auto simp: ip_addr_def ip_string_def to4_def addr_ok_def dest: in_set_dropD)
qed

lemma overlap_iff_common:
  assumes "range_ok p" "range_ok q"
  shows "prefix_overlaps p q \<longleftrightarrow> (if p_bits p \<le> p_bits q then prefix_contains p (p_addr q) else prefix_contains q (p_addr p))"
proof -
  have m: "mask_bytes (p_bits p) (addr_bytes (p_addr p)) = addr_bytes (p_addr p)" "mask_bytes (p_bits q) (addr_bytes (p_addr q)) = addr_bytes (p_addr q)"
    using assms unfolding range_ok_def masked_def by (metis addr_bytes_mask ip_prefix.select_convs(1) ip_prefix.surjective ip_prefix.update_convs(1))+
  have z: "zone (p_addr p) = []" "zone (p_addr q) = []" using assms by (auto simp: range_ok_def prefix_ok_def addr_ok_def)
  let ?n = "min (p_bits p) (p_bits q)"
  have eq: "mask_addr ?n (p_addr p) = mask_addr ?n (p_addr q) \<longleftrightarrow> mask_bytes ?n (addr_bytes (p_addr p)) = mask_bytes ?n (addr_bytes (p_addr q))"
    if "is4 (p_addr p) = is4 (p_addr q)" using that by (cases "p_addr p"; cases "p_addr q") auto
  have zero: "mask_bytes 0 (addr_bytes (p_addr p)) = mask_bytes 0 (addr_bytes (p_addr q))" if "is4 (p_addr p) = is4 (p_addr q)"
    using that assms mask_bytes_bytes [of "addr_bytes (p_addr p)" 0] mask_bytes_bytes [of "addr_bytes (p_addr q)" 0]
    by (auto simp: range_ok_def prefix_ok_def addr_ok_def)
  have "prefix_overlaps p q \<longleftrightarrow> is4 (p_addr p) = is4 (p_addr q) \<and> mask_bytes ?n (addr_bytes (p_addr p)) = mask_bytes ?n (addr_bytes (p_addr q))"
  proof (cases "is4 (p_addr p) = is4 (p_addr q)")
    case True
    then show ?thesis using eq zero by (cases "?n = 0") (auto simp: prefix_overlaps_def Let_def)
  next
    case False
    then show ?thesis by (auto simp: prefix_overlaps_def)
  qed
  then show ?thesis using m z by (cases "p_bits p \<le> p_bits q") (auto simp: prefix_contains_def min_def)
qed

lemma contains_own: "range_ok p \<Longrightarrow> prefix_contains p (p_addr p)"
  by (simp add: prefix_contains_def range_ok_def prefix_ok_def addr_ok_def)

lemma common_overlap:
  assumes "range_ok p" "range_ok q" "prefix_contains p a" "prefix_contains q a"
  shows "prefix_overlaps p q"
proof -
  have sub: "prefix_contains s (p_addr t)" if "range_ok s" "range_ok t" "prefix_contains s a" "prefix_contains t a" "p_bits s \<le> p_bits t" for s t
  proof -
    have "mask_bytes (p_bits s) (addr_bytes (p_addr t)) = mask_bytes (p_bits s) (mask_bytes (p_bits t) (addr_bytes (p_addr t)))"
      using that(5) by (simp add: mask_bytes_min min_def)
    also have "\<dots> = mask_bytes (p_bits s) (mask_bytes (p_bits t) (addr_bytes a))" using that(4) by (simp add: prefix_contains_def)
    also have "\<dots> = mask_bytes (p_bits s) (addr_bytes a)" using that(5) by (simp add: mask_bytes_min min_def)
    finally show ?thesis using that by (simp add: prefix_contains_def range_ok_def prefix_ok_def addr_ok_def)
  qed
  show ?thesis unfolding overlap_iff_common [OF assms(1,2)] using sub assms by simp
qed

section \<open>What the matcher says\<close>

lemma map_filter_set: "y \<in> set (List.map_filter f xs) \<longleftrightarrow> (\<exists>x \<in> set xs. f x = Some y)"
  by (induction xs) (auto simp: List.map_filter_simps split: option.splits)

lemma nets_normal: "nw \<in> set (bm_nets (parseBypassRanges cidrs)) \<Longrightarrow> normal_ok nw"
  using parse_cidr_normal by (auto simp: parseBypassRanges_def map_filter_set row_net_def Let_def split: if_splits)

lemma ips_listed:
  assumes "ip \<in> set (bm_ips (parseBypassRanges cidrs))"
  shows "\<exists>a. addr_ok a \<and> \<not> is4in6 a \<and> ip = addr_string a"
proof -
  obtain w b where "parse_ip w = Some b" "ip = ip_string b"
    using assms by (auto simp: parseBypassRanges_def map_filter_set row_ip_def Let_def split: if_splits)
  then show ?thesis using parse_ip_addr [of w b] by (intro exI [of _ "ip_addr b"]) simp
qed

lemma no_slash_addr: "addr_ok a \<Longrightarrow> CHR ''/'' \<notin> set (addr_string a) \<and> addr_string a \<noteq> []"
  using addr_string_chars [of a "CHR ''/''"] parse_addr_string [of a] by (auto simp: addr_ok_def numeric_def parse_addr_def)

lemma Match_address:
  assumes "addr_ok a" "\<not> is4in6 a"
  shows "bypass_Match m (addr_string a) \<longleftrightarrow> addr_string a \<in> set (bm_ips m) \<or> (\<exists>nw \<in> set (bm_nets m). prefix_contains nw a)"
  using ip_addr_parse [OF assms] no_slash_addr [OF assms(1)] index_byte_None [of "CHR ''/''" "addr_string a"]
  by (auto simp: bypass_Match_def list_ex_iff)

lemma nw_reread: "normal_ok nw \<Longrightarrow> parse_prefix (prefix_string nw) = Some nw \<and> unmapPrefix nw = nw"
  by (simp add: normal_ok_def range_ok_def parse_prefix_string unmapPrefix_normal normal_range_def)

lemma Overlaps_split:
  fixes cidrs p
  defines "m \<equiv> parseBypassRanges cidrs" and "p' \<equiv> unmapPrefix p"
  shows "Overlaps m p \<longleftrightarrow> (\<exists>nw \<in> set (bm_nets m). prefix_overlaps p' nw)
    \<or> (\<exists>a. addr_ok a \<and> \<not> is4in6 a \<and> addr_string a \<in> set (bm_ips m) \<and> prefix_contains p' a)"
proof -
  have un: "unmap a = a" if "\<not> is4in6 a" for a using that by (cases a) auto
  have "(case parse_prefix (prefix_string nw) of None \<Rightarrow> False | Some q \<Rightarrow> prefix_overlaps p' (unmapPrefix q)) \<longleftrightarrow> prefix_overlaps p' nw"
    if "nw \<in> set (bm_nets m)" for nw using nw_reread [OF nets_normal] that by (simp add: m_def)
  moreover have "(\<exists>ip \<in> set (bm_ips m). case parse_addr ip of None \<Rightarrow> False | Some a \<Rightarrow> prefix_contains p' (unmap a))
      \<longleftrightarrow> (\<exists>a. addr_ok a \<and> \<not> is4in6 a \<and> addr_string a \<in> set (bm_ips m) \<and> prefix_contains p' a)"
  proof
    assume "\<exists>ip \<in> set (bm_ips m). case parse_addr ip of None \<Rightarrow> False | Some a \<Rightarrow> prefix_contains p' (unmap a)"
    then obtain ip where ip: "ip \<in> set (bm_ips m)" "case parse_addr ip of None \<Rightarrow> False | Some a \<Rightarrow> prefix_contains p' (unmap a)" by blast
    obtain a where a: "addr_ok a" "\<not> is4in6 a" "ip = addr_string a" using ips_listed ip(1) unfolding m_def by blast
    then have "prefix_contains p' a" using ip(2) parse_addr_string [OF a(1)] un by simp
    with a ip(1) show "\<exists>a. addr_ok a \<and> \<not> is4in6 a \<and> addr_string a \<in> set (bm_ips m) \<and> prefix_contains p' a" by blast
  next
    assume "\<exists>a. addr_ok a \<and> \<not> is4in6 a \<and> addr_string a \<in> set (bm_ips m) \<and> prefix_contains p' a"
    then obtain a where a: "addr_ok a" "\<not> is4in6 a" "addr_string a \<in> set (bm_ips m)" "prefix_contains p' a" by blast
    then show "\<exists>ip \<in> set (bm_ips m). case parse_addr ip of None \<Rightarrow> False | Some a \<Rightarrow> prefix_contains p' (unmap a)"
      using parse_addr_string [OF a(1)] un by (intro bexI [OF _ a(3)]) simp
  qed
  ultimately show ?thesis by (simp add: Overlaps_def list_ex_iff Let_def flip: p'_def cong: bex_cong)
qed

lemma Overlaps_common:
  assumes "prefix_ok p"
  shows "Overlaps (parseBypassRanges cidrs) p \<longleftrightarrow>
    (\<exists>a. addr_ok a \<and> \<not> is4in6 a \<and> prefix_contains (unmapPrefix p) a \<and> bypass_Match (parseBypassRanges cidrs) (addr_string a))"
    (is "?L \<longleftrightarrow> ?R")
proof -
  let ?m = "parseBypassRanges cidrs"
  let ?p = "unmapPrefix p"
  have p: "normal_ok ?p" "range_ok ?p" using normal_range_ok [OF assms] by (simp_all add: unmapPrefix_normal normal_ok_def)
  note split = Overlaps_split [of cidrs p]
  show ?thesis
  proof
    assume ?R
    then obtain a where a: "addr_ok a" "\<not> is4in6 a" "prefix_contains ?p a" "bypass_Match ?m (addr_string a)" by blast
    then consider "addr_string a \<in> set (bm_ips ?m)" | nw where "nw \<in> set (bm_nets ?m)" "prefix_contains nw a"
      using Match_address by blast
    then show ?L
    proof cases
      case 2
      then have "range_ok nw" using nets_normal by (simp add: normal_ok_def)
      then have "prefix_overlaps ?p nw" using common_overlap p(2) a(3) 2(2) by blast
      then show ?thesis unfolding split using 2(1) by blast
    qed (unfold split, use a in blast)
  next
    assume ?L
    then consider nw where "nw \<in> set (bm_nets ?m)" "prefix_overlaps ?p nw"
      | a where "addr_ok a" "\<not> is4in6 a" "addr_string a \<in> set (bm_ips ?m)" "prefix_contains ?p a" unfolding split by blast
    then show ?R
    proof cases
      case 1
      then have nw: "normal_ok nw" using nets_normal by blast
      then have "prefix_contains ?p (p_addr nw) \<or> prefix_contains nw (p_addr ?p)"
        using 1(2) overlap_iff_common [of ?p nw] p(2) by (auto simp: normal_ok_def split: if_splits)
      moreover have "addr_ok (p_addr nw)" "addr_ok (p_addr ?p)" "\<not> is4in6 (p_addr nw)" "\<not> is4in6 (p_addr ?p)"
        using nw p by (auto simp: normal_ok_def range_ok_def prefix_ok_def)
      moreover have "prefix_contains nw (p_addr nw)" "prefix_contains ?p (p_addr ?p)" using nw p contains_own by (auto simp: normal_ok_def)
      ultimately show ?thesis using Match_address 1(1) by blast
    next
      case 2
      then show ?thesis using Match_address by blast
    qed
  qed
qed

lemma prefix_addresses:
  assumes "CHR ''/'' \<in> set s" "parse_prefix (trim_space s) = Some p"
  shows "bypass_Match (parseBypassRanges cidrs) s \<longleftrightarrow>
    (\<exists>a. addr_ok a \<and> \<not> is4in6 a \<and> prefix_contains (unmapPrefix p) a \<and> bypass_Match (parseBypassRanges cidrs) (addr_string a))"
proof -
  have "s \<noteq> []" "index_byte (CHR ''/'') s \<noteq> None" using assms(1) by (auto simp: index_byte_None)
  then show ?thesis using assms(2) Overlaps_common [OF parse_prefix_ok [OF assms(2)]] by (simp add: bypass_Match_def)
qed

section \<open>Properties\<close>

text \<open>
  the test of a prefix is the test of its addresses. Asked for the key of an
  address-wide ban, the matcher answers that it is allowlisted exactly when some address
  inside the prefix is, IPv4 ranges written in their mapped form included, so the guard in
  front of such a ban spares every allowlisted address and refuses nothing else.\<close>

lemma bypass_prefix_is_its_addresses:
  assumes "CHR ''/'' \<in> set s" "parse_prefix (trim_space s) = Some p"
  shows "bypass_Match (parseBypassRanges cidrs) s \<longleftrightarrow>
    (\<exists>a. addr_ok a \<and> \<not> is4in6 a \<and> prefix_contains (unmapPrefix p) a \<and> bypass_Match (parseBypassRanges cidrs) (addr_string a))"
  using assms by (rule prefix_addresses)

end
