(* ===== verification/Ban_Wiring.thy ===== *)
theory Ban_Wiring
  imports Ban_Manager Cdn Ip_Bypass
begin

text \<open>
  The ban manager wired to the allowlist and to the table of CDN egress ranges, as the
  daemon wires it at start (\<open>cmd/unmask/main.go\<close>): an allowlisted address is refused at
  every door, alone or inside a prefix; an address a CDN fetches from is never banned
  automatically, and an automatic ban that is there does not hold. The end of the theory
  has the one place where it still does, the search of the kept bans.
\<close>

section \<open>The wiring\<close>

definition egress_of :: "Table \<Rightarrow> bool \<Rightarrow> string list \<Rightarrow> string \<Rightarrow> bool" where
  "egress_of active CDNEgressBan CDNEgressExtra ip =
     (if CDNEgressBan then False else cdn_Match active ip (ParsePrefixes CDNEgressExtra) \<noteq> None)"

definition whitelist_of :: "string list \<Rightarrow> string list \<Rightarrow> bool list \<Rightarrow> string \<Rightarrow> bool" where
  "whitelist_of presets BypassIPs BypassIPsDisabled ip = bypass_Match (NewIPBypassMatcher presets BypassIPs BypassIPsDisabled) ip"

section \<open>Lemmas\<close>

lemma trim_addr_string: "addr_ok a \<Longrightarrow> trim_space (addr_string a) = addr_string a"
proof (intro trim_space_graphic ballI)
  fix c
  assume "addr_ok a" "c \<in> set (addr_string a)"
  then have "numeric c \<or> c = CHR ''.'' \<or> c = CHR '':''" using addr_string_chars by (auto simp: addr_ok_def)
  then show "graphic c" using numeric_punct by (elim disjE) (auto simp: graphic_def)
qed

lemma prefix_string_slash:
  assumes "prefix_ok p"
  shows "CHR ''/'' \<in> set (prefix_string p)" "trim_space (prefix_string p) = prefix_string p"
proof -
  show "CHR ''/'' \<in> set (prefix_string p)" by (simp add: prefix_string_def)
  have z: "zone (p_addr p) = []" using assms by (simp add: prefix_ok_def addr_ok_def)
  have "graphic c" if "c \<in> set (prefix_string p)" for c
    using that addr_string_chars [OF z, of c] format_nat_numeric [of 10 "p_bits p"] numeric_punct [of c]
    by (auto simp: prefix_string_def graphic_def)
  then show "trim_space (prefix_string p) = prefix_string p" by (intro trim_space_graphic) simp
qed

lemma normalizeIP_client:
  assumes "parse_addr (trim_space ip) = Some a" "CHR ''/'' \<notin> set ip" "CHR ''%'' \<notin> set ip"
  shows "normalizeIP ip = addr_string a \<and> addr_ok a"
proof -
  have "CHR ''/'' \<notin> set (trim_space ip)" "CHR ''%'' \<notin> set (trim_space ip)" using assms(2,3) set_trim_space [of ip] by auto
  moreover have "trim_space ip \<noteq> []" using assms(1) by (auto simp: parse_addr_def)
  ultimately show ?thesis using assms(1) parse_addr_ok [OF assms(1) parse_addr_zone [OF assms(1)]]
    by (simp add: normalizeIP_def Let_def index_byte_None [THEN iffD2])
qed

lemma egress_listed:
  assumes "Compile doc = Some t" "ranges_disjoint doc" "lists_range doc h p" "prefix_contains p (unmap a)" "addr_ok a"
  shows "egress_of t False extra (addr_string a)"
proof -
  have "parse_addr (trim_space (addr_string a)) = Some a" using assms(5) by (simp add: trim_addr_string parse_addr_string)
  moreover have "Lookup t (unmap a) = Some h"
    using Lookup_complete [OF assms(1) addr_ok_unmap [OF assms(5)] assms(2,3)] assms(4,5) by simp
  ultimately show ?thesis by (simp add: egress_of_def cdn_Match_def)
qed

lemma mirror_found_not_skipped:
  assumes "mgr_ok m" "mirrorMatch v ip ja4 m = (Some (Some e), m')"
  shows "\<not> mirror_skip m' e"
proof -
  have ok: "mgr_ok (snd (ensureMirror v m))" using assms(1) mgr_ok_ensure by blast
  obtain mr where mr: "g_mirror m' = Some mr" "m' = snd (ensureMirror v m)" "mirror_match mr ip ja4 (v_now v) (mirror_skip m') = Some e"
    using assms(2) by (auto simp: mirrorMatch_def split_beta Let_def split: option.splits if_splits)
  then obtain xs where "mirror_repr mr xs" using ok by (auto simp: mgr_ok_def mirror_ok_def)
  with mr(3) have "ref_match xs ip ja4 (v_now v) (mirror_skip m') = Some e" by (simp add: mirror_index.repr_lookup)
  from ref_match_Some [OF this] show ?thesis by (simp add: in_force_def)
qed

lemma prefix_refused:
  assumes wl: "g_whitelistFn m = Some (bypass_Match (parseBypassRanges cidrs))"
    and a: "addr_ok a" "\<not> is4in6 a" "bypass_Match (parseBypassRanges cidrs) (addr_string a)"
    and p: "prefix_ok p" "prefix_contains (unmapPrefix p) a"
  shows "isWhitelisted m (prefix_string (masked p))"
proof -
  let ?q = "masked p"
  have q: "prefix_ok ?q" using range_ok_masked [OF p(1)] by (simp add: range_ok_def)
  note str = prefix_string_slash [OF q]
  have "parse_prefix (trim_space (prefix_string ?q)) = Some ?q" using str(2) parse_prefix_string [OF q] by simp
  moreover have "unmapPrefix ?q = unmapPrefix p" using normal_range_masked [OF p(1)] by (simp add: unmapPrefix_normal)
  ultimately have "bypass_Match (parseBypassRanges cidrs) (prefix_string ?q)"
    using prefix_addresses [OF str(1)] a p(2) by auto
  then show ?thesis using wl str(1) by (auto simp: isWhitelisted_def)
qed

section \<open>Properties\<close>

text \<open>
  C35: no new ban is placed on an allowlisted address. With the daemon's wiring, for an
  address on the allowlist that is not written as IPv4 inside IPv6: a trap, a budget, an
  operator's ban and an operator's edit of a ban are refused when they name it; the widening
  of bans to a /64 that contains it is refused; and so are an operator's ban and edit of a
  prefix that contains it. In each case the manager is left as it was. Nothing is said of
  rows stored or kept before the address was allowlisted, of bans by fingerprint alone, or of
  the shared feed, which has its own test of the allowlist.\<close>

theorem allowlisted_address_unbannable:
  assumes wl: "g_whitelistFn m = Some (whitelist_of presets rows disabled)"
    and a: "addr_ok a" "\<not> is4in6 a" "whitelist_of presets rows disabled (addr_string a)"
  shows "(normalizeIP ip = addr_string a \<longrightarrow>
       AddWithSourceAction v ip ja4 source reason by action m = m \<and> AddAuto v ip ja4 scope source reason action secs m = m
       \<and> AddManualWithScope v ip ja4 scope reason by action secs m = (Some ErrWhitelisted, m)
       \<and> UpdateManual v i ip ja4 scope reason action secs m = (Some (if v_held v then ErrWritesHeld else ErrWhitelisted), m))
    \<and> (parse_addr ip = Some b \<and> prefix_contains (masked \<lparr>p_addr = b, p_bits = 64\<rparr>) a \<longrightarrow>
       escalate64 v ip source action now expires m = m)
    \<and> (parse_prefix (trim_space ip) = Some p \<and> prefix_contains (unmapPrefix p) a \<longrightarrow>
       AddManualWithScope v ip ja4 scope reason by action secs m = (Some ErrWhitelisted, m)
       \<and> UpdateManual v i ip ja4 scope reason action secs m = (Some (if v_held v then ErrWritesHeld else ErrWhitelisted), m))"
proof -
  let ?cidrs = "BypassIPCIDRs presets rows disabled"
  have wl': "g_whitelistFn m = Some (bypass_Match (parseBypassRanges ?cidrs))" "bypass_Match (parseBypassRanges ?cidrs) (addr_string a)"
    using wl a(3) by (simp_all add: whitelist_of_def NewIPBypassMatcher_def fun_eq_iff)
  note refused = prefix_refused [OF wl'(1) a(1,2) wl'(2)]
  have ne: "addr_string a \<noteq> []" using no_slash_addr [OF a(1)] by simp
  have one: "isWhitelisted m (addr_string a)" using wl' ne by (simp add: isWhitelisted_def)
  have two: "escalate64 v ip source action now expires m = m"
    if b: "parse_addr ip = Some b" "prefix_contains (masked \<lparr>p_addr = b, p_bits = 64\<rparr>) a"
  proof (cases "is4 b \<or> is4in6 b \<or> zone b \<noteq> []")
    case False
    let ?p = "\<lparr>p_addr = b, p_bits = 64\<rparr>"
    have ok: "prefix_ok ?p" using False parse_addr_wf [OF b(1)] by (simp add: prefix_ok_def addr_ok_def)
    have "unmapPrefix ?p = masked ?p" using False by (simp add: unmapPrefix_def)
    then have "isWhitelisted m (prefix_string (masked ?p))" using refused [OF ok] b(2) by simp
    then show ?thesis using b(1) False by (simp add: escalate64_def Let_def split: option.splits prod.splits)
  qed (use b in \<open>auto simp: escalate64_def\<close>)
  have three: "isWhitelisted m (normalizeIP ip) \<and> normalizeIP ip \<noteq> []"
    if p: "parse_prefix (trim_space ip) = Some p" "prefix_contains (unmapPrefix p) a"
  proof -
    have "last_slash (trim_space ip) \<noteq> None" using p(1) by (cases "last_slash (trim_space ip)") (simp_all add: parse_prefix_def)
    then have "CHR ''/'' \<in> set (trim_space ip)" using index_byte_None [of "CHR ''/''" "rev (trim_space ip)"] by (simp add: last_slash_def)
    then have "trim_space ip \<noteq> []" "index_byte (CHR ''/'') (trim_space ip) \<noteq> None" by (auto simp: index_byte_None)
    then have n: "normalizeIP ip = prefix_string (masked p)" using p(1) by (simp add: normalizeIP_def Let_def)
    then show ?thesis using refused [OF parse_prefix_ok [OF p(1)] p(2)] by (simp add: prefix_string_def)
  qed
  have "AddManualWithScope v ip ja4 scope reason by action secs m = (Some ErrWhitelisted, m)
      \<and> UpdateManual v i ip ja4 scope reason action secs m = (Some (if v_held v then ErrWritesHeld else ErrWhitelisted), m)"
    if "isWhitelisted m (normalizeIP ip)" "normalizeIP ip \<noteq> []" using that by (simp add: AddManualWithScope_def UpdateManual_def manual_key_def Let_def)
  moreover have "AddWithSourceAction v ip ja4 source reason by action m = m \<and> AddAuto v ip ja4 scope source reason action secs m = m"
    if "isWhitelisted m (normalizeIP ip)" using that by (simp add: AddWithSourceAction_def AddAuto_def Let_def)
  ultimately show ?thesis using one two three ne by auto
qed

definition exAllow :: Manager where
  "exAllow = SetWhitelist (Some (whitelist_of [''66.249.64.0/19''] [''2001:db8:0:7::5''] [])) exManager"

theorem allowlisted_address_unbannable_witness:
  "AddManualWithScope exMoment ''66.249.0.0/16'' [] [] [] ''admin'' [] 0 exAllow = (Some ErrWhitelisted, exAllow)"
proof -
  have "g_whitelistFn exAllow = Some (whitelist_of [''66.249.64.0/19''] [''2001:db8:0:7::5''] [])" by (simp add: exAllow_def SetWhitelist_def)
  moreover have "whitelist_of [''66.249.64.0/19''] [''2001:db8:0:7::5''] [] (addr_string (V4 [66, 249, 66, 1]))" by code_simp
  moreover have "addr_ok (V4 [66, 249, 66, 1])" "\<not> is4in6 (V4 [66, 249, 66, 1])" by (simp_all add: addr_ok_def)
  moreover have "parse_prefix (trim_space ''66.249.0.0/16'') = Some \<lparr>p_addr = V4 [66, 249, 0, 0], p_bits = 16\<rparr>"
    "prefix_contains (unmapPrefix \<lparr>p_addr = V4 [66, 249, 0, 0], p_bits = 16\<rparr>) (V4 [66, 249, 66, 1])" by code_simp+
  ultimately show ?thesis
    using allowlisted_address_unbannable [of exAllow "[''66.249.64.0/19'']" "[''2001:db8:0:7::5'']" "[]" "V4 [66, 249, 66, 1]"] by blast
qed

text \<open>
  an address a CDN fetches from is not banned automatically. With the daemon's wiring, a
  client address inside a range the table in use lists gets no ban from a trap or a budget,
  the manager being left as it is, and a ban the memory index returns for that very address
  is one an operator placed.\<close>

lemma cdn_egress_not_banned:
  assumes table: "Compile doc = Some t" "ranges_disjoint doc" "lists_range doc h p" "prefix_contains p (unmap a)"
    and client: "parse_addr (trim_space ip) = Some a" "CHR ''/'' \<notin> set ip" "CHR ''%'' \<notin> set ip"
    and mgr: "mgr_ok m" "g_egressFn m = Some (egress_of t False extra)"
  shows "AddWithSourceAction v ip ja4 source reason [] action m = m
    \<and> AddAuto v ip ja4 scope source reason action secs m = m
    \<and> (\<forall>e m'. mirrorMatch v (normalizeIP ip) ja4 m = (Some (Some e), m') \<longrightarrow> e_ip e = normalizeIP ip \<longrightarrow> e_bannedBy e \<noteq> [])"
proof -
  note n = normalizeIP_client [OF client]
  have ne: "normalizeIP ip \<noteq> []" using n parse_addr_string [of a] by (auto simp: parse_addr_def)
  have eg: "isEgress m' (normalizeIP ip)" if "g_egressFn m' = g_egressFn m" for m'
    using egress_listed [OF table] n ne that mgr(2) by (simp add: isEgress_def)
  have "AddWithSourceAction v ip ja4 source reason [] action m = m" "AddAuto v ip ja4 scope source reason action secs m = m"
    using eg [of m] by (simp_all add: AddWithSourceAction_def AddAuto_def Let_def)
  moreover have "e_bannedBy e \<noteq> []" if f: "mirrorMatch v (normalizeIP ip) ja4 m = (Some (Some e), m')" "e_ip e = normalizeIP ip" for e m'
  proof -
    have "m' = snd (ensureMirror v m)" using f(1) by (auto simp: mirrorMatch_def split_beta Let_def split: option.splits if_splits)
    then have "g_egressFn m' = g_egressFn m" using core_ensureMirror [of m v] by (simp add: same_core_def)
    then show ?thesis using ne mirror_found_not_skipped [OF mgr(1) f(1)] eg [of m'] f(2) by (auto simp: mirror_skip_def)
  qed
  ultimately show ?thesis by blast
qed

definition exWired :: Manager where
  "exWired = SetEgress (Some (egress_of (the (Compile exDoc)) False [])) exManager"

text \<open>
  a kept ban on a CDN's address still holds in the checks. A ban placed automatically
  while a schema update holds the writes is kept; once the operator lists the address as a
  CDN's egress, the file leaves the ban out, and the check still answers banned: the search
  of the kept bans does not look at the egress ranges.\<close>

lemma kept_ban_on_egress_holds:
  "let empty = \<lparr>t_spans = [], t_ranges = [], t_GeneratedAt = None, t_Prefixes = 0, t_Vendors = 0, t_Snapshot = True\<rparr>;
       kept = AddWithSourceAction (exMoment\<lparr>v_held := True\<rparr>) ''13.33.7.7'' [] SourceHoneypot [] [] [] exManager;
       m = SetEgress (Some (egress_of empty False [''13.32.0.0/15''])) kept
   in isEgress m ''13.33.7.7'' \<and> IsBanned exMoment ''13.33.7.7'' [] m \<and> g_file (snd (flush exMoment m)) = []"
  by code_simp

end
