(* ===== verification/Community_Bans.thy ===== *)
theory Community_Bans
  imports Ip_Bypass Settings "HOL-Library.List_Lexorder" "HOL-Library.Char_ord"
begin

text \<open>
  The client of the shared ban feed (\<open>communitybans/\<close>): a pulled document is filtered
  (allowlisted addresses, local mutes), held back by the guard (a current browser's
  fingerprint never, a new fingerprint for a day, at most \<open>ApplyCap\<close> new entries a pull),
  written as three nginx map files and read back into the matcher the check asks. The model
  starts from the decoded document; the fields only the pages show (score, counts, texts)
  are left out, and so are the registration and submission calls. One reading of the clock
  serves a whole pull (\<open>Pull\<close> and \<open>WriteMapFiles\<close> read it a moment apart).
\<close>

section \<open>The feed\<close>

definition MatchIPJA4 :: string where "MatchIPJA4 = ''ip_ja4''"
definition MatchJA4 :: string where "MatchJA4 = ''ja4_only''"
definition MatchIPOnly :: string where "MatchIPOnly = ''ip_only''"

record FeedEntry =
  f_Match :: string
  f_IP :: string
  f_JA4 :: string
  f_Promoted :: bool
  f_FirstSeen :: int
  f_ExpiresAt :: int

definition MuteKey :: "FeedEntry \<Rightarrow> string" where
  "MuteKey e =
     (let mk = (if f_Match e = [] then
                  (if f_IP e \<noteq> [] \<and> f_JA4 e \<noteq> [] then ''ip_ja4''
                   else if f_IP e \<noteq> [] then ''ip_only''
                   else if f_JA4 e \<noteq> [] then ''ja4_only'' else [])
                else f_Match e)
      in if mk = ''ip_only'' then (if f_IP e = [] then [] else ''ip_only:'' @ f_IP e)
         else if mk = ''ja4_only'' then (if f_JA4 e = [] then [] else ''ja4_only:'' @ f_JA4 e)
         else if mk = ''ip_ja4'' then (if f_IP e = [] \<or> f_JA4 e = [] then [] else ''ip_ja4:'' @ f_IP e @ ''|'' @ f_JA4 e)
         else [])"

definition muteLookup :: "string list \<Rightarrow> string list" where
  "muteLookup mutes = filter (\<lambda>m. m \<noteq> []) (map trim_space mutes)"

definition excludeMutedEntries :: "FeedEntry list \<Rightarrow> string list \<Rightarrow> FeedEntry list \<times> nat" where
  "excludeMutedEntries entries mutes =
     (let kept = filter (\<lambda>e. MuteKey e \<notin> set (muteLookup mutes)) entries in (kept, length entries - length kept))"

definition excludeBypassedEntries :: "FeedEntry list \<Rightarrow> IPBypassMatcher \<Rightarrow> FeedEntry list \<times> nat" where
  "excludeBypassedEntries entries m =
     (if bypass_Empty m then (entries, 0)
      else let kept = filter (\<lambda>e. \<not> bypass_Match m (f_IP e)) entries in (kept, length entries - length kept))"

section \<open>The guard\<close>

definition GraceJA4 :: int where "GraceJA4 = 24 * 3600"
definition ApplyCap :: nat where "ApplyCap = 200"

datatype PendingKind = PendingMajors | PendingGrace | PendingCapped

record guardState =
  gs_SeenPromoted :: "(string, int) amap"
  gs_Applied :: "(string, int) amap"

definition newGuardState :: guardState where
  "newGuardState = \<lparr>gs_SeenPromoted = [], gs_Applied = []\<rparr>"

record Pending =
  pd_Majors :: nat
  pd_Grace :: nat
  pd_Capped :: nat

definition ChromiumJA4C :: "string list" where
  "ChromiumJA4C = [''cb7bf5808d99'', ''806a8c22fdea'', ''02713d6af862'', ''d8a2da3f94cd'', ''dcad5a053991'', ''b0da82dd1658'']"

definition dec_digit :: "char \<Rightarrow> bool" where
  "dec_digit c = (let v = of_char c :: nat in 48 \<le> v \<and> v \<le> 57)"

definition low_letter :: "nat \<Rightarrow> char \<Rightarrow> bool" where
  "low_letter n c = (let v = of_char c :: nat in 97 \<le> v \<and> v < 97 + n)"

text \<open>\<open>^t13d[0-9]+h[12]_8daaf6152771_(...)$\<close> on the trimmed text.\<close>

definition MajorBrowserJA4 :: "string \<Rightarrow> bool" where
  "MajorBrowserJA4 ja4 =
     (let s = trim_space ja4; r = dropWhile dec_digit (drop 4 s) in
      is_prefix ''t13d'' s \<and> takeWhile dec_digit (drop 4 s) \<noteq> []
      \<and> (is_prefix ''h1_8daaf6152771_'' r \<or> is_prefix ''h2_8daaf6152771_'' r) \<and> drop 16 r \<in> set ChromiumJA4C)"

definition feed_applies :: "FeedEntry \<Rightarrow> int \<Rightarrow> bool" where
  "feed_applies e now \<longleftrightarrow> f_Promoted e \<and> \<not> (f_ExpiresAt e > 0 \<and> f_ExpiresAt e < now)"

definition isJA4Only :: "FeedEntry \<Rightarrow> bool" where
  "isJA4Only e = is_prefix ''ja4_only:'' (MuteKey e)"

definition observePromoted :: "FeedEntry list \<Rightarrow> int \<Rightarrow> guardState \<Rightarrow> guardState" where
  "observePromoted entries now st =
     (let es = filter (\<lambda>e. feed_applies e now \<and> isJA4Only e) entries;
          seen = map MuteKey es;
          m = fold (\<lambda>k m. if map_of m k = None then aput k now m else m) seen (gs_SeenPromoted st)
      in st\<lparr>gs_SeenPromoted := filter (\<lambda>kv. fst kv \<in> set seen) m\<rparr>)"

text \<open>What the first loop of \<open>guardEntries\<close> does with an entry.\<close>

datatype guard_class = PassThrough | HoldMajor | HoldGrace | StillApplied int | Fresh

definition guard_class :: "guardState \<Rightarrow> int \<Rightarrow> FeedEntry \<Rightarrow> guard_class" where
  "guard_class st now e =
     (if \<not> feed_applies e now \<or> MuteKey e = [] then PassThrough
      else if isJA4Only e \<and> MajorBrowserJA4 (f_JA4 e) then HoldMajor
      else if isJA4Only e \<and> (case map_of (gs_SeenPromoted st) (MuteKey e) of Some first \<Rightarrow> now - first < GraceJA4 | None \<Rightarrow> False) then HoldGrace
      else case map_of (gs_Applied st) (MuteKey e) of Some at \<Rightarrow> StillApplied at | None \<Rightarrow> Fresh)"

definition is_kept :: "guard_class \<Rightarrow> bool" where
  "is_kept c = (case c of PassThrough \<Rightarrow> True | StillApplied _ \<Rightarrow> True | _ \<Rightarrow> False)"

text \<open>The candidates of the cap, the oldest on the hub first, then by key.\<close>

definition by_age :: "FeedEntry list \<Rightarrow> FeedEntry list" where
  "by_age es = sort_key f_FirstSeen (sort_key MuteKey es)"

definition guardEntries :: "FeedEntry list \<Rightarrow> int \<Rightarrow> guardState \<Rightarrow> FeedEntry list \<times> (string, PendingKind) amap \<times> Pending \<times> guardState" where
  "guardEntries entries now st =
     (let cls = guard_class st now;
          fresh = by_age (filter (\<lambda>e. cls e = Fresh) entries);
          now_applied = take ApplyCap fresh;
          capped = drop ApplyCap fresh;
          majors = filter (\<lambda>e. cls e = HoldMajor) entries;
          grace = filter (\<lambda>e. cls e = HoldGrace) entries;
          still = filter (\<lambda>e. case cls e of StillApplied _ \<Rightarrow> True | _ \<Rightarrow> False) entries;
          held = fold (\<lambda>e. aput (MuteKey e) PendingCapped) capped
                   (fold (\<lambda>e. aput (MuteKey e) (if cls e = HoldMajor then PendingMajors else PendingGrace))
                      (filter (\<lambda>e. cls e = HoldMajor \<or> cls e = HoldGrace) entries) []);
          applied = fold (\<lambda>e. aput (MuteKey e) now) now_applied
                      (fold (\<lambda>e. aput (MuteKey e) (case cls e of StillApplied at \<Rightarrow> at | _ \<Rightarrow> now)) still [])
      in (filter (\<lambda>e. is_kept (cls e)) entries @ now_applied, held,
          \<lparr>pd_Majors = length majors, pd_Grace = length grace, pd_Capped = length capped\<rparr>,
          st\<lparr>gs_Applied := applied\<rparr>))"

section \<open>The map files\<close>

text \<open>\<open>^[tq][0-9a-z]{9}_[0-9a-f]{12}_[0-9a-f]{12}$\<close>.\<close>

definition ja4_shape :: "string \<Rightarrow> bool" where
  "ja4_shape s \<longleftrightarrow> length s = 36 \<and> (s ! 0 = CHR ''t'' \<or> s ! 0 = CHR ''q'')
     \<and> list_all (\<lambda>c. dec_digit c \<or> low_letter 26 c) (take 9 (drop 1 s)) \<and> s ! 10 = CHR ''_''
     \<and> list_all (\<lambda>c. dec_digit c \<or> low_letter 6 c) (take 12 (drop 11 s)) \<and> s ! 23 = CHR ''_''
     \<and> list_all (\<lambda>c. dec_digit c \<or> low_letter 6 c) (drop 24 s)"

definition mapKeyIP :: "string \<Rightarrow> string" where
  "mapKeyIP v = (case parse_addr (trim_space v) of None \<Rightarrow> [] | Some a \<Rightarrow> if zone a \<noteq> [] then [] else addr_string a)"

definition mapKeyJA4 :: "string \<Rightarrow> string" where
  "mapKeyJA4 v = (let v = trim_space v in if ja4_shape v then v else [])"

text \<open>
  \<open>%q\<close> and \<open>strconv.Unquote\<close> on printable ASCII, which is all a key can hold
  (\<open>map_key_graphic\<close> below).
\<close>

definition go_quote :: "string \<Rightarrow> string" where
  "go_quote s = [CHR 0x22] @ concat (map (\<lambda>c. if c = CHR 0x22 \<or> c = CHR 0x5C then [CHR 0x5C, c] else [c]) s) @ [CHR 0x22]"

fun unescape :: "string \<Rightarrow> string option" where
  "unescape [] = Some []"
| "unescape (c # cs) =
     (if c = CHR 0x22 \<or> c = CHR 0x0A then None
      else if c = CHR 0x5C then
        (case cs of d # ds \<Rightarrow> if d = CHR 0x22 \<or> d = CHR 0x5C then map_option ((#) d) (unescape ds) else None | [] \<Rightarrow> None)
      else map_option ((#) c) (unescape cs))"

definition go_unquote :: "string \<Rightarrow> string option" where
  "go_unquote s = (if length s < 2 \<or> hd s \<noteq> CHR 0x22 \<or> last s \<noteq> CHR 0x22 then None else unescape (butlast (tl s)))"

definition key_ipja4 :: "int \<Rightarrow> FeedEntry \<Rightarrow> string option" where
  "key_ipja4 now e = (if feed_applies e now \<and> f_Match e = MatchIPJA4 \<and> mapKeyIP (f_IP e) \<noteq> [] \<and> mapKeyJA4 (f_JA4 e) \<noteq> []
     then Some (mapKeyIP (f_IP e) @ '':'' @ mapKeyJA4 (f_JA4 e)) else None)"

definition key_ja4 :: "int \<Rightarrow> FeedEntry \<Rightarrow> string option" where
  "key_ja4 now e = (if feed_applies e now \<and> f_Match e = MatchJA4 \<and> mapKeyJA4 (f_JA4 e) \<noteq> [] then Some (mapKeyJA4 (f_JA4 e)) else None)"

definition key_ip :: "int \<Rightarrow> FeedEntry \<Rightarrow> string option" where
  "key_ip now e = (if feed_applies e now \<and> f_Match e = MatchIPOnly \<and> mapKeyIP (f_IP e) \<noteq> [] then Some (mapKeyIP (f_IP e)) else None)"

definition map_line :: "string \<Rightarrow> string" where
  "map_line k = go_quote k @ '' 1;''"

text \<open>\<open>atomicWriteLines\<close>: the header, then the sorted lines with repetitions left out.\<close>

fun uniq_lines :: "string \<Rightarrow> string list \<Rightarrow> string list" where
  "uniq_lines prev [] = []"
| "uniq_lines prev (l # ls) = (if l = prev then uniq_lines prev ls else l # uniq_lines l ls)"

definition map_header :: string where
  "map_header = ''# generated by unmask communitybans. DO NOT EDIT.''"

definition atomicWriteLines :: "string list \<Rightarrow> string list" where
  "atomicWriteLines ls = map_header # uniq_lines [] ls"

text \<open>The three files, each absent or its lines.\<close>

record MapFiles =
  mf_ipja4 :: "string list option"
  mf_ja4 :: "string list option"
  mf_ip :: "string list option"

text \<open>\<open>ok i\<close>: the write of file \<open>i\<close> succeeds. The first failure ends the write.\<close>

definition WriteMapFiles :: "(nat \<Rightarrow> bool) \<Rightarrow> FeedEntry list \<Rightarrow> int \<Rightarrow> MapFiles \<Rightarrow> bool \<times> MapFiles" where
  "WriteMapFiles ok entries now files =
     (let lines = (\<lambda>key. atomicWriteLines (sort (map map_line (List.map_filter (key now) entries)))) in
      if \<not> ok 0 then (False, files)
      else let files = files\<lparr>mf_ipja4 := Some (lines key_ipja4)\<rparr> in
        if \<not> ok 1 then (False, files)
        else let files = files\<lparr>mf_ja4 := Some (lines key_ja4)\<rparr> in
          if \<not> ok 2 then (False, files)
          else (True, files\<lparr>mf_ip := Some (lines key_ip)\<rparr>))"

section \<open>The matcher\<close>

record Matcher =
  mt_ipja4 :: "string list"
  mt_ja4 :: "string list"
  mt_ip :: "string list"

definition line_key :: "string \<Rightarrow> string option" where
  "line_key l =
     (let line = trim_space l in
      if line = [] \<or> hd line = CHR ''#'' \<or> hd line \<noteq> CHR 0x22 then None
      else case index_byte (CHR 0x22) (rev line) of None \<Rightarrow> None
        | Some i \<Rightarrow> (let end_at = length line - 1 - i in
            if end_at = 0 then None
            else case go_unquote (take (Suc end_at) line) of None \<Rightarrow> None | Some k \<Rightarrow> if k = [] then None else Some k))"

definition loadMapKeys :: "string list option \<Rightarrow> string list" where
  "loadMapKeys file = (case file of None \<Rightarrow> [] | Some ls \<Rightarrow> List.map_filter line_key ls)"

definition LoadMatcher :: "bool \<Rightarrow> MapFiles \<Rightarrow> Matcher option" where
  "LoadMatcher readable files =
     (if readable then Some \<lparr>mt_ipja4 = loadMapKeys (mf_ipja4 files), mt_ja4 = loadMapKeys (mf_ja4 files), mt_ip = loadMapKeys (mf_ip files)\<rparr>
      else None)"

definition feed_Hit :: "Matcher option \<Rightarrow> string \<Rightarrow> string \<Rightarrow> string option" where
  "feed_Hit mm ip ja4 =
     (case mm of None \<Rightarrow> None
      | Some m \<Rightarrow>
          if ip \<noteq> [] \<and> ja4 \<noteq> [] \<and> ip @ '':'' @ ja4 \<in> set (mt_ipja4 m) then Some ''ip_ja4''
          else if ja4 \<noteq> [] \<and> ja4 \<in> set (mt_ja4 m) then Some ''ja4_only''
          else if ip \<noteq> [] \<and> ip \<in> set (mt_ip m) then Some ''ip_only''
          else None)"

section \<open>The client\<close>

text \<open>
  The parts of the client that matter to enforcement: the guard's state in memory (\<open>None\<close>
  until the first pull loads it) and on disk, the map files, the matcher, the document for
  the pages and what the last pull held back.
\<close>

record Client =
  cl_guard :: "guardState option"
  cl_disk :: "guardState option"
  cl_files :: MapFiles
  cl_matcher :: "Matcher option"
  cl_doc :: "FeedEntry list"
  cl_pending :: Pending
  cl_held :: "(string, PendingKind) amap"

text \<open>
  One pull's circumstances: the settings it reads, the feed as fetched and decoded (\<open>None\<close>:
  the request, the status or the decoding failed), the clock, and which file operations
  succeed.
\<close>

record PullEnv =
  pe_cfg :: CommunityBansConfig
  pe_mutes :: "string list"
  pe_bypass :: IPBypassMatcher
  pe_feed :: "FeedEntry list option"
  pe_now :: int
  pe_write :: "nat \<Rightarrow> bool"
  pe_read :: bool
  pe_load :: bool
  pe_save :: bool

datatype PullError = ErrFeed | ErrWriteMaps

definition reloadMatcher :: "PullEnv \<Rightarrow> Client \<Rightarrow> Client" where
  "reloadMatcher v c = (case LoadMatcher (pe_read v) (cl_files c) of None \<Rightarrow> c | Some m \<Rightarrow> c\<lparr>cl_matcher := Some m\<rparr>)"

definition loadGuardState :: "bool \<Rightarrow> guardState option \<Rightarrow> guardState" where
  "loadGuardState readable disk = (if readable then (case disk of Some st \<Rightarrow> st | None \<Rightarrow> newGuardState) else newGuardState)"

definition guardStateFor :: "PullEnv \<Rightarrow> Client \<Rightarrow> guardState" where
  "guardStateFor v c = (case cl_guard c of Some st \<Rightarrow> st | None \<Rightarrow> loadGuardState (pe_load v) (cl_disk c))"

definition saveGuardState :: "PullEnv \<Rightarrow> Client \<Rightarrow> Client" where
  "saveGuardState v c = (case cl_guard c of None \<Rightarrow> c | Some st \<Rightarrow> if pe_save v then c\<lparr>cl_disk := Some st\<rparr> else c)"

definition no_pending :: Pending where
  "no_pending = \<lparr>pd_Majors = 0, pd_Grace = 0, pd_Capped = 0\<rparr>"

definition enforceable :: "PullEnv \<Rightarrow> FeedEntry list \<Rightarrow> FeedEntry list" where
  "enforceable v entries = fst (excludeMutedEntries (fst (excludeBypassedEntries entries (pe_bypass v))) (pe_mutes v))"

definition Pull :: "PullEnv \<Rightarrow> Client \<Rightarrow> PullError option \<times> Client" where
  "Pull v c =
     (if ResolvedSubscribeMode (pe_cfg v) = ''off''
      then (None, (reloadMatcher v (c\<lparr>cl_files := snd (WriteMapFiles (pe_write v) [] (pe_now v) (cl_files c))\<rparr>))\<lparr>cl_doc := []\<rparr>)
      else case pe_feed v of None \<Rightarrow> (Some ErrFeed, c)
      | Some entries \<Rightarrow>
          let c = c\<lparr>cl_doc := entries\<rparr>;
              st = observePromoted entries (pe_now v) (guardStateFor v c)
          in if ApplyActive (pe_cfg v)
             then let (kept, held, pend, st) = guardEntries (enforceable v entries) (pe_now v) st;
                      c = saveGuardState v (c\<lparr>cl_guard := Some st, cl_pending := pend, cl_held := held\<rparr>);
                      (ok, files) = WriteMapFiles (pe_write v) kept (pe_now v) (cl_files c);
                      c = c\<lparr>cl_files := files\<rparr>
                  in if \<not> ok then (Some ErrWriteMaps, c) else (None, reloadMatcher v c)
             else let c = saveGuardState v (c\<lparr>cl_guard := Some (st\<lparr>gs_Applied := []\<rparr>), cl_pending := no_pending, cl_held := []\<rparr>);
                      (ok, files) = WriteMapFiles (pe_write v) [] (pe_now v) (cl_files c);
                      c = c\<lparr>cl_files := files\<rparr>
                  in if \<not> ok then (Some ErrWriteMaps, c) else (None, reloadMatcher v c))"

definition ensureMapPlaceholders :: "PullEnv \<Rightarrow> Client \<Rightarrow> Client" where
  "ensureMapPlaceholders v c =
     (if mf_ipja4 (cl_files c) = None then c\<lparr>cl_files := snd (WriteMapFiles (pe_write v) [] (pe_now v) (cl_files c))\<rparr> else c)"

text \<open>The start of \<open>Run\<close> up to the first pull (the registration calls apart).\<close>

definition run_start :: "PullEnv \<Rightarrow> Client \<Rightarrow> Client" where
  "run_start v c = reloadMatcher v (if SubscribeActive (pe_cfg v) then ensureMapPlaceholders v c else c)"

section \<open>The files read back\<close>

lemma map_filter_mem: "y \<in> set (List.map_filter f xs) \<longleftrightarrow> (\<exists>x \<in> set xs. f x = Some y)"
  by (rule map_filter_set)

definition file_char :: "char \<Rightarrow> bool" where
  "file_char c \<longleftrightarrow> graphic c \<and> c \<noteq> CHR 0x22 \<and> c \<noteq> CHR 0x5C"

lemma unescape_plain: "\<forall>c \<in> set s. file_char c \<Longrightarrow> unescape s = Some s"
proof (induction s)
  case (Cons c s)
  have "\<not> graphic (CHR 0x0A)" by code_simp
  then have "c \<noteq> CHR 0x0A" using Cons.prems unfolding file_char_def by (metis list.set_intros(1))
  with Cons show ?case by (simp add: file_char_def)
qed simp

lemma quote_plain:
  assumes "\<forall>c \<in> set s. file_char c"
  shows "go_quote s = CHR 0x22 # s @ [CHR 0x22]" "go_unquote (CHR 0x22 # s @ [CHR 0x22]) = Some s"
proof -
  have "concat (map (\<lambda>c. if c = CHR 0x22 \<or> c = CHR 0x5C then [CHR 0x5C, c] else [c]) s) = s"
    using assms by (induction s) (auto simp: file_char_def)
  then show "go_quote s = CHR 0x22 # s @ [CHR 0x22]" by (simp add: go_quote_def)
  show "go_unquote (CHR 0x22 # s @ [CHR 0x22]) = Some s" using unescape_plain [OF assms] by (simp add: go_unquote_def)
qed

lemma numeric_key:
  assumes "numeric c"
  shows "file_char c"
proof -
  have "\<not> numeric (CHR 0x22)" "\<not> numeric (CHR 0x5C)" by code_simp+
  then have "c \<noteq> CHR 0x22" "c \<noteq> CHR 0x5C" using assms by metis+
  then show ?thesis using numeric_punct [OF assms] by (simp add: file_char_def)
qed

lemma mapKeyIP_chars:
  assumes "c \<in> set (mapKeyIP v)"
  shows "file_char c"
proof -
  obtain a where a: "c \<in> set (addr_string a)" "zone a = []"
    using assms by (auto simp: mapKeyIP_def split: option.splits if_splits)
  have "file_char (CHR ''.'')" "file_char (CHR '':'')" by code_simp+
  with addr_string_chars [OF a(2,1)] show ?thesis using numeric_key by auto
qed

lemma trim_front_head:
  assumes "\<forall>r \<in> set rs. r \<noteq> [] \<and> \<not> graphic (hd r)" "graphic (hd s)"
  shows "trim_front rs s = s"
proof (rule trim_front_id)
  show "find (\<lambda>r. r \<noteq> [] \<and> is_prefix r s) rs = None"
    using assms by (auto simp: find_None_iff is_prefix_iff)
qed

lemma trim_space_ends:
  assumes "s \<noteq> []" "graphic (hd s)" "graphic (last s)"
  shows "trim_space s = s"
proof -
  have "\<forall>r \<in> set ws_runes. r \<noteq> [] \<and> \<not> graphic (hd r)" "\<forall>r \<in> set (map rev ws_runes). r \<noteq> [] \<and> \<not> graphic (hd r)"
    unfolding ws_runes_def ws_encodings_def by code_simp+
  then have "trim_front ws_runes s = s" "trim_front (map rev ws_runes) (rev s) = rev s"
    using assms by (auto intro!: trim_front_head simp: hd_rev)
  then show ?thesis by (simp add: trim_space_def)
qed

lemma map_line_read:
  assumes "\<forall>c \<in> set k. file_char c" "k \<noteq> []"
  shows "line_key (map_line k) = Some k"
proof -
  let ?l = "CHR 0x22 # k @ CHR 0x22 # '' 1;''"
  have l: "map_line k = ?l" using quote_plain(1) [OF assms(1)] by (simp add: map_line_def)
  have "graphic (CHR 0x22)" "graphic (CHR '';'')" by code_simp+
  then have t: "trim_space ?l = ?l" by (intro trim_space_ends) simp_all
  have "index_byte (CHR 0x22) (rev ?l) = Some 3" by simp
  then show ?thesis unfolding l using t quote_plain(2) [OF assms(1)] assms(2) by (simp add: line_key_def Let_def)
qed

lemma header_no_key: "line_key map_header = None"
  by code_simp

lemma uniq_lines_set: "set (uniq_lines prev ls) - {prev} = set ls - {prev}"
  by (induction prev ls rule: uniq_lines.induct) auto

lemma uniq_no_prev: "set (uniq_lines prev ls) \<subseteq> set ls"
  by (induction prev ls rule: uniq_lines.induct) auto

lemma set_atomicWriteLines: "[] \<notin> set ls \<Longrightarrow> set (atomicWriteLines ls) = insert map_header (set ls)"
  using uniq_lines_set [of "[]" ls] uniq_no_prev [of "[]" ls] by (auto simp: atomicWriteLines_def)

lemma file_keys:
  assumes "\<forall>k \<in> set ks. k \<noteq> [] \<and> (\<forall>c \<in> set k. file_char c)"
  shows "set (loadMapKeys (Some (atomicWriteLines (sort (map map_line ks))))) = set ks"
proof -
  have "[] \<notin> set (map map_line ks)" by (auto simp: map_line_def go_quote_def)
  then have "set (atomicWriteLines (sort (map map_line ks))) = insert map_header (map_line ` set ks)"
    using set_atomicWriteLines [of "sort (map map_line ks)"] by simp
  then show ?thesis using map_line_read assms header_no_key by (force simp: loadMapKeys_def map_filter_set)
qed

lemma ja4_shape_chars:
  assumes "ja4_shape s"
  shows "\<forall>c \<in> set s. file_char c" "s \<noteq> []"
proof -
  have len: "length s = 36" using assms by (simp add: ja4_shape_def)
  have mem: "s ! i \<in> set (take n (drop a s))" if "a \<le> i" "i < a + n" "i < 36" for a n i
  proof -
    have "take n (drop a s) ! (i - a) = s ! i" "i - a < length (take n (drop a s))" using that len by auto
    then show ?thesis by (metis nth_mem)
  qed
  have "numeric c" if "dec_digit c \<or> low_letter 26 c \<or> low_letter 6 c" for c using that by (auto simp: dec_digit_def low_letter_def numeric_def Let_def)
  then have kind: "file_char c" if "dec_digit c \<or> low_letter 26 c \<or> low_letter 6 c" for c using that numeric_key by blast
  have "file_char (CHR ''t'')" "file_char (CHR ''q'')" "file_char (CHR ''_'')" by code_simp+
  then have fixed: "file_char (s ! 0)" "file_char (s ! 10)" "file_char (s ! 23)" using assms by (auto simp: ja4_shape_def)
  show "\<forall>c \<in> set s. file_char c"
  proof
    fix c
    assume "c \<in> set s"
    then obtain i where i: "i < 36" "c = s ! i" using len by (auto simp: in_set_conv_nth)
    have "i = 0 \<or> (1 \<le> i \<and> i < 1 + 9) \<or> i = 10 \<or> (11 \<le> i \<and> i < 11 + 12) \<or> i = 23 \<or> (24 \<le> i \<and> i < 24 + 12)" using i by linarith
    moreover have "take 12 (drop 24 s) = drop 24 s" using len by simp
    ultimately show "file_char c" using fixed mem [of 1 i 9] mem [of 11 i 12] mem [of 24 i 12] i assms kind
      by (elim disjE) (auto simp: ja4_shape_def list_all_iff)
  qed
  show "s \<noteq> []" using len by auto
qed

section \<open>What the files enforce\<close>

text \<open>The entry is in force under the kind and names the request's address and fingerprint.\<close>

definition feed_names :: "int \<Rightarrow> string \<Rightarrow> string \<Rightarrow> string \<Rightarrow> FeedEntry \<Rightarrow> bool" where
  "feed_names now kind ip ja4 e \<longleftrightarrow> feed_applies e now \<and> f_Match e = kind
     \<and> (kind \<noteq> MatchJA4 \<longrightarrow> ip \<noteq> [] \<and> mapKeyIP (f_IP e) = ip) \<and> (kind \<noteq> MatchIPOnly \<longrightarrow> ja4 \<noteq> [] \<and> mapKeyJA4 (f_JA4 e) = ja4)"

lemmas match_kinds = MatchIPJA4_def MatchJA4_def MatchIPOnly_def

lemma mapKeyJA4_chars: "mapKeyJA4 v \<noteq> [] \<Longrightarrow> (\<forall>c \<in> set (mapKeyJA4 v). file_char c) \<and> ja4_shape (mapKeyJA4 v)"
  using ja4_shape_chars by (auto simp: mapKeyJA4_def Let_def split: if_splits)

lemma keys_fit_file:
  assumes "key_ipja4 now e = Some k \<or> key_ja4 now e = Some k \<or> key_ip now e = Some k"
  shows "k \<noteq> [] \<and> (\<forall>c \<in> set k. file_char c)"
proof -
  have "file_char (CHR '':'')" by code_simp
  then show ?thesis using assms mapKeyJA4_chars mapKeyIP_chars
    by (auto simp: key_ipja4_def key_ja4_def key_ip_def split: if_splits)
qed

lemma ja4_no_colon:
  assumes "ja4_shape s"
  shows "CHR '':'' \<notin> set s"
proof
  assume "CHR '':'' \<in> set s"
  then obtain i where i: "i < 36" "s ! i = CHR '':''" using assms by (auto simp: in_set_conv_nth ja4_shape_def)
  have len: "length s = 36" using assms by (simp add: ja4_shape_def)
  have mem: "CHR '':'' \<in> set (take n (drop a s))" if "a \<le> i" "i < a + n" for a n
  proof -
    have "take n (drop a s) ! (i - a) = CHR '':''" "i - a < length (take n (drop a s))" using that len i by auto
    then show ?thesis by (metis nth_mem)
  qed
  have "\<not> dec_digit (CHR '':'')" "\<not> low_letter 26 (CHR '':'')" "\<not> low_letter 6 (CHR '':'')" by code_simp+
  moreover have "take 12 (drop 24 s) = drop 24 s" using len by simp
  moreover have "i = 0 \<or> (1 \<le> i \<and> i < 1 + 9) \<or> i = 10 \<or> (11 \<le> i \<and> i < 11 + 12) \<or> i = 23 \<or> (24 \<le> i \<and> i < 24 + 12)" using i by linarith
  ultimately show False using mem [of 1 9] mem [of 11 12] mem [of 24 12] i assms
    by (elim disjE) (auto simp: ja4_shape_def list_all_iff)
qed

lemma colon_split:
  assumes "CHR '':'' \<notin> set b" "CHR '':'' \<notin> set d"
  shows "a @ '':'' @ b = c @ '':'' @ d \<longleftrightarrow> a = c \<and> b = d"
proof
  assume "a @ '':'' @ b = c @ '':'' @ d"
  from arg_cong [OF this, of rev] have e: "rev b @ CHR '':'' # rev a = rev d @ CHR '':'' # rev c" by simp
  have "takeWhile (\<lambda>x. x \<noteq> CHR '':'') (rev b @ CHR '':'' # rev a) = rev b" "takeWhile (\<lambda>x. x \<noteq> CHR '':'') (rev d @ CHR '':'' # rev c) = rev d"
    using assms by (auto intro!: takeWhile_append2 [THEN trans])
  with e show "a = c \<and> b = d" by simp
qed simp

lemma written_keys:
  assumes "WriteMapFiles ok entries now files = (True, files')"
  shows "\<exists>m. LoadMatcher True files' = Some m
    \<and> set (mt_ipja4 m) = {k. \<exists>e \<in> set entries. key_ipja4 now e = Some k}
    \<and> set (mt_ja4 m) = {k. \<exists>e \<in> set entries. key_ja4 now e = Some k}
    \<and> set (mt_ip m) = {k. \<exists>e \<in> set entries. key_ip now e = Some k}"
proof -
  have keys: "set (loadMapKeys (Some (atomicWriteLines (sort (map map_line (List.map_filter (key now) entries)))))) = {k. \<exists>e \<in> set entries. key now e = Some k}"
    if "key \<in> {key_ipja4, key_ja4, key_ip}" for key
  proof -
    have "k \<noteq> [] \<and> (\<forall>c \<in> set k. file_char c)" if "k \<in> set (List.map_filter (key now) entries)" for k
      using that \<open>key \<in> _\<close> keys_fit_file [of now _ k] by (auto simp only: map_filter_set insert_iff empty_iff)
    then show ?thesis by (subst file_keys) (auto simp: map_filter_set)
  qed
  show ?thesis using assms keys by (auto simp: WriteMapFiles_def LoadMatcher_def Let_def split: if_splits)
qed

lemma written_hit:
  assumes "WriteMapFiles ok entries now files = (True, files')" "CHR '':'' \<notin> set ja4"
  shows "feed_Hit (LoadMatcher True files') ip ja4 =
    (if \<exists>e \<in> set entries. feed_names now MatchIPJA4 ip ja4 e then Some MatchIPJA4
     else if \<exists>e \<in> set entries. feed_names now MatchJA4 ip ja4 e then Some MatchJA4
     else if \<exists>e \<in> set entries. feed_names now MatchIPOnly ip ja4 e then Some MatchIPOnly else None)"
proof -
  obtain m where m: "LoadMatcher True files' = Some m" "set (mt_ipja4 m) = {k. \<exists>e \<in> set entries. key_ipja4 now e = Some k}"
    "set (mt_ja4 m) = {k. \<exists>e \<in> set entries. key_ja4 now e = Some k}" "set (mt_ip m) = {k. \<exists>e \<in> set entries. key_ip now e = Some k}"
    using written_keys [OF assms(1)] by blast
  have pair: "key_ipja4 now e = Some (ip @ '':'' @ ja4) \<longleftrightarrow> feed_names now MatchIPJA4 ip ja4 e" if "ip \<noteq> []" "ja4 \<noteq> []" for e
    using that assms(2) ja4_no_colon mapKeyJA4_chars [of "f_JA4 e"] colon_split [of "mapKeyJA4 (f_JA4 e)" ja4 "mapKeyIP (f_IP e)" ip]
    by (auto simp: key_ipja4_def feed_names_def match_kinds)
  have "key_ja4 now e = Some ja4 \<longleftrightarrow> feed_names now MatchJA4 ip ja4 e" if "ja4 \<noteq> []" for e
    using that by (auto simp: key_ja4_def feed_names_def match_kinds)
  moreover have "key_ip now e = Some ip \<longleftrightarrow> feed_names now MatchIPOnly ip ja4 e" if "ip \<noteq> []" for e
    using that by (auto simp: key_ip_def feed_names_def match_kinds)
  moreover have "\<not> feed_names now MatchIPJA4 ip ja4 e" if "ip = [] \<or> ja4 = []" for e using that by (auto simp: feed_names_def match_kinds)
  moreover have "\<not> feed_names now MatchJA4 ip [] e" "\<not> feed_names now MatchIPOnly [] ja4 e" for e by (auto simp: feed_names_def match_kinds)
  ultimately show ?thesis using m pair by (cases "ip = []"; cases "ja4 = []") (simp_all add: feed_Hit_def match_kinds)
qed

section \<open>What the guard lets through\<close>

lemma fold_aput_dom: "dom (map_of (fold (\<lambda>e. aput (K e) (V e)) es m)) = K ` set es \<union> dom (map_of m)"
  by (induction es arbitrary: m) auto

lemma set_by_age [simp]: "set (by_age es) = set es" "length (by_age es) = length es"
  by (simp_all add: by_age_def)

definition applied_keys :: "guardState \<Rightarrow> string set" where
  "applied_keys st = dom (map_of (gs_Applied st))"

definition still_applied :: "guardState \<Rightarrow> int \<Rightarrow> FeedEntry \<Rightarrow> bool" where
  "still_applied st now e = (case guard_class st now e of StillApplied _ \<Rightarrow> True | _ \<Rightarrow> False)"

definition fresh_entries :: "guardState \<Rightarrow> int \<Rightarrow> FeedEntry list \<Rightarrow> FeedEntry list" where
  "fresh_entries st now es = by_age (filter (\<lambda>e. guard_class st now e = Fresh) es)"

lemma guardEntries_parts:
  assumes "guardEntries es now st = (kept, held, pend, st')"
  shows "kept = filter (\<lambda>e. is_kept (guard_class st now e)) es @ take ApplyCap (fresh_entries st now es)"
    and "applied_keys st' = MuteKey ` ({e \<in> set es. still_applied st now e} \<union> set (take ApplyCap (fresh_entries st now es)))"
    and "gs_SeenPromoted st' = gs_SeenPromoted st"
proof -
  show "kept = filter (\<lambda>e. is_kept (guard_class st now e)) es @ take ApplyCap (fresh_entries st now es)"
    "gs_SeenPromoted st' = gs_SeenPromoted st"
    using assms by (auto simp: guardEntries_def fresh_entries_def Let_def)
  have "gs_Applied st' = fold (\<lambda>e. aput (MuteKey e) now) (take ApplyCap (fresh_entries st now es))
      (fold (\<lambda>e. aput (MuteKey e) (case guard_class st now e of StillApplied at \<Rightarrow> at | _ \<Rightarrow> now)) (filter (still_applied st now) es) [])"
    using assms by (auto simp: guardEntries_def fresh_entries_def Let_def still_applied_def [abs_def])
  then show "applied_keys st' = MuteKey ` ({e \<in> set es. still_applied st now e} \<union> set (take ApplyCap (fresh_entries st now es)))"
    by (simp add: applied_keys_def fold_aput_dom image_Un Un_commute)
qed

lemma still_applied_key: "still_applied st now e \<Longrightarrow> MuteKey e \<in> applied_keys st"
  by (auto simp: still_applied_def guard_class_def applied_keys_def split: if_splits option.splits)

lemma fresh_key: "guard_class st now e = Fresh \<Longrightarrow> MuteKey e \<notin> applied_keys st"
  by (auto simp: guard_class_def applied_keys_def split: if_splits option.splits)

lemma guard_new_keys:
  assumes "guardEntries es now st = (kept, held, pend, st')"
  shows "card (applied_keys st' - applied_keys st) \<le> ApplyCap"
proof -
  let ?new = "set (take ApplyCap (fresh_entries st now es))"
  have "applied_keys st' - applied_keys st \<subseteq> MuteKey ` ?new"
    using guardEntries_parts(2) [OF assms] still_applied_key by auto
  then have "card (applied_keys st' - applied_keys st) \<le> card (MuteKey ` ?new)" by (intro card_mono) auto
  also have "\<dots> \<le> length (take ApplyCap (fresh_entries st now es))" by (meson card_image_le card_length finite_set le_trans)
  finally show ?thesis by simp
qed

lemma guard_kept:
  assumes "guardEntries es now st = (kept, held, pend, st')" "e \<in> set kept" "feed_applies e now" "MuteKey e \<noteq> []"
  shows "e \<in> set es \<and> MuteKey e \<in> applied_keys st' \<and> (still_applied st now e \<or> guard_class st now e = Fresh)"
proof -
  have k: "e \<in> set es" "is_kept (guard_class st now e) \<or> e \<in> set (take ApplyCap (fresh_entries st now es))"
    using assms(2) guardEntries_parts(1) [OF assms(1)] by (auto simp: fresh_entries_def dest!: in_set_takeD)
  have "guard_class st now e \<noteq> PassThrough" using assms(3,4) by (auto simp: guard_class_def split: option.splits)
  then have "still_applied st now e \<or> e \<in> set (take ApplyCap (fresh_entries st now es))"
    using k by (auto simp: is_kept_def still_applied_def split: guard_class.splits)
  then show ?thesis using k guardEntries_parts(2) [OF assms(1)] by (auto simp: fresh_entries_def dest!: in_set_takeD)
qed

lemma kept_ja4_waited:
  assumes "still_applied st now e \<or> guard_class st now e = Fresh" "isJA4Only e" "map_of (gs_SeenPromoted st) (MuteKey e) \<noteq> None"
  shows "\<not> MajorBrowserJA4 (f_JA4 e) \<and> (\<exists>first. map_of (gs_SeenPromoted st) (MuteKey e) = Some first \<and> first + GraceJA4 \<le> now)"
  using assms by (auto simp: still_applied_def guard_class_def split: if_splits option.splits)

lemma observed:
  assumes "e \<in> set entries" "feed_applies e now" "isJA4Only e"
  shows "map_of (gs_SeenPromoted (observePromoted entries now st)) (MuteKey e) \<noteq> None"
proof -
  define seen where "seen = map MuteKey (filter (\<lambda>e. feed_applies e now \<and> isJA4Only e) entries)"
  define m where "m = fold (\<lambda>k m. if map_of m k = None then aput k now m else m) seen (gs_SeenPromoted st)"
  have "map_of (fold (\<lambda>k m. if map_of m k = None then aput k now m else m) ks m) k \<noteq> None" if "k \<in> set ks \<or> map_of m k \<noteq> None" for ks m and k :: string
    using that by (induction ks arbitrary: m) auto
  then have "MuteKey e \<in> set seen \<Longrightarrow> map_of m (MuteKey e) \<noteq> None" unfolding m_def by blast
  moreover have "MuteKey e \<in> set seen" using assms by (auto simp: seen_def)
  moreover have "gs_SeenPromoted (observePromoted entries now st) =
      filter (\<lambda>kv. fst kv \<in> set seen) m"
    by (simp add: observePromoted_def Let_def seen_def m_def)
  ultimately show ?thesis by (simp add: map_of_filter_fst [of "\<lambda>k. k \<in> set seen"])
qed

lemma enforceable_mem_iff:
  "e \<in> set (enforceable v entries) \<longleftrightarrow> e \<in> set entries \<and> MuteKey e \<notin> set (muteLookup (pe_mutes v)) \<and> \<not> bypass_Match (pe_bypass v) (f_IP e)"
proof -
  have "\<not> bypass_Match m ip" if "bypass_Empty m" for m ip
    using that by (auto simp: bypass_Empty_def bypass_Match_def Overlaps_def Let_def split: option.splits)
  then show ?thesis by (auto simp: enforceable_def excludeMutedEntries_def excludeBypassedEntries_def Let_def)
qed

lemma enforceable_mem:
  assumes "e \<in> set (enforceable v entries)"
  shows "e \<in> set entries" "MuteKey e \<notin> set (muteLookup (pe_mutes v))" "\<not> bypass_Match (pe_bypass v) (f_IP e)"
  using assms by (simp_all add: enforceable_mem_iff)

lemma Pull_apply:
  assumes "ApplyActive (pe_cfg v)" "pe_feed v = Some entries" "Pull v c = (r, c')"
  obtains kept held pend st' ok files where
    "guardEntries (enforceable v entries) (pe_now v) (observePromoted entries (pe_now v) (guardStateFor v c)) = (kept, held, pend, st')"
    "WriteMapFiles (pe_write v) kept (pe_now v) (cl_files c) = (ok, files)"
    "cl_guard c' = Some st'" "cl_files c' = files" "r = (if ok then None else Some ErrWriteMaps)"
    "ok \<Longrightarrow> pe_read v \<Longrightarrow> cl_matcher c' = LoadMatcher True files" "\<not> ok \<Longrightarrow> cl_matcher c' = cl_matcher c"
proof -
  obtain kept held pend st' where g: "guardEntries (enforceable v entries) (pe_now v) (observePromoted entries (pe_now v) (guardStateFor v c)) = (kept, held, pend, st')"
    using prod_cases4 by blast
  obtain ok files where w: "WriteMapFiles (pe_write v) kept (pe_now v) (cl_files c) = (ok, files)" by (metis prod.exhaust)
  have same: "guardStateFor v (c\<lparr>cl_doc := x\<rparr>) = guardStateFor v c" for x by (simp add: guardStateFor_def split: option.splits)
  have on: "ResolvedSubscribeMode (pe_cfg v) \<noteq> ''off''" using assms(1) by (simp add: ApplyActive_def)
  let ?c = "saveGuardState v (c\<lparr>cl_doc := entries, cl_guard := Some st', cl_pending := pend, cl_held := held\<rparr>)"
  have f: "cl_files ?c = cl_files c" "cl_guard ?c = Some st'" "cl_matcher ?c = cl_matcher c" by (simp_all add: saveGuardState_def)
  have P: "Pull v c = (if ok then (None, reloadMatcher v (?c\<lparr>cl_files := files\<rparr>)) else (Some ErrWriteMaps, ?c\<lparr>cl_files := files\<rparr>))"
    using assms(1,2) on g w f(1) by (simp add: Pull_def Let_def same)
  have r: "cl_guard (reloadMatcher v (?c\<lparr>cl_files := files\<rparr>)) = Some st'" "cl_files (reloadMatcher v (?c\<lparr>cl_files := files\<rparr>)) = files"
    "pe_read v \<Longrightarrow> cl_matcher (reloadMatcher v (?c\<lparr>cl_files := files\<rparr>)) = LoadMatcher True files"
    using f by (auto simp: reloadMatcher_def LoadMatcher_def split: option.splits)
  show ?thesis using that [OF g w] P assms(3) r f by (cases ok) auto
qed

lemma named_has_key:
  assumes "feed_names now kind ip ja4 e" "kind \<in> {MatchIPJA4, MatchJA4, MatchIPOnly}"
  shows "MuteKey e \<noteq> []" "feed_applies e now" "isJA4Only e \<longleftrightarrow> kind = MatchJA4"
proof -
  have empty: "mapKeyIP [] = []" "mapKeyJA4 [] = []" by code_simp+
  have parts: "f_Match e = kind" "kind \<noteq> MatchJA4 \<Longrightarrow> f_IP e \<noteq> []" "kind \<noteq> MatchIPOnly \<Longrightarrow> f_JA4 e \<noteq> []"
    using assms(1) empty by (auto simp: feed_names_def)
  then show "MuteKey e \<noteq> []" "isJA4Only e \<longleftrightarrow> kind = MatchJA4"
    using assms(2) by (auto simp: MuteKey_def isJA4Only_def match_kinds)
  show "feed_applies e now" using assms(1) by (simp add: feed_names_def)
qed

lemma trimmed_ja4:
  assumes "mapKeyJA4 v = ja4" "ja4 \<noteq> []"
  shows "MajorBrowserJA4 v = MajorBrowserJA4 ja4"
proof -
  have ja4: "ja4 = trim_space v" using assms by (auto simp: mapKeyJA4_def Let_def split: if_splits)
  have "\<forall>c \<in> set ja4. file_char c" using mapKeyJA4_chars assms by blast
  then have "graphic (hd ja4)" "graphic (last ja4)" using assms(2) by (auto simp: file_char_def)
  then have "trim_space ja4 = ja4" using trim_space_ends assms(2) by blast
  then show ?thesis by (simp add: MajorBrowserJA4_def ja4)
qed

lemma hit_entry:
  assumes "WriteMapFiles ok entries now files = (True, files')" "CHR '':'' \<notin> set ja4" "feed_Hit (LoadMatcher True files') ip ja4 = Some kind"
  obtains e where "e \<in> set entries" "feed_names now kind ip ja4 e" "kind \<in> {MatchIPJA4, MatchJA4, MatchIPOnly}"
  using assms(3) unfolding written_hit [OF assms(1,2)] by (auto split: if_splits)

section \<open>Properties\<close>

text \<open>
  What the check finds in the written map files is what the entries say, whatever the
  entries hold: after the three files are written and read back, a request hits exactly
  when a promoted, unexpired entry of the kind reported names its address and its
  fingerprint, and the narrower kinds win.
\<close>

lemma map_files_roundtrip:
  assumes "WriteMapFiles ok entries now files = (True, files')" "CHR '':'' \<notin> set ja4"
  shows "feed_Hit (LoadMatcher True files') ip ja4 =
    (if \<exists>e \<in> set entries. feed_names now MatchIPJA4 ip ja4 e then Some MatchIPJA4
     else if \<exists>e \<in> set entries. feed_names now MatchJA4 ip ja4 e then Some MatchJA4
     else if \<exists>e \<in> set entries. feed_names now MatchIPOnly ip ja4 e then Some MatchIPOnly else None)"
  by (rule written_hit [OF assms])

definition sample_entry :: "string \<Rightarrow> FeedEntry" where
  "sample_entry ip = \<lparr>f_Match = MatchIPOnly, f_IP = ip, f_JA4 = [], f_Promoted = True, f_FirstSeen = 0, f_ExpiresAt = 0\<rparr>"

definition no_files :: MapFiles where
  "no_files = \<lparr>mf_ipja4 = None, mf_ja4 = None, mf_ip = None\<rparr>"

text \<open>
  What a pull enforces. After a pull in apply mode that reported no error, a request hits
  only because of an entry of the pulled feed that is promoted and unexpired, names the
  request, is neither muted locally nor on the allowlist, and is counted as applied; and a
  fingerprint is enforced on its own only if it is not a current browser's and was first
  seen promoted a day ago or more.
\<close>

lemma pull_enforces_only:
  assumes "ApplyActive (pe_cfg v)" "pe_feed v = Some entries" "pe_read v" "Pull v c = (None, c')"
    and "CHR '':'' \<notin> set ja4" "feed_Hit (cl_matcher c') ip ja4 = Some kind"
  shows "\<exists>e \<in> set entries. feed_names (pe_now v) kind ip ja4 e
    \<and> MuteKey e \<notin> set (muteLookup (pe_mutes v)) \<and> \<not> bypass_Match (pe_bypass v) (f_IP e)
    \<and> (\<exists>st. cl_guard c' = Some st \<and> MuteKey e \<in> applied_keys st
         \<and> (kind = MatchJA4 \<longrightarrow> \<not> MajorBrowserJA4 ja4
              \<and> (\<exists>first. map_of (gs_SeenPromoted st) (MuteKey e) = Some first \<and> first + GraceJA4 \<le> pe_now v)))"
proof -
  let ?st0 = "observePromoted entries (pe_now v) (guardStateFor v c)"
  obtain kept held pend st' files where g: "guardEntries (enforceable v entries) (pe_now v) ?st0 = (kept, held, pend, st')"
    and w: "WriteMapFiles (pe_write v) kept (pe_now v) (cl_files c) = (True, files)"
    and c': "cl_guard c' = Some st'" "cl_matcher c' = LoadMatcher True files"
    using Pull_apply [OF assms(1,2,4)] assms(3) by (metis option.distinct(1))
  obtain e where e: "e \<in> set kept" "feed_names (pe_now v) kind ip ja4 e" "kind \<in> {MatchIPJA4, MatchJA4, MatchIPOnly}"
    using hit_entry [OF w assms(5)] assms(6) c'(2) by metis
  note key = named_has_key [OF e(2,3)]
  have k: "e \<in> set (enforceable v entries)" "MuteKey e \<in> applied_keys st'" "still_applied ?st0 (pe_now v) e \<or> guard_class ?st0 (pe_now v) e = Fresh"
    using guard_kept [OF g e(1) key(2,1)] by auto
  note en = enforceable_mem [OF k(1)]
  have "\<not> MajorBrowserJA4 ja4 \<and> (\<exists>first. map_of (gs_SeenPromoted st') (MuteKey e) = Some first \<and> first + GraceJA4 \<le> pe_now v)" if "kind = MatchJA4"
  proof -
    have "isJA4Only e" using key(3) that by simp
    then have "\<not> MajorBrowserJA4 (f_JA4 e) \<and> (\<exists>first. map_of (gs_SeenPromoted ?st0) (MuteKey e) = Some first \<and> first + GraceJA4 \<le> pe_now v)"
      using kept_ja4_waited [OF k(3)] observed [OF en(1) key(2)] by blast
    moreover have "MajorBrowserJA4 (f_JA4 e) = MajorBrowserJA4 ja4"
      using trimmed_ja4 e(2) that by (auto simp: feed_names_def match_kinds)
    ultimately show ?thesis using guardEntries_parts(3) [OF g] by simp
  qed
  then show ?thesis using en e(2) c'(1) k(2) by blast
qed

text \<open>
  A pull in apply mode, whatever it carries and however the file operations go, adds at
  most \<open>ApplyCap\<close> (200) entries to those already applied.
\<close>

lemma pull_apply_cap:
  assumes "ApplyActive (pe_cfg v)" "pe_feed v = Some entries" "Pull v c = (r, c')"
  shows "\<exists>st. cl_guard c' = Some st \<and> card (applied_keys st - applied_keys (guardStateFor v c)) \<le> ApplyCap"
proof -
  obtain kept held pend st' where g: "guardEntries (enforceable v entries) (pe_now v) (observePromoted entries (pe_now v) (guardStateFor v c)) = (kept, held, pend, st')"
    and c': "cl_guard c' = Some st'"
    using Pull_apply [OF assms] by metis
  have "applied_keys (observePromoted entries (pe_now v) (guardStateFor v c)) = applied_keys (guardStateFor v c)"
    by (simp add: applied_keys_def observePromoted_def Let_def)
  then show ?thesis using guard_new_keys [OF g] c' by simp
qed

definition sample_pull :: "string list \<Rightarrow> FeedEntry list \<Rightarrow> PullEnv" where
  "sample_pull allow entries =
     \<lparr>pe_cfg = \<lparr>cb_SubscribeMode = ''fetch_apply'', cb_Action = []\<rparr>, pe_mutes = [], pe_bypass = parseBypassRanges allow,
      pe_feed = Some entries, pe_now = 5, pe_write = (\<lambda>_. True), pe_read = True, pe_load = True, pe_save = True\<rparr>"

definition new_client :: Client where
  "new_client = \<lparr>cl_guard = None, cl_disk = None, cl_files = no_files, cl_matcher = None, cl_doc = [], cl_pending = no_pending, cl_held = []\<rparr>"

lemma sample_pull_fields:
  "ApplyActive (pe_cfg (sample_pull allow es))" "pe_feed (sample_pull allow es) = Some es" "pe_read (sample_pull allow es)"
  "pe_write (sample_pull allow es) = (\<lambda>_. True)" "pe_now (sample_pull allow es) = 5" "pe_mutes (sample_pull allow es) = []"
  by (simp_all add: sample_pull_def ApplyActive_def ResolvedSubscribeMode_def)

section \<open>Everything in the feed is enforced in the end\<close>

text \<open>The entries in force that the guard has not applied.\<close>

definition unapplied :: "int \<Rightarrow> guardState \<Rightarrow> FeedEntry list \<Rightarrow> FeedEntry list" where
  "unapplied now st es = filter (\<lambda>e. feed_applies e now \<and> MuteKey e \<noteq> [] \<and> MuteKey e \<notin> applied_keys st) es"

text \<open>Keys that tell the entries with a key apart.\<close>

definition keyed :: "FeedEntry list \<Rightarrow> bool" where
  "keyed es \<longleftrightarrow> distinct (filter (\<lambda>k. k \<noteq> []) (map MuteKey es))"

text \<open>What was applied and is in force stays applied.\<close>

definition settled :: "int \<Rightarrow> guardState \<Rightarrow> FeedEntry list \<Rightarrow> bool" where
  "settled now st es \<longleftrightarrow> (\<forall>x \<in> set es. feed_applies x now \<and> MuteKey x \<noteq> [] \<and> MuteKey x \<in> applied_keys st \<longrightarrow> still_applied st now x)"

lemma keyed_inj:
  assumes "keyed es" "x \<in> set es" "y \<in> set es" "MuteKey x = MuteKey y" "MuteKey x \<noteq> []"
  shows "x = y"
proof -
  have d: "distinct (map MuteKey (filter (\<lambda>e. MuteKey e \<noteq> []) es))" using assms(1) by (simp add: keyed_def filter_map o_def)
  then show ?thesis using assms(2-5) by (auto simp: distinct_map inj_on_def)
qed

lemma keyed_distinct: "keyed es \<Longrightarrow> distinct (filter (\<lambda>e. MuteKey e \<noteq> [] \<and> P e) es)"
proof -
  assume "keyed es"
  then have "distinct (filter (\<lambda>e. MuteKey e \<noteq> []) es)" by (simp add: keyed_def filter_map o_def distinct_map)
  then have "distinct (filter P (filter (\<lambda>e. MuteKey e \<noteq> []) es))" by (rule distinct_filter)
  then show ?thesis by (simp add: conj_commute)
qed

lemma keyed_filter: "keyed es \<Longrightarrow> keyed (filter P es)"
  by (induction es) (auto simp: keyed_def)

lemma keyed_enforceable: "keyed entries \<Longrightarrow> keyed (enforceable v entries)"
  by (auto simp: enforceable_def excludeMutedEntries_def excludeBypassedEntries_def Let_def keyed_filter)

lemma fresh_iff: "x \<in> set (fresh_entries st now es) \<longleftrightarrow> x \<in> set es \<and> guard_class st now x = Fresh"
  by (simp add: fresh_entries_def)

lemma Fresh_facts: "guard_class st now x = Fresh \<Longrightarrow> feed_applies x now \<and> MuteKey x \<noteq> [] \<and> MuteKey x \<notin> applied_keys st"
  using fresh_key [of st now x] by (auto simp: guard_class_def split: if_splits)

lemma distinct_fresh:
  assumes "keyed es"
  shows "distinct (fresh_entries st now es)"
proof -
  have "distinct (filter (\<lambda>e. MuteKey e \<noteq> [] \<and> guard_class st now e = Fresh) es)" using keyed_distinct [OF assms] .
  moreover have "filter (\<lambda>e. MuteKey e \<noteq> [] \<and> guard_class st now e = Fresh) es = filter (\<lambda>e. guard_class st now e = Fresh) es"
    using Fresh_facts by (auto intro!: filter_cong)
  ultimately show ?thesis by (simp add: fresh_entries_def by_age_def)
qed

lemma guard_applied_iff:
  assumes g: "guardEntries es now st = (kept, held, pend, st')" and es: "keyed es" and x: "x \<in> set es" "MuteKey x \<noteq> []"
  shows "MuteKey x \<in> applied_keys st' \<longleftrightarrow> still_applied st now x \<or> x \<in> set (take ApplyCap (fresh_entries st now es))"
proof
  let ?T = "take ApplyCap (fresh_entries st now es)"
  assume "MuteKey x \<in> applied_keys st'"
  then obtain y where y: "MuteKey x = MuteKey y" "y \<in> set es \<and> still_applied st now y \<or> y \<in> set ?T" unfolding guardEntries_parts(2) [OF g] by blast
  have "y \<in> set es" using y(2) by (auto dest!: in_set_takeD simp: fresh_iff)
  then show "still_applied st now x \<or> x \<in> set ?T" using keyed_inj [OF es x(1) _ y(1) x(2)] y(2) by blast
next
  assume "still_applied st now x \<or> x \<in> set (take ApplyCap (fresh_entries st now es))"
  then show "MuteKey x \<in> applied_keys st'" unfolding guardEntries_parts(2) [OF g] using x(1) by blast
qed

text \<open>
  One pull: whoever applied is in the files; the others wait behind \<open>ApplyCap\<close> entries that
  did not wait longer; nothing applied falls back.
\<close>

lemma guard_progress:
  assumes g: "guardEntries es now st = (kept, held, pend, st')" and es: "keyed es"
    and e: "e \<in> set es" "feed_applies e now" "\<not> isJA4Only e" "MuteKey e \<noteq> []"
  shows "MuteKey e \<in> applied_keys st' \<Longrightarrow> e \<in> set kept"
    and "MuteKey e \<notin> applied_keys st' \<Longrightarrow> length (unapplied now st' es) + ApplyCap \<le> length es"
    and "settled now st es \<Longrightarrow> MuteKey e \<notin> applied_keys st' \<Longrightarrow> length (unapplied now st' es) + ApplyCap \<le> length (unapplied now st es)"
    and "settled now st es \<Longrightarrow> MuteKey e \<in> applied_keys st \<Longrightarrow> MuteKey e \<in> applied_keys st'"
proof -
  let ?T = "take ApplyCap (fresh_entries st now es)"
  note parts = guardEntries_parts [OF g]
  have T: "x \<in> set es \<and> guard_class st now x = Fresh" if "x \<in> set ?T" for x using in_set_takeD [OF that] by (simp add: fresh_iff)
  note who = guard_applied_iff [OF g es]
  show "e \<in> set kept" if "MuteKey e \<in> applied_keys st'"
    using that who e parts(1) by (auto simp: still_applied_def is_kept_def split: guard_class.splits)
  have count: "length (unapplied now st' es) + ApplyCap \<le> length (filter (\<lambda>x. MuteKey x \<noteq> [] \<and> P x) es)"
    if "MuteKey e \<notin> applied_keys st'" "\<And>x. x \<in> set es \<Longrightarrow> guard_class st now x = Fresh \<Longrightarrow> P x"
      "\<And>x. x \<in> set (unapplied now st' es) \<Longrightarrow> P x" for P
  proof -
    have "\<not> still_applied st now e" "e \<notin> set ?T" using who [OF e(1,4)] that(1) by auto
    then have "guard_class st now e = Fresh" using e by (auto simp: still_applied_def guard_class_def split: option.splits)
    then have "length ?T = ApplyCap" using e(1) \<open>e \<notin> set ?T\<close> by (metis fresh_iff length_take min_def take_all)
    then have T_card: "card (set ?T) = ApplyCap" using distinct_fresh [OF es, of st now] by (metis distinct_card distinct_take)
    have "distinct (unapplied now st' es)"
      using keyed_distinct [OF es, of "\<lambda>e. feed_applies e now \<and> MuteKey e \<notin> applied_keys st'"] by (simp add: unapplied_def conj_left_commute)
    then have "length (unapplied now st' es) + ApplyCap = card (set (unapplied now st' es)) + card (set ?T)"
      by (simp add: T_card distinct_card)
    also have "\<dots> = card (set (unapplied now st' es) \<union> set ?T)"
      by (rule card_Un_disjoint [symmetric]) (use who in \<open>auto simp: unapplied_def\<close>)
    also have "\<dots> \<le> card (set (filter (\<lambda>x. MuteKey x \<noteq> [] \<and> P x) es))"
    proof (rule card_mono)
      show "set (unapplied now st' es) \<union> set ?T \<subseteq> set (filter (\<lambda>x. MuteKey x \<noteq> [] \<and> P x) es)"
    proof
      fix x
      assume "x \<in> set (unapplied now st' es) \<union> set ?T"
      then have "P x \<and> x \<in> set es \<and> MuteKey x \<noteq> []"
      proof
        assume "x \<in> set ?T"
        then show ?thesis using T [of x] Fresh_facts [of st now x] that(2) [of x] by blast
      qed (use that(3) [of x] in \<open>simp add: unapplied_def\<close>)
      then show "x \<in> set (filter (\<lambda>x. MuteKey x \<noteq> [] \<and> P x) es)" by simp
    qed
    qed simp
    also have "\<dots> \<le> length (filter (\<lambda>x. MuteKey x \<noteq> [] \<and> P x) es)" by (rule card_length)
    finally show ?thesis .
  qed
  show "length (unapplied now st' es) + ApplyCap \<le> length es" if "MuteKey e \<notin> applied_keys st'"
    using count [OF that, of "\<lambda>_. True"] by (auto intro: le_trans [OF _ length_filter_le])
  have stays: "MuteKey x \<in> applied_keys st'" if "settled now st es" "x \<in> set es" "feed_applies x now" "MuteKey x \<noteq> []" "MuteKey x \<in> applied_keys st" for x
    using that who [OF that(2,4)] by (simp add: settled_def)
  then show "settled now st es \<Longrightarrow> MuteKey e \<in> applied_keys st \<Longrightarrow> MuteKey e \<in> applied_keys st'" using e by blast
  show "length (unapplied now st' es) + ApplyCap \<le> length (unapplied now st es)" if "settled now st es" "MuteKey e \<notin> applied_keys st'"
  proof -
    have "length (unapplied now st' es) + ApplyCap \<le> length (filter (\<lambda>x. MuteKey x \<noteq> [] \<and> feed_applies x now \<and> MuteKey x \<notin> applied_keys st) es)"
    proof (rule count [OF that(2)])
      show "feed_applies x now \<and> MuteKey x \<notin> applied_keys st" if "guard_class st now x = Fresh" for x using Fresh_facts [OF that] by blast
      show "feed_applies x now \<and> MuteKey x \<notin> applied_keys st" if "x \<in> set (unapplied now st' es)" for x
        using that stays [OF \<open>settled now st es\<close>, of x] by (auto simp: unapplied_def)
    qed
    then show ?thesis by (simp add: unapplied_def conj_left_commute)
  qed
qed

text \<open>Every applied fingerprint has waited its day, and that stays so on a clock that does not go back.\<close>

definition waited :: "int \<Rightarrow> guardState \<Rightarrow> FeedEntry list \<Rightarrow> bool" where
  "waited now st es \<longleftrightarrow> (\<forall>x \<in> set es. feed_applies x now \<and> MuteKey x \<noteq> [] \<and> MuteKey x \<in> applied_keys st \<and> isJA4Only x
     \<longrightarrow> \<not> MajorBrowserJA4 (f_JA4 x) \<and> (\<exists>first. map_of (gs_SeenPromoted st) (MuteKey x) = Some first \<and> first + GraceJA4 \<le> now))"

lemma feed_applies_before: "feed_applies x now' \<Longrightarrow> now \<le> now' \<Longrightarrow> feed_applies x now"
  by (auto simp: feed_applies_def)

lemma observed_first:
  assumes "e \<in> set entries" "feed_applies e now" "isJA4Only e" "map_of (gs_SeenPromoted st) (MuteKey e) = Some first"
  shows "map_of (gs_SeenPromoted (observePromoted entries now st)) (MuteKey e) = Some first"
proof -
  define seen where "seen = map MuteKey (filter (\<lambda>e. feed_applies e now \<and> isJA4Only e) entries)"
  define m where "m = fold (\<lambda>k m. if map_of m k = None then aput k now m else m) seen (gs_SeenPromoted st)"
  have "map_of (fold (\<lambda>k m. if map_of m k = None then aput k now m else m) ks m) k = Some first" if "map_of m k = Some first" for ks m and k :: string
    using that
  proof (induction ks arbitrary: m)
    case (Cons a ks)
    then have "map_of (if map_of m a = None then aput a now m else m) k = Some first" by auto
    from Cons.IH [OF this] show ?case by simp
  qed simp
  then have "map_of m (MuteKey e) = Some first" unfolding m_def using assms(4) by blast
  moreover have "MuteKey e \<in> set seen" using assms by (auto simp: seen_def)
  moreover have "gs_SeenPromoted (observePromoted entries now st) = filter (\<lambda>kv. fst kv \<in> set seen) m"
    by (simp add: observePromoted_def Let_def seen_def m_def)
  ultimately show ?thesis by (simp add: map_of_filter_fst [of "\<lambda>k. k \<in> set seen"])
qed

lemma unapplied_later:
  assumes "now \<le> now'"
  shows "length (unapplied now' st es) \<le> length (unapplied now st es)"
proof -
  have "unapplied now' st es = filter (\<lambda>e. feed_applies e now') (unapplied now st es)"
    using feed_applies_before [OF _ assms] by (auto simp: unapplied_def intro!: filter_cong)
  then show ?thesis by simp
qed

lemma applied_keys_observe [simp]: "applied_keys (observePromoted entries now st) = applied_keys st"
  by (simp add: applied_keys_def observePromoted_def Let_def)

lemma unapplied_observe [simp]: "unapplied now (observePromoted entries t st) es = unapplied now st es"
  by (simp add: unapplied_def)

lemma waited_settled:
  assumes "waited now st es" "now \<le> now'" "set es \<subseteq> set entries"
  shows "settled now' (observePromoted entries now' st) es"
  unfolding settled_def
proof (intro ballI impI, elim conjE)
  fix x
  assume x: "x \<in> set es" "feed_applies x now'" "MuteKey x \<noteq> []" "MuteKey x \<in> applied_keys (observePromoted entries now' st)"
  let ?st = "observePromoted entries now' st"
  obtain a where a: "map_of (gs_Applied ?st) (MuteKey x) = Some a" using x(4) by (auto simp: applied_keys_def)
  have "\<not> (isJA4Only x \<and> MajorBrowserJA4 (f_JA4 x)) \<and> (isJA4Only x \<longrightarrow> (\<exists>first. map_of (gs_SeenPromoted ?st) (MuteKey x) = Some first \<and> first + GraceJA4 \<le> now'))"
    using assms(1) x feed_applies_before [OF x(2) assms(2)] observed_first [of x entries now' st] assms(2,3) unfolding waited_def by fastforce
  then show "still_applied ?st now' x" using x(2,3) a by (auto simp: still_applied_def guard_class_def)
qed

lemma guard_waited:
  assumes g: "guardEntries es now (observePromoted entries now st) = (kept, held, pend, st')" and es: "keyed es" "set es \<subseteq> set entries"
  shows "waited now st' es"
  unfolding waited_def
proof (intro ballI impI, elim conjE)
  fix x
  assume x: "x \<in> set es" "feed_applies x now" "MuteKey x \<noteq> []" "MuteKey x \<in> applied_keys st'" "isJA4Only x"
  have "still_applied (observePromoted entries now st) now x \<or> guard_class (observePromoted entries now st) now x = Fresh"
    using guard_applied_iff [OF g es(1) x(1,3)] x(4) by (auto dest!: in_set_takeD simp: fresh_iff)
  from kept_ja4_waited [OF this x(5) observed] show "\<not> MajorBrowserJA4 (f_JA4 x) \<and> (\<exists>first. map_of (gs_SeenPromoted st') (MuteKey x) = Some first \<and> first + GraceJA4 \<le> now)"
    using x es(2) guardEntries_parts(3) [OF g] by auto
qed

lemma pull_progress:
  assumes v: "ApplyActive (pe_cfg v)" "pe_feed v = Some entries" and entries: "keyed entries"
    and e: "e \<in> set (enforceable v entries)" "feed_applies e (pe_now v)" "\<not> isJA4Only e" "MuteKey e \<noteq> []"
  defines "es \<equiv> enforceable v entries"
  fixes c :: Client
  defines "st \<equiv> guardStateFor v c"
  obtains st' where "cl_guard (snd (Pull v c)) = Some st'" "waited (pe_now v) st' es"
    and "MuteKey e \<notin> applied_keys st' \<Longrightarrow> length (unapplied (pe_now v) st' es) + ApplyCap \<le> length es"
    and "settled (pe_now v) (observePromoted entries (pe_now v) st) es \<Longrightarrow> MuteKey e \<notin> applied_keys st' \<Longrightarrow>
      MuteKey e \<notin> applied_keys st \<and> length (unapplied (pe_now v) st' es) + ApplyCap \<le> length (unapplied (pe_now v) st es)"
proof -
  obtain kept held pend st' ok files where g: "guardEntries es (pe_now v) (observePromoted entries (pe_now v) st) = (kept, held, pend, st')"
    and c': "cl_guard (snd (Pull v c)) = Some st'"
    unfolding es_def st_def using Pull_apply [OF v, of c "fst (Pull v c)" "snd (Pull v c)"] by (metis prod.collapse)
  have es: "keyed es" "set es \<subseteq> set entries" unfolding es_def using keyed_enforceable [OF entries] enforceable_mem(1) by auto
  note p = guard_progress [OF g es(1) e(1) [folded es_def] e(2-4)]
  show ?thesis by (rule that [OF c' guard_waited [OF g es]]) (use p in auto)
qed

lemma written_hits:
  assumes "WriteMapFiles ok entries now files = (True, files')" "CHR '':'' \<notin> set ja4" "e \<in> set entries"
    and "kind \<in> {MatchIPJA4, MatchJA4, MatchIPOnly}" "feed_names now kind ip ja4 e"
  shows "feed_Hit (LoadMatcher True files') ip ja4 \<noteq> None"
  using assms(3-5) unfolding written_hit [OF assms(1,2)] by auto

lemma pull_enforces:
  assumes v: "ApplyActive (pe_cfg v)" "pe_feed v = Some entries" and entries: "keyed entries"
    and e: "e \<in> set (enforceable v entries)" "feed_applies e (pe_now v)" "\<not> isJA4Only e" "MuteKey e \<noteq> []"
    and st: "cl_guard (snd (Pull v c)) = Some st'" "MuteKey e \<in> applied_keys st'" and files: "pe_read v" "pe_write v = (\<lambda>_. True)"
    and named: "kind \<in> {MatchIPJA4, MatchJA4, MatchIPOnly}" "feed_names (pe_now v) kind ip ja4 e" "CHR '':'' \<notin> set ja4"
  shows "feed_Hit (cl_matcher (snd (Pull v c))) ip ja4 \<noteq> None"
proof -
  obtain kept held pend ok files where g: "guardEntries (enforceable v entries) (pe_now v) (observePromoted entries (pe_now v) (guardStateFor v c)) = (kept, held, pend, st')"
    and w: "WriteMapFiles (pe_write v) kept (pe_now v) (cl_files c) = (ok, files)"
    and c': "ok \<Longrightarrow> pe_read v \<Longrightarrow> cl_matcher (snd (Pull v c)) = LoadMatcher True files"
    using Pull_apply [OF v, of c "fst (Pull v c)" "snd (Pull v c)"] st(1) by (metis option.inject prod.collapse)
  have ok: "ok" using w files(2) by (auto simp: WriteMapFiles_def Let_def)
  have "e \<in> set kept" using guard_progress(1) [OF g keyed_enforceable [OF entries] e st(2)] .
  then show ?thesis using written_hits [OF _ named(3) _ named(1,2)] w ok c' files(1) by auto
qed

lemma pulls_progress:
  assumes "\<forall>v \<in> set us. ApplyActive (pe_cfg v) \<and> pe_feed v = Some entries \<and> enforceable v entries = es \<and> feed_applies e (pe_now v)"
    and "sorted (map pe_now us)" "us \<noteq> []" and e: "keyed entries" "e \<in> set es" "\<not> isJA4Only e" "MuteKey e \<noteq> []"
  shows "\<exists>st. cl_guard (fold (\<lambda>v c. snd (Pull v c)) us c) = Some st \<and> waited (pe_now (last us)) st es
    \<and> (MuteKey e \<in> applied_keys st \<or> length (unapplied (pe_now (last us)) st es) + length us * ApplyCap \<le> length es)"
  using assms(1-3)
proof (induction us rule: rev_induct)
  case (snoc v us)
  let ?c = "fold (\<lambda>v c. snd (Pull v c)) us c"
  have v: "ApplyActive (pe_cfg v)" "pe_feed v = Some entries" "enforceable v entries = es" "feed_applies e (pe_now v)" using snoc.prems(1) by auto
  have e': "e \<in> set (enforceable v entries)" using e(2) v(3) by simp
  obtain st' where st': "cl_guard (snd (Pull v ?c)) = Some st'" "waited (pe_now v) st' es"
      "MuteKey e \<notin> applied_keys st' \<Longrightarrow> length (unapplied (pe_now v) st' es) + ApplyCap \<le> length es"
      "settled (pe_now v) (observePromoted entries (pe_now v) (guardStateFor v ?c)) es \<Longrightarrow> MuteKey e \<notin> applied_keys st' \<Longrightarrow>
        MuteKey e \<notin> applied_keys (guardStateFor v ?c) \<and> length (unapplied (pe_now v) st' es) + ApplyCap \<le> length (unapplied (pe_now v) (guardStateFor v ?c) es)"
    using pull_progress [OF v(1,2) e(1) e' v(4) e(3,4), of ?c] unfolding v(3) by metis
  show ?case
  proof (cases "us = []")
    case False
    obtain st where st: "cl_guard ?c = Some st" "waited (pe_now (last us)) st es"
        "MuteKey e \<in> applied_keys st \<or> length (unapplied (pe_now (last us)) st es) + length us * ApplyCap \<le> length es"
      using snoc.IH snoc.prems False by (auto simp: sorted_append)
    have le: "pe_now (last us) \<le> pe_now v" using snoc.prems(2) False by (simp add: sorted_append)
    have sub: "set es \<subseteq> set entries" unfolding v(3) [symmetric] using enforceable_mem(1) by auto
    have same: "guardStateFor v ?c = st" using st(1) by (simp add: guardStateFor_def)
    have fewer: "length (unapplied (pe_now v) st es) \<le> length (unapplied (pe_now (last us)) st es)" by (rule unapplied_later [OF le])
    have "MuteKey e \<in> applied_keys st' \<or> length (unapplied (pe_now v) st' es) + length (us @ [v]) * ApplyCap \<le> length es"
      using st'(4) [unfolded same, OF waited_settled [OF st(2) le sub]] st(3) fewer by (cases "MuteKey e \<in> applied_keys st'") auto
    then show ?thesis using st'(1,2) by simp
  qed (use st' in auto)
qed simp

lemma pulls_sorted_last: "x \<in> set xs \<Longrightarrow> sorted (map f xs) \<Longrightarrow> f x \<le> f (last xs)" for f :: "'a \<Rightarrow> int"
  by (induction xs) auto

text \<open>
  C33: Nothing in the feed waits for ever behind the cap, and a pull counts against the cap
  also when its files could not be written. Let the hub keep serving the same feed, with any
  mixture of entries, fingerprints and entries not promoted included, in which no two
  entries have the same key. Then after as many pulls in apply mode, on a clock that does not
  go back and with the same mutes and allowlist, as it takes at \<open>ApplyCap\<close> entries each,
  every promoted entry that names an address, is in force throughout and is neither muted nor
  allowlisted is enforced when the last pull can write and read back its files, whatever the
  guard had applied before and whether or not any other pull wrote its files. So the first
  write to succeed after failed ones enforces more than \<open>ApplyCap\<close> entries that were never
  enforced.
\<close>

theorem feed_enforced_in_the_end:
  assumes pulls: "\<forall>v \<in> set vs. ApplyActive (pe_cfg v) \<and> pe_feed v = Some entries \<and> pe_mutes v = mutes \<and> pe_bypass v = m" "sorted (map pe_now vs)"
    and feed: "distinct (filter (\<lambda>k. k \<noteq> []) (map MuteKey entries))"
    and enough: "vs \<noteq> []" "length entries \<le> length vs * ApplyCap" "pe_read (last vs)" "pe_write (last vs) = (\<lambda>_. True)"
    and e: "e \<in> set entries" "MuteKey e \<notin> set (muteLookup mutes)" "\<not> bypass_Match m (f_IP e)"
    and named: "kind \<in> {MatchIPJA4, MatchIPOnly}" "feed_names (pe_now (last vs)) kind ip ja4 e" "CHR '':'' \<notin> set ja4"
  shows "feed_Hit (cl_matcher (fold (\<lambda>v c. snd (Pull v c)) vs c)) ip ja4 \<noteq> None"
proof -
  define es where "es = enforceable (last vs) entries"
  have es: "enforceable v entries = es" if "v \<in> set vs" for v
    using that pulls(1) enough(1) by (simp add: es_def enforceable_def)
  have mem: "e \<in> set es" using e pulls(1) enough(1) by (simp add: es_def enforceable_mem_iff)
  note key = named_has_key [OF named(2)]
  have addr: "\<not> isJA4Only e" "MuteKey e \<noteq> []" using key(1,3) named(1) by (auto simp: match_kinds)
  have on: "feed_applies e (pe_now v)" if "v \<in> set vs" for v
  proof (rule feed_applies_before)
    show "feed_applies e (pe_now (last vs))" using named(2) by (simp add: feed_names_def)
    show "pe_now v \<le> pe_now (last vs)" using that pulls(2) by (rule pulls_sorted_last)
  qed
  have run: "\<forall>v \<in> set vs. ApplyActive (pe_cfg v) \<and> pe_feed v = Some entries \<and> enforceable v entries = es \<and> feed_applies e (pe_now v)"
    using pulls(1) es on by blast
  obtain us v where vs: "vs = us @ [v]" using enough(1) by (metis append_butlast_last_id)
  let ?c = "fold (\<lambda>v c. snd (Pull v c)) us c"
  have v: "v \<in> set vs" "ApplyActive (pe_cfg v)" "pe_feed v = Some entries" using vs pulls(1) by auto
  obtain st where st: "cl_guard (snd (Pull v ?c)) = Some st"
      "MuteKey e \<in> applied_keys st \<or> length (unapplied (pe_now v) st es) + length vs * ApplyCap \<le> length es"
    using pulls_progress [OF run pulls(2) enough(1) feed [folded keyed_def] mem addr, of c] vs by auto
  have "length es \<le> length entries"
    by (auto simp: es_def enforceable_def excludeMutedEntries_def excludeBypassedEntries_def Let_def intro: order_trans [OF length_filter_le])
  then have "MuteKey e \<in> applied_keys st \<or> length (unapplied (pe_now v) st es) = 0" using st(2) enough(2) by linarith
  then have "MuteKey e \<in> applied_keys st" using mem addr(2) on [OF v(1)] by (auto simp: unapplied_def filter_empty_conv)
  moreover have "fold (\<lambda>v c. snd (Pull v c)) vs c = snd (Pull v ?c)" "last vs = v" by (simp_all add: vs)
  moreover have "e \<in> set (enforceable v entries)" using mem es [OF v(1)] by simp
  ultimately show ?thesis
    using pull_enforces [OF v(2,3) feed [folded keyed_def] _ on [OF v(1)] addr st(1)] named enough(3,4) by auto
qed

theorem feed_enforced_in_the_end_witness:
  "let fp = (sample_entry [])\<lparr>f_Match := MatchJA4, f_JA4 := ''t13d1516h2_8daaf6152771_02713d6af862''\<rparr>;
       unpromoted = (sample_entry ''5.6.7.8'')\<lparr>f_Promoted := False\<rparr>;
       v = sample_pull [] [fp, unpromoted, sample_entry ''1.2.3.4'']
   in feed_Hit (cl_matcher (fold (\<lambda>v c. snd (Pull v c)) [v\<lparr>pe_write := (\<lambda>_. False)\<rparr>, v] new_client)) ''1.2.3.4'' [] \<noteq> None"
proof -
  let ?e = "sample_entry ''1.2.3.4''"
  let ?es = "[(sample_entry [])\<lparr>f_Match := MatchJA4, f_JA4 := ''t13d1516h2_8daaf6152771_02713d6af862''\<rparr>,
    (sample_entry ''5.6.7.8'')\<lparr>f_Promoted := False\<rparr>, ?e]"
  have n: "feed_names 5 MatchIPOnly ''1.2.3.4'' [] ?e" "MuteKey ?e \<notin> set (muteLookup [])" "\<not> bypass_Match (parseBypassRanges []) (f_IP ?e)"
    "distinct (filter (\<lambda>k. k \<noteq> []) (map MuteKey ?es))" by code_simp+
  have "pe_bypass (sample_pull [] ?es) = parseBypassRanges []" by (simp add: sample_pull_def)
  then show ?thesis unfolding Let_def
    by (intro feed_enforced_in_the_end [where entries = ?es and mutes = "[]" and m = "parseBypassRanges []" and e = ?e and kind = MatchIPOnly])
      (use n sample_pull_fields [of "[]" ?es] in \<open>simp_all add: ApplyCap_def\<close>)
qed

text \<open>
  The allowlist test of a pull and the writer of the map files do not read an entry's
  address the same way. With \<open>1.2.3.4\<close> allowlisted, an entry for \<open>1.2.3.4\<close> is left out, but
  an entry for the same address with a space in front passes the test, which does not trim,
  and is written under the trimmed address: the allowlisted address is then enforced.
\<close>

lemma spaced_entry_evades_allowlist:
  "feed_Hit (cl_matcher (snd (Pull (sample_pull [''1.2.3.4''] [sample_entry ''1.2.3.4'']) new_client))) ''1.2.3.4'' [] = None
   \<and> feed_Hit (cl_matcher (snd (Pull (sample_pull [''1.2.3.4''] [sample_entry '' 1.2.3.4'']) new_client))) ''1.2.3.4'' [] = Some MatchIPOnly
   \<and> bypass_Match (parseBypassRanges [''1.2.3.4'']) ''1.2.3.4''"
  by (intro conjI) code_simp+

section \<open>Leaving apply mode\<close>

lemma not_applied_hits_nothing:
  assumes "\<not> ApplyActive (pe_cfg v)" "ResolvedSubscribeMode (pe_cfg v) \<noteq> ''off'' \<longrightarrow> pe_feed v \<noteq> None"
    and "pe_write v = (\<lambda>_. True)" "pe_read v"
  shows "fst (Pull v c) = None" "feed_Hit (cl_matcher (snd (Pull v c))) ip ja4 = None"
proof -
  have "List.map_filter line_key (atomicWriteLines []) = []" by (simp add: atomicWriteLines_def header_no_key)
  then have "loadMapKeys (Some (atomicWriteLines [])) = []" by (simp add: loadMapKeys_def)
  moreover have "ResolvedSubscribeMode (pe_cfg v) \<noteq> ''off'' \<Longrightarrow> \<exists>es. pe_feed v = Some es" using assms(2) by auto
  ultimately show "fst (Pull v c) = None" "feed_Hit (cl_matcher (snd (Pull v c))) ip ja4 = None"
    using assms by (auto simp: Pull_def WriteMapFiles_def reloadMatcher_def LoadMatcher_def feed_Hit_def Let_def)
qed

end
