(* ===== verification/Pass_Trace.thy ===== *)
theory Pass_Trace
  imports Prelude
begin

text \<open>
  What the daemon keeps in memory about the page's reports (\<open>handlers/pass_trace.go\<close>): a
  budget of reports per key and five minutes, the reports it refused, and which of its two
  traces kept a pass, the page's beacon or the \<open>/bvj\<close> issue after its grace. Times are in
  nanoseconds. A Go map that may be \<open>nil\<close> is an option where the code tells the two apart.
\<close>

section \<open>Definitions\<close>

definition trace_second :: int where "trace_second = 1000000000"

definition passTraceWindow :: int where "passTraceWindow = 300 * trace_second"
definition beaconTokenTTL :: int where "beaconTokenTTL = 900 * trace_second"
definition passTraceFresh :: int where "passTraceFresh = beaconTokenTTL"
definition passTraceGrace :: int where "passTraceGrace = 3 * trace_second"
definition passTraceDroppedKeep :: int where "passTraceDroppedKeep = 86400 * trace_second"
definition passTraceAddrsMax :: nat where "passTraceAddrsMax = 100000"
definition passTraceSeenMax :: nat where "passTraceSeenMax = 200000"
definition passTraceDefaultLimit :: int where "passTraceDefaultLimit = 20"

record droppedBeacons =
  d_Total :: nat
  d_Last :: int

record passSeen =
  ps_at :: int
  ps_beacon :: bool
  ps_bvj :: bool
  ps_bvjPending :: bool

record passTrace =
  pt_budget :: "(string, nat) amap option"
  pt_budgetSince :: int
  pt_dropped :: "(string, droppedBeacons) amap"
  pt_seen :: "(string, passSeen) amap option"
  pt_sweptAt :: int

definition new_trace :: passTrace where
  "new_trace = \<lparr>pt_budget = None, pt_budgetSince = 0, pt_dropped = [], pt_seen = None, pt_sweptAt = 0\<rparr>"

definition budget_used :: "passTrace \<Rightarrow> string \<Rightarrow> nat" where
  "budget_used p key = (case pt_budget p of None \<Rightarrow> 0 | Some m \<Rightarrow> (case map_of m key of None \<Rightarrow> 0 | Some n \<Rightarrow> n))"

text \<open>The start of \<open>take\<close> and \<open>takeQuiet\<close>: a new window when there is none, it is over, or too many keys are counted.\<close>

definition budget_window :: "int \<Rightarrow> passTrace \<Rightarrow> passTrace" where
  "budget_window now p =
     (case pt_budget p of
        None \<Rightarrow> p\<lparr>pt_budget := Some [], pt_budgetSince := now\<rparr>
      | Some m \<Rightarrow> if now - pt_budgetSince p > passTraceWindow \<or> length m \<ge> passTraceAddrsMax
                  then p\<lparr>pt_budget := Some [], pt_budgetSince := now\<rparr> else p)"

definition budget_count :: "string \<Rightarrow> passTrace \<Rightarrow> passTrace" where
  "budget_count key p = p\<lparr>pt_budget := map_option (aput key (Suc (budget_used p key))) (pt_budget p)\<rparr>"

definition drop_beacon :: "string \<Rightarrow> int \<Rightarrow> passTrace \<Rightarrow> passTrace" where
  "drop_beacon addr now p =
     (let m = (if length (pt_dropped p) \<ge> passTraceAddrsMax then [] else pt_dropped p);
          d = (case map_of m addr of None \<Rightarrow> \<lparr>d_Total = 0, d_Last = 0\<rparr> | Some d \<Rightarrow> d)
      in p\<lparr>pt_dropped := aput addr \<lparr>d_Total = Suc (d_Total d), d_Last = now\<rparr> m\<rparr>)"

definition resolved_limit :: "int \<Rightarrow> int" where
  "resolved_limit limit = (if limit \<le> 0 then passTraceDefaultLimit else limit)"

definition trace_take :: "string \<Rightarrow> int \<Rightarrow> int \<Rightarrow> passTrace \<Rightarrow> bool \<times> passTrace" where
  "trace_take addr limit now p =
     (let p = budget_window now p in
      if int (budget_used p addr) \<ge> resolved_limit limit then (False, drop_beacon addr now p)
      else (True, budget_count addr p))"

definition takeQuiet :: "string \<Rightarrow> int \<Rightarrow> int \<Rightarrow> passTrace \<Rightarrow> bool \<times> passTrace" where
  "takeQuiet key limit now p =
     (let p = budget_window now p in
      if int (budget_used p key) \<ge> resolved_limit limit then (False, p)
      else (True, budget_count key p))"

definition droppedFor :: "string \<Rightarrow> int \<Rightarrow> passTrace \<Rightarrow> nat \<times> int" where
  "droppedFor addr now p =
     (case map_of (pt_dropped p) addr of None \<Rightarrow> (0, 0)
      | Some d \<Rightarrow> if now - d_Last d > passTraceDroppedKeep then (0, 0) else (d_Total d, d_Last d))"

definition blank_seen :: "int \<Rightarrow> passSeen" where
  "blank_seen now = \<lparr>ps_at = now, ps_beacon = False, ps_bvj = False, ps_bvjPending = False\<rparr>"

text \<open>The table after the sweep \<open>seenEntry\<close> makes once a minute, and when the last one was.\<close>

definition seen_table :: "int \<Rightarrow> passTrace \<Rightarrow> (string, passSeen) amap \<times> int" where
  "seen_table now p =
     (case pt_seen p of None \<Rightarrow> ([], now)
      | Some m \<Rightarrow>
          if length m \<ge> passTraceSeenMax then ([], now)
          else if now - pt_sweptAt p > 60 * trace_second
          then (filter (\<lambda>(k, s). \<not> (\<not> ps_bvjPending s \<and> now - ps_at s > passTraceFresh + passTraceGrace)) m, now)
          else (m, pt_sweptAt p))"

definition seenEntry :: "string \<Rightarrow> int \<Rightarrow> passTrace \<Rightarrow> passSeen \<times> passTrace" where
  "seenEntry key now p =
     (let (m, swept) = seen_table now p;
          s = (case map_of m key of None \<Rightarrow> blank_seen now | Some s \<Rightarrow> s)
      in (s, p\<lparr>pt_seen := Some (aput key s m), pt_sweptAt := swept\<rparr>))"

definition put_seen :: "string \<Rightarrow> passSeen \<Rightarrow> passTrace \<Rightarrow> passTrace" where
  "put_seen key s p = p\<lparr>pt_seen := map_option (aput key s) (pt_seen p)\<rparr>"

definition beaconPass :: "string \<Rightarrow> int \<Rightarrow> passTrace \<Rightarrow> bool \<times> passTrace" where
  "beaconPass key now p =
     (let (s, p) = seenEntry key now p in
      if ps_beacon s \<or> ps_bvj s then (False, p) else (True, put_seen key (s\<lparr>ps_beacon := True\<rparr>) p))"

definition bvjPass :: "string \<Rightarrow> int \<Rightarrow> passTrace \<Rightarrow> bool \<times> passTrace" where
  "bvjPass key now p =
     (let (s, p) = seenEntry key now p in
      if ps_beacon s \<or> ps_bvj s \<or> ps_bvjPending s then (False, p) else (True, put_seen key (s\<lparr>ps_bvjPending := True\<rparr>) p))"

definition bvjFire :: "string \<Rightarrow> passTrace \<Rightarrow> bool \<times> passTrace" where
  "bvjFire key p =
     (case pt_seen p of None \<Rightarrow> (True, p)
      | Some m \<Rightarrow>
         (case map_of m key of None \<Rightarrow> (True, p)
          | Some s \<Rightarrow> let s = s\<lparr>ps_bvjPending := False\<rparr> in
              if ps_beacon s then (False, put_seen key s p) else (True, put_seen key (s\<lparr>ps_bvj := True\<rparr>) p)))"

section \<open>The traces of one pass\<close>

text \<open>
  Reports as they arrive: the page's beacon, the \<open>/bvj\<close> issue, the end of an issue's grace.
  \<open>ts_timers\<close> holds the scheduled ends, \<open>ts_recorded\<close> the passes written, in order.
\<close>

datatype trace_event = Beacon string | Issue string | Fire string

record TraceSys =
  ts_trace :: passTrace
  ts_timers :: "string list"
  ts_recorded :: "string list"

fun trace_step :: "int \<times> trace_event \<Rightarrow> TraceSys \<Rightarrow> TraceSys" where
  "trace_step (now, Beacon k) y =
     (let (ok, p) = beaconPass k now (ts_trace y)
      in y\<lparr>ts_trace := p, ts_recorded := (if ok then ts_recorded y @ [k] else ts_recorded y)\<rparr>)"
| "trace_step (now, Issue k) y =
     (let (ok, p) = bvjPass k now (ts_trace y)
      in y\<lparr>ts_trace := p, ts_timers := (if ok then ts_timers y @ [k] else ts_timers y)\<rparr>)"
| "trace_step (now, Fire k) y =
     (if k \<notin> set (ts_timers y) then y
      else let (ok, p) = bvjFire k (ts_trace y)
           in y\<lparr>ts_trace := p, ts_timers := remove1 k (ts_timers y), ts_recorded := (if ok then ts_recorded y @ [k] else ts_recorded y)\<rparr>)"

definition trace_start :: TraceSys where
  "trace_start = \<lparr>ts_trace = new_trace, ts_timers = [], ts_recorded = []\<rparr>"

definition seen_of :: "passTrace \<Rightarrow> string \<Rightarrow> passSeen option" where
  "seen_of p k = (case pt_seen p of None \<Rightarrow> None | Some m \<Rightarrow> map_of m k)"

definition seen_size :: "passTrace \<Rightarrow> nat" where
  "seen_size p = (case pt_seen p of None \<Rightarrow> 0 | Some m \<Rightarrow> length m)"

definition seen_wf :: "passTrace \<Rightarrow> bool" where
  "seen_wf p = (case pt_seen p of None \<Rightarrow> True | Some m \<Rightarrow> amap_wf m)"

definition expired_seen :: "int \<Rightarrow> passSeen \<Rightarrow> bool" where
  "expired_seen now s \<longleftrightarrow> \<not> ps_bvjPending s \<and> now - ps_at s > passTraceFresh + passTraceGrace"

lemma length_aput_Suc: "length (aput k v m) \<le> Suc (length m)"
  using length_adel_le [of k m] by (simp add: aput_def)

text \<open>Any table operation sees the old entry of a key, or none once it has expired.\<close>

lemma seenEntry_spec:
  assumes "seen_wf p" "seen_size p < passTraceSeenMax" "seenEntry key now p = (s, p')"
  shows "seen_wf p'" "seen_size p' \<le> Suc (seen_size p)" "seen_of p' key = Some s"
    and "s = blank_seen now \<and> (seen_of p key = None \<or> (\<exists>s0. seen_of p key = Some s0 \<and> expired_seen now s0)) \<or> seen_of p key = Some s"
    and "k \<noteq> key \<Longrightarrow> seen_of p' k = seen_of p k \<or> (\<exists>s0. seen_of p k = Some s0 \<and> expired_seen now s0 \<and> seen_of p' k = None)"
    and "pt_seen p' \<noteq> None"
proof -
  obtain m swept where t: "seen_table now p = (m, swept)" by (cases "seen_table now p")
  have m: "p' = p\<lparr>pt_seen := Some (aput key s m), pt_sweptAt := swept\<rparr>"
      "s = (case map_of m key of None \<Rightarrow> blank_seen now | Some s \<Rightarrow> s)"
    using assms(3) t by (auto simp: seenEntry_def Let_def)
  have m3: "m = [] \<and> pt_seen p = None \<or> pt_seen p = Some m \<or> (\<exists>m0. pt_seen p = Some m0 \<and> m = filter (\<lambda>(k, s). \<not> expired_seen now s) m0)"
    using assms(2) t by (cases "pt_seen p") (auto simp: seen_table_def seen_size_def expired_seen_def [abs_def] split: if_splits)
  have wf: "amap_wf m" using m3 assms(1) by (elim disjE) (auto simp: seen_wf_def)
  have at: "map_of m k = seen_of p k \<or> (\<exists>s0. seen_of p k = Some s0 \<and> expired_seen now s0 \<and> map_of m k = None)" for k
    using m3
  proof (elim disjE exE conjE)
    fix m0
    assume "pt_seen p = Some m0" "m = filter (\<lambda>(k, s). \<not> expired_seen now s) m0"
    then show ?thesis using assms(1) map_of_filter_wf [of m0 "\<lambda>_ s. \<not> expired_seen now s" k]
      by (simp add: seen_of_def seen_wf_def case_prod_unfold split: option.splits)
  qed (simp_all add: seen_of_def)
  have len: "length m \<le> seen_size p" using m3 by (auto simp: seen_size_def)
  show "seen_wf p'" "seen_of p' key = Some s" "pt_seen p' \<noteq> None" using wf m(1) by (simp_all add: seen_wf_def seen_of_def)
  show "seen_size p' \<le> Suc (seen_size p)" using len length_aput_Suc [of key s m] m(1) by (simp add: seen_size_def)
  show "s = blank_seen now \<and> (seen_of p key = None \<or> (\<exists>s0. seen_of p key = Some s0 \<and> expired_seen now s0)) \<or> seen_of p key = Some s"
    using at [of key] m(2) by (auto split: option.splits)
  show "k \<noteq> key \<Longrightarrow> seen_of p' k = seen_of p k \<or> (\<exists>s0. seen_of p k = Some s0 \<and> expired_seen now s0 \<and> seen_of p' k = None)"
    using at [of k] m(1) by (simp add: seen_of_def)
qed

lemma put_seen_spec:
  assumes "pt_seen p \<noteq> None"
  shows "seen_of (put_seen key s p) k = (if k = key then Some s else seen_of p k)"
    and "seen_wf p \<Longrightarrow> seen_wf (put_seen key s p)"
    and "seen_of p key \<noteq> None \<Longrightarrow> seen_wf p \<Longrightarrow> seen_size (put_seen key s p) = seen_size p"
  using assms length_aput_present
  by (auto simp: put_seen_def seen_of_def seen_wf_def seen_size_def)

text \<open>
  Where a pass stands: unknown, forgotten after it was recorded and can no longer be
  reported, or in the table with the flags that say which trace recorded it and whether
  an issue's grace is running.
\<close>

definition trace_inv :: "string \<Rightarrow> int \<Rightarrow> int \<Rightarrow> TraceSys \<Rightarrow> bool" where
  "trace_inv k born t y \<longleftrightarrow> seen_wf (ts_trace y) \<and>
     (case seen_of (ts_trace y) k of
        None \<Rightarrow> k \<notin> set (ts_timers y) \<and> (k \<notin> set (ts_recorded y) \<or> count_list (ts_recorded y) k = 1 \<and> born + passTraceFresh < t)
      | Some s \<Rightarrow> born \<le> ps_at s \<and> (ps_beacon s \<or> ps_bvj s \<or> ps_bvjPending s) \<and> (ps_bvjPending s \<longrightarrow> \<not> ps_bvj s)
          \<and> count_list (ts_timers y) k = (if ps_bvjPending s then 1 else 0)
          \<and> count_list (ts_recorded y) k = (if ps_beacon s \<or> ps_bvj s then 1 else 0))"

fun event_key :: "trace_event \<Rightarrow> string" where
  "event_key (Beacon k) = k" | "event_key (Issue k) = k" | "event_key (Fire k) = k"

definition reportable :: "string \<Rightarrow> int \<Rightarrow> int \<times> trace_event \<Rightarrow> bool" where
  "reportable k born e \<longleftrightarrow> (snd e = Beacon k \<or> snd e = Issue k \<longrightarrow> born \<le> fst e \<and> fst e \<le> born + passTraceFresh)"

lemma trace_inv_later: "trace_inv k born t y \<Longrightarrow> t \<le> t' \<Longrightarrow> trace_inv k born t' y"
  by (auto simp: trace_inv_def split: option.splits)

text \<open>Another key's event leaves the pass as it stands, or forgets it when its time is over.\<close>

lemma trace_inv_other:
  assumes "trace_inv k born t y" "t \<le> now" "seen_wf (ts_trace y')"
    and "seen_of (ts_trace y') k = seen_of (ts_trace y) k
      \<or> (\<exists>s0. seen_of (ts_trace y) k = Some s0 \<and> expired_seen now s0 \<and> seen_of (ts_trace y') k = None)"
    and "count_list (ts_timers y') k = count_list (ts_timers y) k" "count_list (ts_recorded y') k = count_list (ts_recorded y) k"
  shows "trace_inv k born now y'"
proof -
  have zero: "k \<notin> set xs \<longleftrightarrow> count_list xs k = 0" for xs :: "string list" by (simp add: count_list_0_iff)
  from assms(4) show ?thesis
  proof (elim disjE exE conjE)
    assume "seen_of (ts_trace y') k = seen_of (ts_trace y) k"
    then show ?thesis using assms trace_inv_later [OF assms(1,2)] by (auto simp: trace_inv_def zero split: option.splits)
  next
    fix s0
    assume s0: "seen_of (ts_trace y) k = Some s0" "expired_seen now s0" "seen_of (ts_trace y') k = None"
    then have "born + passTraceFresh < now" "\<not> ps_bvjPending s0" using assms(1)
      by (auto simp: trace_inv_def expired_seen_def passTraceGrace_def trace_second_def)
    then show ?thesis using s0 assms by (auto simp: trace_inv_def zero)
  qed
qed

lemma count_list_snoc [simp]: "count_list (xs @ [y]) k = count_list xs k + (if y = k then 1 else 0)"
  by simp

lemma count_list_remove1: "y \<in> set xs \<Longrightarrow> count_list (remove1 y xs) k = count_list xs k - (if y = k then 1 else 0)"
  by (induction xs) auto

lemma not_expired_reportable:
  assumes "born \<le> ps_at s" "now \<le> born + passTraceFresh"
  shows "\<not> expired_seen now s"
  using assms by (auto simp: expired_seen_def passTraceGrace_def trace_second_def)

text \<open>What a reported pass's own event finds in the table.\<close>

lemma own_event:
  assumes "trace_inv k born t y" "t \<le> now" "born \<le> now" "now \<le> born + passTraceFresh" "seen_size (ts_trace y) < passTraceSeenMax"
    and "seenEntry k now (ts_trace y) = (s, p')"
  shows "seen_wf p'" "seen_of p' k = Some s" "pt_seen p' \<noteq> None" "born \<le> ps_at s \<and> (ps_bvjPending s \<longrightarrow> \<not> ps_bvj s)"
    and "count_list (ts_timers y) k = (if ps_bvjPending s then 1 else 0)"
    and "count_list (ts_recorded y) k = (if ps_beacon s \<or> ps_bvj s then 1 else 0)"
proof -
  have wf: "seen_wf (ts_trace y)" using assms(1) by (simp add: trace_inv_def)
  note e = seenEntry_spec [OF wf assms(5,6)]
  show "seen_wf p'" "seen_of p' k = Some s" "pt_seen p' \<noteq> None" using e by auto
  have "(born \<le> ps_at s \<and> (ps_bvjPending s \<longrightarrow> \<not> ps_bvj s)) \<and> count_list (ts_timers y) k = (if ps_bvjPending s then 1 else 0)
      \<and> count_list (ts_recorded y) k = (if ps_beacon s \<or> ps_bvj s then 1 else 0)"
  proof (cases "seen_of (ts_trace y) k")
    case None
    then have "k \<notin> set (ts_timers y)" "k \<notin> set (ts_recorded y)" "s = blank_seen now" using assms(1,2,4) e(4) by (auto simp: trace_inv_def)
    then show ?thesis using assms(3) by (simp add: blank_seen_def count_list_0_iff)
  next
    case (Some s0)
    then have "born \<le> ps_at s0" using assms(1) by (simp add: trace_inv_def)
    then have "s0 = s" using not_expired_reportable [OF _ assms(4)] Some e(4) by auto
    then show ?thesis using assms(1) Some by (simp add: trace_inv_def)
  qed
  then show "born \<le> ps_at s \<and> (ps_bvjPending s \<longrightarrow> \<not> ps_bvj s)" "count_list (ts_timers y) k = (if ps_bvjPending s then 1 else 0)"
    "count_list (ts_recorded y) k = (if ps_beacon s \<or> ps_bvj s then 1 else 0)" by auto
qed

lemma trace_inv_step:
  assumes inv: "trace_inv k born t y" "t \<le> now" "reportable k born (now, e)" "seen_size (ts_trace y) < passTraceSeenMax"
  shows "trace_inv k born now (trace_step (now, e) y)"
proof (cases "event_key e = k")
  case own: True
  show ?thesis
  proof (cases e)
    case (Beacon x)
    obtain s p where sp: "seenEntry k now (ts_trace y) = (s, p)" by (cases "seenEntry k now (ts_trace y)")
    have "born \<le> now" "now \<le> born + passTraceFresh" using inv(3) own Beacon by (auto simp: reportable_def)
    note o = own_event [OF inv(1,2) this inv(4) sp]
    show ?thesis using o put_seen_spec [OF o(3)] own Beacon sp
      by (auto simp: trace_inv_def beaconPass_def)
  next
    case (Issue x)
    obtain s p where sp: "seenEntry k now (ts_trace y) = (s, p)" by (cases "seenEntry k now (ts_trace y)")
    have "born \<le> now" "now \<le> born + passTraceFresh" using inv(3) own Issue by (auto simp: reportable_def)
    note o = own_event [OF inv(1,2) this inv(4) sp]
    show ?thesis using o put_seen_spec [OF o(3)] own Issue sp
      by (auto simp: trace_inv_def bvjPass_def)
  next
    case (Fire x)
    show ?thesis
    proof (cases "k \<in> set (ts_timers y)")
      case True
      then obtain s m where s: "seen_of (ts_trace y) k = Some s" "pt_seen (ts_trace y) = Some m" "map_of m k = Some s" "ps_bvjPending s"
        using inv(1) by (auto simp: trace_inv_def seen_of_def count_list_0_iff split: option.splits if_splits)
      then have "pt_seen (ts_trace y) \<noteq> None" by simp
      note p = put_seen_spec [OF this]
      show ?thesis using p s inv(1) own Fire True
        by (auto simp: trace_inv_def bvjFire_def Let_def count_list_remove1)
    next
      case False
      then show ?thesis using trace_inv_later [OF inv(1,2)] own Fire by simp
    qed
  qed
next
  case other: False
  have wf: "seen_wf (ts_trace y)" using inv(1) by (simp add: trace_inv_def)
  have entry: "seen_wf p \<and> (\<forall>s'. seen_wf (put_seen x s' p) \<and> seen_of (put_seen x s' p) k = seen_of p k)"
      "seen_of p k = seen_of (ts_trace y) k \<or> (\<exists>s0. seen_of (ts_trace y) k = Some s0 \<and> expired_seen now s0 \<and> seen_of p k = None)"
    if "seenEntry x now (ts_trace y) = (s, p)" "x \<noteq> k" for x s p
    using seenEntry_spec(1,5,6) [OF wf inv(4) that(1)] put_seen_spec [of p] that(2) by auto
  show ?thesis
  proof (rule trace_inv_other [OF inv(1,2)], goal_cases)
    case 1
    then show ?case using entry wf other put_seen_spec [of "ts_trace y"]
      by (cases e) (auto simp: beaconPass_def bvjPass_def bvjFire_def Let_def split: prod.splits option.splits)
  next
    case 2
    then show ?case using entry wf other put_seen_spec [of "ts_trace y"]
      by (cases e) (auto simp: beaconPass_def bvjPass_def bvjFire_def Let_def split: prod.splits option.splits)
  qed (use other in \<open>cases e; auto simp: count_list_remove1 split: prod.splits\<close>)+
qed

lemma trace_step_size:
  assumes "seen_wf (ts_trace y)" "seen_size (ts_trace y) < passTraceSeenMax"
  shows "seen_size (ts_trace (trace_step e y)) \<le> Suc (seen_size (ts_trace y))"
proof -
  obtain now ev where e: "e = (now, ev)" by (cases e)
  have put: "pt_seen p \<noteq> None \<Longrightarrow> seen_of p x = Some s \<Longrightarrow> seen_wf p \<Longrightarrow> seen_size (put_seen x s' p) = seen_size p" for p x s s'
    using put_seen_spec(3) by auto
  have entry: "seen_size p \<le> Suc (seen_size (ts_trace y)) \<and> seen_size (put_seen x s' p) \<le> Suc (seen_size (ts_trace y))"
    if "seenEntry x now (ts_trace y) = (s, p)" for x s p s'
    using seenEntry_spec(1,2,3,6) [OF assms that] put by auto
  show ?thesis
  proof (cases ev)
    case (Beacon x)
    then show ?thesis using e entry by (auto simp: beaconPass_def split: prod.splits)
  next
    case (Issue x)
    then show ?thesis using e entry by (auto simp: bvjPass_def split: prod.splits)
  next
    case (Fire x)
    have "seen_size (snd (bvjFire x (ts_trace y))) = seen_size (ts_trace y)"
      using put assms(1) by (auto simp: bvjFire_def seen_of_def Let_def split: option.splits)
    then show ?thesis using e Fire by (auto split: prod.splits)
  qed
qed

definition trace_known :: "string \<Rightarrow> TraceSys \<Rightarrow> bool" where
  "trace_known k y \<longleftrightarrow> k \<in> set (ts_recorded y) \<or> k \<in> set (ts_timers y)"

lemma trace_known_step:
  assumes inv: "trace_inv k born t y" "t \<le> now" "reportable k born (now, e)" "seen_size (ts_trace y) < passTraceSeenMax"
    and known: "e \<in> {Beacon k, Issue k} \<or> trace_known k y"
  shows "trace_known k (trace_step (now, e) y)"
proof -
  note inv' = trace_inv_step [OF inv]
  have mem: "k \<in> set xs \<longleftrightarrow> count_list xs k \<noteq> 0" for xs :: "string list" by (simp add: count_list_0_iff)
  show ?thesis
  proof (cases "seen_of (ts_trace (trace_step (now, e) y)) k")
    case (Some s)
    then show ?thesis using inv' by (auto simp: trace_inv_def trace_known_def mem)
  next
    case None
    then have "k \<notin> set (ts_timers (trace_step (now, e) y))" using inv' by (simp add: trace_inv_def)
    moreover have "seen_of (snd (seenEntry k now (ts_trace y))) k \<noteq> None" "pt_seen (snd (seenEntry k now (ts_trace y))) \<noteq> None"
      by (auto simp: seenEntry_def seen_of_def Let_def split: prod.splits)
    then have "e \<notin> {Beacon k, Issue k}" using None put_seen_spec(1)
      by (auto simp: beaconPass_def bvjPass_def split: prod.splits if_splits)
    then have "trace_known k y" using known by blast
    moreover have "set (ts_recorded y) \<subseteq> set (ts_recorded (trace_step (now, e) y))"
      by (cases e) (auto split: prod.splits)
    moreover have "k \<in> set (ts_timers y) \<Longrightarrow> e = Fire k \<or> k \<in> set (ts_timers (trace_step (now, e) y))"
      by (cases e) (auto split: prod.splits dest: in_set_remove1 [THEN iffD2, rotated])
    moreover have "e = Fire k \<Longrightarrow> k \<in> set (ts_timers y) \<Longrightarrow> False"
    proof -
      assume fire: "e = Fire k" and timer: "k \<in> set (ts_timers y)"
      then obtain s m where s: "pt_seen (ts_trace y) = Some m" "map_of m k = Some s"
        using inv(1) by (auto simp: trace_inv_def seen_of_def split: option.splits)
      then show False using None fire timer put_seen_spec(1) [of "ts_trace y"] by (auto simp: bvjFire_def Let_def split: if_splits)
    qed
    ultimately show ?thesis by (auto simp: trace_known_def)
  qed
qed

lemma trace_run_inv:
  assumes "trace_inv k born t y" "sorted (map fst es)" "\<forall>e \<in> set es. t \<le> fst e \<and> reportable k born e"
    and "seen_size (ts_trace y) + length es \<le> passTraceSeenMax"
  shows "\<exists>t'. trace_inv k born t' (fold trace_step es y)
    \<and> (trace_known k y \<or> (\<exists>e \<in> set es. snd e \<in> {Beacon k, Issue k}) \<longrightarrow> trace_known k (fold trace_step es y))"
  using assms
proof (induction es arbitrary: t y)
  case (Cons e es)
  obtain now ev where e: "e = (now, ev)" by (cases e)
  have size: "seen_size (ts_trace y) < passTraceSeenMax" using Cons.prems(4) by simp
  have t: "t \<le> now" "reportable k born (now, ev)" using Cons.prems(3) e by auto
  have "trace_inv k born now (trace_step e y)" using trace_inv_step [OF Cons.prems(1) t size] e by simp
  moreover have "seen_size (ts_trace (trace_step e y)) \<le> Suc (seen_size (ts_trace y))"
    using trace_step_size [OF _ size] Cons.prems(1) by (simp add: trace_inv_def)
  ultimately show ?case
    using Cons.IH [of now "trace_step e y"] Cons.prems e trace_known_step [OF Cons.prems(1) t size] by auto
qed auto

section \<open>Properties\<close>

text \<open>
  C30: a pass is recorded exactly once, whichever of its traces arrives and in whichever
  order they interleave with other passes' reports and with the ends of the graces. While
  the reports of a pass fall into the time a pass can be reported and the table does not
  overflow, the pass is recorded at most once; and once one of its traces has arrived and no
  grace of it is running, it has been recorded.
\<close>

theorem pass_recorded_once:
  assumes "sorted (map fst es)" "\<forall>e \<in> set es. reportable k born e" "length es \<le> passTraceSeenMax"
  defines "y \<equiv> fold trace_step es trace_start"
  shows "count_list (ts_recorded y) k \<le> 1
    \<and> ((\<exists>e \<in> set es. snd e \<in> {Beacon k, Issue k}) \<and> k \<notin> set (ts_timers y) \<longrightarrow> count_list (ts_recorded y) k = 1)"
proof -
  obtain t where t: "\<forall>e \<in> set es. t \<le> fst e" using assms(1) by (cases es) (auto intro: that)
  have "trace_inv k born t trace_start"
    by (simp add: trace_inv_def trace_start_def new_trace_def seen_wf_def seen_of_def)
  then obtain t' where y: "trace_inv k born t' y" "(\<exists>e \<in> set es. snd e \<in> {Beacon k, Issue k}) \<Longrightarrow> trace_known k y"
    using trace_run_inv [of k born t trace_start es] assms t by (auto simp: trace_start_def new_trace_def seen_size_def)
  from y(1) have "count_list (ts_recorded y) k \<le> 1"
    by (auto simp: trace_inv_def count_list_0_iff [THEN iffD2] split: option.splits if_splits)
  moreover have "k \<in> set (ts_recorded y) \<longleftrightarrow> count_list (ts_recorded y) k \<noteq> 0" by (simp add: count_list_0_iff)
  ultimately show ?thesis using y(2) unfolding trace_known_def by linarith
qed

theorem pass_recorded_once_witness:
  "count_list (ts_recorded (fold trace_step [(5, Issue ''p''), (7, Beacon ''p''), (8, Issue ''p''), (9, Fire ''p'')] trace_start)) ''p'' = 1"
proof -
  let ?es = "[(5, Issue ''p''), (7, Beacon ''p''), (8, Issue ''p''), (9, Fire ''p'')] :: (int \<times> trace_event) list"
  have "\<forall>e \<in> set ?es. reportable ''p'' 0 e" by (simp add: reportable_def passTraceFresh_def beaconTokenTTL_def trace_second_def)
  moreover have "''p'' \<notin> set (ts_timers (fold trace_step ?es trace_start))" by code_simp
  ultimately show ?thesis using pass_recorded_once [of ?es "''p''" 0] by (simp add: passTraceSeenMax_def)
qed

end
