(* ===== verification/Challenge_Verify.thy ===== *)
theory Challenge_Verify
  imports Serve_Chain Captcha Pass_Trace
begin

text \<open>
  The endpoint that turns a solved challenge into a pass (\<open>VerifyJSON\<close> in
  \<open>handlers/handlers.go\<close>) with the terms of a served chain (\<open>handlers/pow_proof.go\<close>), the
  challenge record of a site (\<open>settings/settings.go\<close>, \<open>inherit.go\<close>) and the issue of the
  companion cookie (\<open>handlers/rebind.go\<close>). The request is its decoded payload and the values
  read off its headers; a third-party provider's answer, the behavioural score's comparison
  with its threshold, the random bytes and the network of the address are the environment's.
  Times are in nanoseconds, and one reading of the clock serves a request.
\<close>

section \<open>Definitions\<close>

subsection \<open>The site's challenge record\<close>

record CaptchaConfig =
  cc_Provider :: string
  cc_TurnstileSiteKey :: string
  cc_HCaptchaSiteKey :: string
  cc_RecaptchaSiteKey :: string

definition captchaInjected :: "CaptchaConfig \<Rightarrow> bool" where
  "captchaInjected c =
     (if cc_Provider c = [] \<or> cc_Provider c = ''builtin'' then False
      else let siteKey = (if cc_Provider c = ''turnstile'' then cc_TurnstileSiteKey c
                          else if cc_Provider c = ''hcaptcha'' then cc_HCaptchaSiteKey c
                          else if cc_Provider c = ''recaptcha'' then cc_RecaptchaSiteKey c else [])
           in siteKey \<noteq> [])"

record ChallengeValues =
  cv_PowCookieValidSeconds :: int
  cv_CaptchaCookieValidSeconds :: int
  cv_DebugRateLimitPer5Min :: int
  cv_PowDifficulty :: int
  cv_CaptchaProvider :: CaptchaConfig
  cv_Disabled :: bool

record ChallengeConfig =
  cg_Default :: ChallengeValues
  cg_Sites :: "(string, ChallengeValues) amap"

definition mergeChallenge :: "ChallengeValues \<Rightarrow> ChallengeValues \<Rightarrow> ChallengeValues" where
  "mergeChallenge base over =
     \<lparr>cv_PowCookieValidSeconds = (if cv_PowCookieValidSeconds over \<noteq> 0 then cv_PowCookieValidSeconds over else cv_PowCookieValidSeconds base),
      cv_CaptchaCookieValidSeconds = (if cv_CaptchaCookieValidSeconds over \<noteq> 0 then cv_CaptchaCookieValidSeconds over else cv_CaptchaCookieValidSeconds base),
      cv_DebugRateLimitPer5Min = (if cv_DebugRateLimitPer5Min over \<noteq> 0 then cv_DebugRateLimitPer5Min over else cv_DebugRateLimitPer5Min base),
      cv_PowDifficulty = (if cv_PowDifficulty over \<noteq> 0 then cv_PowDifficulty over else cv_PowDifficulty base),
      cv_CaptchaProvider = (if cc_Provider (cv_CaptchaProvider over) \<noteq> [] then cv_CaptchaProvider over else cv_CaptchaProvider base),
      cv_Disabled = cv_Disabled over\<rparr>"

definition challenge_Resolve :: "ChallengeConfig \<Rightarrow> string \<Rightarrow> ChallengeValues" where
  "challenge_Resolve c site =
     (case map_of (cg_Sites c) site of
        Some v \<Rightarrow> if \<not> cv_Disabled v then mergeChallenge (cg_Default c) v else cg_Default c
      | None \<Rightarrow> cg_Default c)"

definition PowCookieValidSecondsResolved :: "ChallengeValues \<Rightarrow> int" where
  "PowCookieValidSecondsResolved c = (if cv_PowCookieValidSeconds c > 0 then cv_PowCookieValidSeconds c else 86400 * 7)"

definition CaptchaCookieValidSecondsResolved :: "ChallengeValues \<Rightarrow> int" where
  "CaptchaCookieValidSecondsResolved c = (if cv_CaptchaCookieValidSeconds c > 0 then cv_CaptchaCookieValidSeconds c else 86400 * 14)"

definition ResolvedPowDifficulty :: "ChallengeValues \<Rightarrow> int" where
  "ResolvedPowDifficulty c = (if cv_PowDifficulty c < 8 \<or> cv_PowDifficulty c > 24 then 18 else cv_PowDifficulty c)"

definition MaxEntriesResolved :: "int \<Rightarrow> int" where
  "MaxEntriesResolved n = (if n \<le> 0 then 16 else if n > 16 then 16 else n)"

subsection \<open>The request, its environment and the state behind it\<close>

record VerifyCfg =
  vc_BVSecret :: string
  vc_CaptchaSecretBase :: string
  vc_sigHash :: SigHash
  vc_Challenge :: ChallengeConfig
  vc_MaxEntries :: int

record VerifyReq =
  vq_ip :: string
  vq_bindKey :: string
  vq_host :: string
  vq_clientJA4 :: string
  vq_userAgent :: string
  vq_site :: string
  vq_cfgSite :: string
  vq_bv :: "string list"
  vq_Token :: string
  vq_Ct :: string
  vq_Answer :: string
  vq_IV :: "int option"
  vq_hasSig :: bool
  vq_ProviderToken :: string
  vq_Pow :: string

record VerifyEnv =
  ve_now :: int
  ve_provider :: "bool option"
  ve_scoreOK :: bool
  ve_lineage :: "string option"
  ve_asn :: nat

record VerifyState =
  vs_trace :: passTrace
  vs_usedCT :: UsedSet

record VerifyOut =
  vo_status :: int
  vo_error :: string
  vo_bv :: "string option"
  vo_bvj :: "string option"

definition unix_of :: "int \<Rightarrow> int" where
  "unix_of now = now div trace_second"

definition ja4_char :: "char \<Rightarrow> bool" where
  "ja4_char c = (let v = of_char c :: nat in 48 \<le> v \<and> v \<le> 57 \<or> 65 \<le> v \<and> v \<le> 90 \<or> 97 \<le> v \<and> v \<le> 122 \<or> v = 95)"

definition safeJA4 :: "string \<Rightarrow> string" where
  "safeJA4 s = (if 8 \<le> length s \<and> length s \<le> 40 \<and> list_all ja4_char s then s else [])"

definition req_ja4 :: "VerifyReq \<Rightarrow> string" where
  "req_ja4 q = safeJA4 (trim_space (vq_clientJA4 q))"

definition policy_for :: "VerifyCfg \<Rightarrow> string \<Rightarrow> CookiePolicy" where
  "policy_for cfg site =
     (let ch = challenge_Resolve (vc_Challenge cfg) site in
      \<lparr>p_secret = vc_BVSecret cfg, p_powValid = PowCookieValidSecondsResolved ch,
       p_captchaValid = CaptchaCookieValidSecondsResolved ch, p_difficulty = ResolvedPowDifficulty ch\<rparr>)"

subsection \<open>The terms of a chain\<close>

definition chainTerms :: "string \<Rightarrow> (string \<times> bool) option" where
  "chainTerms chain =
     (if chain = RateChallengeCaptchaOnly then Some (''captcha'', False)
      else if chain = RateChallengePoWThenCaptcha then Some (''captcha'', True)
      else if chain = RateChallengePoWOnly then Some (''pow'', True)
      else None)"

definition powProofEntriesMax :: nat where "powProofEntriesMax = 16"

definition pow_check :: "int \<Rightarrow> CookiePolicy \<Rightarrow> string \<Rightarrow> string \<Rightarrow> int \<Rightarrow> string \<Rightarrow> bool" where
  "pow_check unix p bindKey host issued entry =
     (let entry = trim_space entry in
      if entry = [] \<or> length entry > 128 then False
      else case MatchingEntry unix entry (p_secret p) bindKey host (p_powValid p) (p_captchaValid p) (p_difficulty p) of
        None \<Rightarrow> False
      | Some (e, kind, at) \<Rightarrow> kind = ''pow2'' \<and> at = issued)"

definition powProofFor :: "VerifyCfg \<Rightarrow> int \<Rightarrow> VerifyReq \<Rightarrow> int \<Rightarrow> bool" where
  "powProofFor cfg unix q issued =
     (let check = pow_check unix (policy_for cfg (vq_site q)) (vq_bindKey q) (vq_host q) issued in
      check (vq_Pow q)
      \<or> list_ex (\<lambda>v. v \<noteq> [] \<and> length v \<le> 1024 \<and> list_ex check (take powProofEntriesMax (split (CHR ''~'') v))) (vq_bv q))"

subsection \<open>Issuing\<close>

definition writeBVJ :: "VerifyCfg \<Rightarrow> string \<Rightarrow> string \<Rightarrow> string \<Rightarrow> string \<Rightarrow> nat \<Rightarrow> string \<Rightarrow> int \<Rightarrow> string" where
  "writeBVJ cfg host ja4Set uaHash lineage asn grade issued =
     (let grade = (if grade = [] then ''captcha'' else grade)
      in issueJValueAtH (vc_sigHash cfg) (vc_BVSecret cfg) ja4Set uaHash lineage asn host grade issued)"

definition mintBVJAt :: "VerifyCfg \<Rightarrow> VerifyEnv \<Rightarrow> VerifyReq \<Rightarrow> string \<Rightarrow> int \<Rightarrow> string option" where
  "mintBVJAt cfg v q grade issued =
     map_option (\<lambda>lineage. writeBVJ cfg (vq_host q) (FingerprintHash (req_ja4 q)) (FingerprintHash (vq_userAgent q)) lineage (ve_asn v) grade issued)
       (NewLineage (ve_lineage v))"

definition mintBVJ :: "VerifyCfg \<Rightarrow> VerifyEnv \<Rightarrow> VerifyReq \<Rightarrow> string \<Rightarrow> string option" where
  "mintBVJ cfg v q grade = mintBVJAt cfg v q grade (unix_of (ve_now v))"

text \<open>\<open>setBVCookie\<close>: the new entry in front of the list the request's first \<open>_bv\<close> cookie holds.\<close>

definition setBVCookie :: "VerifyCfg \<Rightarrow> VerifyReq \<Rightarrow> string \<Rightarrow> string" where
  "setBVCookie cfg q val =
     AppendEntry (case vq_bv q of [] \<Rightarrow> [] | v # _ \<Rightarrow> v) val (MaxEntriesResolved (vc_MaxEntries cfg))"

definition fail :: "int \<Rightarrow> string \<Rightarrow> VerifyOut" where
  "fail status err = \<lparr>vo_status = status, vo_error = err, vo_bv = None, vo_bvj = None\<rparr>"

definition issue_pass :: "VerifyCfg \<Rightarrow> VerifyEnv \<Rightarrow> VerifyReq \<Rightarrow> string \<Rightarrow> VerifyOut" where
  "issue_pass cfg v q kind =
     \<lparr>vo_status = 200, vo_error = [],
      vo_bv = Some (setBVCookie cfg q (IssueValueH (unix_of (ve_now v)) (vc_sigHash cfg) (vc_BVSecret cfg) (vq_bindKey q) (vq_host q) kind)),
      vo_bvj = mintBVJ cfg v q kind\<rparr>"

text \<open>
  What both built-in paths ask before the answer is looked at: the page's token for this
  client, the proof of work its chain owes, and an age a person can have. The result is the
  grade the chain's CAPTCHA earns.
\<close>

definition captcha_leg :: "VerifyCfg \<Rightarrow> int \<Rightarrow> VerifyReq \<Rightarrow> string + string" where
  "captcha_leg cfg unix q =
     (case verifyTokenAt (vq_Ct q) (vc_CaptchaSecretBase cfg) TokenValidSeconds (vq_bindKey q) (vq_host q) (req_ja4 q) unix of
        None \<Rightarrow> Inl ''stale_challenge''
      | Some claims \<Rightarrow>
        (case chainTerms (c_Chain claims) of
           None \<Rightarrow> Inl ''stale_challenge''
         | Some (grade, needPow) \<Rightarrow>
             if needPow \<and> \<not> powProofFor cfg unix q (c_Issued claims) then Inl ''pow_required''
             else if (case TokenAge (vq_Ct q) unix of None \<Rightarrow> True | Some age \<Rightarrow> age < TokenMinAgeSeconds) then Inl ''too_fast''
             else Inr grade))"

text \<open>The token is spent before the pass is handed out.\<close>

definition consume_and_issue :: "VerifyCfg \<Rightarrow> VerifyEnv \<Rightarrow> VerifyReq \<Rightarrow> string \<Rightarrow> VerifyState \<Rightarrow> VerifyOut \<times> VerifyState" where
  "consume_and_issue cfg v q kind st =
     (let (ok, u) = consumeAt (vs_usedCT st) (vq_Ct q) TokenTTL (unix_of (ve_now v)) in
      if \<not> ok then (fail 403 ''stale_challenge'', st\<lparr>vs_usedCT := u\<rparr>)
      else (issue_pass cfg v q kind, st\<lparr>vs_usedCT := u\<rparr>))"

definition VerifyJSON :: "VerifyCfg \<Rightarrow> VerifyEnv \<Rightarrow> VerifyReq \<Rightarrow> VerifyState \<Rightarrow> VerifyOut \<times> VerifyState" where
  "VerifyJSON cfg v q st =
     (let unix = unix_of (ve_now v);
          (within, tr) = takeQuiet (''verify|'' @ vq_ip q) (cv_DebugRateLimitPer5Min (challenge_Resolve (vc_Challenge cfg) (vq_site q))) (ve_now v) (vs_trace st);
          st = st\<lparr>vs_trace := tr\<rparr>;
          ch = challenge_Resolve (vc_Challenge cfg) (vq_cfgSite q)
      in if \<not> within then (fail 429 ''rate_limit'', st)
         else if captchaInjected (cv_CaptchaProvider ch) then
           (if vq_ProviderToken q = [] then (fail 403 ''provider_required'', st)
            else case ve_provider v of
              None \<Rightarrow> (fail 503 ''provider_unavailable'', st)
            | Some ok \<Rightarrow> if ok then (issue_pass cfg v q ''captcha'', st) else (fail 403 ''provider_rejected'', st))
         else if vq_hasSig q then
           (if vq_Token q = [] then (fail 400 ''no_token'', st)
            else case captcha_leg cfg unix q of
              Inl e \<Rightarrow> (fail 403 e, st)
            | Inr grade \<Rightarrow> if ve_scoreOK v then consume_and_issue cfg v q grade st else (fail 403 ''low_score'', st))
         else
           (let ans = trim_space (vq_Answer q) in
            if ans = [] then (fail 400 ''invalid'', st)
            else case captcha_leg cfg unix q of
              Inl e \<Rightarrow> (fail 403 e, st)
            | Inr grade \<Rightarrow>
                if verifyMathAt ans (vq_Token q) (vq_Ct q) (vc_CaptchaSecretBase cfg) TokenValidSeconds unix
                then consume_and_issue cfg v q (if vq_IV q = Some 0 then ''pow'' else grade) st
                else (fail 403 ''wrong'', st)))"

definition CaptchaNew :: "VerifyCfg \<Rightarrow> VerifyEnv \<Rightarrow> (int \<Rightarrow> int option) \<Rightarrow> (int \<Rightarrow> int option) \<Rightarrow> VerifyReq \<Rightarrow> VerifyState
    \<Rightarrow> ((int \<times> string) + (int \<times> int \<times> string \<times> string)) \<times> VerifyState" where
  "CaptchaNew cfg v draw1 draw2 q st =
     (let unix = unix_of (ve_now v) in
      case verifyTokenAt (vq_Ct q) (vc_CaptchaSecretBase cfg) TokenValidSeconds (vq_bindKey q) (vq_host q) (req_ja4 q) unix of
        None \<Rightarrow> (Inl (403, ''stale_challenge''), st)
      | Some _ \<Rightarrow>
        (let (within, tr) = takeQuiet (''captcha-new|'' @ vq_ip q) (cv_DebugRateLimitPer5Min (challenge_Resolve (vc_Challenge cfg) (vq_site q))) (ve_now v) (vs_trace st);
             st = st\<lparr>vs_trace := tr\<rparr>
         in if \<not> within then (Inl (429, ''rate_limit''), st)
            else let (a, b, token) = mathChallengeAt draw1 draw2 (ve_now v) (vc_CaptchaSecretBase cfg) (vq_Ct q) unix
                 in (Inr (a, b, token, vq_Ct q), st)))"

section \<open>Lemmas\<close>





lemma wrap64_age:
  assumes "in64 i" "0 \<le> t" "t < 2 ^ 62" "0 \<le> wrap64 (t - i)"
  shows "wrap64 (t - i) = t - i"
proof (cases "in64 (t - i)")
  case False
  then have "t - i \<ge> 2 ^ 63" using assms(1-3) by (auto simp: in64_def)
  moreover have "t - i < 2 ^ 63 + 2 ^ 62" using assms(1,3) by (auto simp: in64_def)
  ultimately have "(t - i + 2 ^ 63 - 2 ^ 64) mod 2 ^ 64 = t - i + 2 ^ 63 - 2 ^ 64"
    by (intro mod_pos_pos_trivial) auto
  moreover have "(t - i + 2 ^ 63 - 2 ^ 64) mod 2 ^ 64 = (t - i + 2 ^ 63) mod 2 ^ 64" by (rule minus_mod_self2)
  ultimately have "wrap64 (t - i) = t - i - 2 ^ 64" by (simp add: wrap64_def)
  then show ?thesis using assms(4) \<open>t - i < _\<close> by simp
qed simp

text \<open>
  The request carries the token of a challenge page served at \<open>issued\<close> with \<open>chain\<close> to this
  client on this host, over a connection of the same TLS stack.
\<close>

definition page_token :: "VerifyCfg \<Rightarrow> VerifyReq \<Rightarrow> string \<Rightarrow> int \<Rightarrow> bool" where
  "page_token cfg q chain issued \<longleftrightarrow>
     (\<exists>i n ja4. parse_int 10 64 i = Some issued \<and> SameTLSStack ja4 (req_ja4 q)
        \<and> vq_Ct q = join (CHR ''.'') [i, n, chain, ja4, tokenMAC (vc_CaptchaSecretBase cfg) issued i n
            \<lparr>b_Key = vq_bindKey q, b_Host = vq_host q, b_JA4 = ja4, b_Chain = chain\<rparr>])"

lemma captcha_leg_token:
  assumes "captcha_leg cfg unix q = Inr grade" "0 \<le> unix" "unix < 2 ^ 62"
  obtains chain issued where "page_token cfg q chain issued" "issued + 2 \<le> unix" "unix \<le> issued + 900"
    and "chainTerms chain = Some (grade, chain \<noteq> RateChallengeCaptchaOnly)"
    and "chain \<noteq> RateChallengeCaptchaOnly \<Longrightarrow> powProofFor cfg unix q issued"
    and "TokenAge (vq_Ct q) unix = Some (wrap64 (unix - issued))"
proof -
  obtain c needPow where c: "verifyTokenAt (vq_Ct q) (vc_CaptchaSecretBase cfg) TokenValidSeconds (vq_bindKey q) (vq_host q) (req_ja4 q) unix = Some c"
      "chainTerms (c_Chain c) = Some (grade, needPow)" "needPow \<Longrightarrow> powProofFor cfg unix q (c_Issued c)"
    and age: "\<not> (case TokenAge (vq_Ct q) unix of None \<Rightarrow> True | Some age \<Rightarrow> age < TokenMinAgeSeconds)"
    using assms(1) by (auto simp: captcha_leg_def split: option.splits if_splits)
  have "admissible_ct unix TokenValidSeconds (req_ja4 q) c \<and> (\<exists>h. variant_ct h c \<and> vq_Ct q = sign_ct (vc_CaptchaSecretBase cfg) (vq_bindKey q) (vq_host q) h c)"
    using c(1) unfolding ct.accept_iff .
  then obtain i n where t: "token_window unix (c_Issued c) TokenValidSeconds" "SameTLSStack (c_JA4 c) (req_ja4 q)" "dotless i"
      "parse_int 10 64 i = Some (c_Issued c)"
      "vq_Ct q = join (CHR ''.'') [i, n, c_Chain c, c_JA4 c, tokenMAC (vc_CaptchaSecretBase cfg) (c_Issued c) i n
         \<lparr>b_Key = vq_bindKey q, b_Host = vq_host q, b_JA4 = c_JA4 c, b_Chain = c_Chain c\<rparr>]"
    by (auto simp: admissible_ct_def variant_ct_def sign_ct_def)
  have "index_byte (CHR ''.'') (vq_Ct q) = Some (length i)"
    using t(3,5) by (simp add: dotless_def index_byte_append)
  then have a: "TokenAge (vq_Ct q) unix = Some (wrap64 (unix - c_Issued c))" using t(4,5) by (simp add: TokenAge_def)
  then have "2 \<le> wrap64 (unix - c_Issued c)" using age by (simp add: TokenMinAgeSeconds_def)
  moreover have "wrap64 (unix - c_Issued c) \<le> 900" using t(1) by (simp add: token_window_def TokenValidSeconds_def)
  moreover have "in64 (c_Issued c)" using t(4) parse_int_in64 by blast
  ultimately have "c_Issued c + 2 \<le> unix" "unix \<le> c_Issued c + 900" using wrap64_age [of "c_Issued c" unix] assms(2,3) by auto
  moreover have "chainTerms (c_Chain c) = Some (grade, c_Chain c \<noteq> RateChallengeCaptchaOnly)" "needPow = (c_Chain c \<noteq> RateChallengeCaptchaOnly)"
    using c(2) by (auto simp: chainTerms_def split: if_splits)
  moreover have "page_token cfg q (c_Chain c) (c_Issued c)" using t(2,4,5) unfolding page_token_def by blast
  ultimately show ?thesis using that a c(3) by blast
qed

subsection \<open>What a verify does\<close>

definition answered :: "VerifyCfg \<Rightarrow> VerifyEnv \<Rightarrow> VerifyReq \<Rightarrow> bool" where
  "answered cfg v q \<longleftrightarrow>
     (if vq_hasSig q then vq_Token q \<noteq> [] \<and> ve_scoreOK v
      else trim_space (vq_Answer q) \<noteq> []
        \<and> verifyMathAt (trim_space (vq_Answer q)) (vq_Token q) (vq_Ct q) (vc_CaptchaSecretBase cfg) TokenValidSeconds (unix_of (ve_now v)))"

definition within_budget :: "VerifyCfg \<Rightarrow> VerifyEnv \<Rightarrow> VerifyReq \<Rightarrow> VerifyState \<Rightarrow> bool" where
  "within_budget cfg v q st \<longleftrightarrow>
     fst (takeQuiet (''verify|'' @ vq_ip q) (cv_DebugRateLimitPer5Min (challenge_Resolve (vc_Challenge cfg) (vq_site q))) (ve_now v) (vs_trace st))"

definition external_captcha :: "VerifyCfg \<Rightarrow> VerifyReq \<Rightarrow> bool" where
  "external_captcha cfg q \<longleftrightarrow> captchaInjected (cv_CaptchaProvider (challenge_Resolve (vc_Challenge cfg) (vq_cfgSite q)))"

definition issued_kind :: "VerifyReq \<Rightarrow> string \<Rightarrow> string" where
  "issued_kind q grade = (if \<not> vq_hasSig q \<and> vq_IV q = Some 0 then ''pow'' else grade)"

lemma fail_none [simp]: "vo_bv (fail s e) = None"
  by (simp add: fail_def)

lemma verify_builtin:
  assumes "\<not> external_captcha cfg q"
  shows "vo_bv (fst (VerifyJSON cfg v q st)) =
      (if within_budget cfg v q st \<and> answered cfg v q \<and> (\<exists>grade. captcha_leg cfg (unix_of (ve_now v)) q = Inr grade)
          \<and> \<not> us_held (vs_usedCT st) (vq_Ct q) (unix_of (ve_now v))
       then vo_bv (issue_pass cfg v q (issued_kind q (projr (captcha_leg cfg (unix_of (ve_now v)) q)))) else None)"
    and "vs_usedCT (snd (VerifyJSON cfg v q st)) = vs_usedCT st
      \<or> vs_usedCT (snd (VerifyJSON cfg v q st)) = snd (consumeAt (vs_usedCT st) (vq_Ct q) TokenTTL (unix_of (ve_now v)))"
    and "vo_bv (fst (VerifyJSON cfg v q st)) \<noteq> None \<Longrightarrow>
      vs_usedCT (snd (VerifyJSON cfg v q st)) = snd (consumeAt (vs_usedCT st) (vq_Ct q) TokenTTL (unix_of (ve_now v)))"
proof -
  obtain within tr where w: "takeQuiet (''verify|'' @ vq_ip q) (cv_DebugRateLimitPer5Min (challenge_Resolve (vc_Challenge cfg) (vq_site q))) (ve_now v) (vs_trace st) = (within, tr)"
    by (metis prod.exhaust)
  obtain ok u where c: "consumeAt (vs_usedCT st) (vq_Ct q) TokenTTL (unix_of (ve_now v)) = (ok, u)" by (metis prod.exhaust)
  have ok: "ok \<longleftrightarrow> \<not> us_held (vs_usedCT st) (vq_Ct q) (unix_of (ve_now v))" using consumeAt_fst [of "vs_usedCT st"] c by (metis fst_conv)
  note d = VerifyJSON_def consume_and_issue_def answered_def within_budget_def issued_kind_def Let_def w c
  show "vo_bv (fst (VerifyJSON cfg v q st)) =
      (if within_budget cfg v q st \<and> answered cfg v q \<and> (\<exists>grade. captcha_leg cfg (unix_of (ve_now v)) q = Inr grade)
          \<and> \<not> us_held (vs_usedCT st) (vq_Ct q) (unix_of (ve_now v))
       then vo_bv (issue_pass cfg v q (issued_kind q (projr (captcha_leg cfg (unix_of (ve_now v)) q)))) else None)"
    using assms ok unfolding d external_captcha_def by (simp add: c split: sum.split)
  show "vs_usedCT (snd (VerifyJSON cfg v q st)) = vs_usedCT st
      \<or> vs_usedCT (snd (VerifyJSON cfg v q st)) = snd (consumeAt (vs_usedCT st) (vq_Ct q) TokenTTL (unix_of (ve_now v)))"
    using assms unfolding d external_captcha_def by (simp add: c split: sum.split)
  show "vo_bv (fst (VerifyJSON cfg v q st)) \<noteq> None \<Longrightarrow>
      vs_usedCT (snd (VerifyJSON cfg v q st)) = snd (consumeAt (vs_usedCT st) (vq_Ct q) TokenTTL (unix_of (ve_now v)))"
    using assms unfolding d external_captcha_def by (auto simp: c split: sum.splits if_splits)
qed

lemma verify_external:
  assumes "external_captcha cfg q"
  shows "vo_bv (fst (VerifyJSON cfg v q st)) =
      (if within_budget cfg v q st \<and> vq_ProviderToken q \<noteq> [] \<and> ve_provider v = Some True then vo_bv (issue_pass cfg v q ''captcha'') else None)"
    and "vs_usedCT (snd (VerifyJSON cfg v q st)) = vs_usedCT st"
proof -
  obtain within tr where w: "takeQuiet (''verify|'' @ vq_ip q) (cv_DebugRateLimitPer5Min (challenge_Resolve (vc_Challenge cfg) (vq_site q))) (ve_now v) (vs_trace st) = (within, tr)"
    by (metis prod.exhaust)
  show "vo_bv (fst (VerifyJSON cfg v q st)) =
      (if within_budget cfg v q st \<and> vq_ProviderToken q \<noteq> [] \<and> ve_provider v = Some True then vo_bv (issue_pass cfg v q ''captcha'') else None)"
    "vs_usedCT (snd (VerifyJSON cfg v q st)) = vs_usedCT st"
    using assms w by (auto simp: VerifyJSON_def external_captcha_def within_budget_def Let_def split: option.splits)
qed


section \<open>Properties\<close>


text \<open>The token a page was served with, presented in time, opens the CAPTCHA leg.\<close>

lemma served_token_leg:
  assumes "vq_Ct q = IssueToken nonce (vc_CaptchaSecretBase cfg) T \<lparr>b_Key = vq_bindKey q, b_Host = vq_host q, b_JA4 = ja4, b_Chain = chain\<rparr>"
    and "dotless nonce" "nonce \<noteq> []" "dotless ja4" "SameTLSStack ja4 (req_ja4 q)"
    and chain: "chainTerms chain = Some (grade, needPow)" "needPow \<Longrightarrow> powProofFor cfg unix q T"
    and time: "0 \<le> T" "T + 2 \<le> unix" "unix \<le> T + 900" "unix < 2 ^ 62"
  shows "captcha_leg cfg unix q = Inr grade"
proof -
  have dot: "dotless chain" using chain(1)
    by (auto simp: chainTerms_def dotless_def RateChallengePoWOnly_def RateChallengeCaptchaOnly_def RateChallengePoWThenCaptcha_def split: if_splits)
  have in64: "in64 T" "in64 (unix - T)" "in64 (unix + 60)" using time by (auto simp: in64_def)
  have "verifyTokenAt (vq_Ct q) (vc_CaptchaSecretBase cfg) TokenValidSeconds (vq_bindKey q) (vq_host q) (req_ja4 q) unix
      = Some \<lparr>c_Issued = T, c_JA4 = ja4, c_Chain = chain\<rparr>"
    using IssueToken_verifies [of nonce "\<lparr>b_Key = vq_bindKey q, b_Host = vq_host q, b_JA4 = ja4, b_Chain = chain\<rparr>" T unix TokenValidSeconds "req_ja4 q"]
      assms(1-5) dot in64 time by (simp add: token_window_def TokenValidSeconds_def)
  moreover have "index_byte (CHR ''.'') (vq_Ct q) = Some (length (format_int 10 T))" "take (length (format_int 10 T)) (vq_Ct q) = format_int 10 T"
    using assms(1) format10_chars(1) [of T] by (simp_all add: IssueToken_def index_byte_append Let_def)
  then have "TokenAge (vq_Ct q) unix = Some (unix - T)" using in64 by (simp add: TokenAge_def parse_format_int)
  ultimately show ?thesis using chain time by (simp add: captcha_leg_def TokenMinAgeSeconds_def)
qed




text \<open>A client that solved a CAPTCHA page served at second 1000, ten seconds later.\<close>

definition demo_cfg :: VerifyCfg where
  "demo_cfg = \<lparr>vc_BVSecret = ''s'', vc_CaptchaSecretBase = ''c'', vc_sigHash = SigSHA256,
     vc_Challenge = \<lparr>cg_Default = \<lparr>cv_PowCookieValidSeconds = 0, cv_CaptchaCookieValidSeconds = 0, cv_DebugRateLimitPer5Min = 0, cv_PowDifficulty = 0,
        cv_CaptchaProvider = \<lparr>cc_Provider = [], cc_TurnstileSiteKey = [], cc_HCaptchaSiteKey = [], cc_RecaptchaSiteKey = []\<rparr>, cv_Disabled = False\<rparr>,
        cg_Sites = []\<rparr>, vc_MaxEntries = 0\<rparr>"

definition demo_page :: string where
  "demo_page = IssueToken ''n'' ''c'' 1000 \<lparr>b_Key = ''k'', b_Host = ''h'', b_JA4 = [], b_Chain = RateChallengeCaptchaOnly\<rparr>"

definition demo_req :: VerifyReq where
  "demo_req = \<lparr>vq_ip = ''1.2.3.4'', vq_bindKey = ''k'', vq_host = ''h'', vq_clientJA4 = [], vq_userAgent = [], vq_site = [], vq_cfgSite = [],
     vq_bv = [], vq_Token = ''t'', vq_Ct = demo_page, vq_Answer = [], vq_IV = None, vq_hasSig = True, vq_ProviderToken = [], vq_Pow = []\<rparr>"

definition demo_env :: "int \<Rightarrow> VerifyEnv" where
  "demo_env t = \<lparr>ve_now = t * trace_second, ve_provider = None, ve_scoreOK = True, ve_lineage = None, ve_asn = 0\<rparr>"

definition demo_start :: VerifyState where
  "demo_start = \<lparr>vs_trace = new_trace, vs_usedCT = emptyUsedSet\<rparr>"

lemma demo_facts:
  "unix_of (ve_now (demo_env t)) = t" "answered demo_cfg (demo_env t) demo_req" "\<not> external_captcha demo_cfg demo_req"
  "within_budget demo_cfg (demo_env t) demo_req demo_start" "\<not> us_held (vs_usedCT demo_start) (vq_Ct demo_req) t" "us_inv (vs_usedCT demo_start)"
  "us_room (vs_usedCT demo_start) = 2 ^ 17"
  by (simp_all add: unix_of_def demo_env_def trace_second_def answered_def demo_req_def external_captcha_def challenge_Resolve_def demo_cfg_def captchaInjected_def
    within_budget_def takeQuiet_def demo_start_def new_trace_def budget_window_def budget_used_def resolved_limit_def passTraceDefaultLimit_def
    us_held_def us_inv_def us_room_def emptyUsedSet_def maxUsedTokens_def Let_def)

lemma demo_token:
  "vq_Ct demo_req = IssueToken ''n'' (vc_CaptchaSecretBase demo_cfg) 1000
     \<lparr>b_Key = vq_bindKey demo_req, b_Host = vq_host demo_req, b_JA4 = [], b_Chain = RateChallengeCaptchaOnly\<rparr>"
  "dotless ''n''" "dotless []" "SameTLSStack [] (req_ja4 demo_req)"
  by (simp_all add: demo_req_def demo_page_def demo_cfg_def dotless_def SameTLSStack_def req_ja4_def safeJA4_def)

lemma demo_leg: "1002 \<le> t \<Longrightarrow> t \<le> 1900 \<Longrightarrow> captcha_leg demo_cfg t demo_req = Inr ''captcha''"
  using served_token_leg [OF demo_token(1,2) _ demo_token(3,4), of "''captcha''" False t] by (simp add: chainTerms_def)

lemma demo_pass:
  "vo_bv (fst (VerifyJSON demo_cfg (demo_env 1010) demo_req demo_start))
     = Some (setBVCookie demo_cfg demo_req (issueValueAtH SigSHA256 ''s'' ''k'' ''h'' ''captcha'' 1010))"
  using verify_builtin(1) [OF demo_facts(3), of "demo_env 1010" demo_start] demo_facts demo_leg [of 1010]
  by (simp add: issue_pass_def IssueValueH_def issued_kind_def demo_req_def demo_cfg_def)




text \<open>
  C28: Whoever is challenged can get out. Take a request the check challenges by its axes,
  that is without a ban and with its crawler claim open, whatever cookie it shows, and a
  challenge page served with the check's own hint of the chain, not by the test route. The
  pass that the served chain mints, for a request judged by the same settings and facts, at
  any later second and with any state of the limiter, is let through by the check: the page
  never asks less than the check wants. Outside are the two corners where this is known to
  fail: a URI with a query string, and a black-listed user agent that is also a stale
  browser.
\<close>

theorem challenged_visitor_gets_out:
  assumes v: "v = fst (decide now c k cfg e m a bv rl)" "v_action v = Challenge" "m = bypassMatchers c (s_Nginx cfg) (a_site a) ipb rp"
    and gate: "e_ban e = None" "crawler_verdict c cfg e m a = CrawlerUnknown"
    and corners: "CHR ''?'' \<notin> set (a_uri a)" "\<not> (ua_listed c (a_ua a) (s_Nginx cfg) \<and> IsStaleBrowser k (a_ua a))"
    and hint: "q_chm r = v_chMode v" "banProbedOrigPath r bp \<noteq> []" "f_forceQuery f = []"
    and solved: "chainTerms (serveChain c k cfg info bp r f) = Some (kind, needPow)"
  shows "v_action (fst (decide now' c k cfg e m a (Some kind) rl')) = Pass"
proof -
  let ?ja4 = "matchJA4 c (a_ja4 a) (s_Nginx cfg)"
  note g = challenged_by_gate [OF v(2) [unfolded v(1)] gate]
  have "cookie_passes c k cfg e m a ?ja4 (Some kind)"
  proof (cases "needsCaptchaGrade c k cfg e m a ?ja4")
    case True
    have "\<not> rescued c k cfg m a (snd ?ja4)" using g(2) by (simp add: vouched_def)
    from grade_refusal_is_served [OF True v(3) this corners, of now rl] v(2) g(3) have "ChainEndsInCaptcha (v_chMode v)"
      by (auto simp: v(1) Let_def)
    then have "serveChain c k cfg info bp r f = v_chMode v" "ChainEndsInCaptcha (v_chMode v)"
      using captcha_hint_served [OF _ hint(2,3)] hint(1) by auto
    then have "kind = ''captcha''" using solved by (auto simp: chainTerms_def ChainEndsInCaptcha_def split: if_splits)
    then show ?thesis by (simp add: cookie_passes_def gradeSatisfies_def)
  qed (simp add: cookie_passes_def)
  from decide_cookie_passes [OF this] show ?thesis using gate g(1) by simp
qed

theorem challenged_visitor_gets_out_witness:
  "let d = (\<lambda>bv. fst (decide 0 exCatalog exClassify exSettings exEnv exMatchers (exInput ''Mozilla'' ''/login'') bv None));
       ch = serveChain exCatalog exClassify exSettings (e_info exEnv) ''/unmask'' (exRequest ''Mozilla'' ''/login'' (v_chMode (d (Some ''pow'')))) exServe
   in v_action (d (Some ''pow'')) = Challenge \<and> ch = RateChallengeCaptchaOnly \<and> v_action (d (Some ''captcha'')) = Pass"
proof -
  let ?a = "exInput ''Mozilla'' ''/login''"
  let ?v = "fst (decide 0 exCatalog exClassify exSettings exEnv exMatchers ?a (Some ''pow'') None)"
  let ?r = "exRequest ''Mozilla'' ''/login'' (v_chMode ?v)"
  have v: "v_action ?v = Challenge" by code_simp
  have ch: "serveChain exCatalog exClassify exSettings (e_info exEnv) ''/unmask'' ?r exServe = RateChallengeCaptchaOnly" by code_simp
  have side: "e_ban exEnv = None" "crawler_verdict exCatalog exSettings exEnv exMatchers ?a = CrawlerUnknown" "CHR ''?'' \<notin> set (a_uri ?a)"
    "\<not> (ua_listed exCatalog (a_ua ?a) (s_Nginx exSettings) \<and> IsStaleBrowser exClassify (a_ua ?a))"
    "banProbedOrigPath ?r ''/unmask'' \<noteq> []" "f_forceQuery exServe = []" by code_simp+
  have m: "exMatchers = bypassMatchers exCatalog (s_Nginx exSettings) (a_site ?a) (\<lambda>ip. False) []" by (simp add: exMatchers_def exInput_def)
  have "chainTerms (serveChain exCatalog exClassify exSettings (e_info exEnv) ''/unmask'' ?r exServe) = Some (''captcha'', False)"
    by (simp add: ch chainTerms_def)
  from challenged_visitor_gets_out [OF refl v m side(1-4) _ side(5,6) this] v ch show ?thesis
    by (simp add: exRequest_def)
qed

text \<open>A run of verifies: the answers in order and the state they leave.\<close>

fun run_verify :: "VerifyCfg \<Rightarrow> (VerifyEnv \<times> VerifyReq) list \<Rightarrow> VerifyState \<Rightarrow> VerifyOut list \<times> VerifyState" where
  "run_verify cfg [] st = ([], st)"
| "run_verify cfg ((v, q) # rs) st =
     (let (out, st) = VerifyJSON cfg v q st; (outs, st) = run_verify cfg rs st in (out # outs, st))"

lemma run_verify_Cons:
  "run_verify cfg (r # rs) st =
     (fst (VerifyJSON cfg (fst r) (snd r) st) # fst (run_verify cfg rs (snd (VerifyJSON cfg (fst r) (snd r) st))),
      snd (run_verify cfg rs (snd (VerifyJSON cfg (fst r) (snd r) st))))"
  by (cases r) (simp add: Let_def split: prod.splits)

lemma length_run_verify [simp]: "length (fst (run_verify cfg rs st)) = length rs"
  by (induction rs arbitrary: st) (simp_all add: run_verify_Cons)

lemma verify_used:
  assumes "us_inv (vs_usedCT st)" "st' = snd (VerifyJSON cfg v q st)"
  shows "us_inv (vs_usedCT st')" "us_room (vs_usedCT st) \<le> Suc (us_room (vs_usedCT st'))"
    and "0 < us_room (vs_usedCT st) \<Longrightarrow> unix_of (ve_now v) \<le> t \<Longrightarrow> us_held (vs_usedCT st) ct t \<Longrightarrow> us_held (vs_usedCT st') ct t"
proof -
  have "vs_usedCT st' = vs_usedCT st \<or> vs_usedCT st' = snd (consumeAt (vs_usedCT st) (vq_Ct q) TokenTTL (unix_of (ve_now v)))"
    using verify_builtin(2) verify_external(2) unfolding assms(2) by blast
  then show "us_inv (vs_usedCT st')" "us_room (vs_usedCT st) \<le> Suc (us_room (vs_usedCT st'))"
    "0 < us_room (vs_usedCT st) \<Longrightarrow> unix_of (ve_now v) \<le> t \<Longrightarrow> us_held (vs_usedCT st) ct t \<Longrightarrow> us_held (vs_usedCT st') ct t"
    using assms(1) consumeAt_inv us_room_consumeAt consumeAt_other by auto
qed

text \<open>The second at which a request of a run is answered.\<close>

definition at_unix :: "VerifyEnv \<times> VerifyReq \<Rightarrow> int" where
  "at_unix r = unix_of (ve_now (fst r))"

lemma run_verify_held:
  assumes "us_inv (vs_usedCT st)" "length rs \<le> us_room (vs_usedCT st)" "us_held (vs_usedCT st) ct (at_unix (rs ! j))"
    and "\<forall>k \<le> j. at_unix (rs ! k) \<le> at_unix (rs ! j)" "j < length rs" "vq_Ct (snd (rs ! j)) = ct"
    and "\<not> external_captcha cfg (snd (rs ! j))"
  shows "vo_bv (fst (run_verify cfg rs st) ! j) = None"
  using assms
proof (induction rs arbitrary: st j)
  case (Cons r rs)
  note u = verify_used [OF Cons.prems(1) refl, where cfg = cfg and v = "fst r" and q = "snd r"]
  show ?case
  proof (cases j)
    case 0
    then show ?thesis using Cons.prems verify_builtin(1) [of cfg "snd r" "fst r" st] by (simp add: run_verify_Cons at_unix_def)
  next
    case (Suc i)
    have "length rs \<le> us_room (vs_usedCT (snd (VerifyJSON cfg (fst r) (snd r) st)))" using u(2) Cons.prems(2) by simp
    moreover have "unix_of (ve_now (fst r)) \<le> at_unix (rs ! i)" "\<forall>k \<le> i. at_unix (rs ! k) \<le> at_unix (rs ! i)"
      using Cons.prems(4) Suc by (force simp: at_unix_def)+
    ultimately show ?thesis using Cons.IH [of "snd (VerifyJSON cfg (fst r) (snd r) st)" i] u(1) u(3) [where t = "at_unix (rs ! i)" and ct = ct]
        Cons.prems Suc by (simp add: run_verify_Cons)
  qed
qed simp

lemma run_verify_leg:
  assumes "j < length rs" "\<not> external_captcha cfg (snd (rs ! j))" "vo_bv (fst (run_verify cfg rs st) ! j) \<noteq> None"
  shows "\<exists>grade. captcha_leg cfg (at_unix (rs ! j)) (snd (rs ! j)) = Inr grade"
  using assms
proof (induction rs arbitrary: st j)
  case (Cons r rs)
  then show ?case using verify_builtin(1) [of cfg "snd r" "fst r" st]
    by (cases j) (auto simp: run_verify_Cons at_unix_def split: if_splits)
qed simp

text \<open>A token spent by a pass is held until after it has gone stale.\<close>

lemma pass_holds_token:
  assumes "us_inv (vs_usedCT st)" "\<not> external_captcha cfg q" "vo_bv (fst (VerifyJSON cfg v q st)) \<noteq> None"
    and "0 \<le> unix_of (ve_now v)" "unix_of (ve_now v) < 2 ^ 62" "t < unix_of (ve_now v) + 900"
  shows "us_held (vs_usedCT (snd (VerifyJSON cfg v q st))) (vq_Ct q) t"
proof -
  have "\<not> us_held (vs_usedCT st) (vq_Ct q) (unix_of (ve_now v))" using verify_builtin(1) [OF assms(2), of v st] assms(3) by (auto split: if_splits)
  then have "map_of (us_m (snd (consumeAt (vs_usedCT st) (vq_Ct q) TokenTTL (unix_of (ve_now v))))) (vq_Ct q) = Some (unix_of (ve_now v) + TokenTTL)"
    using consumeAt_self [OF assms(1)] by (simp add: consumeAt_fst TokenTTL_def TokenValidSeconds_def)
  then show ?thesis using verify_builtin(3) [OF assms(2,3)] assms(6) by (simp add: us_held_def TokenTTL_def TokenValidSeconds_def)
qed

lemma stale_token_refused:
  assumes "captcha_leg cfg n q = Inr g" "captcha_leg cfg' n' q' = Inr g'" "vq_Ct q = vq_Ct q'"
    and "0 \<le> n" "n < 2 ^ 62" "0 \<le> n'" "n' < 2 ^ 62"
  shows "n' < n + 900"
proof -
  obtain issued where i: "issued + 2 \<le> n" "n \<le> issued + 900" "TokenAge (vq_Ct q) n = Some (wrap64 (n - issued))"
    using captcha_leg_token [OF assms(1,4,5)] by metis
  obtain issued' where i': "issued' + 2 \<le> n'" "n' \<le> issued' + 900" "TokenAge (vq_Ct q) n' = Some (wrap64 (n' - issued'))"
    using captcha_leg_token [OF assms(2,6,7)] assms(3) by metis
  obtain x where x: "in64 x" "TokenAge (vq_Ct q) m = Some (wrap64 (m - x))" for m
    using i(3) parse_int_in64 by (fastforce simp: TokenAge_def Let_def split: option.splits)
  have "wrap64 (n - issued) = n - issued" "wrap64 (n' - issued') = n' - issued'" using i i' by (auto simp: in64_def)
  then have "n - issued = wrap64 (n - x)" "n' - issued' = wrap64 (n' - x)" using i(3) i'(3) x(2) by auto
  then have "n - issued = n - x" "n' - issued' = n' - x" using wrap64_age [OF x(1)] assms(4-7) i i' by auto
  then show ?thesis using i i' by simp
qed

text \<open>
  C8: One page, one pass, with the built-in CAPTCHA. In any run of verifies on a clock that
  does not go back, with room in the set of spent tokens for the run, two requests judged by
  the built-in CAPTCHA that carry the same page token are never both given a pass, whatever
  the other requests of the run are. The spent token is held 900 seconds from the first
  pass, and the 2-second floor on a token's age has the token stale before it is released,
  which closes the instant at which the set alone would take it a second time. Under an
  external provider the page token is not spent, and nothing is claimed.
\<close>

theorem one_page_one_pass:
  assumes set: "us_inv (vs_usedCT st)" "length rs \<le> us_room (vs_usedCT st)"
    and clock: "sorted (map at_unix rs)" "\<forall>r \<in> set rs. 0 \<le> at_unix r \<and> at_unix r < 2 ^ 62"
    and same: "i < j" "j < length rs" "vq_Ct (snd (rs ! i)) = vq_Ct (snd (rs ! j))"
    and builtin: "\<not> external_captcha cfg (snd (rs ! i))" "\<not> external_captcha cfg (snd (rs ! j))"
    and pass: "vo_bv (fst (run_verify cfg rs st) ! i) \<noteq> None"
  shows "vo_bv (fst (run_verify cfg rs st) ! j) = None"
  using assms
proof (induction rs arbitrary: st i j)
  case (Cons r rs)
  let ?st = "snd (VerifyJSON cfg (fst r) (snd r) st)"
  note u = verify_used [OF Cons.prems(1) refl, where cfg = cfg and v = "fst r" and q = "snd r"]
  obtain k where j: "j = Suc k" "k < length rs" using Cons.prems(5,6) by (cases j) auto
  have room: "length rs \<le> us_room (vs_usedCT ?st)" using u(2) Cons.prems(2) by simp
  show ?case
  proof (cases i)
    case 0
    have le: "\<forall>l \<le> k. at_unix (rs ! l) \<le> at_unix (rs ! k)" "at_unix r \<le> at_unix (rs ! k)"
      using Cons.prems(3) j(2) by (auto simp: sorted_iff_nth_mono)
    have t: "0 \<le> at_unix r" "at_unix r < 2 ^ 62" "0 \<le> at_unix (rs ! k)" "at_unix (rs ! k) < 2 ^ 62" using Cons.prems(4) j(2) by auto
    have p: "vo_bv (fst (VerifyJSON cfg (fst r) (snd r) st)) \<noteq> None" "\<not> external_captcha cfg (snd r)" "vq_Ct (snd r) = vq_Ct (snd (rs ! k))"
      using Cons.prems 0 j(1) by (auto simp: run_verify_Cons)
    show ?thesis
    proof (cases "at_unix (rs ! k) < at_unix r + 900")
      case True
      then have "us_held (vs_usedCT ?st) (vq_Ct (snd r)) (at_unix (rs ! k))"
        using pass_holds_token [OF Cons.prems(1) p(2,1)] t by (simp add: at_unix_def)
      then show ?thesis using run_verify_held [OF u(1) room _ le(1) j(2)] p(3) Cons.prems(9) j(1) by (simp add: run_verify_Cons)
    next
      case False
      obtain g where "captcha_leg cfg (at_unix r) (snd r) = Inr g" using verify_builtin(1) [OF p(2), of "fst r" st] p(1) by (auto simp: at_unix_def split: if_splits)
      then have "captcha_leg cfg (at_unix (rs ! k)) (snd (rs ! k)) \<noteq> Inr g'" for g'
        using stale_token_refused [OF _ _ p(3)] t False by blast
      then have "vo_bv (fst (run_verify cfg rs ?st) ! k) = None" using run_verify_leg [OF j(2), of cfg ?st] Cons.prems(9) j(1)
        by (cases "vo_bv (fst (run_verify cfg rs ?st) ! k)") auto
      then show ?thesis using j(1) by (simp add: run_verify_Cons)
    qed
  next
    case (Suc l)
    then show ?thesis using Cons.IH [OF u(1) room, of l k] Cons.prems j by (simp add: run_verify_Cons)
  qed
qed simp

theorem one_page_one_pass_witness:
  "vo_bv (fst (run_verify demo_cfg [(demo_env 1010, demo_req), (demo_env 1020, demo_req)] demo_start) ! 0) \<noteq> None
   \<and> vo_bv (fst (run_verify demo_cfg [(demo_env 1010, demo_req), (demo_env 1020, demo_req)] demo_start) ! 1) = None"
  using one_page_one_pass [of demo_start "[(demo_env 1010, demo_req), (demo_env 1020, demo_req)]" 0 1 demo_cfg] demo_pass demo_facts
  by (simp add: run_verify_Cons at_unix_def)

end
