(* ===== verification/Rebind.thy ===== *)
theory Rebind
  imports Challenge_Verify
begin

text \<open>
  The silent re-bind of a pass to a new address (\<open>handlers/rebind.go\<close>), its switches
  (\<open>settings/settings.go\<close>) and its slots in the database (\<open>db/rebind.go\<close>) with the nightly
  cleanup of the idle ones (\<open>dashboard/aggregate_hourly.go\<close>). The companion
  cookie \<open>_bvj\<close> records a solve: its time, its grade, the client's fingerprints and network,
  and a lineage. A client whose pass is bound to another address presents it at the
  challenge route and, when the gates agree, gets an entry for its new address. The events
  the handlers log are reduced to their reasons; the outcome of the database's statements,
  the network of the address and the readability of the address are the environment's.
\<close>

section \<open>Definitions\<close>

subsection \<open>Switches\<close>

record RebindConfig =
  rc_Disabled :: bool
  rc_AllowNoJA4 :: bool
  rc_ASNVeto :: string
  rc_MaxRebinds :: int
  rc_MaxRebindsPerHour :: int

definition RebindEnabled :: "RebindConfig \<Rightarrow> bool" where
  "RebindEnabled c = (\<not> rc_Disabled c)"

definition ASNVetoResolved :: "RebindConfig \<Rightarrow> string" where
  "ASNVetoResolved c = (if rc_ASNVeto c = ''off'' then ''off'' else ''auto'')"

definition RebindMode :: "RebindConfig \<Rightarrow> string" where
  "RebindMode c = (if rc_Disabled c then ''strict'' else if ASNVetoResolved c = ''off'' then ''any'' else ''asn'')"

definition SetRebindMode :: "string \<Rightarrow> RebindConfig \<Rightarrow> RebindConfig" where
  "SetRebindMode mode c =
     (if mode = ''strict'' then c\<lparr>rc_Disabled := True, rc_ASNVeto := []\<rparr>
      else if mode = ''any'' then c\<lparr>rc_Disabled := False, rc_ASNVeto := ''off''\<rparr>
      else c\<lparr>rc_Disabled := False, rc_ASNVeto := []\<rparr>)"

definition MaxRebindsResolved :: "RebindConfig \<Rightarrow> int" where
  "MaxRebindsResolved c = (if rc_MaxRebinds c \<le> 0 then 16 else rc_MaxRebinds c)"

definition MaxRebindsPerHourResolved :: "RebindConfig \<Rightarrow> int" where
  "MaxRebindsPerHourResolved c = (if rc_MaxRebindsPerHour c \<le> 0 then 10 else rc_MaxRebindsPerHour c)"

subsection \<open>The slots of a lineage\<close>

record LineageRow =
  lr_host :: string
  lr_count :: int
  lr_window_start :: int
  lr_window_count :: int
  lr_updated_at :: int

type_synonym LineageTable = "(string, LineageRow) amap"

text \<open>What the database does with the two statements: nothing is asked without a database or
  while its writes are held, each statement may fail, and the count of rows may be lost.\<close>

datatype RebindDB = NoDatabase | WritesHeld | InsertFails | UpdateFails | RowsUnknown | Answers

definition insert_lineage :: "string \<Rightarrow> string \<Rightarrow> int \<Rightarrow> LineageTable \<Rightarrow> LineageTable" where
  "insert_lineage lineage host now t =
     (case map_of t lineage of
        Some _ \<Rightarrow> t
      | None \<Rightarrow> aput lineage \<lparr>lr_host = host, lr_count = 0, lr_window_start = now, lr_window_count = 0, lr_updated_at = now\<rparr> t)"

definition slot_free :: "int \<Rightarrow> int \<Rightarrow> int \<Rightarrow> LineageRow \<Rightarrow> bool" where
  "slot_free maxLifetime maxPerHour now r \<longleftrightarrow>
     lr_count r < maxLifetime \<and> (lr_window_count r < maxPerHour \<or> now - lr_window_start r \<ge> 3600)"

definition take_slot :: "int \<Rightarrow> LineageRow \<Rightarrow> LineageRow" where
  "take_slot now r =
     r\<lparr>lr_count := lr_count r + 1,
       lr_window_count := (if now - lr_window_start r \<ge> 3600 then 1 else lr_window_count r + 1),
       lr_window_start := (if now - lr_window_start r \<ge> 3600 then now else lr_window_start r),
       lr_updated_at := now\<rparr>"

definition consume_slot :: "string \<Rightarrow> int \<Rightarrow> int \<Rightarrow> int \<Rightarrow> LineageTable \<Rightarrow> bool \<times> LineageTable" where
  "consume_slot lineage maxLifetime maxPerHour now t =
     (case map_of t lineage of
        None \<Rightarrow> (False, t)
      | Some r \<Rightarrow> if slot_free maxLifetime maxPerHour now r then (True, aput lineage (take_slot now r) t) else (False, t))"

text \<open>\<open>RebindAllow\<close>: \<open>None\<close> is an error, \<open>Some b\<close> the decision.\<close>

definition RebindAllow :: "RebindDB \<Rightarrow> string \<Rightarrow> string \<Rightarrow> int \<Rightarrow> int \<Rightarrow> int \<Rightarrow> LineageTable \<Rightarrow> bool option \<times> LineageTable" where
  "RebindAllow d lineage host maxLifetime maxPerHour now t =
     (if lineage = [] then (Some False, t)
      else if d = NoDatabase \<or> d = WritesHeld \<or> d = InsertFails then (None, t)
      else let t = insert_lineage lineage host now t in
        if d = UpdateFails then (None, t)
        else let (n, t) = consume_slot lineage maxLifetime maxPerHour now t in
          if d = RowsUnknown then (None, t) else (Some n, t))"

text \<open>The nightly cleanup (\<open>PruneHourly\<close>): a row that nobody has moved for 15 days is dropped.\<close>

definition lineageIdle :: int where "lineageIdle = 15 * 24 * 3600"

definition prune_lineages :: "int \<Rightarrow> LineageTable \<Rightarrow> LineageTable" where
  "prune_lineages now t = filter (\<lambda>(l, r). \<not> lr_updated_at r < now - lineageIdle) t"

subsection \<open>The companion cookie\<close>

definition rebindWindowSeconds :: "VerifyCfg \<Rightarrow> string \<Rightarrow> int" where
  "rebindWindowSeconds cfg site =
     (let ch = challenge_Resolve (vc_Challenge cfg) site;
          p = PowCookieValidSecondsResolved ch; c = CaptchaCookieValidSecondsResolved ch
      in if p > c then p else c)"

definition bvjWindowSeconds :: "VerifyCfg \<Rightarrow> string \<Rightarrow> string \<Rightarrow> int" where
  "bvjWindowSeconds cfg site grade =
     (let ch = challenge_Resolve (vc_Challenge cfg) site
      in if grade = ''captcha'' then CaptchaCookieValidSecondsResolved ch else PowCookieValidSecondsResolved ch)"

definition reboundIssuedAt :: "int \<Rightarrow> int \<Rightarrow> int \<Rightarrow> int" where
  "reboundIssuedAt now solveEnds entryWindow =
     (let t = wrap64 (solveEnds - entryWindow) in if t < now then t else now)"

definition bvj_claims :: "VerifyCfg \<Rightarrow> int \<Rightarrow> string \<Rightarrow> string \<Rightarrow> string \<Rightarrow> JClaims option" where
  "bvj_claims cfg now host site v =
     (if v = [] \<or> length v > 160 then None
      else case ParseJValue now v (vc_BVSecret cfg) host (rebindWindowSeconds cfg site) of
        None \<Rightarrow> None
      | Some cl \<Rightarrow> if wrap64 (now - j_issued cl) > bvjWindowSeconds cfg site (j_kind cl) then None else Some cl)"

fun validBVJ :: "VerifyCfg \<Rightarrow> int \<Rightarrow> string \<Rightarrow> string \<Rightarrow> string list \<Rightarrow> JClaims option" where
  "validBVJ cfg now host site [] = None"
| "validBVJ cfg now host site (v # vs) =
     (case bvj_claims cfg now host site v of Some cl \<Rightarrow> Some cl | None \<Rightarrow> validBVJ cfg now host site vs)"

definition maxBVJJA4Hashes :: int where "maxBVJJA4Hashes = 3"

definition strongerGrade :: "string \<Rightarrow> string \<Rightarrow> string" where
  "strongerGrade a b = (if a = ''captcha'' \<or> b = ''captcha'' then ''captcha'' else if b \<noteq> [] then b else a)"

definition remintBVJAppend :: "VerifyCfg \<Rightarrow> VerifyEnv \<Rightarrow> VerifyReq \<Rightarrow> JClaims \<Rightarrow> string \<Rightarrow> int \<Rightarrow> string" where
  "remintBVJAppend cfg v q prior grade issued =
     writeBVJ cfg (vq_host q) (AppendJA4Hash (j_ja4 prior) (FingerprintHash (req_ja4 q)) maxBVJJA4Hashes)
       (FingerprintHash (vq_userAgent q)) (j_lineage prior) (ve_asn v) (strongerGrade (j_kind prior) grade) (max (j_issued prior) issued)"

subsection \<open>Issuing it for a client-side solve\<close>

record RebindReq =
  rr_q :: VerifyReq
  rr_bvj :: "string list"

record IssueOut =
  io_status :: int
  io_ok :: bool
  io_why :: string
  io_bvj :: "string option"
  io_scheduled :: bool

fun first_pass :: "VerifyCfg \<Rightarrow> int \<Rightarrow> VerifyReq \<Rightarrow> string list \<Rightarrow> bv_match option" where
  "first_pass cfg now q [] = None"
| "first_pass cfg now q (v # vs) =
     (if v = [] \<or> length v > 1024 then first_pass cfg now q vs
      else let p = policy_for cfg (vq_site q) in
        case MatchingEntryID now v (p_secret p) (vq_bindKey q) (vq_host q) (p_powValid p) (p_captchaValid p) (p_difficulty p) of
          Some m \<Rightarrow> Some m
        | None \<Rightarrow> first_pass cfg now q vs)"

text \<open>\<open>recordBVJPass\<close> up to the schedule of its timer; \<open>packs\<close> is whether the address can be stored.\<close>

definition recordBVJPass :: "bool \<Rightarrow> string \<Rightarrow> string \<Rightarrow> int \<Rightarrow> passTrace \<Rightarrow> bool \<times> passTrace" where
  "recordBVJPass packs key kind now tr =
     (if kind \<noteq> ''pow2'' \<or> \<not> packs then (False, tr) else bvjPass key now tr)"

definition bvj_answer :: "VerifyCfg \<Rightarrow> VerifyEnv \<Rightarrow> RebindReq \<Rightarrow> bv_match \<Rightarrow> string \<times> string option" where
  "bvj_answer cfg v r m =
     (let q = rr_q r; grade = normalizeBVKind (m_kind m) in
      case validBVJ cfg (unix_of (ve_now v)) (vq_host q) (vq_site q) (rr_bvj r) of
        Some claims \<Rightarrow>
          if JA4Matches claims (FingerprintHash (req_ja4 q)) \<and> FingerprintHash (vq_userAgent q) = j_ua claims
          then (''present'', None)
          else ([], Some (remintBVJAppend cfg v q claims grade (m_issued m)))
      | None \<Rightarrow> ([], mintBVJAt cfg v q grade (m_issued m)))"

definition IssueBVJ :: "RebindConfig \<Rightarrow> VerifyCfg \<Rightarrow> VerifyEnv \<Rightarrow> bool \<Rightarrow> RebindReq \<Rightarrow> passTrace \<Rightarrow> IssueOut \<times> passTrace" where
  "IssueBVJ rb cfg v packs r tr =
     (let q = rr_q r; now = unix_of (ve_now v);
          skip = (\<lambda>st why. \<lparr>io_status = st, io_ok = False, io_why = why, io_bvj = None, io_scheduled = False\<rparr>)
      in if \<not> RebindEnabled rb then (skip 200 ''disabled'', tr)
         else case first_pass cfg now q (vq_bv q) of
           None \<Rightarrow> (skip 403 ''no_valid_bv'', tr)
         | Some m \<Rightarrow>
           if m_kind m = ''rebind'' then (skip 200 ''rebound_entry'', tr)
           else let age = wrap64 (now - m_issued m);
                    (sched, tr) = (if age \<le> passTraceFresh div trace_second \<and> age \<ge> -60
                                   then recordBVJPass packs (vq_bindKey q @ ''|'' @ m_entry m) (m_kind m) (ve_now v) tr else (False, tr));
                    (why, val) = bvj_answer cfg v r m
                in (\<lparr>io_status = 200, io_ok = (why = []), io_why = why, io_bvj = val, io_scheduled = sched\<rparr>, tr))"

subsection \<open>The re-bind\<close>

definition VerdictAction :: "Catalog \<Rightarrow> Settings \<Rightarrow> string \<Rightarrow> string" where
  "VerdictAction c scfg name =
     (if name = [] then []
      else case find (\<lambda>p. je_Verdict p = name) (jv_Extra (n_JA4Verdicts (s_Nginx scfg))) of
        Some p \<Rightarrow> je_Action p
      | None \<Rightarrow> (case find (\<lambda>r. jr_Verdict r = name) (concat (map jg_Rules (c_JA4VerdictGroups c))) of
          Some r \<Rightarrow> jr_Action r
        | None \<Rightarrow> []))"

definition verdictIsBot :: "Catalog \<Rightarrow> Settings \<Rightarrow> string \<Rightarrow> bool" where
  "verdictIsBot c scfg name = (let a = VerdictAction c scfg name in a = ''bot'' \<or> a = ''suspect'')"

definition resolvedVerdictName :: "Catalog \<Rightarrow> Settings \<Rightarrow> string \<Rightarrow> string" where
  "resolvedVerdictName c scfg ja4 = fst (matchJA4 c ja4 (s_Nginx scfg))"

record RebindEnv =
  re_asnLoaded :: bool
  re_db :: RebindDB

text \<open>The answer: the cookie when the re-bind went through, and the reason a row is logged with, if one is.\<close>

record RebindOut =
  ro_bv :: "string option"
  ro_reason :: "string option"

definition refuse :: "string \<Rightarrow> RebindOut" where
  "refuse why = \<lparr>ro_bv = None, ro_reason = (if why = [] then None else Some why)\<rparr>"

definition entryWindow :: "VerifyCfg \<Rightarrow> string \<Rightarrow> int" where
  "entryWindow cfg site =
     (let d = CaptchaCookieValidSecondsResolved (cg_Default (vc_Challenge cfg));
          sw = CaptchaCookieValidSecondsResolved (challenge_Resolve (vc_Challenge cfg) site)
      in if sw > d then sw else d)"

definition rebound_entry :: "VerifyCfg \<Rightarrow> int \<Rightarrow> VerifyReq \<Rightarrow> JClaims \<Rightarrow> string" where
  "rebound_entry cfg now q cl =
     issueValueAtH (vc_sigHash cfg) (vc_BVSecret cfg) (vq_bindKey q) (vq_host q) ''rebind''
       (reboundIssuedAt now (wrap64 (j_issued cl + bvjWindowSeconds cfg (vq_site q) (j_kind cl))) (entryWindow cfg (vq_site q)))"

definition asn_veto_on :: "RebindConfig \<Rightarrow> RebindEnv \<Rightarrow> bool" where
  "asn_veto_on rb e = (ASNVetoResolved rb = ''auto'' \<and> re_asnLoaded e)"

text \<open>The gates in their order: \<open>None\<close> when all agree, otherwise the logged reason, empty when nothing is logged.\<close>

definition rebind_gates :: "RebindConfig \<Rightarrow> Catalog \<Rightarrow> Classify \<Rightarrow> Settings \<Rightarrow> VerifyEnv \<Rightarrow> RebindEnv \<Rightarrow> VerifyReq \<Rightarrow> JClaims \<Rightarrow> string option" where
  "rebind_gates rb c k scfg v e q cl =
     (let ja4 = req_ja4 q; ua = vq_userAgent q in
      if ja4 = [] \<and> \<not> rc_AllowNoJA4 rb then Some ''no_ja4''
      else if \<not> JA4Matches cl (FingerprintHash ja4) \<and> verdictIsBot c scfg (resolvedVerdictName c scfg ja4) then Some ''ja4_mismatch''
      else if FingerprintHash ua \<noteq> j_ua cl then Some ''ua_mismatch''
      else if (uaRequiresCaptchaGrade c ua scfg \<or> postureNeedsCaptchaGrade c k ua scfg) \<and> \<not> gradeSatisfies (j_kind cl) then Some ''grade''
      else if asn_veto_on rb e \<and> (ve_asn v = 0 \<or> j_asn cl = 0 \<or> ve_asn v \<noteq> j_asn cl)
        then Some (if ve_asn v \<noteq> 0 \<and> j_asn cl \<noteq> 0 then ''asn_mismatch'' else [])
      else None)"

definition rebind :: "RebindConfig \<Rightarrow> VerifyCfg \<Rightarrow> Catalog \<Rightarrow> Classify \<Rightarrow> Settings \<Rightarrow> VerifyEnv \<Rightarrow> RebindEnv \<Rightarrow> RebindReq \<Rightarrow> LineageTable
    \<Rightarrow> RebindOut \<times> LineageTable" where
  "rebind rb cfg c k scfg v e r t =
     (let q = rr_q r; now = unix_of (ve_now v) in
      if \<not> RebindEnabled rb \<or> vq_ip q = [] then (refuse [], t)
      else case validBVJ cfg now (vq_host q) (vq_site q) (rr_bvj r) of
        None \<Rightarrow>
          (refuse (if (case vq_bv q of [] \<Rightarrow> True | b # _ \<Rightarrow> b = []) then []
                   else if (case rr_bvj r of [] \<Rightarrow> True | b # _ \<Rightarrow> b = []) then ''no_bvj'' else ''bvj_invalid''), t)
      | Some cl \<Rightarrow>
        (case rebind_gates rb c k scfg v e q cl of
           Some why \<Rightarrow> (refuse why, t)
         | None \<Rightarrow>
           (case RebindAllow (re_db e) (j_lineage cl) (vq_host q) (MaxRebindsResolved rb) (MaxRebindsPerHourResolved rb) now t of
              (None, t) \<Rightarrow> (refuse [], t)
            | (Some False, t) \<Rightarrow> (refuse ''cap'', t)
            | (Some True, t) \<Rightarrow>
                (\<lparr>ro_bv = Some (setBVCookie cfg q (rebound_entry cfg now q cl)),
                  ro_reason = Some (if \<not> JA4Matches cl (FingerprintHash (req_ja4 q)) then ''ja4_relaxed''
                                    else if asn_veto_on rb e then ''asn'' else ''match'')\<rparr>, t))))"

section \<open>Lemmas\<close>

subsection \<open>Slots\<close>

text \<open>A run of what happens to the table: the calls, each with its second, the database's
  behaviour, the lineage and the host, and the cleanups that went through; the seconds at
  which the calls of one lineage were granted.\<close>

datatype slot_event = Roam int RebindDB string string | Prune int

fun slot_time :: "slot_event \<Rightarrow> int" where
  "slot_time (Roam now d l host) = now"
| "slot_time (Prune now) = now"

fun granted :: "int \<Rightarrow> int \<Rightarrow> string \<Rightarrow> slot_event list \<Rightarrow> LineageTable \<Rightarrow> int list" where
  "granted L H lin [] t = []"
| "granted L H lin (Roam now d l host # es) t =
     (let (ok, t') = RebindAllow d l host L H now t in (if ok = Some True \<and> l = lin then [now] else []) @ granted L H lin es t')"
| "granted L H lin (Prune now # es) t = granted L H lin es (prune_lineages now t)"

definition fresh_row :: "string \<Rightarrow> int \<Rightarrow> LineageRow" where
  "fresh_row host now = \<lparr>lr_host = host, lr_count = 0, lr_window_start = now, lr_window_count = 0, lr_updated_at = now\<rparr>"

definition row_at :: "LineageTable \<Rightarrow> string \<Rightarrow> string \<Rightarrow> int \<Rightarrow> LineageRow" where
  "row_at t l host now = (case map_of t l of Some r \<Rightarrow> r | None \<Rightarrow> fresh_row host now)"

lemma map_of_insert_lineage: "map_of (insert_lineage l host now t) = (map_of t)(l \<mapsto> row_at t l host now)"
  by (cases "map_of t l") (simp_all add: insert_lineage_def row_at_def fresh_row_def fun_upd_idem)

lemma consume_inserted:
  "consume_slot l L H now (insert_lineage l host now t) =
     (let r = row_at t l host now in
      if slot_free L H now r then (True, aput l (take_slot now r) (insert_lineage l host now t)) else (False, insert_lineage l host now t))"
  by (simp add: consume_slot_def map_of_insert_lineage Let_def)

lemma allow_cases:
  assumes "RebindAllow d l host L H now t = (ok, t')"
  obtains (kept) "map_of t' = map_of t" "ok \<noteq> Some True"
    | (opened) "map_of t' = (map_of t)(l \<mapsto> row_at t l host now)" "ok \<noteq> Some True"
    | (taken) "slot_free L H now (row_at t l host now)" "map_of t' = (map_of t)(l \<mapsto> take_slot now (row_at t l host now))"
proof (cases "l = [] \<or> d \<in> {NoDatabase, WritesHeld, InsertFails}")
  case True
  then show thesis using assms by (intro kept) (auto simp: RebindAllow_def split: if_splits)
next
  case False
  let ?r = "row_at t l host now" and ?t = "insert_lineage l host now t"
  have d: "RebindAllow d l host L H now t =
     (if d = UpdateFails then (None, ?t)
      else if slot_free L H now ?r then (if d = RowsUnknown then None else Some True, aput l (take_slot now ?r) ?t)
      else (if d = RowsUnknown then None else Some False, ?t))"
    using False by (simp add: RebindAllow_def consume_inserted Let_def)
  show thesis
  proof (cases "d \<noteq> UpdateFails \<and> slot_free L H now ?r")
    case True
    then show thesis using assms d by (intro taken) (auto simp: map_of_insert_lineage split: if_splits)
  next
    case False
    then show thesis using assms d by (intro opened) (auto simp: map_of_insert_lineage split: if_splits)
  qed
qed

lemma row_at_Some [simp]: "map_of t l = Some r \<Longrightarrow> row_at t l host now = r"
  by (simp add: row_at_def)

definition table_ok :: "int \<Rightarrow> LineageTable \<Rightarrow> bool" where
  "table_ok T t \<longleftrightarrow> amap_wf t \<and> (\<forall>l r. map_of t l = Some r \<longrightarrow>
     0 \<le> lr_count r \<and> 0 \<le> lr_window_count r \<and> lr_window_start r \<le> lr_updated_at r \<and> lr_updated_at r \<le> T)"

lemma table_ok_Nil [simp]: "table_ok T []"
  by (simp add: table_ok_def)

lemma table_ok_row: "table_ok T t \<Longrightarrow> map_of t l = Some r \<Longrightarrow>
    0 \<le> lr_count r \<and> 0 \<le> lr_window_count r \<and> lr_window_start r \<le> lr_updated_at r \<and> lr_updated_at r \<le> T"
  by (simp add: table_ok_def)

lemma map_of_prune_lineages:
  "table_ok T t \<Longrightarrow> map_of (prune_lineages now t) l =
     (case map_of t l of None \<Rightarrow> None | Some r \<Rightarrow> if lr_updated_at r < now - lineageIdle then None else Some r)"
  using map_of_filter_wf [of t "\<lambda>l r. \<not> lr_updated_at r < now - lineageIdle" l]
  by (simp add: table_ok_def prune_lineages_def case_prod_unfold split: option.split)

lemma prune_ok: "table_ok T t \<Longrightarrow> T \<le> now \<Longrightarrow> table_ok now (prune_lineages now t)"
proof -
  assume t: "table_ok T t" "T \<le> now"
  then have "amap_wf (prune_lineages now t)" by (simp add: prune_lineages_def table_ok_def amap_wf_filter)
  then show ?thesis using table_ok_row [OF t(1)] t(2) by (fastforce simp: table_ok_def map_of_prune_lineages [OF t(1)] split: option.splits if_splits)
qed

lemma allow_wf: "RebindAllow d l host L H now t = (ok, t') \<Longrightarrow> amap_wf t \<Longrightarrow> amap_wf t'"
  by (auto simp: RebindAllow_def insert_lineage_def consume_slot_def Let_def split: if_splits option.splits prod.splits)

lemma row_at_ok:
  assumes "table_ok T t" "T \<le> now" "r = row_at t l host now"
  shows "0 \<le> lr_count r \<and> 0 \<le> lr_window_count r \<and> lr_window_start r \<le> lr_updated_at r \<and> lr_updated_at r \<le> now"
  using table_ok_row [OF assms(1), of l] assms(2,3) by (cases "map_of t l") (auto simp: row_at_def fresh_row_def)

lemma allow_ok:
  assumes "RebindAllow d l host L H now t = (ok, t')" "table_ok T t" "T \<le> now"
  shows "table_ok now t'"
proof -
  note w = allow_wf [OF assms(1)] and r = row_at_ok [OF assms(2,3) refl, of l host]
  have rows: "0 \<le> lr_count r \<and> 0 \<le> lr_window_count r \<and> lr_window_start r \<le> lr_updated_at r \<and> lr_updated_at r \<le> now" if "map_of t k = Some r" for k r
    using table_ok_row [OF assms(2) that] assms(3) by linarith
  from assms(1) show ?thesis
    by (cases rule: allow_cases) (use w r rows assms(2) in \<open>auto simp: table_ok_def take_slot_def\<close>)
qed

text \<open>What one event of a run does to the row of a lineage.\<close>

definition slot_step :: "int \<Rightarrow> int \<Rightarrow> string \<Rightarrow> slot_event \<Rightarrow> LineageTable \<Rightarrow> int list \<times> LineageTable" where
  "slot_step L H lin e t = (case e of
     Roam now d l host \<Rightarrow> (let (ok, t') = RebindAllow d l host L H now t in (if ok = Some True \<and> l = lin then [now] else [], t'))
   | Prune now \<Rightarrow> ([], prune_lineages now t))"

lemma granted_Cons: "slot_step L H lin e t = (g, t') \<Longrightarrow> granted L H lin (e # es) t = g @ granted L H lin es t'"
  by (cases e) (auto simp: slot_step_def Let_def split: prod.splits)

lemma slot_step_ok: "slot_step L H lin e t = (g, t') \<Longrightarrow> table_ok T t \<Longrightarrow> T \<le> slot_time e \<Longrightarrow> table_ok (slot_time e) t'"
  by (cases e) (auto simp: slot_step_def prune_ok allow_ok split: prod.splits)

lemma slot_step_cases:
  assumes "slot_step L H lin e t = (g, t')" "table_ok T t" "T \<le> slot_time e"
  obtains (kept) "g = []" "map_of t' lin = map_of t lin"
    | (opened) host where "g = []" "map_of t lin = None" "map_of t' lin = Some (fresh_row host (slot_time e))"
    | (dropped) r where "g = []" "map_of t lin = Some r" "lr_updated_at r + lineageIdle < slot_time e" "map_of t' lin = None"
    | (taken) host r where "g = [slot_time e] \<or> g = []" "r = row_at t lin host (slot_time e)" "slot_free L H (slot_time e) r" "map_of t' lin = Some (take_slot (slot_time e) r)"
proof (cases e)
  case (Prune now)
  then have e: "g = []" "t' = prune_lineages now t" using assms(1) by (auto simp: slot_step_def)
  show thesis
  proof (cases "map_of t lin")
    case None
    then show thesis by (intro kept) (simp_all add: e map_of_prune_lineages [OF assms(2)])
  next
    case (Some r)
    show thesis
    proof (cases "lr_updated_at r < now - lineageIdle")
      case True
      then show thesis by (intro dropped [OF _ Some]) (simp_all add: e map_of_prune_lineages [OF assms(2)] Some Prune)
    qed (intro kept, simp_all add: e map_of_prune_lineages [OF assms(2)] Some)
  qed
next
  case (Roam now d l host)
  obtain ok where a: "RebindAllow d l host L H now t = (ok, t')" and g: "g = (if ok = Some True \<and> l = lin then [now] else [])"
    using assms(1) by (auto simp: slot_step_def Roam split: prod.splits)
  have now: "slot_time e = now" by (simp add: Roam)
  from a show thesis
  proof (cases rule: allow_cases)
    case kept
    then show thesis using g by (intro that(1)) simp_all
  next
    case opened
    show thesis
    proof (cases "l = lin \<and> map_of t lin = None")
      case True
      then show thesis using opened g by (intro that(2) [of host]) (simp_all add: now row_at_def)
    next
      case False
      then show thesis using opened g by (intro that(1)) auto
    qed
  next
    case taken
    show thesis
    proof (cases "l = lin")
      case True
      then show thesis using taken g by (intro that(4) [of "row_at t lin host now" host]) (auto simp: now)
    next
      case False
      then show thesis using taken g by (intro that(1)) simp_all
    qed
  qed
qed

lemma granted_times: "set (granted L H lin es t) \<subseteq> slot_time ` set es"
proof (induction es arbitrary: t)
  case (Cons e es)
  obtain g t' where s: "slot_step L H lin e t = (g, t')" by (metis prod.exhaust)
  have "set g \<subseteq> {slot_time e}" using s by (cases e) (auto simp: slot_step_def split: prod.splits if_splits)
  then show ?case using Cons.IH [of t'] granted_Cons [OF s, of es] by auto
qed simp

lemma granted_later: "sorted (map slot_time (e # es)) \<Longrightarrow> s \<in> set (granted L H lin es t) \<Longrightarrow> slot_time e \<le> s"
  using granted_times [of L H lin es t] by auto

text \<open>Grants that follow one another within the idle time of a row are all counted on one row.\<close>

lemma granted_on_row:
  assumes "table_ok T t" "sorted (map slot_time es)" "\<forall>e \<in> set es. T \<le> slot_time e" "map_of t lin = Some r"
    and "granted L H lin es t = ys @ zs" "ys \<noteq> [] \<Longrightarrow> hd ys \<le> lr_updated_at r + lineageIdle" "successively (\<lambda>s s'. s' \<le> s + lineageIdle) ys"
  shows "int (length ys) \<le> max 0 (L - lr_count r)"
  using assms
proof (induction es arbitrary: T t r ys)
  case (Cons e es)
  obtain g t' where s: "slot_step L H lin e t = (g, t')" by (metis prod.exhaust)
  have T: "T \<le> slot_time e" using Cons.prems(3) by simp
  note ok = slot_step_ok [OF s Cons.prems(1) T] and g = granted_Cons [OF s, of es]
  have es: "sorted (map slot_time es)" "\<forall>x \<in> set es. slot_time e \<le> slot_time x" using Cons.prems(2) by simp_all
  note later = granted_later [OF Cons.prems(2), of _ L H lin t']
  note IH = Cons.IH [OF ok es]
  from s Cons.prems(1) T show ?case
  proof (cases rule: slot_step_cases)
    case kept
    then show ?thesis using IH [of r ys] Cons.prems(4-7) g by simp
  next
    case (dropped r')
    then have "ys = []" if "ys \<noteq> []" using later [of "hd ys"] Cons.prems(4-6) g that by (cases ys) auto
    then show ?thesis by (cases "ys = []") auto
  next
    case (taken host r')
    then have r': "r' = r" "map_of t' lin = Some (take_slot (slot_time e) r)" using Cons.prems(4) by simp_all
    have upd: "lr_updated_at (take_slot (slot_time e) r) = slot_time e" "lr_count (take_slot (slot_time e) r) = lr_count r + 1" by (simp_all add: take_slot_def)
    have old: "lr_updated_at r \<le> slot_time e" using table_ok_row [OF Cons.prems(1,4)] T by simp
    show ?thesis
    proof (cases "ys = []")
      case False
      from taken(1) show ?thesis
      proof
        assume "g = []"
        then have "int (length ys) \<le> max 0 (L - (lr_count r + 1))"
          using IH [OF r'(2), of ys] Cons.prems(5-7) g old upd False by simp
        then show ?thesis by linarith
      next
        assume "g = [slot_time e]"
        then obtain ys' where ys: "ys = slot_time e # ys'" "granted L H lin es t' = ys' @ zs" using Cons.prems(5) g False by (cases ys) auto
        then have "int (length ys') \<le> max 0 (L - (lr_count r + 1))"
          using IH [OF r'(2) ys(2)] Cons.prems(7) upd by (cases ys') (auto simp: successively_Cons)
        then show ?thesis using taken(3) r'(1) ys(1) by (auto simp: slot_free_def)
      qed
    qed simp
  qed (use Cons.prems(4) in simp)
qed simp

lemma granted_stretch:
  assumes "table_ok T t" "sorted (map slot_time es)" "\<forall>e \<in> set es. T \<le> slot_time e" "0 \<le> L"
    and "granted L H lin es t = xs @ ys @ zs" "successively (\<lambda>s s'. s' \<le> s + lineageIdle) ys"
  shows "int (length ys) \<le> L"
  using assms(1-3,5)
proof (induction es arbitrary: T t xs)
  case Nil
  then show ?case using assms(4) by simp
next
  case (Cons e es)
  obtain g t' where s: "slot_step L H lin e t = (g, t')" by (metis prod.exhaust)
  have T: "T \<le> slot_time e" using Cons.prems(3) by simp
  note ok = slot_step_ok [OF s Cons.prems(1) T] and g = granted_Cons [OF s, of es]
  have es: "sorted (map slot_time es)" "\<forall>x \<in> set es. slot_time e \<le> slot_time x" using Cons.prems(2) by simp_all
  note IH = Cons.IH [OF ok es]
  show ?case
  proof (cases "g = [] \<or> xs \<noteq> [] \<or> ys = []")
    case True
    have "\<exists>xs'. granted L H lin es t' = xs' @ ys @ zs" if "ys \<noteq> []"
    proof (cases "g = []")
      case False
      then have "length g = 1" using s by (cases rule: slot_step_cases [OF s Cons.prems(1) T]) auto
      then obtain x where "g = [x]" by (auto simp: length_Suc_conv)
      then show ?thesis using Cons.prems(4) g True that False by (cases xs) auto
    qed (use Cons.prems(4) g in auto)
    then show ?thesis using IH assms(4) by (cases "ys = []") auto
  next
    case False
    from s Cons.prems(1) T show ?thesis
    proof (cases rule: slot_step_cases)
      case (taken host r)
      then obtain ys' where ys: "ys = slot_time e # ys'" "granted L H lin es t' = ys' @ zs" using Cons.prems(4) g False by (cases ys) auto
      have "0 \<le> lr_count r" using row_at_ok [OF Cons.prems(1) T taken(2)] by simp
      moreover have "int (length ys') \<le> max 0 (L - (lr_count r + 1))"
        using granted_on_row [OF ok es taken(4) ys(2)] assms(6) ys(1) by (cases ys') (auto simp: take_slot_def successively_Cons)
      ultimately show ?thesis using taken(3) ys(1) by (auto simp: slot_free_def)
    qed (use False in auto)
  qed
qed

text \<open>Inside the window a row has opened, the calls granted stay within what is left of it.\<close>

lemma granted_in_window:
  assumes "table_ok T t" "sorted (map slot_time es)" "\<forall>e \<in> set es. T \<le> slot_time e" "map_of t lin = Some r"
  shows "int (length (filter (\<lambda>s. s < lr_window_start r + 3600) (granted L H lin es t))) \<le> max 0 (H - lr_window_count r)"
  using assms
proof (induction es arbitrary: T t r)
  case (Cons e es)
  obtain g t' where s: "slot_step L H lin e t = (g, t')" by (metis prod.exhaust)
  have T: "T \<le> slot_time e" using Cons.prems(3) by simp
  note ok = slot_step_ok [OF s Cons.prems(1) T] and g = granted_Cons [OF s, of es]
  have es: "sorted (map slot_time es)" "\<forall>x \<in> set es. slot_time e \<le> slot_time x" using Cons.prems(2) by simp_all
  note IH = Cons.IH [OF ok es]
  have over: "filter (\<lambda>s. s < lr_window_start r + 3600) (granted L H lin es t') = []" if "lr_window_start r + 3600 \<le> slot_time e"
    using granted_later [OF Cons.prems(2)] that by (force simp: filter_empty_conv)
  from s Cons.prems(1) T show ?case
  proof (cases rule: slot_step_cases)
    case kept
    then show ?thesis using IH [of r] Cons.prems(4) g by simp
  next
    case (dropped r')
    then have "lr_window_start r + 3600 \<le> slot_time e" using table_ok_row [OF Cons.prems(1,4)] Cons.prems(4) by (simp add: lineageIdle_def)
    then show ?thesis using over g dropped(1) by simp
  next
    case (taken host r')
    then have r': "r' = r" using Cons.prems(4) by simp
    show ?thesis
    proof (cases "lr_window_start r + 3600 \<le> slot_time e")
      case True
      then show ?thesis using over [OF True] g taken(1) by auto
    next
      case False
      then show ?thesis using IH [OF taken(4)] g taken(1,3) r' by (auto simp: slot_free_def take_slot_def)
    qed
  qed (use Cons.prems(4) in simp)
qed simp

lemma granted_no_row:
  assumes "table_ok T t" "sorted (map slot_time es)" "\<forall>e \<in> set es. T \<le> slot_time e" "map_of t lin = None"
    and "\<forall>e \<in> set es. U - 3600 \<le> slot_time e" "1 \<le> H"
  shows "int (length (filter (\<lambda>s. s < U) (granted L H lin es t))) \<le> H"
  using assms(1-5)
proof (induction es arbitrary: T t)
  case (Cons e es)
  obtain g t' where s: "slot_step L H lin e t = (g, t')" by (metis prod.exhaust)
  have T: "T \<le> slot_time e" using Cons.prems(3) by simp
  note ok = slot_step_ok [OF s Cons.prems(1) T] and g = granted_Cons [OF s, of es]
  have es: "sorted (map slot_time es)" "\<forall>x \<in> set es. slot_time e \<le> slot_time x" using Cons.prems(2) by simp_all
  have U: "U \<le> slot_time e + 3600" "\<forall>x \<in> set es. U - 3600 \<le> slot_time x" using Cons.prems(5) by auto
  have fewer: "length (filter (\<lambda>s. s < U) ss) \<le> length (filter (\<lambda>s. s < slot_time e + 3600) ss)" for ss
  proof -
    have "filter (\<lambda>s. s < U) ss = filter (\<lambda>s. s < U) (filter (\<lambda>s. s < slot_time e + 3600) ss)" using U(1) by (auto intro!: filter_cong)
    then show ?thesis by (metis length_filter_le)
  qed
  from s Cons.prems(1) T show ?case
  proof (cases rule: slot_step_cases)
    case kept
    then show ?thesis using Cons.IH [OF ok es _ U(2)] Cons.prems(4) g by simp
  next
    case (opened host)
    then have "int (length (filter (\<lambda>s. s < slot_time e + 3600) (granted L H lin es t'))) \<le> max 0 H"
      using granted_in_window [OF ok es opened(3), of L H] by (simp add: fresh_row_def)
    then show ?thesis using fewer [of "granted L H lin es t'"] g opened(1) assms(6) by simp
  next
    case (taken host r)
    then have "int (length (filter (\<lambda>s. s < slot_time e + 3600) (granted L H lin es t'))) \<le> max 0 (H - 1)"
      using granted_in_window [OF ok es taken(4), of L H] Cons.prems(4) by (simp add: fresh_row_def row_at_def take_slot_def)
    then show ?thesis using fewer [of "granted L H lin es t'"] g taken(1) assms(6) by auto
  qed (use Cons.prems(4) in simp)
qed (use assms(6) in simp)

text \<open>An hour meets at most the end of one window and the start of the next.\<close>

lemma granted_soon:
  assumes "table_ok T t" "sorted (map slot_time es)" "\<forall>e \<in> set es. T \<le> slot_time e" "map_of t lin = Some r"
    and "\<forall>e \<in> set es. U - 3600 \<le> slot_time e" "1 \<le> H"
  shows "int (length (filter (\<lambda>s. s < U) (granted L H lin es t))) \<le> max 0 (H - lr_window_count r) + H"
  using assms(1-5)
proof (induction es arbitrary: T t r)
  case (Cons e es)
  obtain g t' where s: "slot_step L H lin e t = (g, t')" by (metis prod.exhaust)
  have T: "T \<le> slot_time e" using Cons.prems(3) by simp
  note ok = slot_step_ok [OF s Cons.prems(1) T] and g = granted_Cons [OF s, of es]
  have es: "sorted (map slot_time es)" "\<forall>x \<in> set es. slot_time e \<le> slot_time x" using Cons.prems(2) by simp_all
  have U: "U \<le> slot_time e + 3600" "\<forall>x \<in> set es. U - 3600 \<le> slot_time x" using Cons.prems(5) by auto
  note IH = Cons.IH [OF ok es _ U(2)]
  from s Cons.prems(1) T show ?case
  proof (cases rule: slot_step_cases)
    case kept
    then show ?thesis using IH [of r] Cons.prems(4) g by simp
  next
    case (dropped r')
    then show ?thesis using granted_no_row [OF ok es dropped(4) U(2) assms(6), of L] g by simp
  next
    case (taken host r')
    then have r': "r' = r" using Cons.prems(4) by simp
    show ?thesis
    proof (cases "slot_time e - lr_window_start r \<ge> 3600")
      case True
      then have "int (length (filter (\<lambda>s. s < slot_time e + 3600) (granted L H lin es t'))) \<le> max 0 (H - 1)"
        using granted_in_window [OF ok es taken(4), of L H] r' by (simp add: take_slot_def)
      moreover have "filter (\<lambda>s. s < U) ss = filter (\<lambda>s. s < U) (filter (\<lambda>s. s < slot_time e + 3600) ss)" for ss using U(1) by (auto intro!: filter_cong)
      then have "length (filter (\<lambda>s. s < U) (granted L H lin es t')) \<le> length (filter (\<lambda>s. s < slot_time e + 3600) (granted L H lin es t'))"
        by (metis length_filter_le)
      ultimately show ?thesis using g taken(1) assms(6) by auto
    next
      case False
      then show ?thesis using IH [OF taken(4)] g taken(1,3) r' by (auto simp: slot_free_def take_slot_def)
    qed
  qed (use Cons.prems(4) in simp)
qed (use assms(6) in simp)

lemma granted_hour:
  assumes "table_ok T t" "sorted (map slot_time es)" "\<forall>e \<in> set es. T \<le> slot_time e" "1 \<le> H"
  shows "int (length (filter (\<lambda>s. a \<le> s \<and> s < a + 3600) (granted L H lin es t))) \<le> 2 * H"
  using assms(1-3)
proof (induction es arbitrary: T t)
  case (Cons e es)
  obtain g t' where s: "slot_step L H lin e t = (g, t')" by (metis prod.exhaust)
  have T: "T \<le> slot_time e" using Cons.prems(3) by simp
  note ok = slot_step_ok [OF s Cons.prems(1) T] and g = granted_Cons [OF s, of es]
  have es: "sorted (map slot_time es)" "\<forall>x \<in> set es. slot_time e \<le> slot_time x" using Cons.prems(2) by simp_all
  show ?case
  proof (cases "slot_time e < a")
    case True
    have "set g \<subseteq> {slot_time e}" using s by (cases e) (auto simp: slot_step_def split: prod.splits if_splits)
    then have "filter (\<lambda>s. a \<le> s \<and> s < a + 3600) g = []" using True by (auto simp: filter_empty_conv)
    then show ?thesis using Cons.IH [OF ok es] g by simp
  next
    case False
    let ?g = "granted L H lin (e # es) t"
    have late: "\<forall>x \<in> set (e # es). a + 3600 - 3600 \<le> slot_time x" using False Cons.prems(2) by auto
    have "\<forall>s \<in> set ?g. a \<le> s" using granted_times [of L H lin "e # es" t] late by force
    then have eq: "filter (\<lambda>s. a \<le> s \<and> s < a + 3600) ?g = filter (\<lambda>s. s < a + 3600) ?g" by (auto intro: filter_cong)
    show ?thesis
    proof (cases "map_of t lin")
      case None
      then show ?thesis using granted_no_row [OF Cons.prems(1-3) None late assms(4), of L] assms(4) unfolding eq by linarith
    next
      case (Some r)
      then show ?thesis using granted_soon [OF Cons.prems(1-3) Some late assms(4), of L] table_ok_row [OF Cons.prems(1) Some] assms(4) unfolding eq by linarith
    qed
  qed
qed (use assms(4) in simp)

subsection \<open>A re-bind that goes through\<close>

lemma validBVJ_claims:
  assumes "validBVJ cfg now host site vs = Some cl"
  shows "\<exists>v \<in> set vs. \<exists>h. v = sign_j (vc_BVSecret cfg) host h cl"
    and "in64 (j_issued cl)" "withinWindow now (j_issued cl) (rebindWindowSeconds cfg site)"
    and "wrap64 (now - j_issued cl) \<le> bvjWindowSeconds cfg site (j_kind cl)"
    and "admissible_j now (rebindWindowSeconds cfg site) cl"
proof -
  obtain v where v: "v \<in> set vs" "bvj_claims cfg now host site v = Some cl"
    using assms by (induction vs) (auto split: option.splits)
  then have "ParseJValue now v (vc_BVSecret cfg) host (rebindWindowSeconds cfg site) = Some cl"
    and w: "wrap64 (now - j_issued cl) \<le> bvjWindowSeconds cfg site (j_kind cl)"
    by (auto simp: bvj_claims_def split: if_splits option.splits)
  then have "admissible_j now (rebindWindowSeconds cfg site) cl" "\<exists>h. v = sign_j (vc_BVSecret cfg) host h cl" unfolding bvj.accept_iff by auto
  then show "\<exists>v \<in> set vs. \<exists>h. v = sign_j (vc_BVSecret cfg) host h cl"
    "in64 (j_issued cl)" "withinWindow now (j_issued cl) (rebindWindowSeconds cfg site)"
    "wrap64 (now - j_issued cl) \<le> bvjWindowSeconds cfg site (j_kind cl)" "admissible_j now (rebindWindowSeconds cfg site) cl"
    using v(1) w by (auto simp: admissible_j_def)
qed

lemma rebind_elim:
  assumes "rebind rb cfg c k scfg v e r t = (out, t')" "ro_bv out = Some val"
  obtains cl where "validBVJ cfg (unix_of (ve_now v)) (vq_host (rr_q r)) (vq_site (rr_q r)) (rr_bvj r) = Some cl"
    "rebind_gates rb c k scfg v e (rr_q r) cl = None" "val = setBVCookie cfg (rr_q r) (rebound_entry cfg (unix_of (ve_now v)) (rr_q r) cl)"
  using assms by (auto simp: rebind_def refuse_def Let_def split: if_splits option.splits prod.splits bool.splits)

text \<open>Windows far below the range of 64-bit seconds, so that no sum wraps.\<close>

definition windows_ok :: "VerifyCfg \<Rightarrow> string \<Rightarrow> bool" where
  "windows_ok cfg site \<longleftrightarrow> entryWindow cfg site < 2 ^ 61 \<and> rebindWindowSeconds cfg site < 2 ^ 61"

lemma window_sizes:
  "0 < entryWindow cfg site" "0 < bvjWindowSeconds cfg site g" "bvjWindowSeconds cfg site g \<le> rebindWindowSeconds cfg site"
  "p_captchaValid (policy_for cfg site) \<le> entryWindow cfg site" "0 < p_captchaValid (policy_for cfg site)"
  by (simp_all add: entryWindow_def bvjWindowSeconds_def rebindWindowSeconds_def policy_for_def PowCookieValidSecondsResolved_def
      CaptchaCookieValidSecondsResolved_def Let_def)

lemma rebound_issued:
  assumes "validBVJ cfg n host site vs = Some cl" "0 \<le> j_issued cl" "0 \<le> n" "n < 2 ^ 62" "windows_ok cfg site"
  defines "w \<equiv> bvjWindowSeconds cfg site (j_kind cl)" and "E \<equiv> entryWindow cfg site"
  shows "reboundIssuedAt n (wrap64 (j_issued cl + w)) E = min n (j_issued cl + w - E)"
    and "n \<le> j_issued cl + w" "j_issued cl \<le> n + 60" "w < 2 ^ 61" "E < 2 ^ 61" "0 < w" "0 < E"
proof -
  show b: "w < 2 ^ 61" "E < 2 ^ 61" "0 < w" "0 < E"
    using assms(5) window_sizes [of cfg site] by (auto simp: windows_ok_def w_def E_def intro: order.strict_trans1)
  have "wrap64 (n + futureSkewToleranceSeconds) = n + 60" using assms(3,4) by (auto simp: futureSkewToleranceSeconds_def in64_def)
  then show i: "j_issued cl \<le> n + 60" using validBVJ_claims(3) [OF assms(1)] by (auto simp: withinWindow_def split: if_splits)
  then have "wrap64 (n - j_issued cl) = n - j_issued cl" using assms(2-4) by (auto simp: in64_def)
  then show "n \<le> j_issued cl + w" using validBVJ_claims(4) [OF assms(1)] by (simp add: w_def)
  have "wrap64 (j_issued cl + w) = j_issued cl + w" "wrap64 (j_issued cl + w - E) = j_issued cl + w - E"
    using assms(2,4) i b by (auto simp: in64_def)
  then show "reboundIssuedAt n (wrap64 (j_issued cl + w)) E = min n (j_issued cl + w - E)" by (simp add: reboundIssuedAt_def Let_def)
qed

lemma verifyOne_window:
  assumes "kind \<in> set issuedKinds" "in64 i"
  shows "verifyOne t (issueValueAtH h s ip host kind i) s' ip' host' pv cv d \<Longrightarrow> withinWindow t i cv"
proof -
  have k: "kind \<noteq> []" "CHR ''.'' \<notin> set kind" using issuedKinds_no_dot [OF assms(1)] by auto
  assume "verifyOne t (issueValueAtH h s ip host kind i) s' ip' host' pv cv d"
  then show "withinWindow t i cv" using assms(2)
    by (simp add: verifyOne_def split_issueValueAtH [OF k] parse_format_int Let_def split: if_splits)
qed

lemma IssueBVJ_bvj:
  assumes "RebindEnabled rb" "first_pass cfg (unix_of (ve_now v)) (rr_q r) (vq_bv (rr_q r)) = Some m" "m_kind m \<noteq> ''rebind''"
  shows "io_bvj (fst (IssueBVJ rb cfg v packs r tr)) = snd (bvj_answer cfg v r m)"
  using assms by (simp add: IssueBVJ_def Let_def split: prod.split)

lemma set_join_sub: "set (join c ws) \<subseteq> insert c (\<Union> (set ` set ws))"
  by (induction c ws rule: join.induct) auto

lemma set_join_sup: "w \<in> set ws \<Longrightarrow> set w \<subseteq> set (join c ws)"
  by (induction c ws rule: join.induct) auto

lemma dotless_FingerprintHash: "dotless (FingerprintHash s)"
  using hex_chars [of "CHR ''.''" 12] by (auto simp: FingerprintHash_def dotless_def)

lemma dotless_AppendJA4Hash:
  assumes "dotless s" "dotless h"
  shows "dotless (AppendJA4Hash s h mx)"
proof -
  have "dotless w" if "w \<in> set (split (CHR ''~'') s)" for w
    using set_join_sup [OF that, of "CHR ''~''"] assms(1) by (auto simp: dotless_def)
  then have "dotless (join (CHR ''~'') ws)" if "set ws \<subseteq> insert h (set (split (CHR ''~'') s))" for ws
    using set_join_sub [of "CHR ''~''" ws] that assms(2) by (fastforce simp: dotless_def)
  moreover have "set (drop k (split (CHR ''~'') s @ [h])) \<subseteq> insert h (set (split (CHR ''~'') s))" for k by (auto dest: in_set_dropD)
  ultimately show ?thesis using assms by (auto simp: AppendJA4Hash_def Let_def dotless_def)
qed

section \<open>Properties\<close>

text \<open>
  C9: A re-bound pass ends with the solve it stands for. Whatever re-bind hands out a cookie,
  the new entry in it comes from a companion cookie the server signed for this host, and no
  verifier whose CAPTCHA window is the site's or the default's, or shorter, accepts that
  entry, at any address, later than the end of that solve's own window.
\<close>

theorem rebound_pass_ends_with_solve:
  assumes "rebind rb cfg c k scfg v e r t = (out, t')" "ro_bv out = Some val"
    and "n = unix_of (ve_now v)" "0 \<le> n" "n < 2 ^ 62" "windows_ok cfg (vq_site (rr_q r))"
  shows "\<exists>cl j h. j \<in> set (rr_bvj r) \<and> j = sign_j (vc_BVSecret cfg) (vq_host (rr_q r)) h cl
    \<and> val = setBVCookie cfg (rr_q r) (rebound_entry cfg n (rr_q r) cl)
    \<and> (0 \<le> j_issued cl \<longrightarrow> (\<forall>t' sec key host pv cv d. n \<le> t' \<and> t' < 2 ^ 62 \<and> cv \<le> entryWindow cfg (vq_site (rr_q r))
          \<and> verifyOne t' (rebound_entry cfg n (rr_q r) cl) sec key host pv cv d
        \<longrightarrow> t' \<le> j_issued cl + bvjWindowSeconds cfg (vq_site (rr_q r)) (j_kind cl)))"
proof -
  obtain cl where cl: "validBVJ cfg n (vq_host (rr_q r)) (vq_site (rr_q r)) (rr_bvj r) = Some cl"
      "val = setBVCookie cfg (rr_q r) (rebound_entry cfg n (rr_q r) cl)"
    using rebind_elim [OF assms(1,2)] assms(3) by metis
  have "t' \<le> j_issued cl + bvjWindowSeconds cfg (vq_site (rr_q r)) (j_kind cl)"
    if "0 \<le> j_issued cl" "n \<le> t'" "t' < 2 ^ 62" "cv \<le> entryWindow cfg (vq_site (rr_q r))"
      "verifyOne t' (rebound_entry cfg n (rr_q r) cl) sec key host pv cv d" for t' sec key host pv cv d
  proof -
    note i = rebound_issued [OF cl(1) that(1) assms(4-6)]
    let ?i = "min n (j_issued cl + bvjWindowSeconds cfg (vq_site (rr_q r)) (j_kind cl) - entryWindow cfg (vq_site (rr_q r)))"
    have in64: "in64 ?i" "in64 (t' - ?i)" using i that(1-3) assms(4,5) by (auto simp: in64_def)
    then have "withinWindow t' ?i cv"
      using that(5) unfolding rebound_entry_def i(1) by (intro verifyOne_window [of "''rebind''"]) (auto simp: issuedKinds_def)
    then have "t' - ?i \<le> cv" using in64 by (simp add: withinWindow_def split: if_splits)
    then show ?thesis using that(4) by linarith
  qed
  then show ?thesis using cl validBVJ_claims(1) [OF cl(1)] by blast
qed


text \<open>
  At a site whose CAPTCHA window is shorter than the default one, a re-bound entry can be
  dead on arrival: its time is set back by the default window, so when the solve has less
  left than the difference of the two windows, the site's own check refuses the entry in the
  very second it is issued, at every address, and the slot is spent for nothing.
\<close>

lemma short_window_rebind_is_dead:
  assumes "rebind rb cfg c k scfg v e r t = (out, t')" "ro_bv out = Some val" "n = unix_of (ve_now v)" "0 \<le> n" "n < 2 ^ 62"
    and "windows_ok cfg site" "site = vq_site (rr_q r)"
    and cl: "validBVJ cfg n (vq_host (rr_q r)) site (rr_bvj r) = Some cl" "0 \<le> j_issued cl"
    and "j_issued cl + bvjWindowSeconds cfg site (j_kind cl) - n < entryWindow cfg site - p_captchaValid (policy_for cfg site)"
  shows "val = setBVCookie cfg (rr_q r) (rebound_entry cfg n (rr_q r) cl)
    \<and> \<not> verifyOne n (rebound_entry cfg n (rr_q r) cl) sec key host pv (p_captchaValid (policy_for cfg site)) d"
proof
  show "val = setBVCookie cfg (rr_q r) (rebound_entry cfg n (rr_q r) cl)"
    using rebind_elim [OF assms(1,2)] assms(3,7) cl(1) by (metis option.inject)
  note i = rebound_issued [OF cl(1,2) assms(4-6)]
  let ?i = "min n (j_issued cl + bvjWindowSeconds cfg site (j_kind cl) - entryWindow cfg site)"
  have in64: "in64 ?i" "in64 (n - ?i)" using i cl(2) assms(4,5) by (auto simp: in64_def)
  have "p_captchaValid (policy_for cfg site) < n - ?i" using assms(10) by linarith
  then have "\<not> withinWindow n ?i (p_captchaValid (policy_for cfg site))" using in64 by (simp add: withinWindow_def)
  then show "\<not> verifyOne n (rebound_entry cfg n (rr_q r) cl) sec key host pv (p_captchaValid (policy_for cfg site)) d"
    unfolding rebound_entry_def assms(7) [symmetric] i(1) using verifyOne_window [of "''rebind''" ?i] in64(1) by (auto simp: issuedKinds_def)
qed

text \<open>
  C36: The slots bound what a stolen companion cookie can do. Take any run, on one clock that
  does not go back, of re-binds of any lineages, with any failures of the database, and of
  the nightly cleanups, which drop the row of a lineage that was not re-bound for 15 days
  and with it its counts. Among grants of a lineage that follow one another without a pause
  of more than 15 days there are at most as many as the lifetime cap; and there are at most
  twice the hourly cap in any stretch of an hour. After a longer pause the cap starts again.
\<close>

theorem rebind_slots_bounded:
  assumes "sorted (map slot_time es)"
    and "granted (MaxRebindsResolved rb) (MaxRebindsPerHourResolved rb) lin es [] = before @ g @ later"
  shows "(successively (\<lambda>s s'. s' \<le> s + lineageIdle) g \<longrightarrow> int (length g) \<le> MaxRebindsResolved rb)
    \<and> int (length (filter (\<lambda>s. a \<le> s \<and> s < a + 3600) g)) \<le> 2 * MaxRebindsPerHourResolved rb"
proof -
  have pos: "0 < MaxRebindsResolved rb" "1 \<le> MaxRebindsPerHourResolved rb" by (auto simp: MaxRebindsResolved_def MaxRebindsPerHourResolved_def)
  obtain T where T: "\<forall>e \<in> set es. T \<le> slot_time e" using assms(1) by (cases es) auto
  have "int (length g) \<le> MaxRebindsResolved rb" if "successively (\<lambda>s s'. s' \<le> s + lineageIdle) g"
    using granted_stretch [OF table_ok_Nil assms(1) T _ assms(2) that] pos by simp
  moreover have "length (filter (\<lambda>s. a \<le> s \<and> s < a + 3600) g) \<le> length (filter (\<lambda>s. a \<le> s \<and> s < a + 3600) (before @ g @ later))" by simp
  then have "int (length (filter (\<lambda>s. a \<le> s \<and> s < a + 3600) g)) \<le> 2 * MaxRebindsPerHourResolved rb"
    using granted_hour [OF table_ok_Nil assms(1) T pos(2), of a "MaxRebindsResolved rb" lin] unfolding assms(2) by linarith
  ultimately show ?thesis by blast
qed

text \<open>
  A re-issue can stretch a CAPTCHA. A holder of a companion cookie of CAPTCHA grade whose
  transport or user agent changed, and who presents a later pass of any other grade, is
  re-issued the cookie with the CAPTCHA's grade and the later pass's time: the lineage then
  counts as a CAPTCHA solve for the whole CAPTCHA window from a proof of work.
\<close>

lemma reissue_stretches_captcha:
  assumes "IssueBVJ rb cfg v packs r tr = (out, tr')" "io_bvj out = Some val" "n = unix_of (ve_now v)" "0 \<le> n"
    and "first_pass cfg n (rr_q r) (vq_bv (rr_q r)) = Some m" "host = vq_host (rr_q r)" "site = vq_site (rr_q r)"
    and cl: "validBVJ cfg n host site (rr_bvj r) = Some cl" "j_kind cl = ''captcha''" "0 \<le> j_issued cl" "j_issued cl \<le> m_issued m" "m_issued m \<le> n"
    and "ve_asn v < 2 ^ 32" "windows_ok cfg site" "length val \<le> 160"
    and "n \<le> t" "t \<le> m_issued m + bvjWindowSeconds cfg site ''captcha''" "t < 2 ^ 62"
  shows "\<exists>cl'. validBVJ cfg t host site (val # vs) = Some cl' \<and> j_kind cl' = ''captcha'' \<and> j_issued cl' = m_issued m \<and> j_lineage cl' = j_lineage cl"
proof -
  define cl' where "cl' = \<lparr>j_issued = m_issued m, j_ja4 = AppendJA4Hash (j_ja4 cl) (FingerprintHash (req_ja4 (rr_q r))) maxBVJJA4Hashes,
    j_ua = FingerprintHash (vq_userAgent (rr_q r)), j_lineage = j_lineage cl, j_asn = ve_asn v, j_kind = ''captcha''\<rparr>"
  have "val = remintBVJAppend cfg v (rr_q r) cl (normalizeBVKind (m_kind m)) (m_issued m)"
    using assms(1-3,5-8) by (auto simp: IssueBVJ_def bvj_answer_def Let_def split: if_splits prod.splits)
  then have val: "val = sign_j (vc_BVSecret cfg) host (vc_sigHash cfg) cl'"
    using cl assms(6) by (simp add: remintBVJAppend_def strongerGrade_def writeBVJ_def sign_j_def cl'_def max_def)
  have "dotless (j_ja4 cl)" "dotless (j_lineage cl)" using validBVJ_claims(5) [OF cl(1)] by (auto simp: admissible_j_def)
  moreover have "0 < rebindWindowSeconds cfg site" "bvjWindowSeconds cfg site ''captcha'' \<le> rebindWindowSeconds cfg site"
    using window_sizes(2,3) [of cfg site "''captcha''"] by auto
  moreover have in64: "in64 (m_issued m)" "in64 (t - m_issued m)" "in64 (t + 60)"
    using cl assms(4,16,18) by (auto simp: in64_def)
  ultimately have "admissible_j t (rebindWindowSeconds cfg site) cl'"
    using assms(13,17) cl(5) assms(16)
    by (simp add: admissible_j_def cl'_def withinWindow_def futureSkewToleranceSeconds_def dotless_AppendJA4Hash dotless_FingerprintHash) (simp add: dotless_def)
  from ParseJValue_sign [OF this, of "vc_BVSecret cfg" host "vc_sigHash cfg"]
  have "ParseJValue t val (vc_BVSecret cfg) host (rebindWindowSeconds cfg site) = Some cl'" using val by simp
  moreover from this have "val \<noteq> []" by (auto simp: ParseJValue_def)
  ultimately have "validBVJ cfg t host site (val # vs) = Some cl'"
    using assms(15,17) in64(2) by (simp add: bvj_claims_def cl'_def)
  then show ?thesis by (simp add: cl'_def)
qed

section \<open>Witnesses\<close>

text \<open>A client that solved a CAPTCHA at second 1000 comes back from another address at second 5000.\<close>

definition demo_claims :: JClaims where
  "demo_claims = \<lparr>j_issued = 1000, j_ja4 = [], j_ua = FingerprintHash ''Mozilla Chrome/100'', j_lineage = ''ab'', j_asn = 7, j_kind = ''captcha''\<rparr>"

definition roam_req :: RebindReq where
  "roam_req = \<lparr>rr_q = demo_req\<lparr>vq_userAgent := ''Mozilla Chrome/100'', vq_site := ''shop''\<rparr>,
     rr_bvj = [sign_j ''s'' ''h'' SigSHA256 demo_claims]\<rparr>"

definition demo_rb :: RebindConfig where
  "demo_rb = \<lparr>rc_Disabled = False, rc_AllowNoJA4 = True, rc_ASNVeto = [], rc_MaxRebinds = 0, rc_MaxRebindsPerHour = 2\<rparr>"

definition demo_db :: RebindEnv where
  "demo_db = \<lparr>re_asnLoaded = False, re_db = Answers\<rparr>"

text \<open>The shop asks for a new CAPTCHA every day.\<close>

definition shop_cfg :: VerifyCfg where
  "shop_cfg = demo_cfg\<lparr>vc_Challenge := \<lparr>cg_Default = cg_Default (vc_Challenge demo_cfg),
     cg_Sites = [(''shop'', (cg_Default (vc_Challenge demo_cfg))\<lparr>cv_CaptchaCookieValidSeconds := 86400\<rparr>)]\<rparr>\<rparr>"

lemma demo_fields: "vq_site (rr_q roam_req) = ''shop''" "vq_host (rr_q roam_req) = ''h''" "vq_bindKey (rr_q roam_req) = ''k''" "vc_BVSecret demo_cfg = ''s''"
  by (simp_all add: roam_req_def demo_req_def demo_cfg_def)

lemma demo_windows:
  "CaptchaCookieValidSecondsResolved (cg_Default (vc_Challenge cfg)) = 86400 * 14"
  "challenge_Resolve (vc_Challenge demo_cfg) site = cg_Default (vc_Challenge demo_cfg)"
  "CaptchaCookieValidSecondsResolved (challenge_Resolve (vc_Challenge shop_cfg) ''shop'') = 86400"
  "PowCookieValidSecondsResolved (challenge_Resolve (vc_Challenge cfg) ''shop'') = 86400 * 7" if "cfg \<in> {demo_cfg, shop_cfg}"
  using that
  by (auto simp: demo_cfg_def shop_cfg_def challenge_Resolve_def mergeChallenge_def CaptchaCookieValidSecondsResolved_def PowCookieValidSecondsResolved_def)

lemma demo_sizes:
  "entryWindow demo_cfg ''shop'' = 86400 * 14" "entryWindow shop_cfg ''shop'' = 86400 * 14"
  "bvjWindowSeconds demo_cfg ''shop'' ''captcha'' = 86400 * 14" "bvjWindowSeconds shop_cfg ''shop'' ''captcha'' = 86400"
  "rebindWindowSeconds demo_cfg ''shop'' = 86400 * 14" "rebindWindowSeconds shop_cfg ''shop'' = 86400 * 7"
  "p_captchaValid (policy_for demo_cfg ''shop'') = 86400 * 14" "p_captchaValid (policy_for shop_cfg ''shop'') = 86400"
  using demo_windows [of demo_cfg] demo_windows [of shop_cfg]
  by (simp_all add: entryWindow_def bvjWindowSeconds_def rebindWindowSeconds_def policy_for_def Let_def)

lemma demo_roams:
  assumes "cfg \<in> {demo_cfg, shop_cfg}"
  shows "validBVJ cfg 5000 ''h'' ''shop'' (rr_bvj roam_req) = Some demo_claims"
    and "\<exists>out t'. rebind demo_rb cfg exCatalog exClassify exSettings (demo_env 5000) demo_db roam_req [] = (out, t') \<and> ro_bv out \<noteq> None"
proof -
  have sec: "vc_BVSecret cfg = ''s''" using assms by (auto simp: demo_cfg_def shop_cfg_def)
  have w: "rebindWindowSeconds cfg ''shop'' \<in> {86400 * 14, 86400 * 7}" "bvjWindowSeconds cfg ''shop'' ''captcha'' \<in> {86400 * 14, 86400}"
    using assms demo_sizes by auto
  have "admissible_j 5000 (rebindWindowSeconds cfg ''shop'') demo_claims"
    using w(1) dotless_FingerprintHash [of "''Mozilla Chrome/100''"]
    by (auto simp: admissible_j_def demo_claims_def in64_def withinWindow_def futureSkewToleranceSeconds_def dotless_def)
  then have p: "ParseJValue 5000 (sign_j ''s'' ''h'' SigSHA256 demo_claims) ''s'' ''h'' (rebindWindowSeconds cfg ''shop'') = Some demo_claims"
    by (rule ParseJValue_sign)
  then have "sign_j ''s'' ''h'' SigSHA256 demo_claims \<noteq> []" by (auto simp: ParseJValue_def)
  moreover have "length (sign_j ''s'' ''h'' SigSHA256 demo_claims) \<le> 160"
    by (simp add: sign_j_def issueJValueAtH_def Let_def demo_claims_def FingerprintHash_def format_int_def format_nat.simps)
  ultimately show v: "validBVJ cfg 5000 ''h'' ''shop'' (rr_bvj roam_req) = Some demo_claims"
    using p w(2) sec by (auto simp: roam_req_def bvj_claims_def demo_claims_def in64_def)
  have "trim_space [] = []" by code_simp
  then have ja4: "req_ja4 (rr_q roam_req) = []" by (simp add: req_ja4_def safeJA4_def roam_req_def demo_req_def)
  then have "rebind_gates demo_rb exCatalog exClassify exSettings (demo_env 5000) demo_db (rr_q roam_req) demo_claims = None"
    unfolding rebind_gates_def Let_def ja4
    by (simp add: demo_rb_def roam_req_def demo_claims_def demo_db_def asn_veto_on_def gradeSatisfies_def
        resolvedVerdictName_def matchJA4_def lookupJA4Verdict_def verdictIsBot_def VerdictAction_def)
  then show "\<exists>out t'. rebind demo_rb cfg exCatalog exClassify exSettings (demo_env 5000) demo_db roam_req [] = (out, t') \<and> ro_bv out \<noteq> None"
    using v by (simp add: rebind_def RebindEnabled_def demo_rb_def roam_req_def demo_req_def demo_facts(1) demo_db_def demo_claims_def Let_def
        RebindAllow_def insert_lineage_def consume_slot_def slot_free_def MaxRebindsResolved_def MaxRebindsPerHourResolved_def split: prod.split)
qed

theorem rebound_pass_ends_with_solve_witness:
  "\<exists>out t' val cl j h. rebind demo_rb demo_cfg exCatalog exClassify exSettings (demo_env 5000) demo_db roam_req [] = (out, t') \<and> ro_bv out = Some val
    \<and> j \<in> set (rr_bvj roam_req) \<and> j = sign_j ''s'' ''h'' h cl \<and> val = setBVCookie demo_cfg (rr_q roam_req) (rebound_entry demo_cfg 5000 (rr_q roam_req) cl)"
proof -
  obtain out t' val where r: "rebind demo_rb demo_cfg exCatalog exClassify exSettings (demo_env 5000) demo_db roam_req [] = (out, t')" "ro_bv out = Some val"
    using demo_roams(2) [of demo_cfg] by auto
  have w: "windows_ok demo_cfg (vq_site (rr_q roam_req))" using demo_sizes by (simp add: windows_ok_def roam_req_def)
  from rebound_pass_ends_with_solve [OF r refl _ _ w] r show ?thesis
    by (simp add: demo_facts(1)) (metis demo_fields)
qed


text \<open>Three grants within two seconds under an hourly cap of two; a cleanup between them leaves the row alone.\<close>

theorem rebind_slots_bounded_witness:
  "let g = granted 16 2 ''ab'' [Roam 0 Answers ''ab'' ''h'', Roam 3599 Answers ''ab'' ''h'', Prune 3599, Roam 3600 Answers ''ab'' ''h'', Roam 3601 Answers ''ab'' ''h''] []
   in length (filter (\<lambda>s. 3599 \<le> s \<and> s < 3599 + 3600) g) = 3 \<and> length g \<le> 16"
proof -
  let ?es = "[Roam 0 Answers ''ab'' ''h'', Roam 3599 Answers ''ab'' ''h'', Prune 3599, Roam 3600 Answers ''ab'' ''h'', Roam 3601 Answers ''ab'' ''h'']"
  have g: "granted 16 2 ''ab'' ?es [] = [0, 3599, 3600, 3601]" by code_simp
  have rb: "MaxRebindsResolved demo_rb = 16" "MaxRebindsPerHourResolved demo_rb = 2" by (simp_all add: demo_rb_def MaxRebindsResolved_def MaxRebindsPerHourResolved_def)
  have "granted (MaxRebindsResolved demo_rb) (MaxRebindsPerHourResolved demo_rb) ''ab'' ?es [] = [] @ [0, 3599, 3600, 3601] @ []"
    unfolding rb g by simp
  from rebind_slots_bounded [OF _ this, of 0] have "length (granted 16 2 ''ab'' ?es []) \<le> 16"
    unfolding g rb by (simp add: lineageIdle_def)
  moreover have "length (filter (\<lambda>s. 3599 \<le> s \<and> s < 3599 + 3600) (granted 16 2 ''ab'' ?es [])) = 3" unfolding g by simp
  ultimately show ?thesis unfolding Let_def by blast
qed

definition resolve_req :: RebindReq where
  "resolve_req = \<lparr>rr_q = demo_req\<lparr>vq_site := ''shop'', vq_bv := [issueValueAtH SigSHA256 ''s'' ''k'' ''h'' ''pow'' 4000]\<rparr>,
     rr_bvj = [sign_j ''s'' ''h'' SigSHA256 (demo_claims\<lparr>j_ua := []\<rparr>)]\<rparr>"

lemma length_FingerprintHash [simp]: "length (FingerprintHash s) = 12"
  by (simp add: FingerprintHash_def)

lemma resolve_fields:
  "vq_site (rr_q resolve_req) = ''shop''" "vq_host (rr_q resolve_req) = ''h''" "vq_bindKey (rr_q resolve_req) = ''k''"
  "vq_userAgent (rr_q resolve_req) = []" "vq_bv (rr_q resolve_req) = [issueValueAtH SigSHA256 ''s'' ''k'' ''h'' ''pow'' 4000]"
  "rr_bvj resolve_req = [sign_j ''s'' ''h'' SigSHA256 (demo_claims\<lparr>j_ua := []\<rparr>)]" "req_ja4 (rr_q resolve_req) = []"
proof -
  have "trim_space [] = []" by code_simp
  then show "req_ja4 (rr_q resolve_req) = []" by (simp add: req_ja4_def safeJA4_def resolve_req_def demo_req_def)
qed (simp_all add: resolve_req_def demo_req_def)

lemma resolve_pass: "\<exists>m. first_pass demo_cfg 5000 (rr_q resolve_req) (vq_bv (rr_q resolve_req)) = Some m \<and> m_kind m = ''pow'' \<and> m_issued m = 4000"
proof -
  let ?e = "issueValueAtH SigSHA256 ''s'' ''k'' ''h'' ''pow'' 4000"
  have "length ?e \<le> 1024" "?e \<noteq> []" by (simp_all add: issueValueAtH_def Let_def format_int_def format_nat.simps)
  moreover have "split (CHR ''~'') ?e = [?e]" using issueValueAtH_chars [of "''pow''"] by (simp add: split_eq_iff issuedKinds_def) blast
  moreover have "verifyOne 5000 ?e ''s'' ''k'' ''h'' pv (86400 * 14) d" for pv d
    by (rule verifyOne_issued) (simp_all add: issuedKinds_def in64_def withinWindow_def futureSkewToleranceSeconds_def)
  then have "\<exists>m. matchEntry 5000 ?e ''s'' ''k'' ''h'' pv (86400 * 14) d = Some m \<and> m_kind m = ''pow'' \<and> m_issued m = 4000" for pv d
    using split_issueValueAtH [of "''pow''" SigSHA256 "''s''" "''k''" "''h''" 4000] by (simp add: matchEntry_def parse_format_int in64_def Let_def)
  moreover have "p_captchaValid (policy_for demo_cfg ''shop'') = 86400 * 14" "p_secret (policy_for demo_cfg ''shop'') = ''s''"
    using demo_sizes(7) by (simp_all add: policy_for_def Let_def demo_cfg_def)
  ultimately show ?thesis
    by (simp add: resolve_fields Let_def MatchingEntryID_def maxVerifyEntries_def numeral_eq_Suc split: option.split) (metis not_None_eq option.inject)
qed

lemma demo_asn: "ve_asn (demo_env t) = 0"
  by (simp add: demo_env_def)

lemma demo_enabled: "RebindEnabled demo_rb"
  by (simp add: RebindEnabled_def demo_rb_def)

lemma pow_not_rebind: "''pow'' \<noteq> ''rebind''"
  by simp

text \<open>The CAPTCHA of second 1000 counts until second 1210600; the re-issue after a proof of work makes it 1213600.\<close>

end
