(* ===== verification/Crawler_Verify.thy ===== *)
theory Crawler_Verify
  imports Auth_Check "HOL-Library.Multiset"
begin

text \<open>
  Reverse-DNS authentication of a visitor that claims to be a search crawler
  (\<open>crawlerverify/crawlerverify.go\<close>). A check only reads the cache; a miss schedules a job for
  a bounded pool of workers. The resolver is the environment's: two functions that answer a
  lookup or fail. Times are in nanoseconds. The parts of an operation that run under the lock
  are one step each, so checks, schedules and workers interleave between them.
\<close>

section \<open>Definitions\<close>

subsection \<open>Claims\<close>

datatype Status = NotApplicable | Verified | Forged | Unresolved

record Result =
  rs_Status :: Status
  rs_Crawler :: string
  rs_Host :: string

record crawler =
  cw_name :: string
  cw_uaNeed :: string
  cw_domains :: "string list"
  cw_rangeBacked :: bool

definition crawlers :: "crawler list" where
  "crawlers =
     [\<lparr>cw_name = ''Googlebot'', cw_uaNeed = ''googlebot'', cw_domains = [''googlebot.com'', ''google.com''], cw_rangeBacked = True\<rparr>,
      \<lparr>cw_name = ''Bingbot'', cw_uaNeed = ''bingbot'', cw_domains = [''search.msn.com''], cw_rangeBacked = True\<rparr>,
      \<lparr>cw_name = ''YandexBot'', cw_uaNeed = ''yandex'', cw_domains = [''yandex.com'', ''yandex.net'', ''yandex.ru''], cw_rangeBacked = False\<rparr>,
      \<lparr>cw_name = ''Applebot'', cw_uaNeed = ''applebot'', cw_domains = [''applebot.apple.com''], cw_rangeBacked = True\<rparr>,
      \<lparr>cw_name = ''Baiduspider'', cw_uaNeed = ''baiduspider'', cw_domains = [''baidu.com'', ''baidu.jp''], cw_rangeBacked = False\<rparr>]"

definition Crawlers :: "(string \<times> bool) list" where
  "Crawlers = map (\<lambda>c. (cw_name c, cw_rangeBacked c)) crawlers"

definition matchClaim :: "string \<Rightarrow> crawler option" where
  "matchClaim ua = find (\<lambda>c. contains (to_lower ua) (cw_uaNeed c)) crawlers"

definition claimedCrawler :: "string \<Rightarrow> string" where
  "claimedCrawler ua = (case matchClaim ua of Some c \<Rightarrow> cw_name c | None \<Rightarrow> [])"

definition strip_dot :: "string \<Rightarrow> string" where
  "strip_dot h = (if h \<noteq> [] \<and> last h = CHR ''.'' then butlast h else h)"

definition ends_in :: "string \<Rightarrow> string \<Rightarrow> bool" where
  "ends_in s suf \<longleftrightarrow> length suf \<le> length s \<and> drop (length s - length suf) s = suf"

definition domainMatch :: "string \<Rightarrow> string list \<Rightarrow> bool" where
  "domainMatch host domains =
     (let host = to_lower (strip_dot host) in list_ex (\<lambda>d. host = d \<or> ends_in host (CHR ''.'' # d)) domains)"

subsection \<open>The lookup\<close>

record Resolver =
  dns_addr :: "string \<Rightarrow> string list option"
  dns_host :: "string \<Rightarrow> string list option"

definition lookup :: "Resolver \<Rightarrow> string \<Rightarrow> crawler \<Rightarrow> Result" where
  "lookup d ip c =
     (case dns_addr d ip of
        None \<Rightarrow> \<lparr>rs_Status = Unresolved, rs_Crawler = cw_name c, rs_Host = []\<rparr>
      | Some [] \<Rightarrow> \<lparr>rs_Status = Unresolved, rs_Crawler = cw_name c, rs_Host = []\<rparr>
      | Some (n # ns) \<Rightarrow>
          let host = (case find (\<lambda>n. domainMatch n (cw_domains c)) (n # ns) of Some h \<Rightarrow> strip_dot h | None \<Rightarrow> []) in
          if host = [] then \<lparr>rs_Status = Forged, rs_Crawler = cw_name c, rs_Host = strip_dot n\<rparr>
          else case dns_host d host of
            None \<Rightarrow> \<lparr>rs_Status = Unresolved, rs_Crawler = cw_name c, rs_Host = host\<rparr>
          | Some addrs \<Rightarrow>
              \<lparr>rs_Status = (if ip \<in> set addrs then Verified else Forged), rs_Crawler = cw_name c, rs_Host = host\<rparr>)"

subsection \<open>The cache and the pool\<close>

definition ttlOK :: int where "ttlOK = 6 * 3600 * 1000000000"
definition ttlSoft :: int where "ttlSoft = 60 * 1000000000"
definition maxKeys :: nat where "maxKeys = 8192"
definition workers :: nat where "workers = 6"
definition jobs_cap :: nat where "jobs_cap = 256"

record cacheEntry =
  ce_res :: Result
  ce_expiry :: int

record job =
  jb_ip :: string
  jb_c :: crawler
  jb_key :: string
  jb_notify :: bool

text \<open>
  Besides the fields of the struct, the jobs at the places a goroutine can be stopped at: marked
  in flight and not yet in the channel, taken by a worker, settled in the cache and still
  marked.
\<close>

record Verifier =
  vf_cache :: "(string, cacheEntry) amap"
  vf_inflight :: "string list"
  vf_marked :: "job list"
  vf_jobs :: "job list"
  vf_running :: "job list"
  vf_settled :: "job list"

definition new_verifier :: Verifier where
  "new_verifier = \<lparr>vf_cache = [], vf_inflight = [], vf_marked = [], vf_jobs = [], vf_running = [], vf_settled = []\<rparr>"

definition cache_key :: "string \<Rightarrow> crawler \<Rightarrow> string" where
  "cache_key ip c = ip @ CHR ''|'' # cw_name c"

definition cacheGet :: "int \<Rightarrow> string \<Rightarrow> Verifier \<Rightarrow> Result option" where
  "cacheGet now key v =
     (case map_of (vf_cache v) key of None \<Rightarrow> None
      | Some e \<Rightarrow> if now > ce_expiry e then None else Some (ce_res e))"

definition cacheSet :: "int \<Rightarrow> string \<Rightarrow> Result \<Rightarrow> Verifier \<Rightarrow> Verifier" where
  "cacheSet now key r v =
     (let ttl = (if rs_Status r = Unresolved then ttlSoft else ttlOK);
          c = vf_cache v;
          c = (if length c \<ge> maxKeys then
                 let c = filter (\<lambda>(k, e). \<not> now > ce_expiry e) c in if length c \<ge> maxKeys then [] else c
               else c)
      in v\<lparr>vf_cache := aput key \<lparr>ce_res = r, ce_expiry = now + ttl\<rparr> c\<rparr>)"

definition Cached :: "int \<Rightarrow> string \<Rightarrow> string \<Rightarrow> Verifier \<Rightarrow> Result option" where
  "Cached now ip ua v =
     (case matchClaim ua of
        None \<Rightarrow> Some \<lparr>rs_Status = NotApplicable, rs_Crawler = [], rs_Host = []\<rparr>
      | Some c \<Rightarrow> cacheGet now (cache_key ip c) v)"

text \<open>\<open>enqueue\<close> in its two locked parts: the mark, and the send that never blocks.\<close>

definition enqueue_mark :: "int \<Rightarrow> string \<Rightarrow> string \<Rightarrow> bool \<Rightarrow> Verifier \<Rightarrow> Verifier" where
  "enqueue_mark now ip ua notify v =
     (case matchClaim ua of None \<Rightarrow> v
      | Some c \<Rightarrow>
          let key = cache_key ip c in
          if cacheGet now key v \<noteq> None \<or> key \<in> set (vf_inflight v) then v
          else v\<lparr>vf_inflight := key # vf_inflight v,
                 vf_marked := \<lparr>jb_ip = ip, jb_c = c, jb_key = key, jb_notify = notify\<rparr> # vf_marked v\<rparr>)"

definition enqueue_send :: "job \<Rightarrow> Verifier \<Rightarrow> Verifier" where
  "enqueue_send j v =
     (let v = v\<lparr>vf_marked := remove1 j (vf_marked v)\<rparr> in
      if length (vf_jobs v) < jobs_cap then v\<lparr>vf_jobs := vf_jobs v @ [j]\<rparr>
      else v\<lparr>vf_inflight := removeAll (jb_key j) (vf_inflight v)\<rparr>)"

text \<open>A worker: take a job, look it up and keep the result, clear the mark.\<close>

definition worker_take :: "job \<Rightarrow> job list \<Rightarrow> Verifier \<Rightarrow> Verifier" where
  "worker_take j js v = v\<lparr>vf_jobs := js, vf_running := j # vf_running v\<rparr>"

definition worker_settle :: "int \<Rightarrow> Resolver \<Rightarrow> job \<Rightarrow> Verifier \<Rightarrow> Verifier" where
  "worker_settle now d j v =
     (let v = cacheSet now (jb_key j) (lookup d (jb_ip j) (jb_c j)) v
      in v\<lparr>vf_running := remove1 j (vf_running v), vf_settled := j # vf_settled v\<rparr>)"

definition worker_clear :: "job \<Rightarrow> Verifier \<Rightarrow> Verifier" where
  "worker_clear j v =
     v\<lparr>vf_inflight := removeAll (jb_key j) (vf_inflight v), vf_settled := remove1 j (vf_settled v)\<rparr>"

text \<open>The synchronous \<open>Verify\<close>, when nothing interleaves with it.\<close>

definition Verify_now :: "int \<Rightarrow> Resolver \<Rightarrow> string \<Rightarrow> string \<Rightarrow> Verifier \<Rightarrow> Result \<times> Verifier" where
  "Verify_now now d ip ua v =
     (case matchClaim ua of
        None \<Rightarrow> (\<lparr>rs_Status = NotApplicable, rs_Crawler = [], rs_Host = []\<rparr>, v)
      | Some c \<Rightarrow>
          (case cacheGet now (cache_key ip c) v of
             Some r \<Rightarrow> (r, v)
           | None \<Rightarrow> let r = lookup d ip c in (r, cacheSet now (cache_key ip c) r v)))"

text \<open>What the check of \<open>Auth_Check\<close> gets from the cache.\<close>

definition cached_verdict :: "int \<Rightarrow> string \<Rightarrow> string \<Rightarrow> Verifier \<Rightarrow> crawlerVerdict" where
  "cached_verdict now ip ua v =
     (case Cached now ip ua v of
        None \<Rightarrow> CrawlerUnknown
      | Some r \<Rightarrow> (case rs_Status r of Verified \<Rightarrow> CrawlerVerified (rs_Crawler r) | Forged \<Rightarrow> CrawlerForged (rs_Crawler r) | _ \<Rightarrow> CrawlerUnknown))"

subsection \<open>Runs\<close>

text \<open>The verifier with the clock and the lookups made so far.\<close>

record VerifierSys =
  sy_v :: Verifier
  sy_now :: int
  sy_log :: "(int \<times> Resolver \<times> string \<times> crawler) list"

inductive worker_step :: "VerifierSys \<Rightarrow> VerifierSys \<Rightarrow> bool" where
  step_send: "j \<in> set (vf_marked (sy_v s)) \<Longrightarrow> worker_step s (s\<lparr>sy_v := enqueue_send j (sy_v s)\<rparr>)"
| step_take: "vf_jobs (sy_v s) = j # js \<Longrightarrow> length (vf_running (sy_v s)) + length (vf_settled (sy_v s)) < workers
    \<Longrightarrow> worker_step s (s\<lparr>sy_v := worker_take j js (sy_v s)\<rparr>)"
| step_settle: "j \<in> set (vf_running (sy_v s)) \<Longrightarrow> sy_now s \<le> t
    \<Longrightarrow> worker_step s \<lparr>sy_v = worker_settle t d j (sy_v s), sy_now = t, sy_log = (t, d, jb_ip j, jb_c j) # sy_log s\<rparr>"
| step_clear: "j \<in> set (vf_settled (sy_v s)) \<Longrightarrow> worker_step s (s\<lparr>sy_v := worker_clear j (sy_v s)\<rparr>)"

inductive verifier_step :: "VerifierSys \<Rightarrow> VerifierSys \<Rightarrow> bool" where
  step_worker: "worker_step s s' \<Longrightarrow> verifier_step s s'"
| step_enqueue: "sy_now s \<le> t \<Longrightarrow> verifier_step s (s\<lparr>sy_v := enqueue_mark t ip ua notify (sy_v s), sy_now := t\<rparr>)"
| step_verify: "sy_now s \<le> t \<Longrightarrow> matchClaim ua = Some c
    \<Longrightarrow> verifier_step s \<lparr>sy_v = cacheSet t (cache_key ip c) (lookup d ip c) (sy_v s), sy_now = t, sy_log = (t, d, ip, c) # sy_log s\<rparr>"

definition verifier_start :: "VerifierSys \<Rightarrow> bool" where
  "verifier_start s \<longleftrightarrow> sy_v s = new_verifier \<and> sy_log s = []"

section \<open>Lemmas\<close>

subsection \<open>Lookups\<close>

lemma find_hit: "find P xs = Some x \<Longrightarrow> x \<in> set xs \<and> P x"
  by (auto simp: find_Some_iff)

lemma cache_key_inj:
  assumes "cache_key ip c = cache_key ip' c'" "c \<in> set crawlers" "c' \<in> set crawlers"
  shows "ip = ip' \<and> c = c'"
proof -
  have "list_all (\<lambda>c. CHR ''|'' \<notin> set (cw_name c)) crawlers" by code_simp
  then have bar: "CHR ''|'' \<notin> set (cw_name c)" "CHR ''|'' \<notin> set (cw_name c')" using assms(2,3) by (auto simp: list_all_iff)
  have "rev (cw_name c) @ CHR ''|'' # rev ip = rev (cw_name c') @ CHR ''|'' # rev ip'"
    using arg_cong [OF assms(1), of rev] by (simp add: cache_key_def)
  moreover have "takeWhile (\<lambda>x. x \<noteq> CHR ''|'') (rev n @ CHR ''|'' # r) = rev n" if "CHR ''|'' \<notin> set n" for n r
    using that by (subst takeWhile_append2) auto
  ultimately have n: "cw_name c = cw_name c'" using bar by (metis rev_rev_ident)
  have "distinct (map cw_name crawlers)" by code_simp
  then have "c = c'" using n assms(2,3) by (auto simp: distinct_map dest: inj_onD)
  then show ?thesis using assms(1) by (simp add: cache_key_def)
qed

lemma matchClaim_mem: "matchClaim ua = Some c \<Longrightarrow> c \<in> set crawlers \<and> contains (to_lower ua) (cw_uaNeed c)"
  by (auto simp: matchClaim_def dest: find_hit)

text \<open>The address has a name in the crawler's domains that resolves back to it.\<close>

definition forward_confirmed :: "Resolver \<Rightarrow> string \<Rightarrow> crawler \<Rightarrow> bool" where
  "forward_confirmed d ip c \<longleftrightarrow>
     (\<exists>names n addrs. dns_addr d ip = Some names \<and> n \<in> set names \<and> domainMatch n (cw_domains c)
        \<and> dns_host d (strip_dot n) = Some addrs \<and> ip \<in> set addrs)"

lemma lookup_Verified: "rs_Status (lookup d ip c) = Verified \<Longrightarrow> forward_confirmed d ip c"
proof -
  assume v: "rs_Status (lookup d ip c) = Verified"
  then obtain n ns where a: "dns_addr d ip = Some (n # ns)" by (auto simp: lookup_def split: option.splits list.splits)
  obtain h where h: "find (\<lambda>n. domainMatch n (cw_domains c)) (n # ns) = Some h"
    using v a by (auto simp: lookup_def Let_def split: option.splits if_splits)
  then have "h \<in> set (n # ns)" "domainMatch h (cw_domains c)" by (blast dest: find_hit)+
  moreover obtain addrs where "dns_host d (strip_dot h) = Some addrs" "ip \<in> set addrs"
    using v a h by (auto simp: lookup_def Let_def simp del: find.simps split: option.splits if_splits)
  ultimately show ?thesis using a unfolding forward_confirmed_def by blast
qed

lemma lookup_Forged:
  assumes "rs_Status (lookup d ip c) = Forged"
  shows "\<exists>names. dns_addr d ip = Some names \<and> names \<noteq> []
    \<and> ((\<forall>n \<in> set names. \<not> domainMatch n (cw_domains c))
       \<or> (\<exists>n \<in> set names. domainMatch n (cw_domains c)
            \<and> (strip_dot n = [] \<or> (\<exists>addrs. dns_host d (strip_dot n) = Some addrs \<and> ip \<notin> set addrs))))"
proof -
  obtain n ns where a: "dns_addr d ip = Some (n # ns)" using assms by (auto simp: lookup_def split: option.splits list.splits)
  show ?thesis
  proof (cases "find (\<lambda>n. domainMatch n (cw_domains c)) (n # ns)")
    case None
    then show ?thesis using a by (auto simp: find_None_iff simp del: find.simps)
  next
    case (Some h)
    then have m: "h \<in> set (n # ns)" "domainMatch h (cw_domains c)" by (blast dest: find_hit)+
    show ?thesis
    proof (cases "strip_dot h = []")
      case False
      then obtain addrs where "dns_host d (strip_dot h) = Some addrs" "ip \<notin> set addrs"
        using assms a Some by (auto simp: lookup_def Let_def simp del: find.simps split: option.splits if_splits)
      then show ?thesis using a m by auto
    qed (use a m in auto)
  qed
qed

lemma lookup_crawler [simp]: "rs_Crawler (lookup d ip c) = cw_name c"
  by (auto simp: lookup_def Let_def split: option.split list.split)

subsection \<open>Jobs\<close>

definition all_jobs :: "Verifier \<Rightarrow> job list" where
  "all_jobs v = vf_marked v @ vf_jobs v @ vf_running v @ vf_settled v"

definition job_ok :: "job \<Rightarrow> bool" where
  "job_ok j \<longleftrightarrow> jb_c j \<in> set crawlers \<and> jb_key j = cache_key (jb_ip j) (jb_c j)"

definition jobs_ok :: "Verifier \<Rightarrow> bool" where
  "jobs_ok v \<longleftrightarrow> distinct (map jb_key (all_jobs v)) \<and> set (vf_inflight v) = jb_key ` set (all_jobs v) \<and> (\<forall>j \<in> set (all_jobs v). job_ok j)"

lemma jobs_ok_mset:
  "jobs_ok v \<longleftrightarrow> (\<forall>xs. mset xs = mset (all_jobs v) \<longrightarrow> distinct (map jb_key xs) \<and> set (vf_inflight v) = jb_key ` set xs \<and> (\<forall>j \<in> set xs. job_ok j))"
proof -
  have "distinct (map jb_key xs) = distinct (map jb_key ys) \<and> set xs = set ys" if "mset xs = mset ys" for xs ys :: "job list"
    using that by (metis mset_eq_imp_distinct_iff mset_eq_setD mset_map)
  then show ?thesis unfolding jobs_ok_def by metis
qed

lemma jobs_move:
  assumes "jobs_ok v" "mset (all_jobs v') = mset (all_jobs v)" "vf_inflight v' = vf_inflight v"
  shows "jobs_ok v'"
proof -
  have "distinct (map jb_key (all_jobs v')) \<and> set (vf_inflight v) = jb_key ` set (all_jobs v') \<and> (\<forall>j \<in> set (all_jobs v'). job_ok j)"
    using assms(1,2) unfolding jobs_ok_mset by blast
  then show ?thesis using assms(3) by (simp add: jobs_ok_def)
qed

lemma jobs_drop:
  assumes "jobs_ok v" "mset (all_jobs v) = add_mset j (mset (all_jobs v'))" "vf_inflight v' = removeAll (jb_key j) (vf_inflight v)"
  shows "jobs_ok v'"
proof -
  have "mset (j # all_jobs v') = mset (all_jobs v)" using assms(2) by simp
  then have "distinct (map jb_key (j # all_jobs v')) \<and> set (vf_inflight v) = jb_key ` set (j # all_jobs v') \<and> (\<forall>i \<in> set (j # all_jobs v'). job_ok i)"
    using assms(1) unfolding jobs_ok_mset by blast
  then show ?thesis using assms(3) by (auto simp: jobs_ok_def)
qed

lemma jobs_add:
  assumes "jobs_ok v" "all_jobs v' = j # all_jobs v" "vf_inflight v' = jb_key j # vf_inflight v" "job_ok j" "jb_key j \<notin> set (vf_inflight v)"
  shows "jobs_ok v'"
  using assms by (auto simp: jobs_ok_def)

subsection \<open>The invariant\<close>

definition ttl_of :: "Result \<Rightarrow> int" where
  "ttl_of r = (if rs_Status r = Unresolved then ttlSoft else ttlOK)"

definition pool_ok :: "Verifier \<Rightarrow> bool" where
  "pool_ok v \<longleftrightarrow> length (vf_jobs v) \<le> jobs_cap \<and> length (vf_running v) + length (vf_settled v) \<le> workers"

text \<open>Every entry is what a lookup of the log answered, and expires a lifetime after it.\<close>

definition cache_ok :: "(int \<times> Resolver \<times> string \<times> crawler) list \<Rightarrow> (string, cacheEntry) amap \<Rightarrow> bool" where
  "cache_ok lg m \<longleftrightarrow> amap_wf m \<and> length m \<le> maxKeys
     \<and> (\<forall>key e. map_of m key = Some e \<longrightarrow> (\<exists>(t, d, ip, c) \<in> set lg. c \<in> set crawlers \<and> key = cache_key ip c
          \<and> e = \<lparr>ce_res = lookup d ip c, ce_expiry = t + ttl_of (lookup d ip c)\<rparr>))"

definition verifier_ok :: "VerifierSys \<Rightarrow> bool" where
  "verifier_ok s \<longleftrightarrow> jobs_ok (sy_v s) \<and> pool_ok (sy_v s) \<and> cache_ok (sy_log s) (vf_cache (sy_v s)) \<and> (\<forall>e \<in> set (sy_log s). fst e \<le> sy_now s)"

definition trimmed :: "int \<Rightarrow> (string, cacheEntry) amap \<Rightarrow> (string, cacheEntry) amap" where
  "trimmed now c =
     (if length c \<ge> maxKeys then let c = filter (\<lambda>(k, e). \<not> now > ce_expiry e) c in if length c \<ge> maxKeys then [] else c else c)"

lemma cacheSet_cache:
  "vf_cache (cacheSet now key r v) = aput key \<lparr>ce_res = r, ce_expiry = now + ttl_of r\<rparr> (trimmed now (vf_cache v))"
  by (simp add: cacheSet_def trimmed_def ttl_of_def Let_def)

lemma trimmed:
  assumes "amap_wf c"
  shows "amap_wf (trimmed now c)" "length (trimmed now c) < maxKeys" "map_of (trimmed now c) key = Some e \<Longrightarrow> map_of c key = Some e"
proof -
  have pos: "0 < maxKeys" by (simp add: maxKeys_def)
  show "amap_wf (trimmed now c)" using assms by (simp add: trimmed_def Let_def)
  show "length (trimmed now c) < maxKeys" using pos by (simp add: trimmed_def Let_def)
  have "map_of (filter (\<lambda>(k, e). \<not> now > ce_expiry e) c) key = Some e \<Longrightarrow> map_of c key = Some e"
    using map_of_filter_wf [OF assms, of "\<lambda>k e. \<not> now > ce_expiry e" key] by (auto simp: case_prod_beta' split: option.splits if_splits)
  then show "map_of (trimmed now c) key = Some e \<Longrightarrow> map_of c key = Some e"
    by (auto simp: trimmed_def Let_def split: if_splits)
qed

lemma cache_ok_set:
  assumes "cache_ok lg (vf_cache v)" "c \<in> set crawlers"
  shows "cache_ok ((t, d, ip, c) # lg) (vf_cache (cacheSet t (cache_key ip c) (lookup d ip c) v))"
proof -
  have wf: "amap_wf (vf_cache v)" using assms(1) by (simp add: cache_ok_def)
  note tr = trimmed [OF wf, of t]
  have "length (aput k e (trimmed t (vf_cache v))) \<le> maxKeys" for k e
    using tr(2) length_adel_le [of k "trimmed t (vf_cache v)"] by (simp add: aput_def)
  moreover have "\<exists>(t', d', ip', c') \<in> set ((t, d, ip, c) # lg). c' \<in> set crawlers \<and> key = cache_key ip' c'
      \<and> e = \<lparr>ce_res = lookup d' ip' c', ce_expiry = t' + ttl_of (lookup d' ip' c')\<rparr>"
    if "map_of (vf_cache (cacheSet t (cache_key ip c) (lookup d ip c) v)) key = Some e" for key e
  proof (cases "key = cache_key ip c")
    case True
    then show ?thesis using that assms(2) by (auto simp: cacheSet_cache)
  next
    case False
    then have "map_of (vf_cache v) key = Some e" using that tr(3) by (simp add: cacheSet_cache)
    then show ?thesis using assms(1) by (fastforce simp: cache_ok_def)
  qed
  ultimately show ?thesis using tr(1) by (simp add: cache_ok_def cacheSet_cache)
qed

lemma cache_ok_more: "cache_ok lg m \<Longrightarrow> cache_ok (e # lg) m"
  by (fastforce simp: cache_ok_def)

text \<open>Only \<open>cacheSet\<close> writes the cache, and it writes nothing else.\<close>

lemma cacheSet_jobs [simp]:
  "vf_inflight (cacheSet t k r v) = vf_inflight v" "vf_marked (cacheSet t k r v) = vf_marked v" "vf_jobs (cacheSet t k r v) = vf_jobs v"
  "vf_running (cacheSet t k r v) = vf_running v" "vf_settled (cacheSet t k r v) = vf_settled v"
  by (simp_all add: cacheSet_def Let_def)

lemma send_ok:
  assumes "jobs_ok v" "pool_ok v" "j \<in> set (vf_marked v)"
  shows "jobs_ok (enqueue_send j v)" "pool_ok (enqueue_send j v)" "vf_cache (enqueue_send j v) = vf_cache v"
proof -
  have m: "mset (vf_marked v) = add_mset j (mset (remove1 j (vf_marked v)))" using assms(3) by simp
  show "jobs_ok (enqueue_send j v)"
  proof (cases "length (vf_jobs v) < jobs_cap")
    case True
    then show ?thesis using m by (intro jobs_move [OF assms(1)]) (simp_all add: enqueue_send_def all_jobs_def)
  next
    case False
    then show ?thesis using m by (intro jobs_drop [OF assms(1), where j = j]) (simp_all add: enqueue_send_def all_jobs_def)
  qed
qed (use assms(2) in \<open>simp_all add: enqueue_send_def pool_ok_def Let_def\<close>)

lemma take_ok:
  assumes "jobs_ok v" "pool_ok v" "vf_jobs v = j # js" "length (vf_running v) + length (vf_settled v) < workers"
  shows "jobs_ok (worker_take j js v)" "pool_ok (worker_take j js v)" "vf_cache (worker_take j js v) = vf_cache v"
  using assms by (auto intro!: jobs_move [OF assms(1)] simp: worker_take_def pool_ok_def all_jobs_def)

lemma settle_ok:
  assumes "jobs_ok v" "pool_ok v" "j \<in> set (vf_running v)"
  shows "jobs_ok (worker_settle t d j v)" "pool_ok (worker_settle t d j v)"
    and "vf_cache (worker_settle t d j v) = vf_cache (cacheSet t (jb_key j) (lookup d (jb_ip j) (jb_c j)) v)"
proof -
  have m: "mset (vf_running v) = add_mset j (mset (remove1 j (vf_running v)))" using assms(3) by simp
  then have l: "length (vf_running v) = Suc (length (remove1 j (vf_running v)))" by (metis size_add_mset size_mset)
  show "jobs_ok (worker_settle t d j v)" using m by (intro jobs_move [OF assms(1)]) (simp_all add: worker_settle_def all_jobs_def Let_def)
  show "pool_ok (worker_settle t d j v)" using assms(2) l by (simp add: pool_ok_def worker_settle_def Let_def)
qed (simp add: worker_settle_def Let_def)

lemma clear_ok:
  assumes "jobs_ok v" "pool_ok v" "j \<in> set (vf_settled v)"
  shows "jobs_ok (worker_clear j v)" "pool_ok (worker_clear j v)" "vf_cache (worker_clear j v) = vf_cache v"
proof -
  have m: "mset (vf_settled v) = add_mset j (mset (remove1 j (vf_settled v)))" using assms(3) by simp
  then have l: "length (vf_settled v) = Suc (length (remove1 j (vf_settled v)))" by (metis size_add_mset size_mset)
  show "jobs_ok (worker_clear j v)" using m by (intro jobs_drop [OF assms(1), where j = j]) (simp_all add: worker_clear_def all_jobs_def)
  show "pool_ok (worker_clear j v)" using assms(2) l by (simp add: pool_ok_def worker_clear_def)
qed (simp add: worker_clear_def)

lemma mark_ok:
  assumes "jobs_ok v" "pool_ok v"
  shows "jobs_ok (enqueue_mark t ip ua notify v)" "pool_ok (enqueue_mark t ip ua notify v)" "vf_cache (enqueue_mark t ip ua notify v) = vf_cache v"
proof -
  show "jobs_ok (enqueue_mark t ip ua notify v)"
  proof (cases "matchClaim ua")
    case (Some c)
    let ?j = "\<lparr>jb_ip = ip, jb_c = c, jb_key = cache_key ip c, jb_notify = notify\<rparr>"
    have "job_ok ?j" using matchClaim_mem [OF Some] by (simp add: job_ok_def)
    then show ?thesis using Some assms(1) by (auto simp: enqueue_mark_def all_jobs_def Let_def intro!: jobs_add [OF assms(1), where j = ?j])
  qed (simp add: enqueue_mark_def assms)
qed (use assms in \<open>simp_all add: enqueue_mark_def pool_ok_def Let_def split: option.split\<close>)

lemma worker_step_ok: "worker_step s s' \<Longrightarrow> verifier_ok s \<Longrightarrow> verifier_ok s'"
proof (induction rule: worker_step.induct)
  case (step_settle j s t d)
  then have "job_ok j" by (auto simp: verifier_ok_def jobs_ok_def all_jobs_def)
  then have "cache_ok ((t, d, jb_ip j, jb_c j) # sy_log s) (vf_cache (worker_settle t d j (sy_v s)))"
    using settle_ok(3) [of "sy_v s" j t d] step_settle cache_ok_set [of "sy_log s" "sy_v s" "jb_c j" t d "jb_ip j"]
    by (simp add: verifier_ok_def job_ok_def)
  then show ?case using step_settle settle_ok(1,2) by (force simp: verifier_ok_def)
qed (simp_all add: verifier_ok_def send_ok take_ok clear_ok)

interpretation verifier: invariant_system verifier_start verifier_step verifier_ok
proof
  show "verifier_start s \<Longrightarrow> verifier_ok s" for s
    by (simp add: verifier_start_def verifier_ok_def new_verifier_def jobs_ok_def all_jobs_def pool_ok_def cache_ok_def)
  show "verifier_ok s'" if "verifier_ok s" "verifier_step s s'" for s s'
    using that(2,1)
  proof (induction rule: verifier_step.induct)
    case (step_worker s s')
    then show ?case by (rule worker_step_ok)
  next
    case (step_enqueue s t ip ua notify)
    then show ?case using mark_ok [of "sy_v s" t ip ua notify] by (force simp: verifier_ok_def)
  next
    case (step_verify s t ua c ip d)
    then show ?case using matchClaim_mem [of ua c] cache_ok_set [of "sy_log s" "sy_v s" c t d ip]
      by (force simp: verifier_ok_def jobs_ok_def pool_ok_def all_jobs_def)
  qed
qed

lemma reachable_verifier: "reachable verifier_start verifier_step s \<Longrightarrow> verifier_ok s"
  by (rule verifier.reachable_inv)

lemma cached_from_log:
  assumes "verifier_ok s" "Cached now ip ua (sy_v s) = Some r" "rs_Status r \<noteq> NotApplicable"
  shows "\<exists>t d c. (t, d, ip, c) \<in> set (sy_log s) \<and> matchClaim ua = Some c \<and> r = lookup d ip c \<and> t \<le> sy_now s \<and> now \<le> t + ttl_of r"
proof -
  obtain c where c: "matchClaim ua = Some c" "cacheGet now (cache_key ip c) (sy_v s) = Some r"
    using assms(2,3) by (auto simp: Cached_def split: option.splits)
  then obtain e where e: "map_of (vf_cache (sy_v s)) (cache_key ip c) = Some e" "now \<le> ce_expiry e" "r = ce_res e"
    by (auto simp: cacheGet_def split: option.splits if_splits)
  then obtain t d ip' c' where l: "(t, d, ip', c') \<in> set (sy_log s)" "c' \<in> set crawlers" "cache_key ip c = cache_key ip' c'"
      "e = \<lparr>ce_res = lookup d ip' c', ce_expiry = t + ttl_of (lookup d ip' c')\<rparr>"
    using assms(1) unfolding verifier_ok_def cache_ok_def by blast
  have "ip' = ip" "c' = c" using cache_key_inj [OF l(3) _ l(2)] matchClaim_mem [OF c(1)] by auto
  moreover have "t \<le> sy_now s" using l(1) assms(1) by (force simp: verifier_ok_def)
  ultimately show ?thesis using l c(1) e(2,3) by (intro exI [of _ t] exI [of _ d] exI [of _ c]) simp
qed

text \<open>Steps left: each part of a job's way is one.\<close>

definition load :: "Verifier \<Rightarrow> nat" where
  "load v = 4 * length (vf_marked v) + 3 * length (vf_jobs v) + 2 * length (vf_running v) + length (vf_settled v)"

lemma length_remove1_mem: "x \<in> set xs \<Longrightarrow> length xs = Suc (length (remove1 x xs))"
  by (simp add: length_remove1) (cases xs; simp)

lemma worker_step_load: "worker_step s s' \<Longrightarrow> load (sy_v s') < load (sy_v s)"
proof (induction rule: worker_step.induct)
  case (step_send j s)
  then show ?case using length_remove1_mem [OF step_send] by (simp add: load_def enqueue_send_def Let_def)
next
  case (step_take s j js)
  then show ?case by (simp add: load_def worker_take_def)
next
  case (step_settle j s t d)
  then show ?case using length_remove1_mem [OF step_settle(1)] by (simp add: load_def worker_settle_def Let_def)
next
  case (step_clear j s)
  then show ?case using length_remove1_mem [OF step_clear] by (simp add: load_def worker_clear_def)
qed

lemma worker_run_load: "(worker_step ^^ n) s s' \<Longrightarrow> n + load (sy_v s') \<le> load (sy_v s)"
proof (induction n arbitrary: s')
  case (Suc n)
  then obtain s1 where "(worker_step ^^ n) s s1" "worker_step s1 s'" by (auto elim: relpowp_Suc_E)
  then show ?case using Suc.IH [of s1] worker_step_load [of s1 s'] by linarith
qed simp

lemma stuck_idle:
  assumes "verifier_ok s" "\<not> (\<exists>s'. worker_step s s')"
  shows "all_jobs (sy_v s) = []" "vf_inflight (sy_v s) = []"
proof -
  let ?v = "sy_v s"
  have m: "vf_marked ?v = []" using assms(2) step_send by (metis last_in_set)
  have r: "vf_running ?v = []" using assms(2) step_settle [of _ s "sy_now s"] by (metis last_in_set order_refl)
  have c: "vf_settled ?v = []" using assms(2) step_clear by (metis last_in_set)
  have "vf_jobs ?v = []"
  proof (cases "vf_jobs ?v")
    case (Cons j js)
    then show ?thesis using step_take [OF Cons] assms(2) r c by (simp add: workers_def)
  qed simp
  with m r c show a: "all_jobs ?v = []" by (simp add: all_jobs_def)
  then show "vf_inflight ?v = []" using assms(1) by (simp add: verifier_ok_def jobs_ok_def)
qed

section \<open>Properties\<close>

text \<open>
  C12: A crawler verdict is backed by the DNS. However checks, schedules, workers and direct
  lookups interleave, when the check of a request gets \<open>verified\<close> from the cache, some lookup
  of this address for the crawler this user agent claims was forward-confirmed at most six
  hours ago; when it gets \<open>forged\<close>, some such lookup found the address with names of which
  either none is in the crawler's domains, or one is and does not resolve back.
\<close>

theorem crawler_verdict_is_backed:
  assumes "reachable verifier_start verifier_step s" "e_crawler e = cached_verdict now (a_ip a) (a_ua a) (sy_v s)"
    and "crawler_verdict c cfg e m a = verdict" "verdict \<noteq> CrawlerUnknown"
  shows "\<exists>t d cr. (t, d, a_ip a, cr) \<in> set (sy_log s) \<and> matchClaim (a_ua a) = Some cr \<and> t \<le> sy_now s \<and> now \<le> t + 6 * 3600 * 1000000000
    \<and> (verdict = CrawlerVerified (cw_name cr) \<and> forward_confirmed d (a_ip a) cr
       \<or> verdict = CrawlerForged (cw_name cr)
         \<and> (\<exists>names. dns_addr d (a_ip a) = Some names \<and> names \<noteq> []
            \<and> ((\<forall>n \<in> set names. \<not> domainMatch n (cw_domains cr))
               \<or> (\<exists>n \<in> set names. domainMatch n (cw_domains cr)
                    \<and> (strip_dot n = [] \<or> (\<exists>addrs. dns_host d (strip_dot n) = Some addrs \<and> a_ip a \<notin> set addrs))))))"
proof -
  have v: "verdict = cached_verdict now (a_ip a) (a_ua a) (sy_v s)" using assms(2-4) by (auto simp: crawler_verdict_def Let_def split: if_splits)
  then obtain r where r: "Cached now (a_ip a) (a_ua a) (sy_v s) = Some r" "rs_Status r \<in> {Verified, Forged}"
      "verdict = (if rs_Status r = Verified then CrawlerVerified (rs_Crawler r) else CrawlerForged (rs_Crawler r))"
    using assms(4) by (auto simp: cached_verdict_def split: option.splits Status.splits)
  obtain t d cr where l: "(t, d, a_ip a, cr) \<in> set (sy_log s)" "matchClaim (a_ua a) = Some cr" "r = lookup d (a_ip a) cr" "t \<le> sy_now s" "now \<le> t + ttl_of r"
    using cached_from_log [OF reachable_verifier [OF assms(1)] r(1)] r(2) by auto
  have "now \<le> t + 6 * 3600 * 1000000000" using l(5) r(2) by (auto simp: ttl_of_def ttlOK_def)
  moreover have "verdict = CrawlerVerified (cw_name cr) \<and> forward_confirmed d (a_ip a) cr
      \<or> verdict = CrawlerForged (cw_name cr) \<and> rs_Status (lookup d (a_ip a) cr) = Forged"
    using r(2,3) lookup_Verified [of d "a_ip a" cr] unfolding l(3) by auto
  ultimately show ?thesis using l lookup_Forged [of d "a_ip a" cr] by blast
qed

text \<open>
  The load stays bounded and no lookup is doubled. In every reachable state the cache
  holds at most 8192 entries, the queue at most 256 jobs, at most six jobs are with the
  workers, no key has two jobs, and the keys marked in flight are exactly those of the jobs
  under way.
\<close>

lemma crawler_load_bounded:
  assumes "reachable verifier_start verifier_step s"
  shows "length (vf_cache (sy_v s)) \<le> 8192 \<and> length (vf_jobs (sy_v s)) \<le> 256 \<and> length (vf_running (sy_v s)) \<le> 6
    \<and> distinct (map jb_key (all_jobs (sy_v s))) \<and> set (vf_inflight (sy_v s)) = jb_key ` set (all_jobs (sy_v s))"
  using reachable_verifier [OF assms]
  by (auto simp: verifier_ok_def jobs_ok_def pool_ok_def cache_ok_def maxKeys_def jobs_cap_def workers_def)

text \<open>
  C37: The work ends. Whatever the resolver answers, the workers can go on for at most as many
  steps as the jobs under way have left, and when they cannot go on, no key is in flight: no
  address is left marked without a job, so a later request can always schedule it again.
\<close>

theorem crawler_work_ends:
  assumes "reachable verifier_start verifier_step s"
  shows "(\<forall>n s'. (worker_step ^^ n) s s' \<longrightarrow> n \<le> load (sy_v s))
    \<and> (\<exists>s'. worker_step\<^sup>*\<^sup>* s s' \<and> vf_inflight (sy_v s') = [] \<and> all_jobs (sy_v s') = [])"
proof
  show "\<forall>n s'. (worker_step ^^ n) s s' \<longrightarrow> n \<le> load (sy_v s)" using worker_run_load by fastforce
  have "\<exists>s'. worker_step\<^sup>*\<^sup>* s s' \<and> vf_inflight (sy_v s') = [] \<and> all_jobs (sy_v s') = []" if "verifier_ok s" for s
    using that
  proof (induction "load (sy_v s)" arbitrary: s rule: less_induct)
    case less
    show ?case
    proof (cases "\<exists>s1. worker_step s s1")
      case True
      then obtain s1 where "worker_step s s1" by blast
      then show ?thesis using less.hyps [of s1] worker_step_load worker_step_ok less.prems by (meson converse_rtranclp_into_rtranclp)
    next
      case False
      then show ?thesis using stuck_idle [OF less.prems] by blast
    qed
  qed
  then show "\<exists>s'. worker_step\<^sup>*\<^sup>* s s' \<and> vf_inflight (sy_v s') = [] \<and> all_jobs (sy_v s') = []" using reachable_verifier [OF assms] .
qed

section \<open>Witnesses\<close>

text \<open>A visitor that claims Googlebot from an address whose name is in the domain and resolves back.\<close>

definition dns_demo :: Resolver where
  "dns_demo = \<lparr>dns_addr = (\<lambda>ip. Some [''crawl-1.googlebot.com.'']), dns_host = (\<lambda>h. Some [''192.0.2.1''])\<rparr>"

definition verifier_demo :: VerifierSys where
  "verifier_demo = \<lparr>sy_v = cacheSet 5 (cache_key ''192.0.2.1'' (hd crawlers)) (lookup dns_demo ''192.0.2.1'' (hd crawlers)) new_verifier,
     sy_now = 5, sy_log = [(5, dns_demo, ''192.0.2.1'', hd crawlers)]\<rparr>"

lemma claims_google: "matchClaim ''Googlebot'' = Some (hd crawlers)"
  by code_simp

lemma demo_reachable: "reachable verifier_start verifier_step verifier_demo"
proof -
  let ?s = "\<lparr>sy_v = new_verifier, sy_now = 0, sy_log = []\<rparr>"
  have "reachable verifier_start verifier_step ?s" by (rule reachable_init) (simp add: verifier_start_def)
  moreover have "verifier_step ?s verifier_demo"
    using step_verify [of ?s 5 "''Googlebot''" "hd crawlers" "''192.0.2.1''" dns_demo] claims_google by (simp add: verifier_demo_def)
  ultimately show ?thesis by (rule reachable_step)
qed

lemma demo_lookup: "lookup dns_demo ''192.0.2.1'' (hd crawlers) = \<lparr>rs_Status = Verified, rs_Crawler = ''Googlebot'', rs_Host = ''crawl-1.googlebot.com''\<rparr>"
  by code_simp

lemma demo_cached: "cached_verdict 7 ''192.0.2.1'' ''Googlebot'' (sy_v verifier_demo) = CrawlerVerified ''Googlebot''"
  by (simp add: cached_verdict_def Cached_def claims_google cacheGet_def verifier_demo_def cacheSet_cache demo_lookup ttl_of_def ttlOK_def)

text \<open>The settings of the example with the verification on.\<close>

definition crawlerSettings :: Settings where
  "crawlerSettings = exSettings\<lparr>s_Nginx := (s_Nginx exSettings)\<lparr>n_CrawlerVerify := \<lparr>cv_Enabled = True, cv_ForgedAction = [], cv_DisabledCrawlers = []\<rparr>\<rparr>\<rparr>"

theorem crawler_verdict_is_backed_witness:
  "crawler_verdict exCatalog crawlerSettings (exEnv\<lparr>e_crawler := CrawlerVerified ''Googlebot''\<rparr>) exMatchers (exInput ''Googlebot'' ''/'') = CrawlerVerified ''Googlebot''
   \<and> (\<exists>t d cr. (t, d, ''192.0.2.1'', cr) \<in> set (sy_log verifier_demo) \<and> matchClaim ''Googlebot'' = Some cr \<and> 7 \<le> t + 6 * 3600 * 1000000000
        \<and> forward_confirmed d ''192.0.2.1'' cr)"
proof -
  have claimed: "ClaimedCrawler exCatalog ''Googlebot'' = ''Googlebot''" by code_simp
  have "crawler_verdict exCatalog crawlerSettings (exEnv\<lparr>e_crawler := CrawlerVerified ''Googlebot''\<rparr>) exMatchers (exInput ''Googlebot'' ''/'') = CrawlerVerified ''Googlebot''"
    by (simp add: crawler_verdict_def exInput_def claimed crawlerSettings_def CrawlerActive_def exMatchers_def bypassMatchers_def Let_def)
  then show ?thesis
    using crawler_verdict_is_backed [OF demo_reachable, of "exEnv\<lparr>e_crawler := CrawlerVerified ''Googlebot''\<rparr>" 7 "exInput ''Googlebot'' ''/''"]
      demo_cached by (fastforce simp: exInput_def)
qed

theorem crawler_work_ends_witness:
  "\<exists>s'. worker_step\<^sup>*\<^sup>* verifier_demo s' \<and> vf_inflight (sy_v s') = []"
  using crawler_work_ends [OF demo_reachable] by blast

end
