(* ===== verification/Pass_Budget.thy ===== *)
theory Pass_Budget
  imports Ban_Wiring Challenge_Verify
begin

text \<open>
  The budget of distinct passes per client and day, and the ban over it
  (\<open>handlers/pass_budget.go\<close>, \<open>PassBudgetConfig\<close> of \<open>settings/settings.go\<close>). The allowlist's
  match and whether an address is in a relay's range are the environment's. Times are in
  nanoseconds; the ban's clock is the ban manager's.
\<close>

section \<open>Definitions\<close>

subsection \<open>Switches\<close>

record PassBudgetConfig =
  pb_Disabled :: bool
  pb_PerDay :: int
  pb_Action :: string
  pb_BanHours :: int

definition ResolvedPerDay :: "PassBudgetConfig \<Rightarrow> int" where
  "ResolvedPerDay c = (if pb_PerDay c \<le> 0 then 500 else pb_PerDay c)"

definition ResolvedBanHours :: "PassBudgetConfig \<Rightarrow> int" where
  "ResolvedBanHours c = (if pb_BanHours c \<le> 0 then 24 else pb_BanHours c)"

definition ResolvedBudgetAction :: "PassBudgetConfig \<Rightarrow> string" where
  "ResolvedBudgetAction c = (if pb_Action c = RateChallengeDeny then RateChallengeDeny else RateChallengeCaptchaOnly)"

definition PassBudgetActive :: "PassBudgetConfig \<Rightarrow> Nginx \<Rightarrow> bool" where
  "PassBudgetActive c n = (\<not> pb_Disabled c \<and> \<not> EnforcementHeld n ''v0.1.53'')"

subsection \<open>The count\<close>

text \<open>The identities are a set; the day starts with the first pass.\<close>

record solveCount =
  sc_ids :: "nat list"
  sc_since :: int
  sc_banned :: bool

record solveBudget =
  bg_counts :: "(string, solveCount) amap option"
  bg_sweptAt :: int
  bg_seq :: nat
  bg_sig :: string
  bg_changedAt :: "int option"

definition new_budget :: solveBudget where
  "new_budget = \<lparr>bg_counts = None, bg_sweptAt = 0, bg_seq = 0, bg_sig = [], bg_changedAt = None\<rparr>"

definition solveBudgetWindow :: int where "solveBudgetWindow = 86400 * trace_second"
definition solveBudgetKeysMax :: nat where "solveBudgetKeysMax = 200000"

definition own_identity :: "nat \<Rightarrow> solveBudget \<Rightarrow> nat \<times> solveBudget" where
  "own_identity i b = (if i = 0 then let s = Suc (bg_seq b) mod 2 ^ 64 in (s, b\<lparr>bg_seq := s\<rparr>) else (i, b))"

definition see_sig :: "string \<Rightarrow> int \<Rightarrow> solveBudget \<Rightarrow> solveBudget" where
  "see_sig sig now b =
     (if bg_sig b \<noteq> sig
      then b\<lparr>bg_changedAt := (if bg_sig b \<noteq> [] then Some now else bg_changedAt b), bg_sig := sig, bg_counts := None\<rparr>
      else b)"

definition swept_counts :: "int \<Rightarrow> solveBudget \<Rightarrow> (string, solveCount) amap \<times> int" where
  "swept_counts now b =
     (case bg_counts b of
        None \<Rightarrow> ([], now)
      | Some m \<Rightarrow>
          if length m \<ge> solveBudgetKeysMax then ([], now)
          else if now - bg_sweptAt b > 3600 * trace_second then (filter (\<lambda>(k, c). \<not> now - sc_since c > solveBudgetWindow) m, now)
          else (m, bg_sweptAt b))"

definition count_of :: "string \<Rightarrow> int \<Rightarrow> (string, solveCount) amap \<Rightarrow> solveCount" where
  "count_of key now m =
     (case map_of m key of
        Some c \<Rightarrow> if now - sc_since c > solveBudgetWindow then \<lparr>sc_ids = [], sc_since = now, sc_banned = False\<rparr> else c
      | None \<Rightarrow> \<lparr>sc_ids = [], sc_since = now, sc_banned = False\<rparr>)"

definition budget_add :: "string \<Rightarrow> string \<Rightarrow> nat \<Rightarrow> int \<Rightarrow> int \<Rightarrow> solveBudget \<Rightarrow> (int \<times> bool) \<times> solveBudget" where
  "budget_add key sig i limit now b =
     (let (i, b) = own_identity i b;
          b = see_sig sig now b;
          (m, swept) = swept_counts now b;
          c = count_of key now m;
          c = (if i \<notin> set (sc_ids c) \<and> int (length (sc_ids c)) \<le> limit then c\<lparr>sc_ids := i # sc_ids c\<rparr> else c)
      in ((int (length (sc_ids c)),
           (case bg_changedAt b of None \<Rightarrow> False | Some t \<Rightarrow> now - t < solveBudgetWindow)),
          b\<lparr>bg_counts := Some (aput key c m), bg_sweptAt := swept\<rparr>))"

definition markBanned :: "string \<Rightarrow> solveBudget \<Rightarrow> bool \<times> solveBudget" where
  "markBanned key b =
     (case bg_counts b of None \<Rightarrow> (False, b)
      | Some m \<Rightarrow> (case map_of m key of None \<Rightarrow> (False, b)
        | Some c \<Rightarrow> if sc_banned c then (False, b) else (True, b\<lparr>bg_counts := Some (aput key (c\<lparr>sc_banned := True\<rparr>) m)\<rparr>)))"

subsection \<open>The ban\<close>

definition SourceRateLimitAbuse :: string where "SourceRateLimitAbuse = ''rate_limit_abuse''"

definition passIDHash :: "string \<Rightarrow> nat" where
  "passIDHash s = (if s = [] then 0 else unat (fnv64a s))"

definition budgetAddr :: "string \<Rightarrow> string" where
  "budgetAddr ip =
     (case parse_addr ip of None \<Rightarrow> ip
      | Some a \<Rightarrow> if is4 a \<or> is4in6 a then ip else addr_string (p_addr (masked \<lparr>p_addr = a, p_bits = 48\<rparr>)))"

record BudgetEnv =
  be_hasBanMgr :: bool
  be_bypass :: "string \<Rightarrow> bool"
  be_relay :: "string \<Rightarrow> bool"

definition budget_sig :: "VerifyCfg \<Rightarrow> string" where
  "budget_sig cfg =
     (let def = cg_Default (vc_Challenge cfg)
      in vc_BVSecret cfg @ ''|'' @ format_int 10 (ResolvedPowDifficulty def) @ ''|'' @ format_int 10 (PowCookieValidSecondsResolved def))"

definition budget_key :: "string \<Rightarrow> string \<Rightarrow> string" where
  "budget_key ip ja4 = budgetAddr ip @ ''|'' @ ja4"

definition counted_pass :: "PassBudgetConfig \<Rightarrow> Nginx \<Rightarrow> BudgetEnv \<Rightarrow> string \<Rightarrow> string \<Rightarrow> bool" where
  "counted_pass pb n e ip kind0 \<longleftrightarrow>
     (let kind = (if kind0 = ''pow'' then ''pow2'' else kind0) in
      (kind = ''pow2'' \<or> kind = ''captcha'') \<and> ip \<noteq> [] \<and> be_hasBanMgr e \<and> PassBudgetActive pb n \<and> \<not> be_bypass e ip \<and> \<not> be_relay e ip)"

definition budget_ban :: "PassBudgetConfig \<Rightarrow> BanEnv \<Rightarrow> string \<Rightarrow> string \<Rightarrow> string \<Rightarrow> int \<Rightarrow> Manager \<Rightarrow> Manager" where
  "budget_ban pb v ip ja4 site n m =
     AddAuto v ip ja4 (if ja4 = [] then ScopeIPOnly else ScopeIPJA4) SourceRateLimitAbuse
       (''pass budget: '' @ format_int 10 n @ '' challenge passes in a day (budget '' @ format_int 10 (ResolvedPerDay pb) @ '')''
         @ (if site \<noteq> [] then '' on '' @ site else []))
       (ResolvedBudgetAction pb) (ResolvedBanHours pb * 3600) m"

definition countPass :: "PassBudgetConfig \<Rightarrow> VerifyCfg \<Rightarrow> Nginx \<Rightarrow> BudgetEnv \<Rightarrow> BanEnv \<Rightarrow> int \<Rightarrow> string \<Rightarrow> string \<Rightarrow> string \<Rightarrow> string \<Rightarrow> string
    \<Rightarrow> solveBudget \<times> Manager \<Rightarrow> solveBudget \<times> Manager" where
  "countPass pb cfg n e v now ip ja4 site kind i st =
     (if \<not> counted_pass pb n e ip kind then st
      else let (b, m) = st;
               key = budget_key ip ja4;
               ((cnt, settling), b) = budget_add key (budget_sig cfg) (passIDHash i) (ResolvedPerDay pb) now b
           in if settling \<or> cnt \<le> ResolvedPerDay pb then (b, m)
              else let (first, b) = markBanned key b in
                if \<not> first then (b, m) else (b, budget_ban pb v ip ja4 site cnt m))"

definition ObservePass :: "PassBudgetConfig \<Rightarrow> VerifyCfg \<Rightarrow> Nginx \<Rightarrow> BudgetEnv \<Rightarrow> BanEnv \<Rightarrow> int \<Rightarrow> string \<Rightarrow> string \<Rightarrow> string \<Rightarrow> string \<Rightarrow> string
    \<Rightarrow> solveBudget \<times> Manager \<Rightarrow> solveBudget \<times> Manager" where
  "ObservePass pb cfg n e v now ip ja4 site kind i st = countPass pb cfg n e v now ip (safeJA4 ja4) site kind i st"

section \<open>Lemmas\<close>

subsection \<open>A day of passes\<close>

text \<open>
  Inside one day and below the cap of clients nothing is swept, so the table is the map of the
  clients counted so far; \<open>S\<close> is the set of identities one of them has shown.
\<close>

definition live_counts :: "int \<Rightarrow> string \<Rightarrow> solveBudget \<Rightarrow> (string, solveCount) amap \<Rightarrow> bool" where
  "live_counts t0 sig b m \<longleftrightarrow>
     (if bg_sig b = sig then bg_counts b = Some m else bg_sig b = [] \<and> m = []) \<and> amap_wf m \<and> (\<forall>(k, c) \<in> set m. t0 \<le> sc_since c)"

definition ids_ok :: "int \<Rightarrow> nat set \<Rightarrow> nat list \<Rightarrow> bool" where
  "ids_ok limit S is \<longleftrightarrow> finite S \<and> distinct is \<and> set is \<subseteq> S \<and> int (length is) \<le> limit + 1 \<and> (int (length is) \<le> limit \<longrightarrow> set is = S)"

definition key_ids :: "string \<Rightarrow> (string, solveCount) amap \<Rightarrow> nat list" where
  "key_ids key m = (case map_of m key of None \<Rightarrow> [] | Some c \<Rightarrow> sc_ids c)"

lemma ids_ok_count:
  assumes "ids_ok limit S is"
  shows "int (length is) = min (limit + 1) (int (card S))"
proof -
  have "length is = card (set is)" "card (set is) \<le> card S"
    using assms unfolding ids_ok_def by (metis distinct_card, metis card_mono)
  moreover have "int (length is) \<le> limit \<Longrightarrow> length is = card S" "int (length is) \<le> limit + 1"
    using assms calculation(1) by (auto simp: ids_ok_def)
  ultimately show ?thesis by linarith
qed

lemma ids_ok_insert:
  assumes "ids_ok limit S is" "0 \<le> limit"
  shows "ids_ok limit (insert i S) (if i \<notin> set is \<and> int (length is) \<le> limit then i # is else is)"
  using assms by (auto simp: ids_ok_def)

definition added :: "string \<Rightarrow> nat \<Rightarrow> int \<Rightarrow> int \<Rightarrow> (string, solveCount) amap \<Rightarrow> solveCount" where
  "added k i limit now m =
     (let c = count_of k now m in if i \<notin> set (sc_ids c) \<and> int (length (sc_ids c)) \<le> limit then c\<lparr>sc_ids := i # sc_ids c\<rparr> else c)"

lemma budget_add_live:
  assumes "live_counts t0 sig b m" "t0 \<le> now" "now \<le> t0 + solveBudgetWindow" "length m < solveBudgetKeysMax" "i = fst (own_identity i0 b)" "sig \<noteq> []"
    and "budget_add k sig i0 limit now b = ((cnt, settling), b')"
  shows "cnt = int (length (sc_ids (added k i limit now m)))" "bg_counts b' = Some (aput k (added k i limit now m) m)" "bg_sig b' = sig"
    and "live_counts t0 sig b' (aput k (added k i limit now m) m)"
    and "count_of k now m = (case map_of m k of Some c \<Rightarrow> c | None \<Rightarrow> \<lparr>sc_ids = [], sc_since = now, sc_banned = False\<rparr>)"
    and "settling = (case bg_changedAt b of None \<Rightarrow> False | Some t \<Rightarrow> now - t < solveBudgetWindow)" "bg_changedAt b' = bg_changedAt b"
proof -
  have fresh: "\<forall>(k, c) \<in> set m. \<not> now - sc_since c > solveBudgetWindow" using assms(1,3) by (force simp: live_counts_def)
  then have filt: "filter (\<lambda>(k, c). \<not> now - sc_since c > solveBudgetWindow) m = m" by (auto simp: filter_id_conv)
  let ?b = "snd (own_identity i0 b)"
  have own: "bg_counts ?b = bg_counts b" "bg_sig ?b = bg_sig b" "bg_changedAt ?b = bg_changedAt b" by (simp_all add: own_identity_def Let_def)
  have sw: "fst (swept_counts now (see_sig sig now ?b)) = m"
    using assms(1,4,6) filt own by (auto simp: live_counts_def swept_counts_def see_sig_def split: if_splits)
  have c: "count_of k now m = (case map_of m k of Some c \<Rightarrow> c | None \<Rightarrow> \<lparr>sc_ids = [], sc_since = now, sc_banned = False\<rparr>)"
    using fresh by (fastforce simp: count_of_def split: option.split dest: map_of_SomeD)
  then show "count_of k now m = (case map_of m k of Some c \<Rightarrow> c | None \<Rightarrow> \<lparr>sc_ids = [], sc_since = now, sc_banned = False\<rparr>)" .
  obtain swept where s: "swept_counts now (see_sig sig now ?b) = (m, swept)" using sw by (metis prod.collapse)
  have sig: "bg_sig (see_sig sig now ?b) = sig" "bg_changedAt (see_sig sig now ?b) = bg_changedAt b"
    using assms(1,6) own by (auto simp: see_sig_def live_counts_def split: if_splits)
  have b': "cnt = int (length (sc_ids (added k i limit now m)))" "bg_counts b' = Some (aput k (added k i limit now m) m)" "bg_sig b' = sig"
    "settling = (case bg_changedAt b of None \<Rightarrow> False | Some t \<Rightarrow> now - t < solveBudgetWindow)" "bg_changedAt b' = bg_changedAt b"
    using assms(5,7) s sig by (auto simp: budget_add_def added_def Let_def split_beta)
  then show "cnt = int (length (sc_ids (added k i limit now m)))" "bg_counts b' = Some (aput k (added k i limit now m) m)" "bg_sig b' = sig"
    "settling = (case bg_changedAt b of None \<Rightarrow> False | Some t \<Rightarrow> now - t < solveBudgetWindow)" "bg_changedAt b' = bg_changedAt b" by simp_all
  have "t0 \<le> sc_since (added k i limit now m)"
    using assms(1,2) c by (fastforce simp: added_def Let_def live_counts_def split: option.splits dest: map_of_SomeD)
  then show "live_counts t0 sig b' (aput k (added k i limit now m) m)"
    using b' assms(1) amap_wf_aput [of m k] unfolding live_counts_def by (auto simp: aput_def adel_def simp del: amap_wf_aput)
qed

lemma own_identity_own: "i \<noteq> 0 \<Longrightarrow> fst (own_identity i b) = i"
  by (simp add: own_identity_def)

text \<open>A run of adds; the pass counted is the last one of the list.\<close>

type_synonym pass_event = "int \<times> string \<times> nat"

fun run_budget :: "string \<Rightarrow> int \<Rightarrow> pass_event list \<Rightarrow> solveBudget \<Rightarrow> solveBudget" where
  "run_budget sig limit [] b = b"
| "run_budget sig limit ((now, k, i) # es) b = run_budget sig limit es (snd (budget_add k sig i limit now b))"

definition ids_of :: "string \<Rightarrow> pass_event list \<Rightarrow> nat set" where
  "ids_of key es = {i. \<exists>t. (t, key, i) \<in> set es}"

definition one_day :: "int \<Rightarrow> pass_event list \<Rightarrow> bool" where
  "one_day t0 es \<longleftrightarrow> (\<forall>(t, k, i) \<in> set es. t0 \<le> t \<and> t \<le> t0 + solveBudgetWindow \<and> i \<noteq> 0)"

lemma key_ids_added:
  assumes "count_of k now m = (case map_of m k of Some c \<Rightarrow> c | None \<Rightarrow> \<lparr>sc_ids = [], sc_since = now, sc_banned = False\<rparr>)"
    and "ids_ok limit S (key_ids key m)" "0 \<le> limit"
  shows "ids_ok limit (if k = key then insert i S else S) (key_ids key (aput k (added k i limit now m) m))"
    and "k = key \<Longrightarrow> ids_ok limit (insert i S) (sc_ids (added k i limit now m))"
proof -
  show a: "ids_ok limit (insert i S) (sc_ids (added k i limit now m))" if "k = key"
    using ids_ok_insert [OF assms(2,3), of i] assms(1) that by (auto simp: added_def key_ids_def Let_def split: option.splits)
  show "ids_ok limit (if k = key then insert i S else S) (key_ids key (aput k (added k i limit now m) m))"
    using a assms(2) by (auto simp: key_ids_def)
qed

lemma run_budget_day:
  assumes "live_counts t0 sig b m" "one_day t0 es" "length m + length es \<le> solveBudgetKeysMax" "sig \<noteq> []" "0 \<le> limit"
    and "ids_ok limit S (key_ids key m)"
  shows "\<exists>m'. live_counts t0 sig (run_budget sig limit es b) m' \<and> length m' \<le> length m + length es \<and> ids_ok limit (S \<union> ids_of key es) (key_ids key m')"
  using assms
proof (induction es arbitrary: b m S)
  case Nil
  then show ?case by (auto simp: ids_of_def)
next
  case (Cons e es)
  obtain now k i where e: "e = (now, k, i)" by (metis prod.collapse)
  obtain cnt st b' where b': "budget_add k sig i limit now b = ((cnt, st), b')" by (metis prod.collapse)
  let ?m = "aput k (added k i limit now m) m"
  have "t0 \<le> now" "now \<le> t0 + solveBudgetWindow" "i \<noteq> 0" "length m < solveBudgetKeysMax" using Cons.prems(2,3) by (auto simp: one_day_def e)
  note l = budget_add_live [OF Cons.prems(1) this(1,2,4) own_identity_own [OF this(3), symmetric] Cons.prems(4) b']
  have "length ?m \<le> Suc (length m)" using length_adel_le [of k m] by (simp add: aput_def)
  moreover have "(if k = key then insert i S else S) \<union> ids_of key es = S \<union> ids_of key (e # es)" by (auto simp: ids_of_def e)
  ultimately show ?case
    using Cons.IH [OF l(4) _ _ Cons.prems(4,5) key_ids_added(1) [OF l(5) Cons.prems(6,5)]] Cons.prems(2,3) b' by (auto simp: one_day_def e)
qed

subsection \<open>Reports and bans\<close>

lemma aput_aput [simp]: "aput k c' (aput k c m) = aput k c' m"
  by (simp add: aput_def adel_def)

lemma budget_sig_ne: "budget_sig cfg \<noteq> []"
  by (simp add: budget_sig_def Let_def)

text \<open>One report on a day's table: the count of its client, and the ban when it is the first over the budget.\<close>

lemma countPass_live:
  fixes ja4 :: string
  assumes "live_counts t0 (budget_sig cfg) b mm" "t0 \<le> now" "now \<le> t0 + solveBudgetWindow" "length mm < solveBudgetKeysMax"
    and "counted_pass pb n e ip kind" "bg_changedAt b = None" "h = fst (own_identity (passIDHash i) b)"
  defines "k \<equiv> budget_key ip ja4" and "L \<equiv> ResolvedPerDay pb"
  defines "c \<equiv> added k h L now mm"
  defines "over \<equiv> L < int (length (sc_ids c))"
  obtains b' where "countPass pb cfg n e v now ip ja4 site kind i (b, mg)
      = (b', if over \<and> \<not> sc_banned c then budget_ban pb v ip ja4 site (int (length (sc_ids c))) mg else mg)"
    and "live_counts t0 (budget_sig cfg) b' (aput k (c\<lparr>sc_banned := sc_banned c \<or> over\<rparr>) mm)" "bg_changedAt b' = None"
proof -
  obtain cnt st b1 where a: "budget_add k (budget_sig cfg) (passIDHash i) L now b = ((cnt, st), b1)" by (metis prod.collapse)
  note l = budget_add_live [OF assms(1-4,7) budget_sig_ne a]
  have st: "\<not> st" using l(6) assms(6) by simp
  have b1: "bg_counts b1 = Some (aput k c mm)" "cnt = int (length (sc_ids c))" "bg_changedAt b1 = None" "bg_sig b1 = budget_sig cfg"
    using l assms(6) by (simp_all add: c_def)
  have m: "markBanned k b1 = (\<not> sc_banned c, if sc_banned c then b1 else b1\<lparr>bg_counts := Some (aput k (c\<lparr>sc_banned := True\<rparr>) mm)\<rparr>)"
    using b1(1) by (simp add: markBanned_def)
  have live: "live_counts t0 (budget_sig cfg) b1 (aput k c mm)" using l(4) by (simp add: c_def)
  then have t0: "t0 \<le> sc_since c" "amap_wf mm" "\<forall>(k, c) \<in> set (adel k mm). t0 \<le> sc_since c"
    using assms(1) by (auto simp: live_counts_def aput_def adel_def)
  show thesis
  proof (cases "over \<and> \<not> sc_banned c")
    case True
    then have "countPass pb cfg n e v now ip ja4 site kind i (b, mg)
        = (b1\<lparr>bg_counts := Some (aput k (c\<lparr>sc_banned := True\<rparr>) mm)\<rparr>, budget_ban pb v ip ja4 site (int (length (sc_ids c))) mg)"
      using a assms(5) st m b1(2) by (simp add: countPass_def Let_def k_def [symmetric] L_def [symmetric] over_def)
    moreover have "live_counts t0 (budget_sig cfg) (b1\<lparr>bg_counts := Some (aput k (c\<lparr>sc_banned := True\<rparr>) mm)\<rparr>) (aput k (c\<lparr>sc_banned := True\<rparr>) mm)"
      using t0 b1(4) amap_wf_aput [OF t0(2), of k "c\<lparr>sc_banned := True\<rparr>"] by (auto simp: live_counts_def aput_def)
    ultimately show thesis using True b1(3) by (intro that [of "b1\<lparr>bg_counts := Some (aput k (c\<lparr>sc_banned := True\<rparr>) mm)\<rparr>"]) simp_all
  next
    case False
    then have "countPass pb cfg n e v now ip ja4 site kind i (b, mg) = (b1, mg)"
      using a assms(5) st m b1(2) by (auto simp: countPass_def Let_def k_def [symmetric] L_def [symmetric] over_def)
    moreover have "c\<lparr>sc_banned := sc_banned c \<or> over\<rparr> = c" using False by (cases c) auto
    ultimately show thesis using False live b1(3) by (intro that) auto
  qed
qed

record pass_report =
  pr_v :: BanEnv
  pr_now :: int
  pr_ip :: string
  pr_ja4 :: string
  pr_site :: string
  pr_kind :: string
  pr_id :: string

definition report :: "PassBudgetConfig \<Rightarrow> VerifyCfg \<Rightarrow> Nginx \<Rightarrow> BudgetEnv \<Rightarrow> pass_report \<Rightarrow> solveBudget \<times> Manager \<Rightarrow> solveBudget \<times> Manager" where
  "report pb cfg n e r st = countPass pb cfg n e (pr_v r) (pr_now r) (pr_ip r) (pr_ja4 r) (pr_site r) (pr_kind r) (pr_id r) st"

definition counted :: "PassBudgetConfig \<Rightarrow> Nginx \<Rightarrow> BudgetEnv \<Rightarrow> pass_report \<Rightarrow> bool" where
  "counted pb n e r = counted_pass pb n e (pr_ip r) (pr_kind r)"

definition report_key :: "pass_report \<Rightarrow> string" where
  "report_key r = budget_key (pr_ip r) (pr_ja4 r)"

definition shown_ids :: "PassBudgetConfig \<Rightarrow> Nginx \<Rightarrow> BudgetEnv \<Rightarrow> string \<Rightarrow> pass_report list \<Rightarrow> nat set" where
  "shown_ids pb n e key rs = {passIDHash (pr_id r) | r. r \<in> set rs \<and> counted pb n e r \<and> report_key r = key}"

definition report_day :: "int \<Rightarrow> pass_report list \<Rightarrow> bool" where
  "report_day t0 rs \<longleftrightarrow> (\<forall>r \<in> set rs. t0 \<le> pr_now r \<and> pr_now r \<le> t0 + solveBudgetWindow \<and> passIDHash (pr_id r) \<noteq> 0)"

text \<open>The state of a day: nobody is settling, the identities of one client, and only clients over the budget are marked.\<close>

definition day_ok :: "int \<Rightarrow> string \<Rightarrow> int \<Rightarrow> string \<Rightarrow> nat set \<Rightarrow> nat \<Rightarrow> solveBudget \<Rightarrow> bool" where
  "day_ok t0 sig L key S N b \<longleftrightarrow> bg_changedAt b = None \<and> (\<exists>mm. live_counts t0 sig b mm \<and> length mm \<le> N \<and> ids_ok L S (key_ids key mm)
     \<and> (\<forall>(k, c) \<in> set mm. sc_banned c \<longrightarrow> L < int (length (sc_ids c))))"

lemma ResolvedPerDay_pos: "0 \<le> ResolvedPerDay pb"
  by (simp add: ResolvedPerDay_def)

lemma report_day_ok:
  assumes "day_ok t0 (budget_sig cfg) (ResolvedPerDay pb) key S N b" "N < solveBudgetKeysMax"
    and "t0 \<le> pr_now r" "pr_now r \<le> t0 + solveBudgetWindow" "passIDHash (pr_id r) \<noteq> 0"
  shows "day_ok t0 (budget_sig cfg) (ResolvedPerDay pb) key
     (if counted pb n e r \<and> report_key r = key then insert (passIDHash (pr_id r)) S else S) (Suc N) (fst (report pb cfg n e r (b, mg)))"
proof (cases "counted pb n e r")
  case False
  then show ?thesis using assms(1) by (auto simp: report_def countPass_def counted_def day_ok_def)
next
  case True
  let ?L = "ResolvedPerDay pb" and ?i = "passIDHash (pr_id r)" and ?k = "report_key r"
  obtain mm where mm: "live_counts t0 (budget_sig cfg) b mm" "length mm \<le> N" "ids_ok ?L S (key_ids key mm)"
      "\<forall>(k, c) \<in> set mm. sc_banned c \<longrightarrow> ?L < int (length (sc_ids c))" "bg_changedAt b = None"
    using assms(1) by (auto simp: day_ok_def)
  define c where "c = added ?k ?i ?L (pr_now r) mm"
  let ?c = "c\<lparr>sc_banned := sc_banned c \<or> ?L < int (length (sc_ids c))\<rparr>"
  have "length mm < solveBudgetKeysMax" using mm(2) assms(2) by simp
  note own = own_identity_own [OF assms(5), of b, symmetric]
  obtain b' where b': "fst (report pb cfg n e r (b, mg)) = b'" "live_counts t0 (budget_sig cfg) b' (aput ?k ?c mm)" "bg_changedAt b' = None"
    using countPass_live [OF mm(1) assms(3,4) \<open>length mm < _\<close> _ mm(5) own, where pb = pb and n = n and e = e and ip = "pr_ip r" and kind = "pr_kind r"
        and ?ja4.0 = "pr_ja4 r" and v = "pr_v r" and site = "pr_site r" and mg = mg] True
    unfolding report_def counted_def report_key_def c_def by (metis fst_conv)
  have co: "count_of ?k (pr_now r) mm = (case map_of mm ?k of Some c \<Rightarrow> c | None \<Rightarrow> \<lparr>sc_ids = [], sc_since = pr_now r, sc_banned = False\<rparr>)"
  proof -
    obtain x y where "budget_add ?k (budget_sig cfg) ?i ?L (pr_now r) b = (x, y)" by (metis prod.collapse)
    then show ?thesis using budget_add_live(5) [OF mm(1) assms(3,4) \<open>length mm < _\<close> own budget_sig_ne] by (metis prod.collapse)
  qed
  have "ids_ok ?L (if ?k = key then insert ?i S else S) (key_ids key (aput ?k ?c mm))"
    using key_ids_added(1) [OF co mm(3) ResolvedPerDay_pos, of ?i] by (auto simp: key_ids_def c_def)
  moreover have "sc_banned c \<longrightarrow> ?L < int (length (sc_ids c))"
    using co mm(4) by (fastforce simp: c_def added_def Let_def split: option.splits dest: map_of_SomeD)
  then have "\<forall>(k, c) \<in> set (aput ?k ?c mm). sc_banned c \<longrightarrow> ?L < int (length (sc_ids c))"
    using mm(4) by (auto simp: aput_def adel_def)
  moreover have "length (aput ?k ?c mm) \<le> Suc N" using mm(2) length_adel_le [of ?k mm] by (simp add: aput_def)
  ultimately show ?thesis using b' True by (auto simp: day_ok_def)
qed

lemma reports_day_ok:
  assumes "day_ok t0 (budget_sig cfg) (ResolvedPerDay pb) key S N (fst st)" "report_day t0 rs" "N + length rs \<le> solveBudgetKeysMax"
  shows "day_ok t0 (budget_sig cfg) (ResolvedPerDay pb) key (S \<union> shown_ids pb n e key rs) (N + length rs) (fst (fold (report pb cfg n e) rs st))"
  using assms
proof (induction rs arbitrary: st S N)
  case Nil
  then show ?case by (simp add: shown_ids_def)
next
  case (Cons r rs)
  have "day_ok t0 (budget_sig cfg) (ResolvedPerDay pb) key
     (if counted pb n e r \<and> report_key r = key then insert (passIDHash (pr_id r)) S else S) (Suc N) (fst (report pb cfg n e r st))"
    using report_day_ok [of t0 cfg pb key S N "fst st" r n e "snd st"] Cons.prems by (simp add: report_day_def)
  moreover have "(if counted pb n e r \<and> report_key r = key then insert (passIDHash (pr_id r)) S else S) \<union> shown_ids pb n e key rs
      = S \<union> shown_ids pb n e key (r # rs)" by (auto simp: shown_ids_def)
  moreover have "report_day t0 rs" "Suc N + length rs \<le> solveBudgetKeysMax" using Cons.prems(2,3) by (simp_all add: report_day_def)
  ultimately show ?case using Cons.IH [of _ "Suc N" "report pb cfg n e r st"] by fastforce
qed

text \<open>A ban \<open>AddAuto\<close> places is in force at once, as one of \<open>AddWithSourceAction\<close> is.\<close>

lemma auto_ban_holds:
  assumes ok: "mgr_ok m" "g_lifted m = []" "length (g_held m) < heldBansMax" "v_load v" and ip: "client_address ip"
    and out: "\<not> isWhitelisted m (normalizeIP ip)" "\<not> isEgress m (normalizeIP ip)" and key: "validateBanKey (normalizeIP ip) ja4 = None \<and> trim_space ja4 = ja4"
    and t: "in64 (v_now v + secs)"
  shows "IsBanned v ip ja4 (AddAuto v ip ja4 (DeriveScope (normalizeIP ip) ja4) source reason action secs m)"
proof -
  let ?ip = "normalizeIP ip" and ?x = "expiry v secs"
  let ?sc = "DeriveScope ?ip ja4"
  let ?b = "ban_row v ?ip ja4 source reason [] (trim_space action) ?sc ?x"
  let ?m' = "AddAuto v ip ja4 ?sc source reason action secs m"
  have mok: "mirror_ok m" using ok(1) by (simp add: mgr_ok_def)
  note ipD = client_addressD [OF ip]
  have x: "?x = 0 \<or> ?x > v_now v" using t by (rule expiry_live)
  have sc: "(if ?sc = [] \<or> ja4 = [] \<and> (?sc = ScopeIPJA4 \<or> ?sc = ScopeJA4Only) then DeriveScope ?ip ja4 else ValidateScope ?sc) = ?sc"
    by (auto simp: DeriveScope_def ValidateScope_def)
  have m': "?m' = (if v_held v then keep_ban v ?b m
       else case upsert v ?b m of (False, m) \<Rightarrow> wakeLoop (keep_ban v ?b m)
         | (True, m) \<Rightarrow> let m = written v ?b m;
             m = (if ?sc = ScopeIPJA4 \<and> ja4 \<noteq> [] then escalateIP v ?ip source (trim_space action) (v_now v) ?x m else m)
           in escalate64 v ?ip source (trim_space action) (v_now v) ?x m)"
    using ipD(2) out key sc by (simp add: AddAuto_def Let_def)
  show ?thesis
  proof (cases "v_held v \<or> \<not> v_write v ?ip ja4 ?sc")
    case True
    have core: "same_core h (requestFlush v (markDirty h))" "same_core h (wakeLoop h)" for h
      by (meson core_markDirty core_requestFlush same_core_trans) (simp add: wakeLoop_def same_core_def)
    have "same_core (snd (hold (ban_held ?b False) m)) (keep_ban v ?b m)" using core by (simp add: keep_ban_def)
    then have "same_core (snd (hold (ban_held ?b False) m)) ?m'"
      using True core(2) by (auto simp: m' upsert_def ban_row_def intro: same_core_trans)
    then show ?thesis using x by (intro IsBanned_kept [OF ip ok(3)]) (auto simp: ban_held_def ban_row_def)
  next
    case False
    let ?w = "written v ?b (upsertOn ?b m)"
    have w: "placed ?ip ja4 ?sc (v_now v) ?w"
      using written_places [OF mok ok(2), of ?b v] ipD x by (simp add: ban_row_def row_live_def key_settled_def)
    have "placed ?ip ja4 ?sc (v_now v) ?m' \<and> g_egressFn ?m' = g_egressFn ?w"
      using False ipD w x by (auto simp: m' upsert_def ban_row_def Let_def intro!: placed_escalate64 placed_escalateIP)
    moreover have "isEgress ?w ?ip = isEgress m ?ip"
      using isEgress_core [OF core_written [of "upsertOn ?b m" v ?b]] by (simp add: isEgress_def upsertOn_def)
    ultimately show ?thesis using ok(4) ipD out(2) by (intro IsBanned_placed) (auto simp: isEgress_def)
  qed
qed

section \<open>Properties\<close>

text \<open>
  C10: The budget counts distinct passes. Whatever passes of whatever clients are reported in a
  day, in whatever order and however often, below the cap of clients, the count a pass is
  answered with is the number of distinct identities its client has shown so far, the pass
  included, cut one past the limit.
\<close>

theorem budget_counts_distinct_passes:
  assumes "one_day t0 (es @ [(now, key, i)])" "length es < solveBudgetKeysMax" "sig \<noteq> []" "0 \<le> limit"
    and "budget_add key sig i limit now (run_budget sig limit es new_budget) = ((cnt, settling), b')"
  shows "cnt = min (limit + 1) (int (card (ids_of key (es @ [(now, key, i)]))))"
proof -
  have "live_counts t0 sig new_budget []" using assms(3) by (simp add: live_counts_def new_budget_def)
  moreover have "ids_ok limit {} (key_ids key [])" using assms(4) by (simp add: ids_ok_def key_ids_def)
  ultimately obtain m where m: "live_counts t0 sig (run_budget sig limit es new_budget) m" "length m \<le> length es" "ids_ok limit (ids_of key es) (key_ids key m)"
    using run_budget_day [of t0 sig new_budget "[]" es limit "{}" key] assms(1-4) by (auto simp: one_day_def)
  have "t0 \<le> now" "now \<le> t0 + solveBudgetWindow" "i \<noteq> 0" "length m < solveBudgetKeysMax" using assms(1,2) m(2) by (auto simp: one_day_def)
  note l = budget_add_live [OF m(1) this(1,2,4) own_identity_own [OF this(3), symmetric] assms(3,5)]
  have "insert i (ids_of key es) = ids_of key (es @ [(now, key, i)])" by (auto simp: ids_of_def)
  then show ?thesis using l(1) ids_ok_count [OF key_ids_added(2) [OF l(5) m(3) assms(4) refl]] by simp
qed

text \<open>
  C11: Over the budget, banned at once. In a day without a settings change and below the cap
  of clients, the report that brings a client's distinct passes over the budget, whatever
  the other clients' reports before it, places a ban that is in force when the handler
  returns: whatever the database does with the write, the check answers banned for this
  address and fingerprint.
\<close>

theorem over_budget_banned_at_once:
  assumes "report_day t0 (rs @ [r])" "length rs < solveBudgetKeysMax" "counted pb n e r"
    and "int (card (shown_ids pb n e (report_key r) rs)) = ResolvedPerDay pb" "passIDHash (pr_id r) \<notin> shown_ids pb n e (report_key r) rs"
    and "(b, m) = fold (report pb cfg n e) rs (new_budget, m0)"
    and mgr: "mgr_ok m" "g_lifted m = []" "length (g_held m) < heldBansMax" "v_load (pr_v r)"
    and ip: "client_address (pr_ip r)" "\<not> isWhitelisted m (normalizeIP (pr_ip r))" "\<not> isEgress m (normalizeIP (pr_ip r))"
    and key: "validateBanKey (normalizeIP (pr_ip r)) (pr_ja4 r) = None" "trim_space (pr_ja4 r) = pr_ja4 r"
    and clock: "in64 (v_now (pr_v r) + ResolvedBanHours pb * 3600)"
  shows "IsBanned (pr_v r) (pr_ip r) (pr_ja4 r) (snd (report pb cfg n e r (b, m)))"
proof -
  let ?L = "ResolvedPerDay pb" and ?k = "report_key r" and ?i = "passIDHash (pr_id r)"
  have "day_ok t0 (budget_sig cfg) ?L ?k {} 0 new_budget"
    using budget_sig_ne [of cfg] by (force simp: day_ok_def live_counts_def new_budget_def ids_ok_def key_ids_def ResolvedPerDay_def)
  from reports_day_ok [of t0 cfg pb ?k "{}" 0 "(new_budget, m0)" rs n e] this
  have "day_ok t0 (budget_sig cfg) ?L ?k (shown_ids pb n e ?k rs) (length rs) b"
    using assms(1,2,6) by (simp add: report_day_def) (metis fst_conv)
  then obtain mm where mm: "live_counts t0 (budget_sig cfg) b mm" "length mm \<le> length rs" "ids_ok ?L (shown_ids pb n e ?k rs) (key_ids ?k mm)"
      "\<forall>(k, c) \<in> set mm. sc_banned c \<longrightarrow> ?L < int (length (sc_ids c))" "bg_changedAt b = None"
    by (auto simp: day_ok_def)
  have t: "t0 \<le> pr_now r" "pr_now r \<le> t0 + solveBudgetWindow" "?i \<noteq> 0" "length mm < solveBudgetKeysMax" using assms(1,2) mm(2) by (auto simp: report_day_def)
  note own = own_identity_own [OF t(3), of b, symmetric]
  define c where "c = added ?k ?i ?L (pr_now r) mm"
  have co: "count_of ?k (pr_now r) mm = (case map_of mm ?k of Some c \<Rightarrow> c | None \<Rightarrow> \<lparr>sc_ids = [], sc_since = pr_now r, sc_banned = False\<rparr>)"
  proof -
    obtain x y where "budget_add ?k (budget_sig cfg) ?i ?L (pr_now r) b = (x, y)" by (metis prod.collapse)
    then show ?thesis using budget_add_live(5) [OF mm(1) t(1,2,4) own budget_sig_ne] by (metis prod.collapse)
  qed
  have "int (length (key_ids ?k mm)) = ?L" using ids_ok_count [OF mm(3)] assms(4) by simp
  then have "\<not> sc_banned (count_of ?k (pr_now r) mm)"
    unfolding co using mm(4) by (fastforce simp: key_ids_def split: option.splits dest: map_of_SomeD)
  then have nb: "\<not> sc_banned c" by (simp add: c_def added_def Let_def)
  have "ids_ok ?L (insert ?i (shown_ids pb n e ?k rs)) (sc_ids c)" using key_ids_added(2) [OF co mm(3) ResolvedPerDay_pos refl] by (simp add: c_def)
  moreover have "finite (shown_ids pb n e ?k rs)" using mm(3) by (simp add: ids_ok_def)
  ultimately have over: "int (length (sc_ids c)) = ?L + 1" using ids_ok_count assms(4,5) by fastforce
  note cl = countPass_live [OF mm(1) t(1,2,4) _ mm(5) own, where pb = pb and n = n and e = e and ip = "pr_ip r" and kind = "pr_kind r"
        and ?ja4.0 = "pr_ja4 r" and v = "pr_v r" and site = "pr_site r" and mg = m]
  obtain b' where "report pb cfg n e r (b, m) = (b', budget_ban pb (pr_v r) (pr_ip r) (pr_ja4 r) (pr_site r) (?L + 1) m)"
  proof (rule cl)
    show "counted_pass pb n e (pr_ip r) (pr_kind r)" using assms(3) by (simp add: counted_def)
  qed (use nb over that in \<open>simp add: report_def report_key_def c_def\<close>)
  then have out: "snd (report pb cfg n e r (b, m)) = budget_ban pb (pr_v r) (pr_ip r) (pr_ja4 r) (pr_site r) (?L + 1) m" by simp
  show ?thesis unfolding out budget_ban_def using auto_ban_holds [OF mgr ip _ clock, of "pr_ja4 r"] key
    by (auto simp: DeriveScope_def client_addressD(2) [OF ip(1)])
qed

text \<open>
  One ban a day, however many addresses. Once a client is banned for its passes, no report
  of any client with the same budget key, for the rest of its day, bans anybody: neither the
  other addresses of an IPv6 /48, which share the key while the ban holds for one address,
  nor the banned address itself after a ban shorter than the day has ended.
\<close>

lemma budget_bans_once_a_day:
  assumes "bg_counts b = Some mm" "bg_sig b = budget_sig cfg" "bg_changedAt b = None" "amap_wf mm" "length mm < solveBudgetKeysMax"
    and "map_of mm key = Some c" "sc_banned c" "\<forall>(k, c) \<in> set mm. t0 \<le> sc_since c"
    and "report_day t0 rs" "\<forall>r \<in> set rs. report_key r = key"
  shows "snd (fold (report pb cfg n e) rs (b, m)) = m"
  using assms
proof (induction rs arbitrary: b mm c)
  case (Cons r rs)
  let ?c = "added key (passIDHash (pr_id r)) (ResolvedPerDay pb) (pr_now r) mm"
  have live: "live_counts t0 (budget_sig cfg) b mm" using Cons.prems by (simp add: live_counts_def)
  have t: "t0 \<le> pr_now r" "pr_now r \<le> t0 + solveBudgetWindow" "passIDHash (pr_id r) \<noteq> 0" "report_key r = key" using Cons.prems(9,10) by (auto simp: report_day_def)
  show ?case
  proof (cases "counted pb n e r")
    case False
    then have "report pb cfg n e r (b, m) = (b, m)" by (simp add: report_def countPass_def counted_def)
    then show ?thesis using Cons.IH [OF Cons.prems(1-8)] Cons.prems(9,10) by (simp add: report_day_def)
  next
    case True
    have "count_of key (pr_now r) mm = c"
    proof -
      have "t0 \<le> sc_since c" using Cons.prems(6,8) by (fastforce dest: map_of_SomeD)
      then show ?thesis using Cons.prems(6) t(2) by (simp add: count_of_def)
    qed
    then have ban: "sc_banned ?c" "t0 \<le> sc_since ?c" using Cons.prems(6-8) by (auto simp: added_def Let_def dest: map_of_SomeD)
    note cl = countPass_live [OF live t(1,2) Cons.prems(5) _ Cons.prems(3) own_identity_own [OF t(3), of b, symmetric], where pb = pb and n = n and e = e
          and ip = "pr_ip r" and kind = "pr_kind r" and ?ja4.0 = "pr_ja4 r" and v = "pr_v r" and site = "pr_site r" and mg = m]
    obtain b' where b': "report pb cfg n e r (b, m) = (b', m)"
        "live_counts t0 (budget_sig cfg) b' (aput key (?c\<lparr>sc_banned := True\<rparr>) mm)" "bg_changedAt b' = None"
    proof (rule cl)
      show "counted_pass pb n e (pr_ip r) (pr_kind r)" using True by (simp add: counted_def)
    qed (use ban t(4) that in \<open>simp add: report_def report_key_def\<close>)
    let ?mm = "aput key (?c\<lparr>sc_banned := True\<rparr>) mm"
    have "bg_sig b' = budget_sig cfg" "bg_counts b' = Some ?mm" using b'(2) by (auto simp: live_counts_def aput_def split: if_splits)
    moreover have "amap_wf ?mm" "\<forall>(k, c) \<in> set ?mm. t0 \<le> sc_since c" using b'(2) by (auto simp: live_counts_def)
    moreover have "length ?mm < solveBudgetKeysMax" using length_aput_present [OF Cons.prems(4,6)] Cons.prems(5) by simp
    ultimately show ?thesis
      using Cons.IH [of b' ?mm "?c\<lparr>sc_banned := True\<rparr>"] b'(1,3) Cons.prems(9,10) by (simp add: report_day_def)
  qed
qed simp


section \<open>Evaluation\<close>

text \<open>A budget of one pass a day; the limit's settings are else the defaults.\<close>

definition demo_budget :: PassBudgetConfig where
  "demo_budget = \<lparr>pb_Disabled = False, pb_PerDay = 1, pb_Action = [], pb_BanHours = 0\<rparr>"

definition demo_budget_env :: BudgetEnv where
  "demo_budget_env = \<lparr>be_hasBanMgr = True, be_bypass = (\<lambda>_. False), be_relay = (\<lambda>_. False)\<rparr>"

definition demo_report :: "int \<Rightarrow> string \<Rightarrow> string \<Rightarrow> pass_report" where
  "demo_report t ip i = \<lparr>pr_v = exMoment, pr_now = t, pr_ip = ip, pr_ja4 = ''t13d'', pr_site = [], pr_kind = ''pow'', pr_id = i\<rparr>"

lemma demo_reports:
  "ResolvedPerDay demo_budget = 1" "ResolvedBanHours demo_budget = 24" "counted demo_budget (s_Nginx exSettings) demo_budget_env (demo_report t ''203.0.113.9'' i)"
  "passIDHash ''a'' \<noteq> 0" "passIDHash ''b'' \<noteq> 0" "passIDHash ''a'' \<noteq> passIDHash ''b''"
  "budget_key ''2001:db8:1:2::5'' ''t13d'' = budget_key ''2001:db8:1::1'' ''t13d''"
  by (simp_all add: ResolvedPerDay_def ResolvedBanHours_def demo_budget_def counted_def counted_pass_def demo_report_def demo_budget_env_def PassBudgetActive_def
      exSettings_def EnforcementHeld_def ResolvedUpgradeReviewPolicy_def, code_simp+)

theorem budget_counts_distinct_passes_witness:
  "fst (fst (budget_add ''k'' ''s'' 6 500 2 (run_budget ''s'' 500 [(0, ''k'', 5), (0, ''o'', 7), (1, ''k'', 5)] new_budget))) = 2"
proof -
  obtain cnt st b' where a: "budget_add ''k'' ''s'' 6 500 2 (run_budget ''s'' 500 [(0, ''k'', 5), (0, ''o'', 7), (1, ''k'', 5)] new_budget) = ((cnt, st), b')"
    by (metis prod.collapse)
  have "ids_of ''k'' ([(0, ''k'', 5), (0, ''o'', 7), (1, ''k'', 5)] @ [(2, ''k'', 6)]) = {5, 6}" by (auto simp: ids_of_def)
  then show ?thesis
    using budget_counts_distinct_passes [OF _ _ _ _ a, of 0] a by (simp add: one_day_def solveBudgetWindow_def trace_second_def solveBudgetKeysMax_def)
qed

theorem over_budget_banned_at_once_witness:
  "IsBanned exMoment ''203.0.113.9'' ''t13d''
     (snd (fold (report demo_budget demo_cfg (s_Nginx exSettings) demo_budget_env) [demo_report 0 ''203.0.113.9'' ''a'', demo_report 5 ''203.0.113.9'' ''b'']
       (new_budget, exManager)))"
proof -
  let ?n = "s_Nginx exSettings" and ?r = "demo_report 0 ''203.0.113.9'' ''a''" and ?r' = "demo_report 5 ''203.0.113.9'' ''b''"
  have one: "snd (report demo_budget demo_cfg ?n demo_budget_env ?r (new_budget, exManager)) = exManager"
    using demo_reports(1,4) budget_sig_ne [of demo_cfg]
    by (auto simp: report_def countPass_def budget_add_def own_identity_def see_sig_def swept_counts_def count_of_def new_budget_def demo_report_def Let_def)
  have ids: "shown_ids demo_budget ?n demo_budget_env (report_key ?r') [?r] = {passIDHash ''a''}"
    using demo_reports(3) [of 0 "''a''"] by (auto simp: shown_ids_def report_key_def demo_report_def)
  have day: "report_day 0 ([?r] @ [?r'])" using demo_reports(4,5)
    by (simp add: report_day_def demo_report_def solveBudgetWindow_def trace_second_def)
  have ip: "client_address ''203.0.113.9''" "validateBanKey (normalizeIP ''203.0.113.9'') ''t13d'' = None" "trim_space ''t13d'' = ''t13d''" by code_simp+
  have m: "\<not> isWhitelisted exManager (normalizeIP ''203.0.113.9'')" "\<not> isEgress exManager (normalizeIP ''203.0.113.9'')"
    "g_lifted exManager = []" "length (g_held exManager) < heldBansMax" "v_load exMoment" "in64 (v_now exMoment + 24 * 3600)"
    by (simp_all add: exManager_def Ban_Manager.New_def heldBansMax_def isWhitelisted_def isEgress_def exMoment_def in64_def)
  obtain b where b: "report demo_budget demo_cfg ?n demo_budget_env ?r (new_budget, exManager) = (b, exManager)" using one by (metis prod.collapse)
  show ?thesis
    using over_budget_banned_at_once [OF day _ demo_reports(3) _ _ _ exManager_ok, where cfg = demo_cfg and b = b and ?m0.0 = exManager] ids ip m demo_reports(1,2,6) b
    by (simp add: demo_report_def solveBudgetKeysMax_def)
qed

end
