(* ===== verification/Users.thy ===== *)
theory Users
  imports Go_Crypto
begin

text \<open>
  The operators' accounts (\<open>user/user.go\<close>): the table and the repository's operations on it.
  Text columns compare byte by byte. A statement may fail; what an update reports as affected rows depends on the driver (the
  rows matched under SQLite, the rows changed under MariaDB). Password hashing (argon2id) is
  an argument. Sign-in times, languages and the audit log are not modelled.
\<close>

section \<open>Definitions\<close>

subsection \<open>Roles and passwords\<close>

definition RoleSuperadmin :: string where "RoleSuperadmin = ''superadmin''"
definition RoleAdmin :: string where "RoleAdmin = ''admin''"
definition RoleViewer :: string where "RoleViewer = ''viewer''"

lemmas role_defs = RoleSuperadmin_def RoleAdmin_def RoleViewer_def

definition IsValidRole :: "string \<Rightarrow> bool" where
  "IsValidRole r \<longleftrightarrow> r = RoleSuperadmin \<or> r = RoleAdmin \<or> r = RoleViewer"

definition CanManageUsers :: "string \<Rightarrow> bool" where "CanManageUsers role \<longleftrightarrow> role = RoleSuperadmin"

definition CanWrite :: "string \<Rightarrow> bool" where "CanWrite role \<longleftrightarrow> role = RoleSuperadmin \<or> role = RoleAdmin"

definition CanReadAudit :: "string \<Rightarrow> bool" where "CanReadAudit role \<longleftrightarrow> role = RoleSuperadmin \<or> role = RoleAdmin"

definition MinPasswordLen :: nat where "MinPasswordLen = 8"
definition MaxPasswordLen :: nat where "MaxPasswordLen = 1024"

definition ValidatePassword :: "string \<Rightarrow> bool" where
  "ValidatePassword plain \<longleftrightarrow> MinPasswordLen \<le> length plain \<and> length plain \<le> MaxPasswordLen"

text \<open>\<open>HashPassword\<close> around \<open>argon2Key\<close>: \<open>kdf\<close> is None when no hashing slot came free.\<close>

definition HashPassword :: "(string \<Rightarrow> string option) \<Rightarrow> string \<Rightarrow> string option" where
  "HashPassword kdf plain = (if plain = [] \<or> length plain > MaxPasswordLen then None else kdf plain)"

subsection \<open>The table\<close>

record User =
  ur_ID :: int
  ur_Username :: string
  ur_PasswordHash :: string
  ur_Role :: string
  ur_Email :: "string option"
  ur_AlertOptOut :: bool
  ur_Disabled :: bool
  ur_PasswordLocked :: bool
  ur_SessionGen :: int
  ur_ResetToken :: "string option"
  ur_ResetTokenExpiresAt :: "int option"

text \<open>\<open>unmask_user\<close> with the counter behind \<open>AUTOINCREMENT\<close>.\<close>

record Accounts =
  ac_rows :: "User list"
  ac_next :: int

datatype UserErr = ErrNotFound | ErrUsernameTaken | ErrLastSuperadmin | ErrInvalid | ErrDatabase

datatype Stmt = SelectUser | CountAdmins | UpdateUser | InsertUser | DeleteUser

datatype Driver = SQLite | MariaDB

record UserDB =
  ud_driver :: Driver
  ud_ok :: "Stmt \<Rightarrow> bool"

definition find_user :: "int \<Rightarrow> Accounts \<Rightarrow> User option" where
  "find_user i a = find (\<lambda>u. ur_ID u = i) (ac_rows a)"

definition GetByID :: "UserDB \<Rightarrow> int \<Rightarrow> Accounts \<Rightarrow> UserErr + User" where
  "GetByID d i a =
     (if \<not> ud_ok d SelectUser then Inl ErrDatabase
      else case find_user i a of None \<Rightarrow> Inl ErrNotFound | Some u \<Rightarrow> Inr u)"

definition GetByUsername :: "UserDB \<Rightarrow> string \<Rightarrow> Accounts \<Rightarrow> UserErr + User" where
  "GetByUsername d name a =
     (if \<not> ud_ok d SelectUser then Inl ErrDatabase
      else case find (\<lambda>u. ur_Username u = name) (ac_rows a) of None \<Rightarrow> Inl ErrNotFound | Some u \<Rightarrow> Inr u)"

text \<open>\<open>ORDER BY id LIMIT 1\<close>: new rows come last, so the first row of the list.\<close>

definition GetByEmail :: "UserDB \<Rightarrow> string \<Rightarrow> Accounts \<Rightarrow> UserErr + User" where
  "GetByEmail d email0 a =
     (let email = trim_space email0 in
      if email = [] then Inl ErrNotFound
      else if \<not> ud_ok d SelectUser then Inl ErrDatabase
      else case find (\<lambda>u. ur_Email u = Some email) (ac_rows a) of None \<Rightarrow> Inl ErrNotFound | Some u \<Rightarrow> Inr u)"

definition change_rows :: "(User \<Rightarrow> bool) \<Rightarrow> (User \<Rightarrow> User) \<Rightarrow> Accounts \<Rightarrow> Accounts" where
  "change_rows P f a = a\<lparr>ac_rows := map (\<lambda>u. if P u then f u else u) (ac_rows a)\<rparr>"

definition rows_affected :: "UserDB \<Rightarrow> (User \<Rightarrow> bool) \<Rightarrow> (User \<Rightarrow> User) \<Rightarrow> Accounts \<Rightarrow> nat" where
  "rows_affected d P f a = length (filter (\<lambda>u. P u \<and> (ud_driver d = SQLite \<or> f u \<noteq> u)) (ac_rows a))"

text \<open>An update followed by the test of the rows it affected.\<close>

definition update_where :: "UserDB \<Rightarrow> (User \<Rightarrow> bool) \<Rightarrow> (User \<Rightarrow> User) \<Rightarrow> Accounts \<Rightarrow> (UserErr + unit) \<times> Accounts" where
  "update_where d P f a =
     (if \<not> ud_ok d UpdateUser then (Inl ErrDatabase, a)
      else (if rows_affected d P f a = 0 then Inl ErrNotFound else Inr (), change_rows P f a))"

abbreviation update_user :: "UserDB \<Rightarrow> int \<Rightarrow> (User \<Rightarrow> User) \<Rightarrow> Accounts \<Rightarrow> (UserErr + unit) \<times> Accounts" where
  "update_user d i \<equiv> update_where d (\<lambda>u. ur_ID u = i)"

subsection \<open>Operations\<close>

definition CreateWithHash :: "UserDB \<Rightarrow> string \<Rightarrow> string \<Rightarrow> string \<Rightarrow> Accounts \<Rightarrow> (UserErr + User) \<times> Accounts" where
  "CreateWithHash d username0 hash role a =
     (let username = trim_space username0 in
      if username = [] \<or> \<not> IsValidRole role \<or> hash = [] then (Inl ErrInvalid, a)
      else if \<not> ud_ok d InsertUser then (Inl ErrDatabase, a)
      else if list_ex (\<lambda>u. ur_Username u = username) (ac_rows a) then (Inl ErrUsernameTaken, a)
      else let u = \<lparr>ur_ID = ac_next a, ur_Username = username, ur_PasswordHash = hash, ur_Role = role, ur_Email = None,
                 ur_AlertOptOut = False, ur_Disabled = False, ur_PasswordLocked = False, ur_SessionGen = 0,
                 ur_ResetToken = None, ur_ResetTokenExpiresAt = None\<rparr>;
               a = \<lparr>ac_rows = ac_rows a @ [u], ac_next = ac_next a + 1\<rparr>
           in (GetByUsername d username a, a))"

definition CreateUser :: "UserDB \<Rightarrow> (string \<Rightarrow> string option) \<Rightarrow> string \<Rightarrow> string \<Rightarrow> string \<Rightarrow> Accounts \<Rightarrow> (UserErr + User) \<times> Accounts" where
  "CreateUser d kdf username plain role a =
     (case HashPassword kdf plain of None \<Rightarrow> (Inl ErrInvalid, a) | Some h \<Rightarrow> CreateWithHash d username h role a)"

definition bump_gen :: "User \<Rightarrow> User" where
  "bump_gen u = u\<lparr>ur_SessionGen := ur_SessionGen u + 1\<rparr>"

definition SetPassword :: "UserDB \<Rightarrow> (string \<Rightarrow> string option) \<Rightarrow> int \<Rightarrow> string \<Rightarrow> Accounts \<Rightarrow> (UserErr + unit) \<times> Accounts" where
  "SetPassword d kdf i plain a =
     (case HashPassword kdf plain of None \<Rightarrow> (Inl ErrInvalid, a)
      | Some h \<Rightarrow> update_user d i (\<lambda>u. bump_gen (u\<lparr>ur_PasswordHash := h\<rparr>)) a)"

definition BumpSessionGen :: "UserDB \<Rightarrow> int \<Rightarrow> Accounts \<Rightarrow> (UserErr + unit) \<times> Accounts" where
  "BumpSessionGen d i a = update_user d i bump_gen a"

definition RehashPassword :: "UserDB \<Rightarrow> (string \<Rightarrow> string option) \<Rightarrow> int \<Rightarrow> string \<Rightarrow> Accounts \<Rightarrow> (UserErr + unit) \<times> Accounts" where
  "RehashPassword d kdf i plain a =
     (case HashPassword kdf plain of None \<Rightarrow> (Inl ErrInvalid, a)
      | Some h \<Rightarrow> update_user d i (\<lambda>u. u\<lparr>ur_PasswordHash := h\<rparr>) a)"

definition active_superadmin :: "User \<Rightarrow> bool" where
  "active_superadmin u \<longleftrightarrow> ur_Role u = RoleSuperadmin \<and> \<not> ur_Disabled u"

definition otherActiveSuperadmins :: "UserDB \<Rightarrow> int \<Rightarrow> Accounts \<Rightarrow> UserErr + nat" where
  "otherActiveSuperadmins d i a =
     (if \<not> ud_ok d CountAdmins then Inl ErrDatabase
      else Inr (length (filter (\<lambda>u. active_superadmin u \<and> ur_ID u \<noteq> i) (ac_rows a))))"

text \<open>
  The guard the three operations that can take the last superadmin away start with: the
  account, and unless \<open>keeps\<close> says that it stays one, the count of the others. Inr means
  the write may go ahead.
\<close>

definition last_superadmin_guard :: "UserDB \<Rightarrow> (User \<Rightarrow> bool) \<Rightarrow> int \<Rightarrow> Accounts \<Rightarrow> UserErr + unit" where
  "last_superadmin_guard d keeps i a =
     (case GetByID d i a of Inl e \<Rightarrow> Inl e
      | Inr cur \<Rightarrow>
          if ur_Role cur = RoleSuperadmin \<and> \<not> keeps cur then
            (case otherActiveSuperadmins d i a of Inl e \<Rightarrow> Inl e | Inr n \<Rightarrow> if n = 0 then Inl ErrLastSuperadmin else Inr ())
          else Inr ())"

text \<open>The last statement of \<open>SetRole\<close> and of \<open>Delete\<close> does not look at the rows it affected.\<close>

definition SetRole_guard :: "UserDB \<Rightarrow> int \<Rightarrow> string \<Rightarrow> Accounts \<Rightarrow> UserErr + unit" where
  "SetRole_guard d i role a =
     (if \<not> IsValidRole role then Inl ErrInvalid else last_superadmin_guard d (\<lambda>_. role = RoleSuperadmin) i a)"

definition SetRole_write :: "UserDB \<Rightarrow> int \<Rightarrow> string \<Rightarrow> Accounts \<Rightarrow> (UserErr + unit) \<times> Accounts" where
  "SetRole_write d i role a =
     (if \<not> ud_ok d UpdateUser then (Inl ErrDatabase, a)
      else (Inr (), change_rows (\<lambda>u. ur_ID u = i) (\<lambda>u. u\<lparr>ur_Role := role\<rparr>) a))"

definition SetRole :: "UserDB \<Rightarrow> int \<Rightarrow> string \<Rightarrow> Accounts \<Rightarrow> (UserErr + unit) \<times> Accounts" where
  "SetRole d i role a = (case SetRole_guard d i role a of Inl e \<Rightarrow> (Inl e, a) | Inr _ \<Rightarrow> SetRole_write d i role a)"

definition SetDisabled_guard :: "UserDB \<Rightarrow> int \<Rightarrow> bool \<Rightarrow> Accounts \<Rightarrow> UserErr + unit" where
  "SetDisabled_guard d i disabled a = last_superadmin_guard d (\<lambda>_. \<not> disabled) i a"

definition SetDisabled_write :: "UserDB \<Rightarrow> int \<Rightarrow> bool \<Rightarrow> Accounts \<Rightarrow> (UserErr + unit) \<times> Accounts" where
  "SetDisabled_write d i disabled a =
     update_user d i (\<lambda>u. if disabled then bump_gen (u\<lparr>ur_Disabled := True\<rparr>) else u\<lparr>ur_Disabled := False\<rparr>) a"

definition SetDisabled :: "UserDB \<Rightarrow> int \<Rightarrow> bool \<Rightarrow> Accounts \<Rightarrow> (UserErr + unit) \<times> Accounts" where
  "SetDisabled d i disabled a =
     (case SetDisabled_guard d i disabled a of Inl e \<Rightarrow> (Inl e, a) | Inr _ \<Rightarrow> SetDisabled_write d i disabled a)"

definition Delete_guard :: "UserDB \<Rightarrow> int \<Rightarrow> Accounts \<Rightarrow> UserErr + unit" where
  "Delete_guard d i a = last_superadmin_guard d (\<lambda>_. False) i a"

definition Delete_write :: "UserDB \<Rightarrow> int \<Rightarrow> Accounts \<Rightarrow> (UserErr + unit) \<times> Accounts" where
  "Delete_write d i a =
     (if \<not> ud_ok d DeleteUser then (Inl ErrDatabase, a) else (Inr (), a\<lparr>ac_rows := filter (\<lambda>u. ur_ID u \<noteq> i) (ac_rows a)\<rparr>))"

definition DeleteAccount :: "UserDB \<Rightarrow> int \<Rightarrow> Accounts \<Rightarrow> (UserErr + unit) \<times> Accounts" where
  "DeleteAccount d i a = (case Delete_guard d i a of Inl e \<Rightarrow> (Inl e, a) | Inr _ \<Rightarrow> Delete_write d i a)"

definition SetPasswordLocked :: "UserDB \<Rightarrow> int \<Rightarrow> bool \<Rightarrow> Accounts \<Rightarrow> (UserErr + unit) \<times> Accounts" where
  "SetPasswordLocked d i locked a =
     (if \<not> ud_ok d UpdateUser then (Inl ErrDatabase, a)
      else let f = (\<lambda>u. u\<lparr>ur_PasswordLocked := locked\<rparr>); a' = change_rows (\<lambda>u. ur_ID u = i) f a
           in (if rows_affected d (\<lambda>u. ur_ID u = i) f a = 0
               then (case GetByID d i a' of Inl e \<Rightarrow> Inl e | Inr _ \<Rightarrow> Inr ()) else Inr (), a'))"

definition SetProfile :: "UserDB \<Rightarrow> int \<Rightarrow> string \<Rightarrow> bool \<Rightarrow> Accounts \<Rightarrow> (UserErr + unit) \<times> Accounts" where
  "SetProfile d i email0 optOut a =
     (let email = trim_space email0 in
      update_user d i (\<lambda>u. u\<lparr>ur_Email := (if email = [] then None else Some email), ur_AlertOptOut := optOut\<rparr>) a)"

definition CreateWithProfile :: "UserDB \<Rightarrow> (string \<Rightarrow> string option) \<Rightarrow> string \<Rightarrow> string \<Rightarrow> string \<Rightarrow> string \<Rightarrow> bool \<Rightarrow> Accounts
    \<Rightarrow> (UserErr + User) \<times> Accounts" where
  "CreateWithProfile d kdf username plain role email optOut a =
     (case CreateUser d kdf username plain role a of
        (Inl e, a) \<Rightarrow> (Inl e, a)
      | (Inr u, a) \<Rightarrow>
          if email \<noteq> [] \<or> optOut then
            (case SetProfile d (ur_ID u) email optOut a of
               (Inl e, a) \<Rightarrow> (Inl e, a) | (Inr _, a) \<Rightarrow> (GetByID d (ur_ID u) a, a))
          else (Inr u, a))"

subsection \<open>Reset tokens\<close>

definition resetTokenHash :: "string \<Rightarrow> string" where
  "resetTokenHash token = (if token = [] then [] else hex_encode (sha256 token))"

definition IssueResetToken :: "UserDB \<Rightarrow> int \<Rightarrow> int \<Rightarrow> string \<Rightarrow> int \<Rightarrow> Accounts \<Rightarrow> (UserErr + unit) \<times> Accounts" where
  "IssueResetToken d now i token ttl a =
     update_user d i (\<lambda>u. u\<lparr>ur_ResetToken := Some (resetTokenHash token), ur_ResetTokenExpiresAt := Some (now + ttl)\<rparr>) a"

definition clearResetToken :: "UserDB \<Rightarrow> int \<Rightarrow> Accounts \<Rightarrow> Accounts" where
  "clearResetToken d i a =
     (if ud_ok d UpdateUser then change_rows (\<lambda>u. ur_ID u = i) (\<lambda>u. u\<lparr>ur_ResetToken := None, ur_ResetTokenExpiresAt := None\<rparr>) a else a)"

text \<open>\<open>ConsumeResetToken\<close> in its two statements: the read, with the clearing of an expired token, and the guarded write.\<close>

definition consume_read :: "UserDB \<Rightarrow> int \<Rightarrow> string \<Rightarrow> Accounts \<Rightarrow> (UserErr + User) \<times> Accounts" where
  "consume_read d now token a =
     (if token = [] then (Inl ErrNotFound, a)
      else if \<not> ud_ok d SelectUser then (Inl ErrDatabase, a)
      else case find (\<lambda>u. ur_ResetToken u = Some (resetTokenHash token)) (ac_rows a) of
        None \<Rightarrow> (Inl ErrNotFound, a)
      | Some u \<Rightarrow>
          (case ur_ResetTokenExpiresAt u of
             None \<Rightarrow> (Inl ErrNotFound, clearResetToken d (ur_ID u) a)
           | Some t \<Rightarrow> if t < now then (Inl ErrNotFound, clearResetToken d (ur_ID u) a) else (Inr u, a)))"

definition consume_write :: "UserDB \<Rightarrow> string \<Rightarrow> int \<Rightarrow> Accounts \<Rightarrow> (UserErr + unit) \<times> Accounts" where
  "consume_write d token i a =
     update_where d (\<lambda>u. ur_ID u = i \<and> ur_ResetToken u = Some (resetTokenHash token))
       (\<lambda>u. u\<lparr>ur_ResetToken := None, ur_ResetTokenExpiresAt := None\<rparr>) a"

definition ConsumeResetToken :: "UserDB \<Rightarrow> int \<Rightarrow> string \<Rightarrow> Accounts \<Rightarrow> (UserErr + User) \<times> Accounts" where
  "ConsumeResetToken d now token a =
     (case consume_read d now token a of
        (Inl e, a) \<Rightarrow> (Inl e, a)
      | (Inr u, a) \<Rightarrow> (case consume_write d token (ur_ID u) a of (Inl e, a) \<Rightarrow> (Inl e, a) | (Inr _, a) \<Rightarrow> (Inr u, a)))"


subsection \<open>The users page\<close>

text \<open>\<open>AdminUsersSave\<close> for the operation \<open>update\<close>, up to the session re-issue of a changed password.\<close>

record UsersForm =
  uf_id :: int
  uf_role :: string
  uf_email :: string
  uf_alertOptOut :: bool
  uf_passwordLocked :: bool
  uf_password :: string

definition users_update :: "UserDB \<Rightarrow> (string \<Rightarrow> string option) \<Rightarrow> UsersForm \<Rightarrow> Accounts \<Rightarrow> (UserErr + unit) \<times> Accounts" where
  "users_update d kdf f a =
     (let i = uf_id f in
      if i \<le> 0 \<or> \<not> IsValidRole (uf_role f) \<or> (uf_password f \<noteq> [] \<and> \<not> ValidatePassword (uf_password f)) then (Inl ErrInvalid, a)
      else case GetByID d i a of Inl e \<Rightarrow> (Inl e, a)
      | Inr current \<Rightarrow>
        (case (if ur_Role current \<noteq> uf_role f then SetRole d i (uf_role f) a else (Inr (), a)) of
           (Inl e, a) \<Rightarrow> (Inl e, a)
         | (Inr _, a) \<Rightarrow>
        (case SetProfile d i (uf_email f) (uf_alertOptOut f) a of
           (Inl e, a) \<Rightarrow> (Inl e, a)
         | (Inr _, a) \<Rightarrow>
        (case (if ur_PasswordLocked current \<noteq> uf_passwordLocked f then SetPasswordLocked d i (uf_passwordLocked f) a else (Inr (), a)) of
           (Inl e, a) \<Rightarrow> (Inl e, a)
         | (Inr _, a) \<Rightarrow> if uf_password f = [] then (Inr (), a) else SetPassword d kdf i (uf_password f) a))))"

subsection \<open>Runs\<close>

text \<open>
  What can happen to the table: any operation, under any outcome of its statements. \<open>H\<close> is
  the set of reset-token hashes that may be issued; the guarded operations run alone.
\<close>

inductive account_step :: "string set \<Rightarrow> Accounts \<Rightarrow> Accounts \<Rightarrow> bool" for H where
  step_create: "account_step H a (snd (CreateWithHash d name h role a))"
| step_password: "account_step H a (snd (SetPassword d kdf i plain a))"
| step_bump: "account_step H a (snd (BumpSessionGen d i a))"
| step_rehash: "account_step H a (snd (RehashPassword d kdf i plain a))"
| step_role: "account_step H a (snd (SetRole d i role a))"
| step_disabled: "account_step H a (snd (SetDisabled d i b a))"
| step_delete: "account_step H a (snd (DeleteAccount d i a))"
| step_lock: "account_step H a (snd (SetPasswordLocked d i b a))"
| step_profile: "account_step H a (snd (SetProfile d i email b a))"
| step_issue: "resetTokenHash token \<in> H \<Longrightarrow> account_step H a (snd (IssueResetToken d now i token ttl a))"
| step_consume_read: "account_step H a (snd (consume_read d now token a))"
| step_consume_write: "account_step H a (snd (consume_write d token i a))"

section \<open>Lemmas\<close>

subsection \<open>Changes of rows\<close>

named_theorems account_ops \<open>the operations as changes of rows\<close>

lemmas account_op_defs = CreateWithHash_def SetPassword_def BumpSessionGen_def RehashPassword_def SetRole_def SetRole_write_def
  SetDisabled_def SetDisabled_write_def DeleteAccount_def Delete_write_def SetPasswordLocked_def SetProfile_def IssueResetToken_def
  consume_read_def consume_write_def clearResetToken_def update_where_def

lemma find_user_change:
  assumes "\<And>u. ur_ID (f u) = ur_ID u"
  shows "find_user i (change_rows P f a) = map_option (\<lambda>u. if P u then f u else u) (find_user i a)"
proof -
  have "(\<lambda>u. ur_ID u = i) \<circ> (\<lambda>u. if P u then f u else u) = (\<lambda>u. ur_ID u = i)" by (rule ext) (simp add: assms)
  then show ?thesis by (simp add: find_user_def change_rows_def find_map)
qed

lemma mem_change: "w \<in> set (ac_rows (change_rows P f a)) \<longleftrightarrow> (\<exists>x \<in> set (ac_rows a). w = (if P x then f x else x))"
  unfolding change_rows_def by (simp add: image_iff del: if_image_distrib)

lemma ac_next_change [simp]: "ac_next (change_rows P f a) = ac_next a"
  by (simp add: change_rows_def)

text \<open>Every step keeps the table, adds a row at the counter, changes rows, or deletes one.\<close>

inductive row_change :: "string set \<Rightarrow> Accounts \<Rightarrow> Accounts \<Rightarrow> bool" for H where
  same: "row_change H a a"
| added: "ur_ID u = ac_next a \<Longrightarrow> IsValidRole (ur_Role u) \<Longrightarrow> ur_SessionGen u = 0 \<Longrightarrow> ur_ResetToken u = None
    \<Longrightarrow> ur_Username u \<notin> ur_Username ` set (ac_rows a) \<Longrightarrow> row_change H a \<lparr>ac_rows = ac_rows a @ [u], ac_next = ac_next a + 1\<rparr>"
| changed: "(\<And>u. ur_ID (f u) = ur_ID u \<and> ur_Username (f u) = ur_Username u \<and> ur_SessionGen u \<le> ur_SessionGen (f u)
      \<and> (IsValidRole (ur_Role u) \<longrightarrow> IsValidRole (ur_Role (f u)))
      \<and> (ur_ResetToken (f u) = ur_ResetToken u \<or> ur_ResetToken (f u) = None \<or> ur_ResetToken (f u) \<in> Some ` H))
    \<Longrightarrow> (\<And>u. u \<in> set (ac_rows a) \<Longrightarrow> P u \<Longrightarrow> active_superadmin u \<Longrightarrow> active_superadmin (f u)
        \<or> (\<exists>v \<in> set (ac_rows a). active_superadmin v \<and> ur_ID v \<noteq> ur_ID u \<and> \<not> P v))
    \<Longrightarrow> row_change H a (change_rows P f a)"
| deleted: "(\<And>u. u \<in> set (ac_rows a) \<Longrightarrow> ur_ID u = i \<Longrightarrow> active_superadmin u
        \<Longrightarrow> \<exists>v \<in> set (ac_rows a). active_superadmin v \<and> ur_ID v \<noteq> i)
    \<Longrightarrow> row_change H a (a\<lparr>ac_rows := filter (\<lambda>u. ur_ID u \<noteq> i) (ac_rows a)\<rparr>)"


definition accounts_ok :: "Accounts \<Rightarrow> bool" where
  "accounts_ok a \<longleftrightarrow> distinct (map ur_ID (ac_rows a)) \<and> distinct (map ur_Username (ac_rows a)) \<and> 1 \<le> ac_next a
     \<and> (\<forall>u \<in> set (ac_rows a). 1 \<le> ur_ID u \<and> ur_ID u < ac_next a \<and> IsValidRole (ur_Role u) \<and> 0 \<le> ur_SessionGen u)"

definition has_superadmin :: "Accounts \<Rightarrow> bool" where
  "has_superadmin a \<longleftrightarrow> (\<exists>u \<in> set (ac_rows a). active_superadmin u)"

lemma find_user_iff:
  assumes "distinct (map ur_ID (ac_rows a))"
  shows "find_user i a = Some u \<longleftrightarrow> u \<in> set (ac_rows a) \<and> ur_ID u = i"
proof
  show "find_user i a = Some u \<Longrightarrow> u \<in> set (ac_rows a) \<and> ur_ID u = i"
    unfolding find_user_def by (rule find_Some_iff2)
next
  assume u: "u \<in> set (ac_rows a) \<and> ur_ID u = i"
  then obtain v where v: "find_user i a = Some v" using find_ex_iff [of "\<lambda>u. ur_ID u = i" "ac_rows a"] by (auto simp: find_user_def)
  then have "v \<in> set (ac_rows a) \<and> ur_ID v = i" unfolding find_user_def by (rule find_Some_iff2)
  then show "find_user i a = Some u" using u v assms by (auto simp: distinct_map inj_on_def)
qed

lemma find_user_None: "find_user i a = None \<longleftrightarrow> (\<forall>u \<in> set (ac_rows a). ur_ID u \<noteq> i)"
  by (auto simp: find_user_def find_None_iff)

lemma guard_ok:
  assumes "last_superadmin_guard d keeps i a = Inr x" "distinct (map ur_ID (ac_rows a))" "u \<in> set (ac_rows a)" "ur_ID u = i" "active_superadmin u"
  shows "keeps u \<or> (\<exists>v \<in> set (ac_rows a). active_superadmin v \<and> ur_ID v \<noteq> i)"
proof -
  have "find_user i a = Some u" using find_user_iff [OF assms(2)] assms(3,4) by blast
  then have "keeps u \<or> filter (\<lambda>u. active_superadmin u \<and> ur_ID u \<noteq> i) (ac_rows a) \<noteq> []"
    using assms(1,5) by (auto simp: last_superadmin_guard_def GetByID_def otherActiveSuperadmins_def active_superadmin_def split: if_splits)
  then show ?thesis by (auto simp: filter_empty_conv)
qed

lemma update_where_change:
  assumes "row_change H a (change_rows P f a)"
  shows "row_change H a (snd (update_where d P f a))"
  using assms by (auto simp: update_where_def intro: row_change.same)

text \<open>A change that touches neither the identity, the role, the suspension nor the reset token of a row.\<close>

lemma plain_change:
  assumes "\<And>u. ur_ID (f u) = ur_ID u \<and> ur_Username (f u) = ur_Username u \<and> ur_SessionGen u \<le> ur_SessionGen (f u) \<and> ur_Role (f u) = ur_Role u
      \<and> ur_Disabled (f u) = ur_Disabled u \<and> (ur_ResetToken (f u) = ur_ResetToken u \<or> ur_ResetToken (f u) = None \<or> ur_ResetToken (f u) \<in> Some ` H)"
  shows "row_change H a (change_rows P f a)"
  using assms by (intro changed) (auto simp: active_superadmin_def)

lemma step_row_change:
  assumes "account_step H a a'" "distinct (map ur_ID (ac_rows a))"
  shows "row_change H a a'"
  using assms
proof cases
  case (step_create d name h role)
  show ?thesis unfolding step_create
    by (auto simp: CreateWithHash_def Let_def list_ex_iff intro!: same added split: if_splits)
next
  case (step_password d kdf i plain)
  show ?thesis unfolding step_password SetPassword_def
    by (auto split: option.split intro!: same update_where_change plain_change simp: bump_gen_def)
next
  case (step_bump d i)
  show ?thesis unfolding step_bump BumpSessionGen_def by (auto intro!: update_where_change plain_change simp: bump_gen_def)
next
  case (step_rehash d kdf i plain)
  show ?thesis unfolding step_rehash RehashPassword_def by (auto split: option.split intro!: same update_where_change plain_change)
next
  case (step_role d i role)
  show ?thesis
  proof (cases "SetRole_guard d i role a")
    case (Inr x)
    then have g: "IsValidRole role" "last_superadmin_guard d (\<lambda>_. role = RoleSuperadmin) i a = Inr x" by (auto simp: SetRole_guard_def split: if_splits)
    have "row_change H a (change_rows (\<lambda>u. ur_ID u = i) (\<lambda>u. u\<lparr>ur_Role := role\<rparr>) a)"
    proof (rule changed)
      fix u assume u: "u \<in> set (ac_rows a)" "ur_ID u = i" "active_superadmin u"
      show "active_superadmin (u\<lparr>ur_Role := role\<rparr>) \<or> (\<exists>v \<in> set (ac_rows a). active_superadmin v \<and> ur_ID v \<noteq> ur_ID u \<and> \<not> ur_ID v = i)"
        using guard_ok [OF g(2) assms(2) u] u by (auto simp: active_superadmin_def)
    qed (simp add: g(1))
    then show ?thesis unfolding step_role by (simp add: SetRole_def Inr SetRole_write_def same)
  qed (simp add: step_role SetRole_def same)
next
  case (step_disabled d i b)
  show ?thesis
  proof (cases "SetDisabled_guard d i b a")
    case (Inr x)
    then have g: "last_superadmin_guard d (\<lambda>_. \<not> b) i a = Inr x" by (simp add: SetDisabled_guard_def)
    have "row_change H a (change_rows (\<lambda>u. ur_ID u = i) (\<lambda>u. if b then bump_gen (u\<lparr>ur_Disabled := True\<rparr>) else u\<lparr>ur_Disabled := False\<rparr>) a)"
    proof (rule changed)
      fix u assume u: "u \<in> set (ac_rows a)" "ur_ID u = i" "active_superadmin u"
      show "active_superadmin (if b then bump_gen (u\<lparr>ur_Disabled := True\<rparr>) else u\<lparr>ur_Disabled := False\<rparr>)
          \<or> (\<exists>v \<in> set (ac_rows a). active_superadmin v \<and> ur_ID v \<noteq> ur_ID u \<and> \<not> ur_ID v = i)"
        using guard_ok [OF g assms(2) u] u by (auto simp: active_superadmin_def)
    qed (simp add: bump_gen_def)
    then show ?thesis unfolding step_disabled by (simp add: SetDisabled_def Inr SetDisabled_write_def update_where_change)
  qed (simp add: step_disabled SetDisabled_def same)
next
  case (step_delete d i)
  show ?thesis
  proof (cases "Delete_guard d i a")
    case (Inr x)
    then have "last_superadmin_guard d (\<lambda>_. False) i a = Inr x" by (simp add: Delete_guard_def)
    then have "row_change H a (a\<lparr>ac_rows := filter (\<lambda>u. ur_ID u \<noteq> i) (ac_rows a)\<rparr>)" using guard_ok [OF _ assms(2)] by (intro deleted) blast
    then show ?thesis unfolding step_delete by (simp add: DeleteAccount_def Inr Delete_write_def same)
  qed (simp add: step_delete DeleteAccount_def same)
next
  case (step_lock d i b)
  show ?thesis unfolding step_lock SetPasswordLocked_def by (auto simp: Let_def intro!: same plain_change)
next
  case (step_profile d i email b)
  show ?thesis unfolding step_profile SetProfile_def Let_def by (auto intro!: update_where_change plain_change)
next
  case (step_issue token d now i ttl)
  show ?thesis unfolding step_issue(1) IssueResetToken_def using step_issue(2) by (auto intro!: update_where_change plain_change)
next
  case (step_consume_read d now token)
  show ?thesis unfolding step_consume_read
    by (auto simp: consume_read_def clearResetToken_def split: option.split intro!: same plain_change)
next
  case (step_consume_write d token i)
  show ?thesis unfolding step_consume_write consume_write_def by (auto intro!: update_where_change plain_change)
qed


subsection \<open>What the steps keep\<close>

lemma row_change_ok:
  assumes "row_change H a a'" "accounts_ok a"
  shows "accounts_ok a'"
  using assms
proof cases
  case (added u)
  have "ur_ID u \<notin> ur_ID ` set (ac_rows a)" using assms(2) added(2) by (force simp: accounts_ok_def)
  then show ?thesis using assms(2) added by (auto simp: accounts_ok_def)
next
  case (changed f P)
  have "map ur_ID (ac_rows a') = map ur_ID (ac_rows a)" "map ur_Username (ac_rows a') = map ur_Username (ac_rows a)"
    unfolding changed(1) change_rows_def using changed(2) by auto
  moreover have "\<forall>u \<in> set (ac_rows a'). 1 \<le> ur_ID u \<and> ur_ID u < ac_next a \<and> IsValidRole (ur_Role u) \<and> 0 \<le> ur_SessionGen u"
    using assms(2) changed(2) unfolding changed(1) change_rows_def by (fastforce simp: accounts_ok_def intro: order_trans)
  ultimately show ?thesis using assms(2) unfolding accounts_ok_def changed(1) by simp
next
  case (deleted i)
  then show ?thesis using assms(2) by (auto simp: accounts_ok_def distinct_map_filter)
qed simp

lemma row_change_superadmin:
  assumes "row_change H a a'" "has_superadmin a"
  shows "has_superadmin a'"
proof -
  obtain u where u: "u \<in> set (ac_rows a)" "active_superadmin u" using assms(2) by (auto simp: has_superadmin_def)
  from assms(1) show ?thesis
  proof cases
    case (changed f P)
    have "\<exists>v \<in> set (ac_rows a). active_superadmin (if P v then f v else v)"
    proof (cases "P u \<and> \<not> active_superadmin (f u)")
      case True
      then obtain v where "v \<in> set (ac_rows a)" "active_superadmin v" "\<not> P v" using changed(3) [OF u(1) _ u(2)] by blast
      then show ?thesis by (intro bexI [of _ v]) auto
    qed (use u in \<open>intro bexI [of _ u]; auto\<close>)
    then obtain v where v: "v \<in> set (ac_rows a)" "active_superadmin (if P v then f v else v)" by blast
    have "(if P v then f v else v) \<in> set (ac_rows a')" unfolding changed(1) change_rows_def using v(1) by simp
    with v(2) show ?thesis unfolding has_superadmin_def by blast
  next
    case (deleted i)
    have "\<exists>v \<in> set (ac_rows a). active_superadmin v \<and> ur_ID v \<noteq> i" using deleted(2) u by blast
    then show ?thesis by (auto simp: has_superadmin_def deleted(1))
  qed (use u in \<open>auto simp: has_superadmin_def\<close>)
qed

text \<open>A generation only grows, and the number of a deleted account is never given out again.\<close>

definition gen_at_least :: "int \<Rightarrow> int \<Rightarrow> Accounts \<Rightarrow> bool" where
  "gen_at_least i g a \<longleftrightarrow> i < ac_next a \<and> (\<forall>u \<in> set (ac_rows a). ur_ID u = i \<longrightarrow> g \<le> ur_SessionGen u)"

lemma row_change_gen:
  assumes "row_change H a a'" "gen_at_least i g a"
  shows "gen_at_least i g a'"
  using assms
proof cases
  case (changed f P)
  then show ?thesis using assms(2) by (force simp: gen_at_least_def change_rows_def intro: order_trans)
qed (auto simp: gen_at_least_def)

text \<open>A spent reset token stays spent until it is issued again.\<close>

definition token_absent :: "string \<Rightarrow> Accounts \<Rightarrow> bool" where
  "token_absent h a \<longleftrightarrow> (\<forall>u \<in> set (ac_rows a). ur_ResetToken u \<noteq> Some h)"

lemma row_change_token:
  assumes "row_change H a a'" "token_absent h a" "h \<notin> H"
  shows "token_absent h a'"
  using assms
proof cases
  case (changed f P)
  show ?thesis unfolding token_absent_def
  proof
    fix u assume "u \<in> set (ac_rows a')"
    then obtain v where v: "v \<in> set (ac_rows a)" "u = (if P v then f v else v)" by (auto simp: changed(1) change_rows_def)
    then show "ur_ResetToken u \<noteq> Some h" using changed(2) [of v] assms(2,3) by (auto simp: token_absent_def)
  qed
qed (auto simp: token_absent_def)

text \<open>After the first user exists.\<close>

definition accounts_start :: "Accounts \<Rightarrow> bool" where
  "accounts_start a \<longleftrightarrow> (\<exists>d name hash.
     CreateWithHash d name hash RoleSuperadmin \<lparr>ac_rows = [], ac_next = 1\<rparr> = (GetByUsername d (trim_space name) a, a) \<and> ac_rows a \<noteq> [])"

definition accounts_inv :: "Accounts \<Rightarrow> bool" where
  "accounts_inv a \<longleftrightarrow> accounts_ok a \<and> has_superadmin a"

interpretation accounts: invariant_system accounts_start "account_step UNIV" accounts_inv
proof unfold_locales
  fix a assume "accounts_start a"
  then show "accounts_inv a"
    by (auto simp: accounts_start_def CreateWithHash_def Let_def accounts_inv_def accounts_ok_def has_superadmin_def active_superadmin_def IsValidRole_def
        split: if_splits)
next
  fix a a' assume "accounts_inv a" "account_step UNIV a a'"
  then show "accounts_inv a'"
    using step_row_change row_change_ok row_change_superadmin unfolding accounts_inv_def accounts_ok_def by metis
qed

lemma steps_keep:
  assumes "(account_step H)\<^sup>*\<^sup>* a a'" "accounts_ok a" "\<And>a a'. row_change H a a' \<Longrightarrow> Q a \<Longrightarrow> Q a'" "Q a"
  shows "accounts_ok a' \<and> Q a'"
  using assms(1)
proof induction
  case (step b c)
  then have "row_change H b c" using step_row_change by (auto simp: accounts_ok_def)
  then show ?case using row_change_ok step.IH assms(3) by blast
qed (use assms in simp)

section \<open>Properties\<close>

text \<open>
  C18: One operation after the other never locks the install out. In any serial run, in which
  an operation that checks for the last superadmin writes before the next one starts,
  whatever the users page, the profile page, the reset links and the command line do, in any
  order and with any statement failing, the accounts keep distinct numbers and names and
  valid roles, and there is always a superadmin that is not suspended. The code does not
  force its requests into such an order; the next property shows what then happens.
\<close>

theorem superadmin_remains:
  assumes "reachable accounts_start (account_step UNIV) a"
  shows "accounts_ok a \<and> has_superadmin a"
  using accounts.reachable_inv [OF assms] by (simp add: accounts_inv_def)

text \<open>
  C39: Two at once can lock it out. The check and the write of a suspension, a demotion or a
  deletion are two statements and no transaction: with two active superadmins, two requests
  that suspend one of them each both pass the check and both write, and no active superadmin
  is left.
\<close>

theorem concurrent_suspensions_lock_out:
  assumes "accounts_ok a" "filter active_superadmin (ac_rows a) = [u, v]" "\<And>s. ud_ok d s"
  shows "SetDisabled_guard d (ur_ID u) True a = Inr () \<and> SetDisabled_guard d (ur_ID v) True a = Inr ()
    \<and> \<not> has_superadmin (snd (SetDisabled_write d (ur_ID v) True (snd (SetDisabled_write d (ur_ID u) True a))))"
proof -
  have in_rows: "u \<in> set (ac_rows a)" "v \<in> set (ac_rows a)" and act: "active_superadmin u" "active_superadmin v"
    and only: "\<And>w. w \<in> set (ac_rows a) \<Longrightarrow> active_superadmin w \<Longrightarrow> w = u \<or> w = v"
    using arg_cong [OF assms(2), of set] by auto
  have ids: "distinct (map ur_ID (ac_rows a))" using assms(1) by (simp add: accounts_ok_def)
  have "distinct (map ur_ID (filter active_superadmin (ac_rows a)))" using ids by (rule distinct_map_filter)
  then have ne: "ur_ID u \<noteq> ur_ID v" by (simp add: assms(2))
  have "filter (\<lambda>w. active_superadmin w \<and> ur_ID w \<noteq> i) (ac_rows a) = filter (\<lambda>w. ur_ID w \<noteq> i) [u, v]" for i
    unfolding assms(2) [symmetric] by (simp add: conj_commute)
  moreover have "find_user (ur_ID u) a = Some u" "find_user (ur_ID v) a = Some v" using find_user_iff [OF ids] in_rows by simp_all
  ultimately have "SetDisabled_guard d (ur_ID u) True a = Inr ()" "SetDisabled_guard d (ur_ID v) True a = Inr ()"
    using ne assms(3)
    by (simp_all add: SetDisabled_guard_def last_superadmin_guard_def GetByID_def otherActiveSuperadmins_def)
  moreover have "\<not> has_superadmin (snd (SetDisabled_write d (ur_ID v) True (snd (SetDisabled_write d (ur_ID u) True a))))"
    using only assms(3) by (auto simp: has_superadmin_def SetDisabled_write_def update_where_def change_rows_def active_superadmin_def bump_gen_def)
  ultimately show ?thesis by simp
qed

text \<open>
  C26: A reset link works once. Of two requests that redeem the same link, however their
  statements and everything else interleave, at most one is let through: once one has
  written, the other's write finds no row, until the very same token is issued again.
\<close>

theorem reset_link_works_once:
  assumes "accounts_ok a" "consume_write d token i a = (Inr (), a1)" "\<And>u. u \<in> set (ac_rows a) \<Longrightarrow> ur_ResetToken u = Some (resetTokenHash token) \<Longrightarrow> ur_ID u = i"
    and "(account_step H)\<^sup>*\<^sup>* a1 a2" "resetTokenHash token \<notin> H"
  shows "fst (consume_write d' token j a2) \<in> {Inl ErrNotFound, Inl ErrDatabase}
    \<and> fst (consume_read d' now token a2) \<in> {Inl ErrNotFound, Inl ErrDatabase}"
proof
  have a1: "a1 = change_rows (\<lambda>u. ur_ID u = i \<and> ur_ResetToken u = Some (resetTokenHash token)) (\<lambda>u. u\<lparr>ur_ResetToken := None, ur_ResetTokenExpiresAt := None\<rparr>) a"
    using assms(2) by (simp add: consume_write_def update_where_def split: if_splits)
  have "token_absent (resetTokenHash token) a1"
    unfolding token_absent_def
  proof
    fix w assume "w \<in> set (ac_rows a1)"
    then obtain u where "u \<in> set (ac_rows a)"
      "w = (if ur_ID u = i \<and> ur_ResetToken u = Some (resetTokenHash token) then u\<lparr>ur_ResetToken := None, ur_ResetTokenExpiresAt := None\<rparr> else u)"
      unfolding a1 change_rows_def by auto
    then show "ur_ResetToken w \<noteq> Some (resetTokenHash token)" using assms(3) [of u] by (cases "ur_ID u = i") auto
  qed
  moreover have "accounts_ok a1"
    using row_change_ok [OF step_row_change [OF step_consume_write [of "{}" a d token i]] assms(1)] assms(1,2) by (simp add: accounts_ok_def)
  ultimately have abs: "token_absent (resetTokenHash token) a2"
    using steps_keep [OF assms(4), of "token_absent (resetTokenHash token)"] row_change_token assms(5) by blast
  show "fst (consume_write d' token j a2) \<in> {Inl ErrNotFound, Inl ErrDatabase}"
    using abs by (auto simp: consume_write_def update_where_def rows_affected_def token_absent_def filter_empty_conv)
  have "find (\<lambda>u. ur_ResetToken u = Some (resetTokenHash token)) (ac_rows a2) = None" using abs by (auto simp: token_absent_def find_None_iff)
  then show "fst (consume_read d' now token a2) \<in> {Inl ErrNotFound, Inl ErrDatabase}" by (auto simp: consume_read_def)
qed


text \<open>
  Under MariaDB an edit can be half applied. The users page saves the role, the profile,
  the lock and the password in that order. MariaDB reports the rows an update changed, so
  saving the profile as it was reports none, which is taken for an account that is not there:
  the form is answered \<open>user not found\<close> with the new role saved and the new password not.
\<close>

lemma mariadb_edit_half_applied:
  assumes "accounts_ok a" "find_user (uf_id f) a = Some u" "ud_driver d = MariaDB" "\<And>s. ud_ok d s"
    and "IsValidRole (uf_role f)" "uf_role f \<noteq> ur_Role u" "last_superadmin_guard d (\<lambda>_. uf_role f = RoleSuperadmin) (uf_id f) a = Inr ()"
    and "ur_Email u = (if trim_space (uf_email f) = [] then None else Some (trim_space (uf_email f)))" "ur_AlertOptOut u = uf_alertOptOut f"
    and "ValidatePassword (uf_password f)"
  shows "users_update d kdf f a = (Inl ErrNotFound, change_rows (\<lambda>w. ur_ID w = uf_id f) (\<lambda>w. w\<lparr>ur_Role := uf_role f\<rparr>) a)
    \<and> find_user (uf_id f) (snd (users_update d kdf f a)) = Some (u\<lparr>ur_Role := uf_role f\<rparr>)"
proof -
  let ?i = "uf_id f" and ?r = "\<lambda>w. w\<lparr>ur_Role := uf_role f\<rparr>"
  let ?a = "change_rows (\<lambda>w. ur_ID w = ?i) ?r a"
  let ?p = "\<lambda>w. w\<lparr>ur_Email := (if trim_space (uf_email f) = [] then None else Some (trim_space (uf_email f))), ur_AlertOptOut := uf_alertOptOut f\<rparr>"
  have ids: "distinct (map ur_ID (ac_rows a))" using assms(1) by (simp add: accounts_ok_def)
  have u: "u \<in> set (ac_rows a)" "ur_ID u = ?i" using find_user_iff [OF ids] assms(2) by auto
  have pos: "\<not> ?i \<le> 0" using assms(1) u by (auto simp: accounts_ok_def)
  have role: "SetRole d ?i (uf_role f) a = (Inr (), ?a)"
    using assms(4,5,7) by (simp add: SetRole_def SetRole_guard_def SetRole_write_def)
  have f: "find_user ?i ?a = Some (?r u)" using find_user_change [of ?r ?i "\<lambda>w. ur_ID w = ?i" a] assms(2) u by simp
  have only: "w = ?r u" if w: "w \<in> set (ac_rows ?a)" "ur_ID w = ?i" for w
  proof -
    obtain x where x: "x \<in> set (ac_rows a)" "w = (if ur_ID x = ?i then ?r x else x)" using w(1) unfolding mem_change by blast
    then have "ur_ID x = ?i" using w(2) by (auto split: if_splits)
    then have "x = u" using x(1) find_user_iff [OF ids, of ?i] assms(2) by (metis option.inject)
    then show ?thesis using x(2) u by simp
  qed
  have noop: "?p (?r u) = ?r u" using assms(8,9) by (cases u) simp
  have "rows_affected d (\<lambda>w. ur_ID w = ?i) ?p ?a = 0" using only noop assms(3) by (auto simp: rows_affected_def filter_empty_conv)
  moreover have "change_rows (\<lambda>w. ur_ID w = ?i) ?p ?a = ?a"
  proof -
    have "(if ur_ID w = ?i then ?p w else w) = w" if "w \<in> set (ac_rows ?a)" for w using only [OF that] noop by auto
    then show ?thesis unfolding change_rows_def [of "\<lambda>w. ur_ID w = ?i" ?p] by (simp add: map_idI)
  qed
  ultimately have "SetProfile d ?i (uf_email f) (uf_alertOptOut f) ?a = (Inl ErrNotFound, ?a)"
    using assms(4) by (simp add: SetProfile_def Let_def update_where_def)
  then have "users_update d kdf f a = (Inl ErrNotFound, ?a)"
    using pos assms(2,4-6,10) role by (simp add: users_update_def Let_def GetByID_def)
  then show ?thesis using f by simp
qed

section \<open>Evaluation\<close>

definition demo_user :: "int \<Rightarrow> string \<Rightarrow> User" where
  "demo_user i name = \<lparr>ur_ID = i, ur_Username = name, ur_PasswordHash = ''x'', ur_Role = RoleSuperadmin, ur_Email = None, ur_AlertOptOut = False,
     ur_Disabled = False, ur_PasswordLocked = False, ur_SessionGen = 0, ur_ResetToken = None, ur_ResetTokenExpiresAt = None\<rparr>"

definition demo_accounts :: Accounts where
  "demo_accounts = \<lparr>ac_rows = [demo_user 1 ''ann'', demo_user 2 ''bob''], ac_next = 3\<rparr>"

definition good_db :: "Driver \<Rightarrow> UserDB" where
  "good_db r = \<lparr>ud_driver = r, ud_ok = (\<lambda>_. True)\<rparr>"

lemma demo_accounts_ok: "accounts_ok demo_accounts"
  by (simp add: accounts_ok_def demo_accounts_def demo_user_def IsValidRole_def)

theorem superadmin_remains_witness:
  "has_superadmin (snd (SetDisabled (good_db SQLite) 1 True \<lparr>ac_rows = [demo_user 1 ''ann''], ac_next = 2\<rparr>))"
proof -
  let ?a = "\<lparr>ac_rows = [demo_user 1 ''ann''], ac_next = 2\<rparr>"
  have "trim_space ''ann'' = ''ann''" by code_simp
  then have "accounts_start ?a" unfolding accounts_start_def
    by (intro exI [of _ "good_db SQLite"] exI [of _ "''ann''"] exI [of _ "''x''"])
      (simp add: CreateWithHash_def Let_def good_db_def IsValidRole_def demo_user_def)
  then have "reachable accounts_start (account_step UNIV) ?a" by (rule reachable_init)
  then have "reachable accounts_start (account_step UNIV) (snd (SetDisabled (good_db SQLite) 1 True ?a))"
    by (rule reachable_step) (rule step_disabled)
  then show ?thesis using superadmin_remains by blast
qed

theorem concurrent_suspensions_lock_out_witness:
  "\<not> has_superadmin (snd (SetDisabled_write (good_db SQLite) 2 True (snd (SetDisabled_write (good_db SQLite) 1 True demo_accounts))))"
  using concurrent_suspensions_lock_out [OF demo_accounts_ok, of "demo_user 1 ''ann''" "demo_user 2 ''bob''" "good_db SQLite"]
  by (simp add: demo_accounts_def demo_user_def active_superadmin_def good_db_def)

theorem reset_link_works_once_witness:
  "fst (consume_read (good_db SQLite) 5 ''tok'' (snd (consume_write (good_db SQLite) ''tok'' 1 (snd (IssueResetToken (good_db SQLite) 0 1 ''tok'' 3600 demo_accounts)))))
     \<in> {Inl ErrNotFound, Inl ErrDatabase}"
proof -
  let ?d = "good_db SQLite" and ?h = "resetTokenHash ''tok''"
  let ?a = "snd (IssueResetToken ?d 0 1 ''tok'' 3600 demo_accounts)"
  have ok: "accounts_ok ?a"
    using row_change_ok [OF step_row_change [OF step_issue [of "''tok''" UNIV demo_accounts ?d 0 1 3600]] demo_accounts_ok] demo_accounts_ok
    by (simp add: accounts_ok_def)
  have a: "?a = \<lparr>ac_rows = [demo_user 1 ''ann''\<lparr>ur_ResetToken := Some ?h, ur_ResetTokenExpiresAt := Some 3600\<rparr>, demo_user 2 ''bob''], ac_next = 3\<rparr>"
    by (simp add: IssueResetToken_def update_where_def good_db_def change_rows_def demo_accounts_def demo_user_def)
  have w: "consume_write ?d ''tok'' 1 ?a = (Inr (), snd (consume_write ?d ''tok'' 1 ?a))" unfolding a
    by (simp add: consume_write_def update_where_def good_db_def rows_affected_def demo_user_def)
  have only: "ur_ID u = 1" if "u \<in> set (ac_rows ?a)" "ur_ResetToken u = Some ?h" for u
    using that unfolding a by (auto simp: demo_user_def)
  show ?thesis
    using reset_link_works_once [OF ok w only, of "{}" "snd (consume_write ?d ''tok'' 1 ?a)" ?d 1 5] by simp
qed

end
