(* ===== verification/Sessions.thy ===== *)
theory Sessions
  imports Users Signed_Token Login_Throttle
begin

text \<open>
  Signing in to the admin: the session cookie (\<open>handlers/session.go\<close>), the CSRF tokens
  (\<open>handlers/csrf.go\<close>), the middleware in front of every admin page, the login and the logout
  (\<open>handlers/admin.go\<close>), and the wizard's check of a superadmin (\<open>handlers/setup.go\<close>), on the
  accounts of \<open>Users\<close> and the throttle of \<open>Login_Throttle\<close>. Times are in nanoseconds. The
  allowlists of addresses and hosts, the password check and form parsing are arguments.
\<close>

section \<open>Definitions\<close>

subsection \<open>The session cookie\<close>

definition sessionTTL :: int where "sessionTTL = 8 * 60 * minute"
definition sessionTTLRemember :: int where "sessionTTLRemember = 30 * 24 * 60 * minute"

definition session_ttl :: "bool \<Rightarrow> int" where
  "session_ttl remember = (if remember then sessionTTLRemember else sessionTTL)"

record SessionPayload =
  sp_UserID :: int
  sp_Role :: string
  sp_Exp :: int
  sp_Remember :: bool
  sp_Gen :: int

definition sessionNeedsRefresh :: "int \<Rightarrow> SessionPayload \<Rightarrow> bool" where
  "sessionNeedsRefresh now pay = (sp_Exp pay * second - now < session_ttl (sp_Remember pay) div 2)"

definition adminCookiePath :: "string \<Rightarrow> string" where
  "adminCookiePath basePath = (if basePath = [] then ''/'' else basePath)"

definition sessionKeyInfo :: string where "sessionKeyInfo = ''unmask admin session v1''"

definition sessionKey :: "string \<Rightarrow> string" where
  "sessionKey secret = hkdf_sha256 secret sessionKeyInfo"

definition sessionSign :: "string \<Rightarrow> string \<Rightarrow> string" where
  "sessionSign secret body = take 32 (hex_encode (hmac sha256 (sessionKey secret) body))"

text \<open>The value of the cookie \<open>issueSessionCookie\<close> makes.\<close>

definition issueSessionCookie :: "string \<Rightarrow> int \<Rightarrow> int \<Rightarrow> string \<Rightarrow> bool \<Rightarrow> int \<Rightarrow> string" where
  "issueSessionCookie secret now userID role remember gen =
     (let exp = unix (now + session_ttl remember);
          body = join (CHR ''.'') [format_int 10 userID, role, format_int 10 exp, if remember then ''1'' else ''0'', format_int 10 gen]
      in body @ CHR ''.'' # sessionSign secret body)"

text \<open>\<open>strings.LastIndexByte\<close>: the text before and after the last \<open>c\<close>.\<close>

definition last_cut :: "char \<Rightarrow> string \<Rightarrow> (string \<times> string) option" where
  "last_cut c s =
     (case index_byte c (rev s) of None \<Rightarrow> None
      | Some k \<Rightarrow> Some (take (length s - Suc k) s, drop (length s - k) s))"

definition verifySessionCookie :: "int \<Rightarrow> string \<Rightarrow> string \<Rightarrow> SessionPayload option" where
  "verifySessionCookie now secret val =
     (if secret = [] \<or> val = [] then None
      else case last_cut (CHR ''.'') val of None \<Rightarrow> None
      | Some (body, sig) \<Rightarrow>
        if body = [] \<or> sig = [] \<or> length sig \<noteq> 32 \<or> sessionSign secret body \<noteq> sig then None
        else let parts = split (CHR ''.'') body in
          if length parts \<noteq> 5 then None
          else case parse_int 10 64 (parts ! 0) of None \<Rightarrow> None
          | Some uid \<Rightarrow>
            if uid \<le> 0 \<or> parts ! 1 = [] then None
            else case parse_int 10 64 (parts ! 2) of None \<Rightarrow> None
            | Some exp \<Rightarrow>
              if exp \<le> 0 \<or> unix now > exp then None
              else case parse_int 10 64 (parts ! 4) of None \<Rightarrow> None
              | Some gen \<Rightarrow>
                if gen < 0 then None
                else Some \<lparr>sp_UserID = uid, sp_Role = parts ! 1, sp_Exp = exp, sp_Remember = (parts ! 3 = ''1''), sp_Gen = gen\<rparr>)"

subsection \<open>CSRF tokens\<close>

definition csrfKeyInfo :: string where "csrfKeyInfo = ''unmask admin csrf v1''"

definition csrfKey :: "string \<Rightarrow> string" where
  "csrfKey secret = hkdf_sha256 secret csrfKeyInfo"

definition csrfTokenFor :: "string \<Rightarrow> string \<Rightarrow> string" where
  "csrfTokenFor secret sessionValue =
     (case last_cut (CHR ''.'') sessionValue of None \<Rightarrow> []
      | Some (_, sig) \<Rightarrow> if sig = [] then [] else hex_encode (hmac sha256 (csrfKey secret) (csrfKeyInfo @ ''|'' @ sig)))"

text \<open>
  What a request brings: the cookies of the names (\<open>None\<close> when there is none), and the token's
  channels, the header, the form field, and for a multipart body its field, \<open>None\<close> when the
  body does not parse.
\<close>

record AdminReq =
  aq_session :: "string option"
  aq_csrf_cookie :: "string option"
  aq_mutates :: bool
  aq_form_ok :: bool
  aq_header :: string
  aq_field :: string
  aq_multipart :: bool
  aq_multipart_field :: "string option"
  aq_api :: bool

definition csrfTokenOf :: "string \<Rightarrow> AdminReq \<Rightarrow> string" where
  "csrfTokenOf secret r = (case aq_session r of None \<Rightarrow> [] | Some v \<Rightarrow> if v = [] then [] else csrfTokenFor secret v)"

definition csrf_echo :: "AdminReq \<Rightarrow> string" where
  "csrf_echo r =
     (let echo = trim_space (aq_header r);
          echo = (if echo = [] then trim_space (aq_field r) else echo)
      in if echo = [] \<and> aq_multipart r then (case aq_multipart_field r of None \<Rightarrow> [] | Some v \<Rightarrow> trim_space v) else echo)"

definition verifyCSRF :: "string \<Rightarrow> AdminReq \<Rightarrow> bool" where
  "verifyCSRF secret r \<longleftrightarrow>
     (let expected = csrfTokenOf secret r in expected \<noteq> [] \<and> csrf_echo r \<noteq> [] \<and> expected = csrf_echo r)"

text \<open>The sign-in form's token, derived from a nonce in a cookie.\<close>

definition loginNonceLen :: nat where "loginNonceLen = 32"

definition hex_digit :: "char \<Rightarrow> bool" where
  "hex_digit c \<longleftrightarrow> (case digit_val c of None \<Rightarrow> False | Some d \<Rightarrow> d < 16)"

definition loginCSRFToken :: "string \<Rightarrow> string \<Rightarrow> string" where
  "loginCSRFToken secret nonce = hex_encode (hmac sha256 (csrfKey secret) (csrfKeyInfo @ ''|login|'' @ nonce))"

definition validLoginNonce :: "string \<Rightarrow> bool" where
  "validLoginNonce v \<longleftrightarrow> length v = loginNonceLen \<and> list_all hex_digit v"

text \<open>\<open>issueLoginCSRF\<close>: the token and the nonce cookie it sets; \<open>random\<close> is the 16 bytes drawn.\<close>

definition issueLoginCSRF :: "string \<Rightarrow> string option \<Rightarrow> string option \<Rightarrow> string \<times> string option" where
  "issueLoginCSRF secret cookie random =
     (case cookie of
        Some c \<Rightarrow> if validLoginNonce c then (loginCSRFToken secret c, None)
          else (case random of None \<Rightarrow> ([], None) | Some b \<Rightarrow> (loginCSRFToken secret (hex_encode b), Some (hex_encode b)))
      | None \<Rightarrow> (case random of None \<Rightarrow> ([], None) | Some b \<Rightarrow> (loginCSRFToken secret (hex_encode b), Some (hex_encode b))))"

definition verifyLoginCSRF :: "string \<Rightarrow> string option \<Rightarrow> string \<Rightarrow> bool" where
  "verifyLoginCSRF secret cookie field \<longleftrightarrow>
     (case cookie of None \<Rightarrow> False
      | Some c \<Rightarrow> validLoginNonce c \<and> (let echo = trim_space field in echo \<noteq> [] \<and> loginCSRFToken secret c = echo))"

subsection \<open>Roles\<close>

definition role_rank :: "string \<Rightarrow> nat" where
  "role_rank r = (if r = RoleViewer then 1 else if r = RoleAdmin then 2 else if r = RoleSuperadmin then 3 else 0)"

definition roleAtLeast :: "string \<Rightarrow> string \<Rightarrow> bool" where
  "roleAtLeast role mn \<longleftrightarrow> role_rank mn \<noteq> 0 \<and> role_rank mn \<le> role_rank role"

datatype RoleAnswer = RoleUnauthorized | RoleForbidden | RoleNext

definition RequireRole :: "string \<Rightarrow> SessionPayload option \<Rightarrow> RoleAnswer" where
  "RequireRole mn pay =
     (case pay of None \<Rightarrow> RoleUnauthorized | Some p \<Rightarrow> if roleAtLeast (sp_Role p) mn then RoleNext else RoleForbidden)"


subsection \<open>In front of every admin page\<close>

text \<open>
  The surroundings of a request: the gates before the session, whether there is a user
  repository, what its statements do, and whether a schema update refuses this change.
\<close>

record AdminEnv =
  ae_now :: int
  ae_setupNeeded :: bool
  ae_ipAllowed :: bool
  ae_hostAllowed :: bool
  ae_dbWaiting :: bool
  ae_users :: "UserDB option"
  ae_writesRefused :: bool

datatype AuthAnswer = ToSetup | Forbidden403 | DBWaitingPage | ToLogin | Unauthorized401 | BadForm | CsrfRefused | WritesRefused | Admitted SessionPayload

record AuthOut =
  ao_answer :: AuthAnswer
  ao_cleared :: bool
  ao_session :: "string option"
  ao_csrf :: "string option"
  ao_token :: string

definition plain_answer :: "AuthAnswer \<Rightarrow> AuthOut" where
  "plain_answer x = \<lparr>ao_answer = x, ao_cleared = False, ao_session = None, ao_csrf = None, ao_token = []\<rparr>"

text \<open>The account behind a verified cookie: Inl when the session ends here, Inr the payload to go on with.\<close>

definition recheck_account :: "UserDB option \<Rightarrow> SessionPayload \<Rightarrow> Accounts \<Rightarrow> unit + SessionPayload" where
  "recheck_account repo pay a =
     (case repo of None \<Rightarrow> Inr pay
      | Some d \<Rightarrow>
        (case GetByID d (sp_UserID pay) a of
           Inr u \<Rightarrow> if ur_Disabled u \<or> ur_SessionGen u \<noteq> sp_Gen pay then Inl () else Inr (pay\<lparr>sp_Role := ur_Role u\<rparr>)
         | Inl e \<Rightarrow> if e = ErrNotFound then Inl () else Inr pay))"

definition AuthMiddleware :: "string \<Rightarrow> AdminEnv \<Rightarrow> AdminReq \<Rightarrow> Accounts \<Rightarrow> AuthOut" where
  "AuthMiddleware secret e r a =
     (if ae_setupNeeded e then plain_answer ToSetup
      else if \<not> ae_ipAllowed e \<or> \<not> ae_hostAllowed e then plain_answer Forbidden403
      else if ae_dbWaiting e then plain_answer DBWaitingPage
      else case (case aq_session r of None \<Rightarrow> None | Some v \<Rightarrow> verifySessionCookie (ae_now e) secret v) of
        None \<Rightarrow> plain_answer (if aq_api r then Unauthorized401 else ToLogin)
      | Some pay \<Rightarrow>
        (case recheck_account (ae_users e) pay a of
           Inl _ \<Rightarrow> (plain_answer ToLogin)\<lparr>ao_cleared := True\<rparr>
         | Inr pay \<Rightarrow>
           let fresh = (if sessionNeedsRefresh (ae_now e) pay
                        then Some (issueSessionCookie secret (ae_now e) (sp_UserID pay) (sp_Role pay) (sp_Remember pay) (sp_Gen pay)) else None);
               sessionValue = (case fresh of Some v \<Rightarrow> v | None \<Rightarrow> the (aq_session r));
               tok = csrfTokenFor secret sessionValue;
               answer = (if aq_mutates r
                         then (if \<not> aq_form_ok r then BadForm else if \<not> verifyCSRF secret r then CsrfRefused
                               else if ae_writesRefused e then WritesRefused else Admitted pay)
                         else Admitted pay)
           in \<lparr>ao_answer = answer, ao_cleared = False, ao_session = fresh,
               ao_csrf = (if aq_csrf_cookie r = Some tok then None else Some tok), ao_token = tok\<rparr>))"

text \<open>The wizard's own check (\<open>setupSuperadmin\<close>).\<close>

definition setupSuperadmin :: "string \<Rightarrow> AdminEnv \<Rightarrow> AdminReq \<Rightarrow> Accounts \<Rightarrow> SessionPayload option" where
  "setupSuperadmin secret e r a =
     (if \<not> ae_ipAllowed e then None
      else case (case aq_session r of None \<Rightarrow> None | Some v \<Rightarrow> verifySessionCookie (ae_now e) secret v) of
        None \<Rightarrow> None
      | Some pay \<Rightarrow>
        let current = (case ae_users e of None \<Rightarrow> Some pay
          | Some d \<Rightarrow> (case GetByID d (sp_UserID pay) a of
               Inr u \<Rightarrow> if ur_Disabled u \<or> ur_SessionGen u \<noteq> sp_Gen pay then None else Some (pay\<lparr>sp_Role := ur_Role u\<rparr>)
             | Inl _ \<Rightarrow> Some pay))
        in case current of None \<Rightarrow> None | Some pay \<Rightarrow> if roleAtLeast (sp_Role pay) RoleSuperadmin then Some pay else None)"

definition setupCSRFOK :: "string \<Rightarrow> AdminEnv \<Rightarrow> AdminReq \<Rightarrow> Accounts \<Rightarrow> bool" where
  "setupCSRFOK secret e r a \<longleftrightarrow> \<not> (setupSuperadmin secret e r a \<noteq> None \<and> \<not> verifyCSRF secret r)"

text \<open>\<open>reissueSessionAfterPasswordChange\<close>: the new session and CSRF cookies.\<close>

definition reissueSessionAfterPasswordChange :: "string \<Rightarrow> int \<Rightarrow> UserDB option \<Rightarrow> SessionPayload option \<Rightarrow> int \<Rightarrow> Accounts \<Rightarrow> (string \<times> string) option" where
  "reissueSessionAfterPasswordChange secret now repo session userID a =
     (case (session, repo) of
        (Some pay, Some d) \<Rightarrow>
          if sp_UserID pay \<noteq> userID then None
          else (case GetByID d userID a of Inl _ \<Rightarrow> None
            | Inr u \<Rightarrow> let v = issueSessionCookie secret now (ur_ID u) (ur_Role u) (sp_Remember pay) (ur_SessionGen u) in Some (v, csrfTokenFor secret v))
      | _ \<Rightarrow> None)"

subsection \<open>Login and logout\<close>

datatype PwResult = PwMatch | PwMismatch | PwBusy

record LoginReq =
  lq_ip :: string
  lq_nonce :: "string option"
  lq_field :: string
  lq_username :: string
  lq_password :: string
  lq_remember :: bool

type_synonym throttle_state = "throttle_table \<times> loginThrottle"

datatype LoginAnswer = FormExpired | LockedOut int | LoginBusy | InvalidLogin | LoginChecked User

record LoginEnv =
  le_now :: int
  le_throttleDB :: bool
  le_users :: "UserDB option"
  le_check :: "string \<Rightarrow> string \<Rightarrow> PwResult"
  le_dummy :: "string \<Rightarrow> PwResult"
  le_needsRehash :: "string \<Rightarrow> bool"
  le_hash :: "string \<Rightarrow> string option"
  le_writesHeld :: bool

definition reject_login :: "LoginEnv \<Rightarrow> LoginReq \<Rightarrow> throttle_state \<Rightarrow> LoginAnswer \<times> throttle_state" where
  "reject_login e q t =
     (let (d, t) = throttle_note (le_throttleDB e) t (loginKey (lq_ip q)) (le_now e)
            (lt_failLimit (snd t)) (lt_failWindow (snd t)) (lt_lockFor (snd t))
      in (if d > 0 then LockedOut d else InvalidLogin, t))"

text \<open>
  \<open>AdminLoginPost\<close> up to the accepted password: the form's token, the lock, the account as it
  is read, the password. The rest, the new cookie, is issued from the account as read, while
  others may have changed it since.
\<close>

definition login_check :: "string \<Rightarrow> LoginEnv \<Rightarrow> LoginReq \<Rightarrow> Accounts \<Rightarrow> throttle_state \<Rightarrow> LoginAnswer \<times> throttle_state" where
  "login_check secret e q a t =
     (if \<not> verifyLoginCSRF secret (lq_nonce q) (lq_field q) then (FormExpired, t)
      else let username = trim_space (lq_username q);
               d = lockedFor (le_throttleDB e) t (loginKey (lq_ip q)) (le_now e)
           in if d > 0 then (LockedOut d, t)
              else case le_users e of
                None \<Rightarrow> reject_login e q t
              | Some db \<Rightarrow>
                if username = [] \<or> lq_password q = [] then reject_login e q t
                else case GetByUsername db username a of
                  Inl _ \<Rightarrow> if le_dummy e (lq_password q) = PwBusy then (LoginBusy, t) else reject_login e q t
                | Inr u \<Rightarrow>
                  (case le_check e (ur_PasswordHash u) (lq_password q) of
                     PwBusy \<Rightarrow> (LoginBusy, t)
                   | PwMismatch \<Rightarrow> reject_login e q t
                   | PwMatch \<Rightarrow> if ur_Disabled u then reject_login e q t
                       else (LoginChecked u, clear (le_throttleDB e) t (loginKey (lq_ip q)))))"

text \<open>The upgrade of the stored hash on the way in; its failure does not stop the login.\<close>

definition login_rehash :: "LoginEnv \<Rightarrow> UserDB \<Rightarrow> LoginReq \<Rightarrow> User \<Rightarrow> Accounts \<Rightarrow> Accounts" where
  "login_rehash e d q u a =
     (if le_needsRehash e (ur_PasswordHash u) \<and> \<not> le_writesHeld e
      then snd (RehashPassword d (le_hash e) (ur_ID u) (lq_password q) a) else a)"

definition login_issue :: "string \<Rightarrow> int \<Rightarrow> bool \<Rightarrow> User \<Rightarrow> string \<times> string" where
  "login_issue secret now remember u =
     (let v = issueSessionCookie secret now (ur_ID u) (ur_Role u) remember (ur_SessionGen u) in (v, csrfTokenFor secret v))"

text \<open>\<open>AdminLogout\<close> behind \<open>RequireCSRF\<close>: whether it was let through, and the accounts after it.\<close>

definition AdminLogout :: "string \<Rightarrow> AdminEnv \<Rightarrow> bool \<Rightarrow> AdminReq \<Rightarrow> Accounts \<Rightarrow> bool \<times> Accounts" where
  "AdminLogout secret e writesHeld r a =
     (if \<not> aq_form_ok r \<or> \<not> verifyCSRF secret r then (False, a)
      else (True,
        case (aq_session r, ae_users e) of
          (Some v, Some d) \<Rightarrow>
            (case verifySessionCookie (ae_now e) secret v of None \<Rightarrow> a
             | Some pay \<Rightarrow> if writesHeld then a else snd (BumpSessionGen d (sp_UserID pay) a))
        | _ \<Rightarrow> a))"


section \<open>Lemmas\<close>

subsection \<open>The format\<close>

lemma last_cut_iff: "last_cut c s = Some (b, g) \<longleftrightarrow> s = b @ c # g \<and> c \<notin> set g"
proof
  assume "last_cut c s = Some (b, g)"
  then obtain k where k: "index_byte c (rev s) = Some k" "b = take (length s - Suc k) s" "g = drop (length s - k) s"
    by (auto simp: last_cut_def split: option.splits)
  note i = index_byte_Some [OF k(1)]
  then have l: "k < length s" "s ! (length s - Suc k) = c" using rev_nth [of k s] by simp_all
  have "s = b @ s ! (length s - Suc k) # drop (Suc (length s - Suc k)) s" unfolding k(2) using l(1) by (intro id_take_nth_drop) simp
  moreover have "Suc (length s - Suc k) = length s - k" using l(1) by simp
  moreover have "set g = set (take k (rev s))" unfolding k(3) by (simp add: take_rev)
  ultimately show "s = b @ c # g \<and> c \<notin> set g" using i l k(3) by simp
next
  assume s: "s = b @ c # g \<and> c \<notin> set g"
  then have "index_byte c (rev s) = Some (length g)" using index_byte_append [of c "rev g" "rev b"] by simp
  then show "last_cut c s = Some (b, g)" using s by (simp add: last_cut_def)
qed

lemma last_cut_None: "last_cut c s = None \<longleftrightarrow> c \<notin> set s"
  using index_byte_None [of c "rev s"] by (cases "index_byte c (rev s)") (simp_all add: last_cut_def)

lemma parse_int_format_eq: "parse_int 10 64 (format_int 10 i) = Some j \<Longrightarrow> j = i"
proof (cases "i < 0")
  case True
  assume "parse_int 10 64 (format_int 10 i) = Some j"
  then show "j = i" using True by (auto simp: parse_int_def format_int_def parse_format_nat split: if_splits option.splits)
next
  case False
  assume a: "parse_int 10 64 (format_int 10 i) = Some j"
  obtain c cs where c: "format_nat 10 (nat i) = c # cs" "numeric c" using format_nat_hd [of 10 "nat i"] by auto
  have "parse_digits 10 0 (c # cs) = Some (nat i)" using parse_format_nat [of 10 "nat i"] c by simp
  then show "j = i" using a False c numeric_punct [OF c(2)] by (simp add: parse_int_def format_int_def split: if_splits)
qed

lemma length_sessionSign [simp]: "length (sessionSign secret body) = 32"
  by (simp add: sessionSign_def)

lemma sessionSign_dotless: "CHR ''.'' \<notin> set (sessionSign secret body)"
  using hex_chars [of _ 32] by (auto simp: sessionSign_def)

text \<open>A value is the five texts of its fields and their signature; the verifier reads the numbers leniently.\<close>

type_synonym session_texts = "string \<times> string \<times> string \<times> string"

fun session_body :: "session_texts \<Rightarrow> string \<Rightarrow> string" where
  "session_body (u, e, m, g) role = join (CHR ''.'') [u, role, e, m, g]"

definition sign_session :: "string \<Rightarrow> session_texts \<Rightarrow> SessionPayload \<Rightarrow> string" where
  "sign_session secret h p = session_body h (sp_Role p) @ CHR ''.'' # sessionSign secret (session_body h (sp_Role p))"

fun session_variant :: "session_texts \<Rightarrow> SessionPayload \<Rightarrow> bool" where
  "session_variant (u, e, m, g) p \<longleftrightarrow> dotless m \<and> parse_int 10 64 u = Some (sp_UserID p) \<and> parse_int 10 64 e = Some (sp_Exp p)
     \<and> (sp_Remember p \<longleftrightarrow> m = ''1'') \<and> parse_int 10 64 g = Some (sp_Gen p) \<and> dotless u \<and> dotless e \<and> dotless g"

definition session_admissible :: "int \<Rightarrow> string \<Rightarrow> SessionPayload \<Rightarrow> bool" where
  "session_admissible now secret p \<longleftrightarrow> secret \<noteq> [] \<and> 0 < sp_UserID p \<and> sp_Role p \<noteq> [] \<and> dotless (sp_Role p) \<and> 0 < sp_Exp p
     \<and> unix now \<le> sp_Exp p \<and> 0 \<le> sp_Gen p"

lemma join5: "join c [a, b, d, e, f] = a @ c # b @ c # d @ c # e @ c # f"
  by simp

lemma list_of_5: "length xs = 5 \<Longrightarrow> xs = [xs ! 0, xs ! 1, xs ! 2, xs ! 3, xs ! 4]"
  by (auto simp: length_Suc_conv eval_nat_numeral)

lemma verify_signed:
  assumes "session_admissible now secret p" "session_variant h p"
  shows "verifySessionCookie now secret (sign_session secret h p) = Some p"
proof -
  obtain u e m g where h: "h = (u, e, m, g)" by (cases h)
  have parts: "split (CHR ''.'') (session_body h (sp_Role p)) = [u, sp_Role p, e, m, g]"
    using assms unfolding h session_body.simps by (subst split_join) (auto simp: dotless_def session_admissible_def)
  have "session_body h (sp_Role p) \<noteq> []" using assms(1) by (simp add: h session_admissible_def)
  moreover have "last_cut (CHR ''.'') (sign_session secret h p) = Some (session_body h (sp_Role p), sessionSign secret (session_body h (sp_Role p)))"
    using sessionSign_dotless by (simp add: last_cut_iff sign_session_def)
  moreover have "sessionSign secret (session_body h (sp_Role p)) \<noteq> []" using length_sessionSign [of secret] by (metis list.size(3) zero_neq_numeral)
  ultimately show ?thesis
    using assms parts by (cases p) (auto simp: verifySessionCookie_def session_admissible_def h sign_session_def)
qed

lemma verify_form:
  assumes "verifySessionCookie now secret v = Some p"
  shows "session_admissible now secret p \<and> (\<exists>h. session_variant h p \<and> v = sign_session secret h p)"
proof -
  obtain body sig where c: "last_cut (CHR ''.'') v = Some (body, sig)" using assms by (auto simp: verifySessionCookie_def split: option.splits)
  let ?ps = "split (CHR ''.'') body"
  note P = assms [unfolded verifySessionCookie_def c Let_def, simplified]
  have sig: "sessionSign secret body = sig" and len: "length ?ps = 5" and s: "secret \<noteq> []" by (use P in \<open>auto split: if_splits\<close>)
  obtain u e g where n: "parse_int 10 64 (?ps ! 0) = Some u" "parse_int 10 64 (?ps ! 2) = Some e" "parse_int 10 64 (?ps ! 4) = Some g"
    using P by (auto split: if_splits option.splits)
  have p: "p = \<lparr>sp_UserID = u, sp_Role = ?ps ! 1, sp_Exp = e, sp_Remember = (?ps ! 3 = ''1''), sp_Gen = g\<rparr>"
    and ad: "0 < u" "?ps ! 1 \<noteq> []" "0 < e" "unix now \<le> e" "0 \<le> g"
    using P n by (auto split: if_splits)
  have d: "dotless (?ps ! k)" if "k < 5" for k using that len split_mem_no_sep [of "?ps ! k"] unfolding dotless_def by (metis nth_mem)
  have "body = session_body (?ps ! 0, ?ps ! 2, ?ps ! 3, ?ps ! 4) (?ps ! 1)"
    unfolding session_body.simps using join_split [of "CHR ''.''" body] len list_of_5 [of ?ps] by metis
  then have "v = sign_session secret (?ps ! 0, ?ps ! 2, ?ps ! 3, ?ps ! 4) p" using c sig by (simp add: last_cut_iff sign_session_def p)
  moreover have "session_variant (?ps ! 0, ?ps ! 2, ?ps ! 3, ?ps ! 4) p" using n d by (simp add: p)
  ultimately show ?thesis using ad d [of 1] s by (auto simp: session_admissible_def p)
qed

interpretation session: signed_token "sign_session secret" session_variant "verifySessionCookie now secret" "session_admissible now secret"
  for secret now
  by unfold_locales (use verify_signed verify_form in blast)


lemma valid_role_dotless: "IsValidRole r \<Longrightarrow> r \<noteq> [] \<and> dotless r"
  by (auto simp: IsValidRole_def role_defs dotless_def)

lemma issue_sign:
  "issueSessionCookie secret now i role rem g
     = sign_session secret (format_int 10 i, format_int 10 (unix (now + session_ttl rem)), if rem then ''1'' else ''0'', format_int 10 g)
         \<lparr>sp_UserID = i, sp_Role = role, sp_Exp = unix (now + session_ttl rem), sp_Remember = rem, sp_Gen = g\<rparr>"
  by (simp add: issueSessionCookie_def sign_session_def Let_def)

lemma format_dotless: "dotless (format_int 10 i)"
  using format_int_chars [of 10 _ i] by (auto simp: dotless_def)

lemma sign_session_parts:
  assumes "session_variant h p" "dotless (sp_Role p)"
  shows "last_cut (CHR ''.'') (sign_session secret h p) = Some (session_body h (sp_Role p), sessionSign secret (session_body h (sp_Role p)))"
  using sessionSign_dotless by (simp add: last_cut_iff sign_session_def)

text \<open>Whatever time it is, a cookie that was issued and verifies says what it was issued with.\<close>

lemma verify_issued:
  assumes "verifySessionCookie t secret (issueSessionCookie secret now i role rem g) = Some p" "dotless role"
  shows "p = \<lparr>sp_UserID = i, sp_Role = role, sp_Exp = unix (now + session_ttl rem), sp_Remember = rem, sp_Gen = g\<rparr>"
proof -
  let ?ts = "[format_int 10 i, role, format_int 10 (unix (now + session_ttl rem)), if rem then ''1'' else ''0'', format_int 10 g]"
  let ?b = "join (CHR ''.'') ?ts"
  have "last_cut (CHR ''.'') (issueSessionCookie secret now i role rem g) = Some (?b, sessionSign secret ?b)"
    using sessionSign_dotless [of secret ?b] by (simp only: last_cut_iff issueSessionCookie_def Let_def not_False_eq_True simp_thms)
  moreover have "split (CHR ''.'') ?b = ?ts" using assms(2) format_dotless by (subst split_join) (auto simp: dotless_def)
  ultimately show ?thesis using assms(1)
    by (auto simp: verifySessionCookie_def Let_def simp del: join.simps split: if_splits option.splits dest!: parse_int_format_eq)
qed

lemma issued_verifies:
  assumes "IsValidRole role" "secret \<noteq> []" "0 < i" "in64 i" "0 \<le> g" "in64 g" "0 < unix (now + session_ttl rem)" "in64 (unix (now + session_ttl rem))"
    and "unix t \<le> unix (now + session_ttl rem)"
  shows "verifySessionCookie t secret (issueSessionCookie secret now i role rem g)
     = Some \<lparr>sp_UserID = i, sp_Role = role, sp_Exp = unix (now + session_ttl rem), sp_Remember = rem, sp_Gen = g\<rparr>"
  unfolding issue_sign using assms valid_role_dotless [OF assms(1)] format_dotless
  by (intro verify_signed) (auto simp: session_admissible_def parse_format_int dotless_def)

subsection \<open>The middleware\<close>

definition gates_open :: "AdminEnv \<Rightarrow> bool" where
  "gates_open e \<longleftrightarrow> \<not> ae_setupNeeded e \<and> ae_ipAllowed e \<and> ae_hostAllowed e \<and> \<not> ae_dbWaiting e"

lemma admits_iff:
  "ao_answer (AuthMiddleware secret e r a) = Admitted pay \<longleftrightarrow>
     gates_open e \<and> (\<exists>v p. aq_session r = Some v \<and> verifySessionCookie (ae_now e) secret v = Some p \<and> recheck_account (ae_users e) p a = Inr pay)
     \<and> (aq_mutates r \<longrightarrow> aq_form_ok r \<and> verifyCSRF secret r \<and> \<not> ae_writesRefused e)"
  by (auto simp: AuthMiddleware_def plain_answer_def gates_open_def Let_def split: option.splits sum.splits)

lemma refresh_form:
  assumes "ao_session (AuthMiddleware secret e r a) = Some w"
  obtains v p pay where "aq_session r = Some v" "verifySessionCookie (ae_now e) secret v = Some p" "recheck_account (ae_users e) p a = Inr pay"
    "w = issueSessionCookie secret (ae_now e) (sp_UserID pay) (sp_Role pay) (sp_Remember pay) (sp_Gen pay)"
  using assms that by (auto simp: AuthMiddleware_def plain_answer_def Let_def split: option.splits sum.splits if_splits)

lemma recheck_keeps:
  assumes "recheck_account repo p a = Inr pay"
  shows "sp_UserID pay = sp_UserID p \<and> sp_Gen pay = sp_Gen p \<and> sp_Exp pay = sp_Exp p \<and> sp_Remember pay = sp_Remember p
    \<and> (sp_Role pay = sp_Role p \<or> (\<exists>u \<in> set (ac_rows a). sp_Role pay = ur_Role u))"
proof -
  have "u \<in> set (ac_rows a)" if "find_user i a = Some u" for i u using that find_Some_iff2 by (fastforce simp: find_user_def)
  then show ?thesis using assms by (fastforce simp: recheck_account_def GetByID_def split: option.splits sum.splits if_splits)
qed

lemma recheck_refuses:
  assumes "ud_ok d SelectUser" "gen_at_least (sp_UserID p) (sp_Gen p + 1) a"
  shows "recheck_account (Some d) p a = Inl ()"
proof (cases "find_user (sp_UserID p) a")
  case (Some u)
  then have "u \<in> set (ac_rows a)" "ur_ID u = sp_UserID p" unfolding find_user_def by (auto dest: find_Some_iff2)
  then have "sp_Gen p + 1 \<le> ur_SessionGen u" using assms(2) by (auto simp: gen_at_least_def)
  then show ?thesis using Some assms(1) by (simp add: recheck_account_def GetByID_def)
qed (use assms(1) in \<open>simp add: recheck_account_def GetByID_def\<close>)

subsection \<open>Runs\<close>

text \<open>
  The accounts, the cookie values handed out, and the logins under way with the account as
  each read it. A request brings a value that was handed out; only those verify, short of a
  forged signature.
\<close>

record AdminSys =
  as_accounts :: Accounts
  as_values :: "string list"
  as_logins :: "User list"

inductive admin_step :: "string \<Rightarrow> AdminSys \<Rightarrow> AdminSys \<Rightarrow> bool" for secret where
  step_accounts: "account_step UNIV (as_accounts s) a \<Longrightarrow> admin_step secret s (s\<lparr>as_accounts := a\<rparr>)"
| step_login_check: "login_check secret e q (as_accounts s) t = (LoginChecked u, t') \<Longrightarrow> admin_step secret s (s\<lparr>as_logins := u # as_logins s\<rparr>)"
| step_login_rehash: "u \<in> set (as_logins s) \<Longrightarrow> admin_step secret s (s\<lparr>as_accounts := login_rehash e d q u (as_accounts s)\<rparr>)"
| step_login_issue: "u \<in> set (as_logins s) \<Longrightarrow> admin_step secret s (s\<lparr>as_values := fst (login_issue secret now remember u) # as_values s\<rparr>)"
| step_request: "aq_session r = Some v \<Longrightarrow> v \<in> set (as_values s) \<Longrightarrow> ao_session (AuthMiddleware secret e r (as_accounts s)) = Some w
    \<Longrightarrow> admin_step secret s (s\<lparr>as_values := w # as_values s\<rparr>)"
| step_reissue: "reissueSessionAfterPasswordChange secret now repo session i (as_accounts s) = Some (w, tok)
    \<Longrightarrow> admin_step secret s (s\<lparr>as_values := w # as_values s\<rparr>)"
| step_logout: "admin_step secret s (s\<lparr>as_accounts := snd (AdminLogout secret e held r (as_accounts s))\<rparr>)"

definition admin_start :: "AdminSys \<Rightarrow> bool" where
  "admin_start s \<longleftrightarrow> accounts_start (as_accounts s) \<and> as_values s = [] \<and> as_logins s = []"

text \<open>No value handed out is ahead of its account.\<close>

definition value_behind :: "string \<Rightarrow> Accounts \<Rightarrow> string \<Rightarrow> bool" where
  "value_behind secret a v \<longleftrightarrow> (\<forall>t p. verifySessionCookie t secret v = Some p \<longrightarrow> gen_at_least (sp_UserID p) (sp_Gen p) a)"

definition admin_inv :: "string \<Rightarrow> AdminSys \<Rightarrow> bool" where
  "admin_inv secret s \<longleftrightarrow> accounts_ok (as_accounts s) \<and> (\<forall>v \<in> set (as_values s). value_behind secret (as_accounts s) v)
     \<and> (\<forall>u \<in> set (as_logins s). IsValidRole (ur_Role u) \<and> gen_at_least (ur_ID u) (ur_SessionGen u) (as_accounts s))"

lemma value_behind_issue: "gen_at_least i g a \<Longrightarrow> dotless role \<Longrightarrow> value_behind secret a (issueSessionCookie secret now i role rem g)"
  by (auto simp: value_behind_def dest!: verify_issued)

lemma row_gen: "accounts_ok a \<Longrightarrow> u \<in> set (ac_rows a) \<Longrightarrow> gen_at_least (ur_ID u) (ur_SessionGen u) a"
  by (auto simp: accounts_ok_def gen_at_least_def distinct_map inj_on_def)

lemma logout_step: "\<exists>a'. AdminLogout secret e held r a = (fst (AdminLogout secret e held r a), a') \<and> (a' = a \<or> account_step UNIV a a')"
  by (auto simp: AdminLogout_def split: option.splits intro: step_bump)


lemma login_rehash_step: "login_rehash e d q u a = a \<or> account_step UNIV a (login_rehash e d q u a)"
  by (simp add: login_rehash_def step_rehash)

lemma admin_inv_accounts:
  assumes "admin_inv secret s" "row_change UNIV (as_accounts s) a"
  shows "admin_inv secret (s\<lparr>as_accounts := a\<rparr>)"
  using assms row_change_ok [OF assms(2)] row_change_gen [OF assms(2)] by (auto simp: admin_inv_def value_behind_def)

lemma account_row_change: "admin_inv secret s \<Longrightarrow> account_step UNIV (as_accounts s) a \<Longrightarrow> row_change UNIV (as_accounts s) a"
  by (rule step_row_change) (auto simp: admin_inv_def accounts_ok_def)

lemma admin_inv_value: "admin_inv secret s \<Longrightarrow> value_behind secret (as_accounts s) v \<Longrightarrow> admin_inv secret (s\<lparr>as_values := v # as_values s\<rparr>)"
  by (auto simp: admin_inv_def)

lemma GetByUsername_row: "GetByUsername d n a = Inr u \<Longrightarrow> u \<in> set (ac_rows a)"
  by (auto simp: GetByUsername_def split: if_splits option.splits dest: find_Some_iff2)

lemma GetByID_row: "GetByID d i a = Inr u \<Longrightarrow> u \<in> set (ac_rows a) \<and> ur_ID u = i"
  by (auto simp: GetByID_def find_user_def split: if_splits option.splits dest: find_Some_iff2)

lemma login_check_row:
  assumes "login_check secret e q a t = (LoginChecked u, t')"
  shows "u \<in> set (ac_rows a) \<and> \<not> ur_Disabled u \<and> le_check e (ur_PasswordHash u) (lq_password q) = PwMatch"
  using assms GetByUsername_row
  by (auto simp: login_check_def reject_login_def Let_def split: if_splits option.splits sum.splits PwResult.splits prod.splits)

lemma admin_inv_step:
  assumes "admin_inv secret s" "admin_step secret s s'"
  shows "admin_inv secret s'"
  using assms(2)
proof cases
  case (step_accounts a)
  then show ?thesis using admin_inv_accounts [OF assms(1)] account_row_change [OF assms(1)] by simp
next
  case (step_login_check e q t u t')
  have "u \<in> set (ac_rows (as_accounts s))" using login_check_row [OF step_login_check(2)] by simp
  then show ?thesis using assms(1) row_gen [of "as_accounts s" u] by (auto simp: step_login_check(1) admin_inv_def accounts_ok_def)
next
  case (step_login_rehash u e d q)
  then show ?thesis using login_rehash_step [of e d q u "as_accounts s"] assms(1) admin_inv_accounts [OF assms(1)] account_row_change [OF assms(1)]
    by (auto simp del: admin_step.simps)
next
  case (step_login_issue u now remember)
  have "gen_at_least (ur_ID u) (ur_SessionGen u) (as_accounts s)" "dotless (ur_Role u)"
    using assms(1) step_login_issue(2) valid_role_dotless by (auto simp: admin_inv_def)
  then show ?thesis unfolding step_login_issue(1)
    by (intro admin_inv_value assms(1)) (simp add: login_issue_def Let_def value_behind_issue)
next
  case (step_request r v e w)
  obtain p pay where w: "verifySessionCookie (ae_now e) secret v = Some p" "recheck_account (ae_users e) p (as_accounts s) = Inr pay"
      "w = issueSessionCookie secret (ae_now e) (sp_UserID pay) (sp_Role pay) (sp_Remember pay) (sp_Gen pay)"
    using refresh_form [OF step_request(4)] step_request(2) by (metis option.inject)
  note k = recheck_keeps [OF w(2)]
  have "gen_at_least (sp_UserID p) (sp_Gen p) (as_accounts s)"
    using assms(1) step_request(3) w(1) by (auto simp: admin_inv_def value_behind_def)
  moreover have "dotless (sp_Role pay)"
    using k verify_form [OF w(1)] assms(1) valid_role_dotless by (auto simp: session_admissible_def admin_inv_def accounts_ok_def)
  ultimately show ?thesis unfolding step_request(1) w(3) using k by (intro admin_inv_value assms(1) value_behind_issue) auto
next
  case (step_reissue now repo session i w tok)
  obtain d pay where d: "session = Some pay" "repo = Some d"
    using step_reissue(2) by (auto simp: reissueSessionAfterPasswordChange_def split: option.splits)
  obtain u where u: "GetByID d i (as_accounts s) = Inr u" "w = issueSessionCookie secret now (ur_ID u) (ur_Role u) (sp_Remember pay) (ur_SessionGen u)"
    using step_reissue(2) unfolding d
    by (cases "GetByID d i (as_accounts s)") (auto simp: reissueSessionAfterPasswordChange_def Let_def split: if_splits)
  have "u \<in> set (ac_rows (as_accounts s))" using GetByID_row [OF u(1)] by simp
  then show ?thesis unfolding step_reissue(1) u(2) using assms(1) row_gen [of "as_accounts s" u] valid_role_dotless
    by (intro admin_inv_value assms(1) value_behind_issue) (auto simp: admin_inv_def accounts_ok_def)
next
  case (step_logout e held r)
  obtain a where a: "snd (AdminLogout secret e held r (as_accounts s)) = a" "a = as_accounts s \<or> account_step UNIV (as_accounts s) a"
    using logout_step [of secret e held r "as_accounts s"] by (metis snd_conv)
  then show ?thesis unfolding step_logout(1) a(1) using assms(1) admin_inv_accounts [OF assms(1)] account_row_change [OF assms(1)] by auto
qed

interpretation admin: invariant_system admin_start "admin_step secret" "admin_inv secret" for secret
proof unfold_locales
  show "admin_start s \<Longrightarrow> admin_inv secret s" for s
    using accounts.inv_init by (auto simp: admin_start_def admin_inv_def accounts_inv_def)
qed (rule admin_inv_step)

lemma admin_steps_gen:
  assumes "(admin_step secret)\<^sup>*\<^sup>* s s'" "admin_inv secret s" "gen_at_least i g (as_accounts s)"
  shows "admin_inv secret s' \<and> gen_at_least i g (as_accounts s')"
  using assms(1)
proof induction
  case (step s1 s2)
  then have inv: "admin_inv secret s1" "gen_at_least i g (as_accounts s1)" by auto
  from step(2) have "as_accounts s2 = as_accounts s1 \<or> account_step UNIV (as_accounts s1) (as_accounts s2)"
  proof cases
    case (step_login_rehash u e d q)
    then show ?thesis using login_rehash_step [of e d q u "as_accounts s1"] by (metis (no_types, lifting) select_convs(1) surjective update_convs(1))
  next
    case (step_logout e held r)
    then show ?thesis using logout_step [of secret e held r "as_accounts s1"] by (metis (no_types, lifting) select_convs(1) snd_conv surjective update_convs(1))
  qed auto
  then have "gen_at_least i g (as_accounts s2)" using inv(2) row_change_gen [OF account_row_change [OF inv(1)] inv(2)] by auto
  then show ?case using admin_inv_step [OF inv(1) step(2)] by simp
qed (use assms in simp)

text \<open>What ends an account's sessions.\<close>

definition revokes :: "UserDB \<Rightarrow> int \<Rightarrow> Accounts \<Rightarrow> Accounts \<Rightarrow> bool" where
  "revokes d i a a1 \<longleftrightarrow> (\<exists>kdf plain. SetPassword d kdf i plain a = (Inr (), a1)) \<or> BumpSessionGen d i a = (Inr (), a1)
     \<or> SetDisabled d i True a = (Inr (), a1) \<or> DeleteAccount d i a = (Inr (), a1)"

lemma update_bumps:
  assumes "update_user d i f a = (Inr (), a1)" "\<And>u. ur_ID (f u) = ur_ID u \<and> ur_SessionGen (f u) = ur_SessionGen u + 1" "gen_at_least i g a"
  shows "gen_at_least i (g + 1) a1"
proof -
  have a1: "a1 = change_rows (\<lambda>u. ur_ID u = i) f a" using assms(1) by (simp add: update_where_def split: if_splits)
  have "g + 1 \<le> ur_SessionGen w" if w: "w \<in> set (ac_rows a1)" "ur_ID w = i" for w
  proof -
    obtain u where u: "u \<in> set (ac_rows a)" "w = (if ur_ID u = i then f u else u)" using w(1) unfolding a1 mem_change by blast
    then have "ur_ID u = i" using w(2) by (auto split: if_splits)
    then show ?thesis using u assms(2) [of u] assms(3) by (simp add: gen_at_least_def)
  qed
  then show ?thesis using assms(3) by (simp add: gen_at_least_def a1)
qed

lemma revokes_gen:
  assumes "revokes d i a a1" "gen_at_least i g a"
  shows "gen_at_least i (g + 1) a1"
  using assms(1) unfolding revokes_def
proof (elim disjE exE)
  fix kdf plain assume "SetPassword d kdf i plain a = (Inr (), a1)"
  then obtain h where "update_user d i (\<lambda>u. bump_gen (u\<lparr>ur_PasswordHash := h\<rparr>)) a = (Inr (), a1)" by (auto simp: SetPassword_def split: option.splits)
  then show ?thesis by (rule update_bumps) (simp_all add: bump_gen_def assms(2))
next
  assume "BumpSessionGen d i a = (Inr (), a1)"
  then show ?thesis unfolding BumpSessionGen_def by (rule update_bumps) (simp_all add: bump_gen_def assms(2))
next
  assume "SetDisabled d i True a = (Inr (), a1)"
  then have "update_user d i (\<lambda>u. if True then bump_gen (u\<lparr>ur_Disabled := True\<rparr>) else u\<lparr>ur_Disabled := False\<rparr>) a = (Inr (), a1)"
    unfolding SetDisabled_def SetDisabled_write_def by (cases "SetDisabled_guard d i True a") simp_all
  then show ?thesis by (rule update_bumps) (simp_all add: bump_gen_def assms(2))
next
  assume "DeleteAccount d i a = (Inr (), a1)"
  then have "a1 = a\<lparr>ac_rows := filter (\<lambda>u. ur_ID u \<noteq> i) (ac_rows a)\<rparr>"
    by (cases "Delete_guard d i a") (auto simp: DeleteAccount_def Delete_write_def split: if_splits)
  then show ?thesis using assms(2) by (simp add: gen_at_least_def)
qed

lemma revokes_step: "revokes d i a a1 \<Longrightarrow> account_step UNIV a a1"
  unfolding revokes_def by (metis snd_conv step_password step_bump step_disabled step_delete)

section \<open>Properties\<close>

text \<open>
  C17: Revoked sessions stay out. Once an account's password is changed, it signs out, is
  suspended or deleted, no cookie handed out before, and none a login that was already under
  way is about to hand out, gets into the admin again: whatever happens afterwards, to this
  account or others, a request with such a cookie is sent to the login page as long as the
  account can be read.
\<close>

theorem revoked_sessions_stay_out:
  assumes "reachable admin_start (admin_step secret) s" "revokes d0 i (as_accounts s) a1" "(admin_step secret)\<^sup>*\<^sup>* (s\<lparr>as_accounts := a1\<rparr>) s2"
    and "v \<in> set (as_values s) \<or> (\<exists>u \<in> set (as_logins s). \<exists>n remember. v = fst (login_issue secret n remember u))"
    and "aq_session r = Some v" "verifySessionCookie (ae_now e) secret v = Some p" "sp_UserID p = i"
    and "gates_open e" "ae_users e = Some d" "ud_ok d SelectUser"
  shows "ao_answer (AuthMiddleware secret e r (as_accounts s2)) = ToLogin \<and> ao_cleared (AuthMiddleware secret e r (as_accounts s2))"
proof -
  have inv: "admin_inv secret s" by (rule admin.reachable_inv [OF assms(1)])
  have "value_behind secret (as_accounts s) v"
    using assms(4) inv valid_role_dotless by (auto simp: admin_inv_def login_issue_def Let_def intro: value_behind_issue)
  then have "gen_at_least i (sp_Gen p) (as_accounts s)" using assms(6,7) by (auto simp: value_behind_def)
  then have "gen_at_least i (sp_Gen p + 1) a1" by (rule revokes_gen [OF assms(2)])
  moreover have "admin_inv secret (s\<lparr>as_accounts := a1\<rparr>)"
    using admin_inv_accounts [OF inv] account_row_change [OF inv] revokes_step [OF assms(2)] by blast
  ultimately have "gen_at_least (sp_UserID p) (sp_Gen p + 1) (as_accounts s2)" using admin_steps_gen [OF assms(3)] assms(7) by simp
  then have "recheck_account (Some d) p (as_accounts s2) = Inl ()" by (rule recheck_refuses [OF assms(10)])
  then show ?thesis using assms(5,6,8,9) by (simp add: AuthMiddleware_def gates_open_def plain_answer_def)
qed

text \<open>
  C25: Who is signed in stays signed in. A cookie issued to an account lets its holder through
  until the last second of its life, with the account's role of that moment, as long as the
  account is there, is not suspended and has not moved on; in the second half of that life
  the answer carries a fresh cookie for a whole life more.
\<close>

theorem session_lives:
  assumes "IsValidRole role" "secret \<noteq> []" "0 < i" "in64 i" "0 \<le> g" "in64 g" "0 < unix (n + session_ttl rem)" "in64 (unix (n + session_ttl rem))"
    and "unix (ae_now e) \<le> unix (n + session_ttl rem)" "gates_open e" "ae_users e = Some d" "ud_ok d SelectUser"
    and "find_user i a = Some u" "\<not> ur_Disabled u" "ur_SessionGen u = g"
    and "aq_session r = Some (issueSessionCookie secret n i role rem g)" "aq_mutates r \<longrightarrow> aq_form_ok r \<and> verifyCSRF secret r \<and> \<not> ae_writesRefused e"
  defines "out \<equiv> AuthMiddleware secret e r a"
  shows "ao_answer out = Admitted \<lparr>sp_UserID = i, sp_Role = ur_Role u, sp_Exp = unix (n + session_ttl rem), sp_Remember = rem, sp_Gen = g\<rparr>
    \<and> (unix (n + session_ttl rem) * second - ae_now e < session_ttl rem div 2 \<longrightarrow>
         ao_session out = Some (issueSessionCookie secret (ae_now e) i (ur_Role u) rem g)
         \<and> ao_token out = csrfTokenFor secret (issueSessionCookie secret (ae_now e) i (ur_Role u) rem g))"
proof -
  note v = issued_verifies [OF assms(1-9)]
  have "recheck_account (ae_users e) \<lparr>sp_UserID = i, sp_Role = role, sp_Exp = unix (n + session_ttl rem), sp_Remember = rem, sp_Gen = g\<rparr> a
      = Inr \<lparr>sp_UserID = i, sp_Role = ur_Role u, sp_Exp = unix (n + session_ttl rem), sp_Remember = rem, sp_Gen = g\<rparr>"
    using assms(11-15) by (simp add: recheck_account_def GetByID_def)
  then show ?thesis using v assms(10,16,17) unfolding out_def
    by (auto simp: AuthMiddleware_def gates_open_def plain_answer_def sessionNeedsRefresh_def Let_def)
qed


text \<open>
  C24: Exactly which cookies are a session. The verifier accepts exactly the values that are
  five texts and their signature under the daemon's key, whose numbers read as a positive
  account number, an expiry not yet passed and a generation, with a role; and it reads the
  payload off those texts.
\<close>

theorem session_accepts_exactly:
  "verifySessionCookie now secret v = Some p \<longleftrightarrow>
     session_admissible now secret p \<and> (\<exists>h. session_variant h p \<and> v = sign_session secret h p)"
  by (rule session.accept_iff)

text \<open>
  C23: A CSRF token is good for its session only. When the middleware lets a change through,
  the echoed token is the one derived from the session cookie of that same request; if it is
  also the token of another session value, or of the sign-in form's nonce, then the two
  messages named here have the same MAC.
\<close>

theorem csrf_token_is_the_sessions:
  assumes "ao_answer (AuthMiddleware secret e r a) = Admitted pay" "aq_mutates r" "aq_session r = Some v"
  shows "csrf_echo r = csrfTokenFor secret v \<and> (\<exists>b g. last_cut (CHR ''.'') v = Some (b, g) \<and> length g = 32
    \<and> (\<forall>w b' g'. last_cut (CHR ''.'') w = Some (b', g') \<and> g' \<noteq> g \<and> csrf_echo r = csrfTokenFor secret w \<longrightarrow>
         csrfKeyInfo @ ''|'' @ g' \<noteq> csrfKeyInfo @ ''|'' @ g
         \<and> hmac sha256 (csrfKey secret) (csrfKeyInfo @ ''|'' @ g') = hmac sha256 (csrfKey secret) (csrfKeyInfo @ ''|'' @ g))
    \<and> (\<forall>nonce. validLoginNonce nonce \<and> csrf_echo r = loginCSRFToken secret nonce \<longrightarrow>
         csrfKeyInfo @ ''|login|'' @ nonce \<noteq> csrfKeyInfo @ ''|'' @ g
         \<and> hmac sha256 (csrfKey secret) (csrfKeyInfo @ ''|login|'' @ nonce) = hmac sha256 (csrfKey secret) (csrfKeyInfo @ ''|'' @ g)))"
proof -
  have ok: "verifyCSRF secret r" using assms(1,2) unfolding admits_iff by blast
  obtain p where p: "verifySessionCookie (ae_now e) secret v = Some p" using assms(1,3) unfolding admits_iff by auto
  obtain h where h: "session_variant h p" "v = sign_session secret h p" "session_admissible (ae_now e) secret p" using verify_form [OF p] by blast
  let ?b = "session_body h (sp_Role p)" and ?g = "sessionSign secret (session_body h (sp_Role p))"
  have c: "last_cut (CHR ''.'') v = Some (?b, ?g)" using sign_session_parts h by (auto simp: session_admissible_def)
  have g: "length ?g = 32" by simp
  have tok: "csrf_echo r = csrfTokenFor secret v" using ok assms(3) by (auto simp: verifyCSRF_def csrfTokenOf_def Let_def split: if_splits)
  have ne: "csrf_echo r \<noteq> []" using ok by (simp add: verifyCSRF_def Let_def)
  have "?g \<noteq> []" using g by (metis list.size(3) zero_neq_numeral)
  then have mac: "csrf_echo r = hex_encode (hmac sha256 (csrfKey secret) (csrfKeyInfo @ ''|'' @ ?g))" using tok c by (simp add: csrfTokenFor_def)
  have same: "csrfKeyInfo @ ''|'' @ g' \<noteq> csrfKeyInfo @ ''|'' @ ?g
      \<and> hmac sha256 (csrfKey secret) (csrfKeyInfo @ ''|'' @ g') = hmac sha256 (csrfKey secret) (csrfKeyInfo @ ''|'' @ ?g)"
    if "last_cut (CHR ''.'') w = Some (b', g') \<and> g' \<noteq> ?g \<and> csrf_echo r = csrfTokenFor secret w" for w b' g'
    using that ne mac hex_inj by (auto simp: csrfTokenFor_def split: if_splits)
  have login: "csrfKeyInfo @ ''|login|'' @ nonce \<noteq> csrfKeyInfo @ ''|'' @ ?g
      \<and> hmac sha256 (csrfKey secret) (csrfKeyInfo @ ''|login|'' @ nonce) = hmac sha256 (csrfKey secret) (csrfKeyInfo @ ''|'' @ ?g)"
    if n: "validLoginNonce nonce \<and> csrf_echo r = loginCSRFToken secret nonce" for nonce
  proof
    have "length (''|login|'' @ nonce) \<noteq> length (''|'' @ ?g)" using n by (simp add: validLoginNonce_def loginNonceLen_def)
    then show "csrfKeyInfo @ ''|login|'' @ nonce \<noteq> csrfKeyInfo @ ''|'' @ ?g" by (metis same_append_eq)
    show "hmac sha256 (csrfKey secret) (csrfKeyInfo @ ''|login|'' @ nonce) = hmac sha256 (csrfKey secret) (csrfKeyInfo @ ''|'' @ ?g)"
      using n mac by (simp add: loginCSRFToken_def hex_inj)
  qed
  show ?thesis
    by (rule conjI [OF tok], rule exI [of _ ?b], rule exI [of _ ?g], rule conjI [OF c], rule conjI [OF g], rule conjI) (use same login in blast)+
qed

text \<open>
  C40: A deleted superadmin still runs the wizard. With the account gone the middleware ends
  the session at once, but the wizard's check takes an account that is not found like one
  that cannot be read: with the role frozen in the cookie it goes on, for the rest of the
  cookie's life.
\<close>

theorem deleted_superadmin_keeps_wizard:
  assumes "DeleteAccount d0 i a0 = (Inr (), a)" "aq_session r = Some v" "verifySessionCookie (ae_now e) secret v = Some p" "sp_UserID p = i"
    and "sp_Role p = RoleSuperadmin" "gates_open e" "ae_users e = Some d" "ud_ok d SelectUser"
  shows "setupSuperadmin secret e r a = Some p \<and> ao_answer (AuthMiddleware secret e r a) = ToLogin"
proof -
  have "a = a0\<lparr>ac_rows := filter (\<lambda>u. ur_ID u \<noteq> i) (ac_rows a0)\<rparr>"
    using assms(1) by (cases "Delete_guard d0 i a0") (auto simp: DeleteAccount_def Delete_write_def split: if_splits)
  then have "find_user i a = None" by (simp add: find_user_None)
  then have get: "GetByID d i a = Inl ErrNotFound" using assms(8) by (simp add: GetByID_def)
  then have "recheck_account (Some d) p a = Inl ()" using assms(4) by (simp add: recheck_account_def)
  moreover have "roleAtLeast RoleSuperadmin RoleSuperadmin" by (simp add: roleAtLeast_def role_rank_def role_defs)
  ultimately show ?thesis using assms(2-7) get
    by (simp add: setupSuperadmin_def AuthMiddleware_def gates_open_def plain_answer_def)
qed

section \<open>Evaluation\<close>

text \<open>An install with one superadmin who signed in at time 0.\<close>

definition demo_cookie :: string where
  "demo_cookie = issueSessionCookie ''k'' 0 1 RoleSuperadmin False 0"

definition demo_payload :: SessionPayload where
  "demo_payload = \<lparr>sp_UserID = 1, sp_Role = RoleSuperadmin, sp_Exp = 28800, sp_Remember = False, sp_Gen = 0\<rparr>"

definition demo_one :: Accounts where
  "demo_one = \<lparr>ac_rows = [demo_user 1 ''ann''], ac_next = 2\<rparr>"

definition demo_admin :: AdminSys where
  "demo_admin = \<lparr>as_accounts = demo_one, as_values = [demo_cookie], as_logins = []\<rparr>"

definition demo_gate :: AdminEnv where
  "demo_gate = \<lparr>ae_now = 5 * second, ae_setupNeeded = False, ae_ipAllowed = True, ae_hostAllowed = True, ae_dbWaiting = False,
     ae_users = Some (good_db SQLite), ae_writesRefused = False\<rparr>"

definition demo_post :: "bool \<Rightarrow> AdminReq" where
  "demo_post b = \<lparr>aq_session = Some demo_cookie, aq_csrf_cookie = None, aq_mutates = b, aq_form_ok = True, aq_header = [],
     aq_field = csrfTokenFor ''k'' demo_cookie, aq_multipart = False, aq_multipart_field = None, aq_api = False\<rparr>"

lemma demo_exp: "unix (0 + session_ttl False) = 28800" "unix (ae_now demo_gate) = 5"
  by (simp_all add: unix_def session_ttl_def sessionTTL_def minute_def second_def demo_gate_def)

lemma demo_verifies: "verifySessionCookie (ae_now demo_gate) ''k'' demo_cookie = Some demo_payload"
  using issued_verifies [of RoleSuperadmin "''k''" 1 0 0 False "ae_now demo_gate"] demo_exp
  by (simp add: demo_cookie_def demo_payload_def IsValidRole_def in64_def)

lemma demo_gates: "gates_open demo_gate"
  by (simp add: gates_open_def demo_gate_def)

lemma demo_admin_reachable: "reachable admin_start (admin_step ''k'') demo_admin"
proof -
  have "trim_space ''ann'' = ''ann''" by code_simp
  then have "accounts_start demo_one" unfolding accounts_start_def
    by (intro exI [of _ "good_db SQLite"] exI [of _ "''ann''"] exI [of _ "''x''"])
      (simp add: CreateWithHash_def Let_def good_db_def IsValidRole_def demo_user_def demo_one_def)
  then have "reachable admin_start (admin_step ''k'') (demo_admin\<lparr>as_values := []\<rparr>)"
    by (intro reachable_init) (simp add: admin_start_def demo_admin_def)
  moreover have "reissueSessionAfterPasswordChange ''k'' 0 (Some (good_db SQLite)) (Some demo_payload) 1 demo_one
      = Some (demo_cookie, csrfTokenFor ''k'' demo_cookie)"
    by (simp add: reissueSessionAfterPasswordChange_def demo_payload_def GetByID_def good_db_def find_user_def demo_one_def demo_user_def demo_cookie_def Let_def)
  ultimately show ?thesis
    using step_reissue [of "''k''" 0 "Some (good_db SQLite)" "Some demo_payload" 1 "demo_admin\<lparr>as_values := []\<rparr>" demo_cookie]
    by (auto simp: demo_admin_def intro: reachable_step)
qed

theorem revoked_sessions_stay_out_witness:
  "ao_answer (AuthMiddleware ''k'' demo_gate (demo_post False) (snd (BumpSessionGen (good_db SQLite) 1 demo_one))) = ToLogin"
proof -
  have "BumpSessionGen (good_db SQLite) 1 demo_one = (Inr (), snd (BumpSessionGen (good_db SQLite) 1 demo_one))"
    by (simp add: BumpSessionGen_def update_where_def good_db_def rows_affected_def demo_one_def demo_user_def)
  then have "revokes (good_db SQLite) 1 (as_accounts demo_admin) (snd (BumpSessionGen (good_db SQLite) 1 demo_one))"
    by (simp add: revokes_def demo_admin_def)
  then show ?thesis
    using revoked_sessions_stay_out [OF demo_admin_reachable _ rtranclp.rtrancl_refl _ _ demo_verifies, of "good_db SQLite" 1 _ "demo_post False" "good_db SQLite"] demo_gates
    by (simp add: demo_admin_def demo_post_def demo_payload_def demo_gate_def good_db_def)
qed

lemma demo_csrf: "verifyCSRF ''k'' (demo_post True)"
proof -
  obtain b g where c: "last_cut (CHR ''.'') demo_cookie = Some (b, g)" "g \<noteq> []"
    using demo_verifies by (auto simp: verifySessionCookie_def split: option.splits if_splits)
  then have tok: "csrfTokenFor ''k'' demo_cookie = hex_encode (hmac sha256 (csrfKey ''k'') (csrfKeyInfo @ ''|'' @ g))" by (simp add: csrfTokenFor_def)
  then have "trim_space (csrfTokenFor ''k'' demo_cookie) = csrfTokenFor ''k'' demo_cookie"
    using hex_numeric numeric_punct by (intro trim_space_graphic) auto
  moreover have "length (csrfTokenFor ''k'' demo_cookie) = 64" unfolding tok by simp
  then have "csrfTokenFor ''k'' demo_cookie \<noteq> []" by (metis list.size(3) zero_neq_numeral)
  moreover have "demo_cookie \<noteq> []" using c(1) by (auto simp: last_cut_iff)
  moreover have "trim_space [] = []" by code_simp
  ultimately show ?thesis by (simp add: verifyCSRF_def csrfTokenOf_def csrf_echo_def demo_post_def)
qed

theorem session_lives_witness:
  "ao_answer (AuthMiddleware ''k'' demo_gate (demo_post True) demo_one) = Admitted demo_payload"
  using session_lives [of RoleSuperadmin "''k''" 1 0 0 False demo_gate "good_db SQLite" demo_one "demo_user 1 ''ann''" "demo_post True"]
    demo_csrf demo_exp demo_gates
  by (simp add: IsValidRole_def in64_def demo_gate_def good_db_def find_user_def demo_one_def demo_user_def demo_post_def demo_cookie_def demo_payload_def)

theorem csrf_token_is_the_sessions_witness:
  "csrf_echo (demo_post True) = csrfTokenFor ''k'' demo_cookie"
proof -
  have "recheck_account (ae_users demo_gate) demo_payload demo_one = Inr demo_payload"
    by (simp add: recheck_account_def demo_gate_def GetByID_def good_db_def find_user_def demo_one_def demo_user_def demo_payload_def)
  then have "ao_answer (AuthMiddleware ''k'' demo_gate (demo_post True) demo_one) = Admitted demo_payload"
    unfolding admits_iff using demo_verifies demo_csrf demo_gates by (auto simp: demo_post_def demo_gate_def)
  then show ?thesis using csrf_token_is_the_sessions [of "''k''" demo_gate "demo_post True" demo_one demo_payload demo_cookie]
    by (simp add: demo_post_def)
qed

theorem deleted_superadmin_keeps_wizard_witness:
  "setupSuperadmin ''k'' demo_gate (demo_post False) (snd (DeleteAccount (good_db SQLite) 1 demo_accounts)) = Some demo_payload"
proof -
  have "DeleteAccount (good_db SQLite) 1 demo_accounts = (Inr (), snd (DeleteAccount (good_db SQLite) 1 demo_accounts))"
    by (simp add: DeleteAccount_def Delete_guard_def Delete_write_def last_superadmin_guard_def GetByID_def otherActiveSuperadmins_def good_db_def
        find_user_def demo_accounts_def demo_user_def active_superadmin_def)
  then show ?thesis
    using deleted_superadmin_keeps_wizard [OF _ _ demo_verifies, of "good_db SQLite" 1 demo_accounts _ "demo_post False" "good_db SQLite"] demo_gates
    by (simp add: demo_post_def demo_payload_def demo_gate_def good_db_def)
qed

end
