(* ===== verification/Write_Behind.thy ===== *)
theory Write_Behind
  imports Prelude
begin

text \<open>
  Counters kept in memory and written behind: buckets in a map, a flush that takes them out,
  and either writes them into a table that accumulates or puts them back. The locale
  \<open>write_behind\<close> is the interface of one such counter: how a bucket is merged into another
  and which rows of the table it writes, with values in any commutative monoid (numbers,
  pairs, registers under the maximum). Its lemmas say that nothing is lost or counted twice.
\<close>

section \<open>Definitions\<close>

definition at_key :: "'v \<Rightarrow> 'k \<Rightarrow> ('k, 'v) amap \<Rightarrow> 'v" where
  "at_key z k m = (case map_of m k of None \<Rightarrow> z | Some v \<Rightarrow> v)"

text \<open>\<open>b, ok := m[k]; if !ok { b = z; m[k] = b }\<close> and a change of \<open>b\<close>.\<close>

definition upd_key :: "'v \<Rightarrow> 'k \<Rightarrow> ('v \<Rightarrow> 'v) \<Rightarrow> ('k, 'v) amap \<Rightarrow> ('k, 'v) amap" where
  "upd_key z k f m = aput k (f (at_key z k m)) m"

text \<open>The loops of a failed flush that put the buckets taken back.\<close>

fun put_back :: "('b \<Rightarrow> 'b \<Rightarrow> 'b) \<Rightarrow> ('k \<times> 'b) list \<Rightarrow> ('k, 'b) amap \<Rightarrow> ('k, 'b) amap" where
  "put_back merge [] m = m"
| "put_back merge ((k, b) # es) m =
     put_back merge es (aput k (case map_of m k of None \<Rightarrow> b | Some b0 \<Rightarrow> merge b0 b) m)"

text \<open>What a list of rows adds to the row \<open>r\<close>, and what a map of buckets holds for it.\<close>

definition cell :: "('v \<Rightarrow> 'v \<Rightarrow> 'v) \<Rightarrow> 'v \<Rightarrow> ('r \<times> 'v) list \<Rightarrow> 'r \<Rightarrow> 'v" where
  "cell add nul rs r = foldr add (map snd (filter (\<lambda>x. fst x = r) rs)) nul"

definition held :: "('v \<Rightarrow> 'v \<Rightarrow> 'v) \<Rightarrow> 'v \<Rightarrow> ('k \<Rightarrow> 'b \<Rightarrow> ('r \<times> 'v) list) \<Rightarrow> ('k, 'b) amap \<Rightarrow> 'r \<Rightarrow> 'v" where
  "held add nul rows m r = cell add nul (concat (map (\<lambda>(k, b). rows k b) m)) r"

text \<open>An accumulating upsert of rows.\<close>

definition upsert_rows :: "('v \<Rightarrow> 'v \<Rightarrow> 'v) \<Rightarrow> 'v \<Rightarrow> ('r \<times> 'v) list \<Rightarrow> ('r, 'v) amap \<Rightarrow> ('r, 'v) amap" where
  "upsert_rows add nul rs t = fold (\<lambda>(r, v). upd_key nul r (\<lambda>w. add w v)) rs t"

definition pair_add :: "nat \<times> nat \<Rightarrow> nat \<times> nat \<Rightarrow> nat \<times> nat" where
  "pair_add x y = (fst x + fst y, snd x + snd y)"

text \<open>
  The counter is conserved: what the table, the flush under way and the memory hold for a row
  is what the table held at the start and what has been counted since.
\<close>

definition conserved :: "('v \<Rightarrow> 'v \<Rightarrow> 'v) \<Rightarrow> 'v \<Rightarrow> ('k \<Rightarrow> 'b \<Rightarrow> ('r \<times> 'v) list) \<Rightarrow> ('b \<Rightarrow> bool) \<Rightarrow> ('c \<Rightarrow> 'r \<Rightarrow> 'v)
    \<Rightarrow> ('r \<Rightarrow> 'v) \<Rightarrow> 'c list \<Rightarrow> ('r \<Rightarrow> 'v) \<Rightarrow> ('k, 'b) amap \<Rightarrow> ('k, 'b) amap \<Rightarrow> bool" where
  "conserved add nul rows good counts base hist stored flight m \<longleftrightarrow>
     amap_wf m \<and> (\<forall>kb \<in> set flight \<union> set m. good (snd kb))
     \<and> (\<forall>r. add (stored r) (add (held add nul rows flight r) (held add nul rows m r))
            = add (base r) (foldr add (map (\<lambda>c. counts c r) hist) nul))"

section \<open>Lemmas\<close>

lemma at_key_upd [simp]: "at_key z k (upd_key z k' f m) = (if k = k' then f (at_key z k m) else at_key z k m)"
  by (simp add: at_key_def upd_key_def)

lemma amap_wf_upd [simp]: "amap_wf m \<Longrightarrow> amap_wf (upd_key z k f m)"
  by (simp add: upd_key_def)

lemma set_adel: "set (adel k m) \<subseteq> set m"
  by (auto simp: adel_def)

lemma set_aput: "set (aput k v m) \<subseteq> insert (k, v) (set m)"
  using set_adel [of k m] by (auto simp: aput_def)

lemma conserved_row:
  "conserved add nul rows good counts base hist stored flight m \<Longrightarrow>
     add (stored r) (add (held add nul rows flight r) (held add nul rows m r)) = add (base r) (foldr add (map (\<lambda>c. counts c r) hist) nul)"
  by (simp add: conserved_def del: split_paired_All)

text \<open>Rows over a commutative monoid.\<close>

locale additive = comm_monoid add nul for add :: "'v \<Rightarrow> 'v \<Rightarrow> 'v" and nul :: 'v
begin

lemma foldr_plus: "foldr add xs (add a b) = add (foldr add xs a) b"
  by (induction xs) (simp_all add: assoc)

lemma foldr_zero: "foldr add xs a = add (foldr add xs nul) a"
  using foldr_plus [of xs nul a] by simp

lemma cell_append: "cell add nul (xs @ ys) r = add (cell add nul xs r) (cell add nul ys r)"
  using foldr_zero [of "map snd (filter (\<lambda>x. fst x = r) xs)" "cell add nul ys r"] by (simp add: cell_def)

lemma cell_Nil [simp]: "cell add nul [] r = nul"
  by (simp add: cell_def)

lemma at_key_upsert: "at_key nul r (upsert_rows add nul rs t) = add (at_key nul r t) (cell add nul rs r)"
proof (induction rs arbitrary: t)
  case (Cons x rs)
  have "at_key nul r (upsert_rows add nul (x # rs) t) = add (at_key nul r (upd_key nul (fst x) (\<lambda>w. add w (snd x)) t)) (cell add nul rs r)"
    using Cons.IH by (simp add: upsert_rows_def split_beta)
  then show ?case using cell_append [of "[x]" rs r] by (simp add: cell_def assoc)
qed (simp add: upsert_rows_def)

lemma cell_one: "cell add nul [(r', v)] r = (if r' = r then v else nul)"
  by (simp add: cell_def)

lemma cell_distinct:
  assumes "amap_wf ks"
  shows "cell add nul ks r = at_key nul r ks"
  using assms
proof (induction ks)
  case (Cons x ks)
  have "cell add nul (x # ks) r = add (if fst x = r then snd x else nul) (cell add nul ks r)"
    using cell_append [of "[x]" ks r] cell_one [of "fst x" "snd x" r] by simp
  moreover have "map_of ks (fst x) = None" using Cons.prems by (simp add: amap_wf_def map_of_eq_None_iff)
  ultimately show ?case using Cons by (auto simp: amap_wf_def at_key_def)
qed (simp add: at_key_def)

end

locale write_behind = additive add nul
  for add :: "'v \<Rightarrow> 'v \<Rightarrow> 'v" and nul :: 'v +
  fixes merge :: "'b \<Rightarrow> 'b \<Rightarrow> 'b" and rows :: "'k \<Rightarrow> 'b \<Rightarrow> ('r \<times> 'v) list" and good :: "'b \<Rightarrow> bool"
  assumes rows_merge: "good a \<Longrightarrow> good b \<Longrightarrow> cell add nul (rows k (merge a b)) r = add (cell add nul (rows k a) r) (cell add nul (rows k b) r)"
    and good_merge: "good a \<Longrightarrow> good b \<Longrightarrow> good (merge a b)"
begin

lemma held_Nil [simp]: "held add nul rows [] r = nul"
  by (simp add: held_def)

lemma held_Cons: "held add nul rows ((k, b) # m) r = add (cell add nul (rows k b) r) (held add nul rows m r)"
  by (simp add: held_def cell_append)

lemma held_split: "held add nul rows m r = add (held add nul rows (filter P m) r) (held add nul rows (filter (\<lambda>x. \<not> P x) m) r)"
  by (induction m) (auto simp: held_Cons ac_simps)

lemma held_key:
  assumes "amap_wf m" "map_of m k = Some b"
  shows "held add nul rows m r = add (cell add nul (rows k b) r) (held add nul rows (adel k m) r)"
proof -
  have "filter (\<lambda>x. fst x = k) m = [(k, b)]"
    using assms
  proof (induction m)
    case (Cons x m)
    then show ?case by (cases "fst x = k") (auto simp: amap_wf_def filter_empty_conv image_iff)
  qed simp
  then show ?thesis using held_split [of m r "\<lambda>x. fst x = k"] by (simp add: adel_def held_Cons)
qed

lemma held_aput:
  assumes "amap_wf m" "cell add nul (rows k b) r = add (case map_of m k of None \<Rightarrow> nul | Some b0 \<Rightarrow> cell add nul (rows k b0) r) c"
  shows "held add nul rows (aput k b m) r = add (held add nul rows m r) c"
proof (cases "map_of m k")
  case None
  then show ?thesis using assms(2) adel_absent [OF None] by (simp add: aput_def held_Cons commute)
next
  case (Some b0)
  then show ?thesis using assms(2) held_key [OF assms(1) Some] by (simp add: aput_def held_Cons ac_simps)
qed

lemma held_bump:
  assumes "amap_wf m" "cell add nul (rows k (f (at_key e k m))) r = add (cell add nul (rows k (at_key e k m)) r) c" "cell add nul (rows k e) r = nul"
  shows "held add nul rows (upd_key e k f m) r = add (held add nul rows m r) c"
  unfolding upd_key_def by (rule held_aput [OF assms(1)]) (use assms(2,3) in \<open>simp add: at_key_def split: option.splits\<close>)

lemma put_back_wf: "amap_wf m \<Longrightarrow> amap_wf (put_back merge es m)"
  by (induction merge es m rule: put_back.induct) simp_all

lemma put_back_held:
  assumes "amap_wf m" "\<forall>kb \<in> set es \<union> set m. good (snd kb)"
  shows "held add nul rows (put_back merge es m) r = add (held add nul rows m r) (held add nul rows es r)
    \<and> (\<forall>kb \<in> set (put_back merge es m). good (snd kb))"
  using assms
proof (induction es arbitrary: m)
  case (Cons e es)
  obtain k b where e: "e = (k, b)" by (cases e)
  let ?b = "case map_of m k of None \<Rightarrow> b | Some b0 \<Rightarrow> merge b0 b"
  have old: "good b0" if "map_of m k = Some b0" for b0 using bspec [OF Cons.prems(2), of "(k, b0)"] map_of_SomeD [OF that] by simp
  have g: "good b" using Cons.prems e by simp
  have "good ?b" using old g good_merge by (auto split: option.splits)
  then have good: "\<forall>kb \<in> set es \<union> set (aput k ?b m). good (snd kb)"
    using Cons.prems set_aput [of k ?b m] by auto
  have "held add nul rows (aput k ?b m) r = add (held add nul rows m r) (cell add nul (rows k b) r)"
    by (rule held_aput [OF Cons.prems(1)]) (use old g rows_merge in \<open>auto split: option.splits\<close>)
  then show ?case using Cons.IH [OF _ good] Cons.prems(1) by (simp add: e held_Cons assoc)
qed simp

subsection \<open>The steps of a counter\<close>

lemma conserved_init: "conserved add nul rows good counts base [] base [] []"
  by (simp add: conserved_def)

lemma conserved_good:
  assumes "conserved add nul rows good counts base hist stored flight m" "good e"
  shows "good (at_key e k m)"
proof (cases "map_of m k")
  case (Some b)
  have "\<forall>kb \<in> set m. good (snd kb)" using assms(1) by (simp add: conserved_def)
  then show ?thesis using bspec [of "set m" "\<lambda>kb. good (snd kb)" "(k, b)"] map_of_SomeD [OF Some] Some by (simp add: at_key_def)
qed (use assms(2) in \<open>simp add: at_key_def\<close>)

lemma conserved_bump:
  assumes "conserved add nul rows good counts base hist stored flight m" "good e" "\<And>r. cell add nul (rows k e) r = nul"
    and "\<And>b. good b \<Longrightarrow> good (f b)" "\<And>b r. good b \<Longrightarrow> cell add nul (rows k (f b)) r = add (cell add nul (rows k b) r) (counts c r)"
  shows "conserved add nul rows good counts base (hist @ [c]) stored flight (upd_key e k f m)"
proof -
  have wf: "amap_wf m" using assms(1) by (simp add: conserved_def)
  have old: "good (at_key e k m)" using conserved_good [OF assms(1,2)] .
  have "\<forall>kb \<in> set flight \<union> set (upd_key e k f m). good (snd kb)"
    using assms(1) assms(4) [OF old] set_aput [of k "f (at_key e k m)" m] by (auto simp: conserved_def upd_key_def)
  moreover have "foldr add (map (\<lambda>c. counts c r) (hist @ [c])) nul = add (foldr add (map (\<lambda>c. counts c r) hist) nul) (counts c r)" for r
    using foldr_zero [of _ "counts c r"] by simp
  ultimately show ?thesis
    using assms(1) held_bump [where f = f and e = e and k = k and m = m and c = "counts c _", OF wf assms(5) [OF old] assms(3)]
    by (simp add: conserved_def) (metis assoc)
qed

lemma conserved_other:
  assumes "conserved add nul rows good counts base hist stored flight m" "\<And>r. counts c r = nul"
  shows "conserved add nul rows good counts base (hist @ [c]) stored flight m"
  using assms by (simp add: conserved_def)

lemma conserved_take:
  assumes "conserved add nul rows good counts base hist stored [] m"
  shows "conserved add nul rows good counts base hist stored (filter P m) (filter (\<lambda>x. \<not> P x) m)"
  using assms held_split [of m _ P] by (auto simp: conserved_def)

lemma conserved_fail:
  assumes "conserved add nul rows good counts base hist stored flight m"
  shows "conserved add nul rows good counts base hist stored [] (put_back merge flight m)"
  using assms put_back_wf [of m flight] put_back_held [of m flight] by (simp add: conserved_def commute [of "held add nul rows m _"])

lemma conserved_upsert:
  assumes "conserved add nul rows good counts base hist (\<lambda>r. at_key nul r t) flight m"
  shows "conserved add nul rows good counts base hist (\<lambda>r. at_key nul r (upsert_rows add nul (concat (map (\<lambda>(k, b). rows k b) flight)) t)) [] m"
  using assms by (simp add: conserved_def at_key_upsert held_def [of _ _ _ flight] assoc)

lemma conserved_commit:
  assumes "conserved add nul rows good counts base hist stored flight m" "\<And>r. stored' r = add (stored r) (held add nul rows flight r)"
  shows "conserved add nul rows good counts base hist stored' [] m"
  using assms by (simp add: conserved_def assoc)

end

interpretation nat_rows: additive "(+) :: nat \<Rightarrow> nat \<Rightarrow> nat" 0
  by unfold_locales

interpretation max_rows: additive "max :: nat \<Rightarrow> nat \<Rightarrow> nat" 0
  by unfold_locales (auto simp: max.commute max.assoc)

interpretation pair_rows: additive pair_add "(0, 0)"
  by unfold_locales (auto simp: pair_add_def)

end
