(* ===== verification/Log_Counts.thy ===== *)
theory Log_Counts
  imports Write_Behind Go_Netip Hll
begin

text \<open>
  The traffic counters of the access-log reader (\<open>nginxlog/nginxlog.go\<close>): what one log line
  (native mode) or one check (forward-auth mode, \<open>handlers/auth_check.go\<close>) adds to the
  buckets in memory, and the flush that writes them into the tables once a minute or puts
  them back. Reading the socket and splitting the line are not modelled: a line is the fields
  it yields. The classifier, the namer, the country lookup and the site list are arguments,
  and every counter reads the clock for itself. Times are unix seconds.
\<close>

section \<open>Definitions\<close>

subsection \<open>Buckets\<close>

type_synonym bucketKey = "int \<times> string"
type_synonym crawlerKey = "int \<times> string"
type_synonym crawlerDetailKey = "int \<times> string \<times> string"
type_synonym namedKey = "int \<times> string \<times> string"
type_synonym countryHourKey = "int \<times> string \<times> string"
type_synonym cookieIPKey = "int \<times> string \<times> string \<times> string"

record Bucket =
  bk_total :: nat
  bk_kinds :: "(string, nat) amap"
  bk_ipAll :: Sketch
  bk_ipChal :: Sketch
  bk_ipPass :: Sketch

record CrawlerBucket =
  cb_total :: nat
  cb_served :: nat

record NamedBucket =
  nb_cnt :: nat
  nb_ips :: Sketch

record CountryBucket =
  co_total :: nat
  co_kinds :: "(string, nat) amap"

record CookieIPBucket =
  ci_cnt :: nat
  ci_judged :: nat
  ci_ja4 :: string
  ci_ua :: string
  ci_lastSeen :: int

definition newBucket :: Bucket where
  "newBucket = \<lparr>bk_total = 0, bk_kinds = [], bk_ipAll = emptySketch, bk_ipChal = emptySketch, bk_ipPass = emptySketch\<rparr>"

definition newCrawlerBucket :: CrawlerBucket where "newCrawlerBucket = \<lparr>cb_total = 0, cb_served = 0\<rparr>"

definition newNamedBucket :: NamedBucket where "newNamedBucket = \<lparr>nb_cnt = 0, nb_ips = emptySketch\<rparr>"

definition newCountryBucket :: CountryBucket where "newCountryBucket = \<lparr>co_total = 0, co_kinds = []\<rparr>"

definition newCookieIPBucket :: CookieIPBucket where
  "newCookieIPBucket = \<lparr>ci_cnt = 0, ci_judged = 0, ci_ja4 = [], ci_ua = [], ci_lastSeen = 0\<rparr>"

record LogReader =
  lr_buckets :: "(bucketKey, Bucket) amap"
  lr_crawler :: "(crawlerKey, CrawlerBucket) amap"
  lr_detail :: "(crawlerDetailKey, CrawlerBucket) amap"
  lr_named :: "(namedKey, NamedBucket) amap"
  lr_country :: "(countryHourKey, CountryBucket) amap"
  lr_cookieIP :: "(cookieIPKey, CookieIPBucket) amap"
  lr_sitesSeen :: "string list option"
  lr_sitesMinute :: int

definition newLogReader :: LogReader where
  "newLogReader = \<lparr>lr_buckets = [], lr_crawler = [], lr_detail = [], lr_named = [], lr_country = [], lr_cookieIP = [],
     lr_sitesSeen = None, lr_sitesMinute = 0\<rparr>"

record ReaderEnv =
  re_siteKnown :: "(string \<Rightarrow> bool) option"
  re_geo :: "(string \<Rightarrow> string) option"
  re_classify :: "(string \<Rightarrow> string) option"
  re_namer :: "(string \<Rightarrow> string \<Rightarrow> string) option"

subsection \<open>The counters\<close>

definition OtherSite :: string where "OtherSite = ''(other)''"
definition siteCapPerMinute :: nat where "siteCapPerMinute = 256"
definition cookieIPUAMax :: nat where "cookieIPUAMax = 255"
definition cookieIPBucketsMax :: nat where "cookieIPBucketsMax = 200000"

definition aggSite :: "ReaderEnv \<Rightarrow> int \<Rightarrow> string \<Rightarrow> LogReader \<Rightarrow> string \<times> LogReader" where
  "aggSite e now site r =
     (if site = [] \<or> site = ''default'' then (site, r)
      else if (case re_siteKnown e of None \<Rightarrow> False | Some f \<Rightarrow> \<not> f site) then (OtherSite, r)
      else let m = now div 60;
               r = (if lr_sitesMinute r \<noteq> m \<or> lr_sitesSeen r = None then r\<lparr>lr_sitesMinute := m, lr_sitesSeen := Some []\<rparr> else r);
               seen = the (lr_sitesSeen r)
           in if site \<in> set seen then (site, r)
              else if length seen \<ge> siteCapPerMinute then (OtherSite, r)
              else (site, r\<lparr>lr_sitesSeen := Some (site # seen)\<rparr>))"

definition bump_kind :: "string \<Rightarrow> (string, nat) amap \<Rightarrow> (string, nat) amap" where
  "bump_kind kind ks = (if kind = [] then ks else upd_key 0 kind Suc ks)"

definition bumpLine :: "int \<Rightarrow> string \<Rightarrow> string \<Rightarrow> LogReader \<Rightarrow> LogReader" where
  "bumpLine now site kind r =
     r\<lparr>lr_buckets := upd_key newBucket (now div 60, site)
        (\<lambda>b. b\<lparr>bk_total := bk_total b + 1, bk_kinds := bump_kind kind (bk_kinds b)\<rparr>) (lr_buckets r)\<rparr>"

definition bumpKind :: "int \<Rightarrow> string \<Rightarrow> string \<Rightarrow> LogReader \<Rightarrow> LogReader" where
  "bumpKind now site kind r =
     (if kind = [] then r
      else r\<lparr>lr_buckets := upd_key newBucket (now div 60, site) (\<lambda>b. b\<lparr>bk_kinds := bump_kind kind (bk_kinds b)\<rparr>) (lr_buckets r)\<rparr>)"

definition bumpTrafficHLL :: "int \<Rightarrow> string \<Rightarrow> string \<Rightarrow> bool \<Rightarrow> string \<Rightarrow> LogReader \<Rightarrow> LogReader" where
  "bumpTrafficHLL now site ip fc bvKind r =
     (if ip = [] then r
      else r\<lparr>lr_buckets := upd_key newBucket (now div 60, site)
        (\<lambda>b. b\<lparr>bk_ipAll := Add ip (bk_ipAll b),
                bk_ipChal := (if fc then Add ip (bk_ipChal b) else bk_ipChal b),
                bk_ipPass := (if bvKind = ''pow'' \<or> bvKind = ''captcha'' then Add ip (bk_ipPass b) else bk_ipPass b)\<rparr>) (lr_buckets r)\<rparr>)"

definition bumpCountryHourly :: "ReaderEnv \<Rightarrow> int \<Rightarrow> string \<Rightarrow> string \<Rightarrow> string \<Rightarrow> LogReader \<Rightarrow> LogReader" where
  "bumpCountryHourly e now site ip kind r =
     (let cc = (case re_geo e of None \<Rightarrow> [] | Some g \<Rightarrow> if ip \<noteq> [] then g ip else []) in
      r\<lparr>lr_country := upd_key newCountryBucket (now div 3600, site, cc)
        (\<lambda>b. b\<lparr>co_total := co_total b + 1, co_kinds := bump_kind kind (co_kinds b)\<rparr>) (lr_country r)\<rparr>)"

definition bump_served :: "bool \<Rightarrow> CrawlerBucket \<Rightarrow> CrawlerBucket" where
  "bump_served served b = b\<lparr>cb_total := cb_total b + 1, cb_served := (if served then cb_served b + 1 else cb_served b)\<rparr>"

definition bumpCrawler :: "ReaderEnv \<Rightarrow> int \<Rightarrow> string \<Rightarrow> bool \<Rightarrow> bool \<Rightarrow> string \<Rightarrow> LogReader \<Rightarrow> LogReader" where
  "bumpCrawler e now ua served named ip r =
     (case re_classify e of None \<Rightarrow> r
      | Some f \<Rightarrow>
        let cat = f ua in
        if ua = [] \<or> cat = [] then r
        else let cc = (case re_geo e of None \<Rightarrow> [] | Some g \<Rightarrow> if named \<and> ip \<noteq> [] then g ip else []);
                 name = (case re_namer e of None \<Rightarrow> [] | Some n \<Rightarrow> n ua cat);
                 r = r\<lparr>lr_crawler := upd_key newCrawlerBucket (now div 60, cat) (bump_served served) (lr_crawler r)\<rparr>
             in if name = [] then r
                else let r = r\<lparr>lr_detail := upd_key newCrawlerBucket (now div 3600, cat, name) (bump_served served) (lr_detail r)\<rparr>
                     in if \<not> named then r
                        else r\<lparr>lr_named := upd_key newNamedBucket (now div 3600, name, cc)
                               (\<lambda>b. b\<lparr>nb_cnt := nb_cnt b + 1, nb_ips := (if ip = [] then nb_ips b else Add ip (nb_ips b))\<rparr>) (lr_named r)\<rparr>)"

definition cookieIPKinds :: "string \<Rightarrow> bool" where
  "cookieIPKinds kind \<longleftrightarrow> kind = ''captcha'' \<or> kind = ''pow'' \<or> kind = ''rebind''"

text \<open>Whether \<open>bumpCookieIP\<close> counts, and what it does then.\<close>

definition cookieIP_counts :: "int \<Rightarrow> string \<Rightarrow> string \<Rightarrow> string \<Rightarrow> LogReader \<Rightarrow> bool" where
  "cookieIP_counts now site ip kind r \<longleftrightarrow>
     cookieIPKinds kind \<and> ip \<noteq> [] \<and> (map_of (lr_cookieIP r) (now div 60, site, ip, kind) \<noteq> None \<or> length (lr_cookieIP r) < cookieIPBucketsMax)"

definition bumpCookieIP :: "int \<Rightarrow> string \<Rightarrow> string \<Rightarrow> string \<Rightarrow> string \<Rightarrow> string \<Rightarrow> bool \<Rightarrow> LogReader \<Rightarrow> LogReader" where
  "bumpCookieIP now site ip ja4 ua kind judged r =
     (if \<not> cookieIP_counts now site ip kind r then r
      else r\<lparr>lr_cookieIP := upd_key newCookieIPBucket (now div 60, site, ip, kind)
        (\<lambda>b. b\<lparr>ci_cnt := ci_cnt b + 1, ci_judged := (if judged then ci_judged b + 1 else ci_judged b), ci_ja4 := ja4,
                ci_ua := take cookieIPUAMax ua, ci_lastSeen := now\<rparr>) (lr_cookieIP r)\<rparr>)"

subsection \<open>One line, one check\<close>

text \<open>The fields of a parsed line the counters read, and the instants they read the clock at.\<close>

record LogLine =
  ll_site :: string
  ll_kind :: string
  ll_fc :: bool
  ll_ip :: string
  ll_ja4 :: string
  ll_bypassed :: bool
  ll_observe :: bool
  ll_pv :: bool
  ll_sb :: bool
  ll_ua :: string

record LineClock =
  lc_site :: int
  lc_line :: int
  lc_share :: int
  lc_hll :: int
  lc_country :: int
  lc_cookie :: int
  lc_crawler :: int

definition is_crawler :: "ReaderEnv \<Rightarrow> string \<Rightarrow> bool" where
  "is_crawler e ua \<longleftrightarrow> (case re_classify e of None \<Rightarrow> False | Some f \<Rightarrow> ua \<noteq> [] \<and> f ua \<noteq> [])"

definition line_kind :: "LogLine \<Rightarrow> string" where
  "line_kind p = (if ll_kind p = [] \<and> ll_fc p then (if ll_observe p then ''observe_pass'' else ''challenge_served'') else ll_kind p)"

definition onLine_counts :: "ReaderEnv \<Rightarrow> LineClock \<Rightarrow> LogLine \<Rightarrow> LogReader \<Rightarrow> LogReader" where
  "onLine_counts e ck p r =
     (let (site, r) = aggSite e (lc_site ck) (ll_site p) r;
          kind = line_kind p;
          r = bumpLine (lc_line ck) site kind r;
          r = (if ll_kind p \<noteq> [] \<or> ll_fc p then r
               else if is_crawler e (ll_ua p) then bumpKind (lc_share ck) site ''crawler_pass'' r
               else if ll_bypassed p then bumpKind (lc_share ck) site ''bypass_pass'' r else r);
          r = bumpTrafficHLL (lc_hll ck) site (ll_ip p) (ll_fc p) (ll_kind p) r;
          r = bumpCountryHourly e (lc_country ck) site (ll_ip p) kind r;
          r = bumpCookieIP (lc_cookie ck) site (ll_ip p) (ll_ja4 p) (ll_ua p) (ll_kind p) (\<not> ll_bypassed p) r
      in bumpCrawler e (lc_crawler ck) (ll_ua p) (ll_fc p \<and> \<not> ll_observe p)
           (ll_sb p \<and> \<not> ll_pv p \<and> \<not> ll_fc p \<and> \<not> ll_bypassed p \<and> ll_kind p = []) (ll_ip p) r)"

text \<open>
  What a check is counted by: its action before monitor mode overrides it, whether its reason
  says that a cookie or a bypass let it through, and the kind of the cookie.
\<close>

record CheckFacts =
  cf_site :: string
  cf_action :: string
  cf_bvReason :: bool
  cf_bypassReason :: bool
  cf_bvCookieKind :: string
  cf_ip :: string
  cf_ja4 :: string
  cf_ua :: string

definition check_bvKind :: "CheckFacts \<Rightarrow> string" where
  "check_bvKind c = (if cf_action c = ''pass'' \<and> cf_bvReason c then cf_bvCookieKind c else [])"

definition check_fc :: "CheckFacts \<Rightarrow> bool" where
  "check_fc c \<longleftrightarrow> cf_action c = ''challenge'' \<or> cf_action c = ''block''"

definition check_counts :: "ReaderEnv \<Rightarrow> LineClock \<Rightarrow> CheckFacts \<Rightarrow> LogReader \<Rightarrow> LogReader" where
  "check_counts e ck c r =
     (let bvKind = check_bvKind c;
          fc = check_fc c;
          kind = (if bvKind = [] \<and> fc then ''challenge_served'' else bvKind);
          r = bumpLine (lc_line ck) (cf_site c) kind r;
          r = bumpCrawler e (lc_crawler ck) (cf_ua c) (cf_action c \<noteq> ''pass'') False [] r;
          r = (if bvKind \<noteq> [] \<or> fc then r
               else if (case re_classify e of None \<Rightarrow> False | Some f \<Rightarrow> f (cf_ua c) \<noteq> []) then bumpKind (lc_share ck) (cf_site c) ''crawler_pass'' r
               else if cf_bypassReason c then bumpKind (lc_share ck) (cf_site c) ''bypass_pass'' r else r);
          r = bumpTrafficHLL (lc_hll ck) (cf_site c) (cf_ip c) fc bvKind r;
          r = bumpCountryHourly e (lc_country ck) (cf_site c) (cf_ip c) kind r
      in bumpCookieIP (lc_cookie ck) (cf_site c) (cf_ip c) (cf_ja4 c) (cf_ua c) bvKind True r)"

subsection \<open>The flush\<close>

text \<open>\<open>events.PackIP\<close>: the bytes a table keeps for an address.\<close>

definition PackIP :: "string \<Rightarrow> nat list option" where
  "PackIP s =
     (if s = [] then None
      else case parse_ip s of None \<Rightarrow> None | Some b \<Rightarrow> Some (case to4 b of Some v4 \<Rightarrow> v4 | None \<Rightarrow> b))"

text \<open>What a flush takes out of memory, and the tables it writes.\<close>

record Batch =
  ba_buckets :: "(bucketKey, Bucket) amap"
  ba_crawler :: "(crawlerKey, CrawlerBucket) amap"
  ba_detail :: "(crawlerDetailKey, CrawlerBucket) amap"
  ba_named :: "(namedKey, NamedBucket) amap"
  ba_country :: "(countryHourKey, CountryBucket) amap"
  ba_cookieIP :: "(cookieIPKey, CookieIPBucket) amap"

definition emptyBatch :: Batch where
  "emptyBatch = \<lparr>ba_buckets = [], ba_crawler = [], ba_detail = [], ba_named = [], ba_country = [], ba_cookieIP = []\<rparr>"

type_synonym kindRow = "int \<times> string \<times> string"

record LogTables =
  lt_minute :: "(kindRow, nat) amap"
  lt_hll :: "(kindRow, string) amap"
  lt_crawler :: "(crawlerKey, nat \<times> nat) amap"
  lt_detail :: "(crawlerDetailKey, nat \<times> nat) amap"
  lt_named :: "(namedKey, nat \<times> string) amap"
  lt_country :: "(int \<times> string \<times> string \<times> string, nat) amap"
  lt_cookieIP :: "(int \<times> string \<times> nat list \<times> string, CookieIPBucket) amap"

definition due :: "bool \<Rightarrow> int \<Rightarrow> int \<Rightarrow> bool" where
  "due final now minute \<longleftrightarrow> final \<or> minute < now div 60"

definition flush_take :: "bool \<Rightarrow> int \<Rightarrow> LogReader \<Rightarrow> Batch \<times> LogReader" where
  "flush_take final now r =
     (let b1 = (\<lambda>kb :: bucketKey \<times> Bucket. due final now (fst (fst kb)));
          b2 = (\<lambda>kb :: crawlerKey \<times> CrawlerBucket. due final now (fst (fst kb)));
          b6 = (\<lambda>kb :: cookieIPKey \<times> CookieIPBucket. due final now (fst (fst kb)))
      in (\<lparr>ba_buckets = filter b1 (lr_buckets r), ba_crawler = filter b2 (lr_crawler r), ba_detail = lr_detail r,
           ba_named = lr_named r, ba_country = lr_country r, ba_cookieIP = filter b6 (lr_cookieIP r)\<rparr>,
          r\<lparr>lr_buckets := filter (\<lambda>x. \<not> b1 x) (lr_buckets r), lr_crawler := filter (\<lambda>x. \<not> b2 x) (lr_crawler r), lr_detail := [],
            lr_named := [], lr_country := [], lr_cookieIP := filter (\<lambda>x. \<not> b6 x) (lr_cookieIP r)\<rparr>))"

definition merge_kinds :: "(string, nat) amap \<Rightarrow> (string, nat) amap \<Rightarrow> (string, nat) amap" where
  "merge_kinds ks es = upsert_rows (+) 0 es ks"

definition merge_bucket :: "Bucket \<Rightarrow> Bucket \<Rightarrow> Bucket" where
  "merge_bucket b e =
     \<lparr>bk_total = bk_total b + bk_total e, bk_kinds = merge_kinds (bk_kinds b) (bk_kinds e), bk_ipAll = Merge (bk_ipAll b) (bk_ipAll e),
      bk_ipChal = Merge (bk_ipChal b) (bk_ipChal e), bk_ipPass = Merge (bk_ipPass b) (bk_ipPass e)\<rparr>"

definition merge_crawler :: "CrawlerBucket \<Rightarrow> CrawlerBucket \<Rightarrow> CrawlerBucket" where
  "merge_crawler b e = \<lparr>cb_total = cb_total b + cb_total e, cb_served = cb_served b + cb_served e\<rparr>"

definition merge_country :: "CountryBucket \<Rightarrow> CountryBucket \<Rightarrow> CountryBucket" where
  "merge_country b e = \<lparr>co_total = co_total b + co_total e, co_kinds = merge_kinds (co_kinds b) (co_kinds e)\<rparr>"

definition merge_cookieIP :: "CookieIPBucket \<Rightarrow> CookieIPBucket \<Rightarrow> CookieIPBucket" where
  "merge_cookieIP b e =
     (let b = b\<lparr>ci_cnt := ci_cnt b + ci_cnt e, ci_judged := ci_judged b + ci_judged e\<rparr>
      in if ci_lastSeen e \<ge> ci_lastSeen b then b\<lparr>ci_lastSeen := ci_lastSeen e, ci_ja4 := ci_ja4 e, ci_ua := ci_ua e\<rparr> else b)"

text \<open>\<open>restore\<close>: it puts every map back but \<open>namedReady\<close>.\<close>

definition flush_restore :: "Batch \<Rightarrow> LogReader \<Rightarrow> LogReader" where
  "flush_restore b r =
     r\<lparr>lr_buckets := put_back merge_bucket (ba_buckets b) (lr_buckets r),
       lr_crawler := put_back merge_crawler (ba_crawler b) (lr_crawler r),
       lr_detail := put_back merge_crawler (ba_detail b) (lr_detail r),
       lr_country := put_back merge_country (ba_country b) (lr_country r),
       lr_cookieIP := put_back merge_cookieIP (ba_cookieIP b) (lr_cookieIP r)\<rparr>"

text \<open>The rows a bucket writes.\<close>

definition bucket_rows :: "bucketKey \<Rightarrow> Bucket \<Rightarrow> (kindRow \<times> nat) list" where
  "bucket_rows k b =
     ((fst k, snd k, ''total''), bk_total b)
       # map (\<lambda>(kd, v). ((fst k, snd k, kd), v)) (filter (\<lambda>(kd, v). v \<noteq> 0 \<and> kd \<noteq> []) (bk_kinds b))"

definition sketches_of :: "Bucket \<Rightarrow> (string \<times> Sketch) list" where
  "sketches_of b = [(''ip'', bk_ipAll b), (''ipc'', bk_ipChal b), (''ipp'', bk_ipPass b)]"

definition crawler_rows :: "'k \<Rightarrow> CrawlerBucket \<Rightarrow> ('k \<times> nat \<times> nat) list" where
  "crawler_rows k b = [(k, cb_total b, cb_served b)]"

definition country_rows :: "countryHourKey \<Rightarrow> CountryBucket \<Rightarrow> ((int \<times> string \<times> string \<times> string) \<times> nat) list" where
  "country_rows k b =
     ((fst k, fst (snd k), snd (snd k), ''total''), co_total b)
       # map (\<lambda>(kd, v). ((fst k, fst (snd k), snd (snd k), kd), v)) (filter (\<lambda>(kd, v). v \<noteq> 0 \<and> kd \<noteq> []) (co_kinds b))"

definition all_rows :: "('k \<Rightarrow> 'b \<Rightarrow> ('r \<times> 'v) list) \<Rightarrow> ('k, 'b) amap \<Rightarrow> ('r \<times> 'v) list" where
  "all_rows rows m = concat (map (\<lambda>(k, b). rows k b) m)"

text \<open>Reading the stored sketch, merging and writing it.\<close>

definition put_sketch :: "kindRow \<Rightarrow> Sketch \<Rightarrow> (kindRow, string) amap \<Rightarrow> (kindRow, string) amap" where
  "put_sketch k s t =
     (if Empty s then t
      else let prev = at_key [] k t in aput k (Bytes (if prev = [] then s else Merge s (Load prev))) t)"

definition write_sketches :: "(bucketKey, Bucket) amap \<Rightarrow> (kindRow, string) amap \<Rightarrow> (kindRow, string) amap" where
  "write_sketches m t = fold (\<lambda>(k, b). fold (\<lambda>(kd, s). put_sketch (fst k, snd k, kd) s) (sketches_of b)) m t"

definition write_named :: "(namedKey, NamedBucket) amap \<Rightarrow> (namedKey, nat \<times> string) amap \<Rightarrow> (namedKey, nat \<times> string) amap" where
  "write_named m t =
     fold (\<lambda>(k, b) t. let (cnt, prev) = at_key (0, []) k t
       in aput k (cnt + nb_cnt b, Bytes (if prev = [] then nb_ips b else Merge (nb_ips b) (Load prev))) t) m t"

definition write_cookieIP :: "(cookieIPKey, CookieIPBucket) amap \<Rightarrow> (int \<times> string \<times> nat list \<times> string, CookieIPBucket) amap
    \<Rightarrow> (int \<times> string \<times> nat list \<times> string, CookieIPBucket) amap" where
  "write_cookieIP m t =
     fold (\<lambda>((minute, site, ip, kind), b) t. case PackIP ip of None \<Rightarrow> t
       | Some p \<Rightarrow> upd_key newCookieIPBucket (minute, site, p, kind)
           (\<lambda>o'. b\<lparr>ci_cnt := ci_cnt o' + ci_cnt b, ci_judged := ci_judged o' + ci_judged b\<rparr>) t) m t"

text \<open>The transaction of a flush when every statement and the commit succeed.\<close>

definition flush_write :: "Batch \<Rightarrow> LogTables \<Rightarrow> LogTables" where
  "flush_write b t =
     \<lparr>lt_minute = upsert_rows (+) 0 (all_rows bucket_rows (ba_buckets b)) (lt_minute t),
      lt_hll = write_sketches (ba_buckets b) (lt_hll t),
      lt_crawler = upsert_rows pair_add (0, 0) (all_rows crawler_rows (ba_crawler b)) (lt_crawler t),
      lt_detail = upsert_rows pair_add (0, 0) (all_rows crawler_rows (ba_detail b)) (lt_detail t),
      lt_named = write_named (ba_named b) (lt_named t),
      lt_country = upsert_rows (+) 0 (all_rows country_rows (ba_country b)) (lt_country t),
      lt_cookieIP = write_cookieIP (ba_cookieIP b) (lt_cookieIP t)\<rparr>"

text \<open>
  \<open>flushOnce\<close> as a whole: nothing while the writes are held, nothing when there is nothing to
  write, else the transaction or its rollback. In the runs below its parts are steps of their
  own, since lines are counted between them.
\<close>

definition flushOnce :: "bool \<Rightarrow> bool \<Rightarrow> bool \<Rightarrow> int \<Rightarrow> LogReader \<times> LogTables \<Rightarrow> LogReader \<times> LogTables" where
  "flushOnce writesHeld ok final now rt =
     (if writesHeld then rt
      else let (b, r) = flush_take final now (fst rt) in
        if b = emptyBatch then (r, snd rt)
        else if ok then (r, flush_write b (snd rt)) else (flush_restore b r, snd rt))"

subsection \<open>Runs\<close>

text \<open>One call of a counter, with the country, category and name it looked up.\<close>

datatype Count =
    CLine int string string
  | CShare int string string
  | CAddr int string string bool string
  | CCountry int string string string
  | CCrawler int string bool bool string
  | CCookie int string string string string string bool

fun run_count :: "ReaderEnv \<Rightarrow> Count \<Rightarrow> LogReader \<Rightarrow> LogReader" where
  "run_count e (CLine now site kind) = bumpLine now site kind"
| "run_count e (CShare now site kind) = bumpKind now site kind"
| "run_count e (CAddr now site ip fc bvKind) = bumpTrafficHLL now site ip fc bvKind"
| "run_count e (CCountry now site ip kind) = bumpCountryHourly e now site ip kind"
| "run_count e (CCrawler now ua served named ip) = bumpCrawler e now ua served named ip"
| "run_count e (CCookie now site ip ja4 ua kind judged) = bumpCookieIP now site ip ja4 ua kind judged"

text \<open>A cookie's address past the bound of the map is not counted.\<close>

fun is_counted :: "Count \<Rightarrow> LogReader \<Rightarrow> bool" where
  "is_counted (CCookie now site ip ja4 ua kind judged) r = cookieIP_counts now site ip kind r"
| "is_counted _ r = True"

record LogSys =
  sy_reader :: LogReader
  sy_flight :: "Batch option"
  sy_tables :: LogTables
  sy_hist :: "Count list"
  sy_base :: LogTables

inductive log_step :: "ReaderEnv \<Rightarrow> LogSys \<Rightarrow> LogSys \<Rightarrow> bool" for e where
  step_site: "log_step e s (s\<lparr>sy_reader := snd (aggSite e now site (sy_reader s))\<rparr>)"
| step_count: "is_counted c (sy_reader s) \<Longrightarrow> log_step e s (s\<lparr>sy_reader := run_count e c (sy_reader s), sy_hist := sy_hist s @ [c]\<rparr>)"
| step_dropped: "\<not> is_counted c (sy_reader s) \<Longrightarrow> log_step e s (s\<lparr>sy_reader := run_count e c (sy_reader s)\<rparr>)"
| step_take: "sy_flight s = None \<Longrightarrow> flush_take final now (sy_reader s) = (b, r) \<Longrightarrow> log_step e s (s\<lparr>sy_reader := r, sy_flight := Some b\<rparr>)"
| step_commit: "sy_flight s = Some b \<Longrightarrow> log_step e s (s\<lparr>sy_tables := flush_write b (sy_tables s), sy_flight := None\<rparr>)"
| step_fail: "sy_flight s = Some b \<Longrightarrow> log_step e s (s\<lparr>sy_reader := flush_restore b (sy_reader s), sy_flight := None\<rparr>)"

definition log_start :: "LogSys \<Rightarrow> bool" where
  "log_start s \<longleftrightarrow> sy_reader s = newLogReader \<and> sy_flight s = None \<and> sy_hist s = [] \<and> sy_base s = sy_tables s"

section \<open>Lemmas\<close>

subsection \<open>Kinds\<close>

text \<open>The rows of a map of kinds, under a key that tells the kind.\<close>

abbreviation kind_rows :: "(string \<Rightarrow> 'r) \<Rightarrow> (string, nat) amap \<Rightarrow> ('r \<times> nat) list" where
  "kind_rows f ks \<equiv> map (\<lambda>(kd, v). (f kd, v)) (filter (\<lambda>(kd, v). v \<noteq> 0 \<and> kd \<noteq> []) ks)"

lemma kind_rows_in:
  assumes "amap_wf ks" "inj f"
  shows "cell (+) 0 (kind_rows f ks) (f kd) = (if kd = [] then 0 else at_key 0 kd ks)"
  using assms(1)
proof (induction ks)
  case (Cons x ks)
  have "cell (+) 0 (kind_rows f (x # ks)) (f kd) = (if fst x = kd \<and> kd \<noteq> [] then snd x else 0) + cell (+) 0 (kind_rows f ks) (f kd)"
    using injD [OF assms(2), of "fst x" kd] by (cases x) (auto simp: cell_def)
  moreover have "map_of ks (fst x) = None" using Cons.prems by (simp add: amap_wf_def map_of_eq_None_iff)
  ultimately show ?case using Cons by (cases x) (auto simp: amap_wf_def at_key_def)
qed (simp add: at_key_def)

lemma kind_rows_out: "r \<notin> range f \<Longrightarrow> cell (+) 0 (kind_rows f ks) r = 0"
  by (induction ks) (auto simp: cell_def)

lemma bump_kind_wf [simp]: "amap_wf ks \<Longrightarrow> amap_wf (bump_kind kind ks)"
  by (simp add: bump_kind_def)

lemma bump_kind_at: "at_key 0 kd (bump_kind kind ks) = at_key 0 kd ks + (if kd = kind \<and> kind \<noteq> [] then 1 else 0)"
  by (simp add: bump_kind_def)

lemma amap_wf_upsert [simp]: "amap_wf t \<Longrightarrow> amap_wf (upsert_rows add nul rs t)"
  by (induction rs arbitrary: t) (auto simp: upsert_rows_def split_beta)

lemma merge_kinds_at: "amap_wf es \<Longrightarrow> at_key 0 kd (merge_kinds ks es) = at_key 0 kd ks + at_key 0 kd es"
  by (simp add: merge_kinds_def nat_rows.at_key_upsert nat_rows.cell_distinct)

lemma merge_kinds_wf [simp]: "amap_wf ks \<Longrightarrow> amap_wf (merge_kinds ks es)"
  by (simp add: merge_kinds_def)

subsection \<open>Sketches\<close>

definition sketch_ok :: "Sketch \<Rightarrow> bool" where
  "sketch_ok s \<longleftrightarrow> length s = hll_m \<and> (\<forall>x \<in> set s. x < 256)"

definition read_sketch :: "kindRow \<Rightarrow> (kindRow, string) amap \<Rightarrow> Sketch" where
  "read_sketch k t = Load (at_key [] k t)"

lemma sketch_ok_empty [simp]: "sketch_ok emptySketch"
  by (simp add: sketch_ok_def emptySketch_def)

lemma sketch_ok_Add [simp]: "sketch_ok s \<Longrightarrow> sketch_ok (Add ip s)"
  using rank_of_bounds [of "hash ip"] set_update_subset_insert [of s "register_of (hash ip)" "rank_of (hash ip)"]
  by (auto simp: sketch_ok_def Add_def Let_def)

lemma sketch_ok_Merge [simp]: "sketch_ok a \<Longrightarrow> sketch_ok b \<Longrightarrow> sketch_ok (Merge a b)"
  by (force simp: sketch_ok_def Merge_def dest: set_zip_leftD set_zip_rightD split: if_splits)

lemma nth_Merge: "sketch_ok a \<Longrightarrow> sketch_ok b \<Longrightarrow> i < hll_m \<Longrightarrow> Merge a b ! i = max (a ! i) (b ! i)"
  by (simp add: sketch_ok_def Merge_def max_def)

lemma Load_Bytes_ok: "sketch_ok s \<Longrightarrow> Load (Bytes s) = s"
  by (simp add: sketch_ok_def Load_def Bytes_def comp_def map_idI)

lemma sketch_ok_read [simp]: "sketch_ok (read_sketch k t)"
proof -
  have "x < 256" if "x \<in> set (take hll_m (map of_char b))" for x :: nat and b :: string
    using in_set_takeD [OF that] by auto
  then show ?thesis by (auto simp: sketch_ok_def read_sketch_def Load_def)
qed

lemma sketch_eqI: "sketch_ok a \<Longrightarrow> sketch_ok b \<Longrightarrow> (\<And>i. i < hll_m \<Longrightarrow> a ! i = b ! i) \<Longrightarrow> a = b"
  by (auto simp: sketch_ok_def intro: nth_equalityI)

lemma nth_emptySketch [simp]: "i < hll_m \<Longrightarrow> emptySketch ! i = 0"
  by (simp add: emptySketch_def)

lemma read_put_sketch:
  assumes "sketch_ok s"
  shows "read_sketch k (put_sketch k' s t) = (if k = k' then Merge s (read_sketch k t) else read_sketch k t)"
proof (cases "Empty s")
  case True
  then have "Merge s (read_sketch k' t) = read_sketch k' t"
    by (intro sketch_eqI) (simp_all add: Empty_def nth_Merge)
  then show ?thesis using True by (simp add: put_sketch_def)
next
  case False
  have "Merge s emptySketch = s" using assms by (intro sketch_eqI) (simp_all add: nth_Merge)
  moreover have "Load [] = emptySketch" by (simp add: Load_def emptySketch_def)
  moreover have "sketch_ok (Load p)" for p using sketch_ok_read [of undefined "[(undefined, p)]"] by (simp add: read_sketch_def at_key_def)
  ultimately show ?thesis using assms False
    by (auto simp: put_sketch_def read_sketch_def Let_def at_key_def Load_Bytes_ok)
qed

subsection \<open>The counters as instances\<close>

definition bucket_ok :: "Bucket \<Rightarrow> bool" where
  "bucket_ok b \<longleftrightarrow> amap_wf (bk_kinds b) \<and> (\<forall>s \<in> snd ` set (sketches_of b). sketch_ok s)"

definition sketch_rows :: "bucketKey \<Rightarrow> Bucket \<Rightarrow> ((int \<times> string \<times> string \<times> nat) \<times> nat) list" where
  "sketch_rows k b = concat (map (\<lambda>(kd, s). map (\<lambda>i. ((fst k, snd k, kd, i), s ! i)) [0..<hll_m]) (sketches_of b))"

definition cookie_rows :: "cookieIPKey \<Rightarrow> CookieIPBucket \<Rightarrow> ((int \<times> string \<times> nat list \<times> string) \<times> nat \<times> nat) list" where
  "cookie_rows k b =
     (case k of (minute, site, ip, kind) \<Rightarrow>
        (case PackIP ip of None \<Rightarrow> [] | Some p \<Rightarrow> [((minute, site, p, kind), ci_cnt b, ci_judged b)]))"

lemma bucket_value:
  assumes "bucket_ok b"
  shows "cell (+) 0 (bucket_rows k b) (m, site, kd) =
    (if (m, site) = k then (if kd = ''total'' then bk_total b else 0) + (if kd = [] then 0 else at_key 0 kd (bk_kinds b)) else 0)"
proof -
  let ?f = "\<lambda>kd. (fst k, snd k, kd)"
  have "cell (+) 0 (bucket_rows k b) (m, site, kd) = (if (m, site, kd) = ?f ''total'' then bk_total b else 0) + cell (+) 0 (kind_rows ?f (bk_kinds b)) (m, site, kd)"
    using nat_rows.cell_append [of "[(?f ''total'', bk_total b)]" "kind_rows ?f (bk_kinds b)"] by (auto simp: bucket_rows_def cell_def)
  moreover have "inj ?f" by (simp add: inj_def)
  moreover have "(m, site, kd) \<notin> range ?f" if "(m, site) \<noteq> k" using that by (cases k) auto
  ultimately show ?thesis
    using kind_rows_in [of "bk_kinds b" ?f kd] kind_rows_out [of "(m, site, kd)" ?f "bk_kinds b"] assms
    by (cases "(m, site) = k") (auto simp: bucket_ok_def)
qed

lemma country_value:
  assumes "amap_wf (co_kinds b)"
  shows "cell (+) 0 (country_rows k b) (h, site, cc, kd) =
    (if (h, site, cc) = k then (if kd = ''total'' then co_total b else 0) + (if kd = [] then 0 else at_key 0 kd (co_kinds b)) else 0)"
proof -
  let ?f = "\<lambda>kd. (fst k, fst (snd k), snd (snd k), kd)"
  have "cell (+) 0 (country_rows k b) (h, site, cc, kd) = (if (h, site, cc, kd) = ?f ''total'' then co_total b else 0) + cell (+) 0 (kind_rows ?f (co_kinds b)) (h, site, cc, kd)"
    using nat_rows.cell_append [of "[(?f ''total'', co_total b)]" "kind_rows ?f (co_kinds b)"] by (auto simp: country_rows_def cell_def)
  moreover have "inj ?f" by (simp add: inj_def)
  moreover have "(h, site, cc, kd) \<notin> range ?f" if "(h, site, cc) \<noteq> k" using that by (cases k) auto
  ultimately show ?thesis
    using kind_rows_in [of "co_kinds b" ?f kd] kind_rows_out [of "(h, site, cc, kd)" ?f "co_kinds b"] assms
    by (cases "(h, site, cc) = k") auto
qed

lemma crawler_value: "cell pair_add (0, 0) (crawler_rows k b) r = (if k = r then (cb_total b, cb_served b) else (0, 0))"
  by (simp add: crawler_rows_def cell_def pair_add_def)

lemma cookie_value:
  "cell pair_add (0, 0) (cookie_rows (m, site, ip, kd) b) r =
     (case PackIP ip of None \<Rightarrow> (0, 0) | Some p \<Rightarrow> if r = (m, site, p, kd) then (ci_cnt b, ci_judged b) else (0, 0))"
  by (auto simp: cookie_rows_def cell_def pair_add_def split: option.splits)

text \<open>The sketch of a kind of row.\<close>

definition sketch_at :: "string \<Rightarrow> Bucket \<Rightarrow> Sketch" where
  "sketch_at kd b = (if kd = ''ip'' then bk_ipAll b else if kd = ''ipc'' then bk_ipChal b else if kd = ''ipp'' then bk_ipPass b else emptySketch)"

lemma register_rows:
  "cell max 0 (map (\<lambda>i. ((m', site', kd', i), s ! i)) [0..<n]) (m, site, kd, i) =
     (if (m, site, kd) = (m', site', kd') \<and> i < n then s ! i else (0 :: nat))"
  by (induction n) (auto simp: max_rows.cell_append max_rows.cell_one)

lemma sketch_value:
  assumes "i < hll_m"
  shows "cell max 0 (sketch_rows k b) (m, site, kd, i) = (if (m, site) = k then sketch_at kd b ! i else 0)"
  using assms by (cases k) (auto simp: sketch_rows_def sketches_of_def sketch_at_def max_rows.cell_append register_rows)

lemma sketch_value_out: "\<not> i < hll_m \<Longrightarrow> cell max 0 (sketch_rows k b) (m, site, kd, i) = 0"
  by (simp add: sketch_rows_def sketches_of_def max_rows.cell_append register_rows)

lemma sketch_at_ok [simp]: "bucket_ok b \<Longrightarrow> sketch_ok (sketch_at kd b)"
  by (simp add: bucket_ok_def sketches_of_def sketch_at_def)

lemma sketch_at_merge: "sketch_at kd (merge_bucket a b) = (if kd \<in> {''ip'', ''ipc'', ''ipp''} then Merge (sketch_at kd a) (sketch_at kd b) else emptySketch)"
  by (auto simp: sketch_at_def merge_bucket_def)

lemma bucket_ok_merge: "bucket_ok a \<Longrightarrow> bucket_ok b \<Longrightarrow> bucket_ok (merge_bucket a b)"
  by (simp add: bucket_ok_def merge_bucket_def sketches_of_def)

interpretation minute: write_behind "(+) :: nat \<Rightarrow> nat \<Rightarrow> nat" 0 merge_bucket bucket_rows bucket_ok
proof unfold_locales
  fix a b k and r :: kindRow assume ok: "bucket_ok a" "bucket_ok b"
  obtain m site kd where r: "r = (m, site, kd)" by (cases r)
  have "at_key 0 kd (bk_kinds (merge_bucket a b)) = at_key 0 kd (bk_kinds a) + at_key 0 kd (bk_kinds b)"
    using ok by (simp add: merge_bucket_def merge_kinds_at bucket_ok_def)
  then show "cell (+) 0 (bucket_rows k (merge_bucket a b)) r = cell (+) 0 (bucket_rows k a) r + cell (+) 0 (bucket_rows k b) r"
    unfolding r bucket_value [OF ok(1)] bucket_value [OF ok(2)] bucket_value [OF bucket_ok_merge [OF ok]] by (simp add: merge_bucket_def)
qed (rule bucket_ok_merge)

interpretation registers: write_behind "max :: nat \<Rightarrow> nat \<Rightarrow> nat" 0 merge_bucket sketch_rows bucket_ok
proof unfold_locales
  fix a b k and r :: "int \<times> string \<times> string \<times> nat" assume ok: "bucket_ok a" "bucket_ok b"
  obtain m site kd i where r: "r = (m, site, kd, i)" by (cases r)
  show "cell max 0 (sketch_rows k (merge_bucket a b)) r = max (cell max 0 (sketch_rows k a) r) (cell max 0 (sketch_rows k b) r)"
  proof (cases "i < hll_m")
    case True
    have "sketch_at kd (merge_bucket a b) ! i = max (sketch_at kd a ! i) (sketch_at kd b ! i)"
    proof (cases "kd \<in> {''ip'', ''ipc'', ''ipp''}")
      case kd: True
      then show ?thesis using ok True by (simp add: sketch_at_merge nth_Merge)
    qed (use True in \<open>simp add: sketch_at_def\<close>)
    then show ?thesis using True by (simp add: r sketch_value)
  qed (simp add: r sketch_value_out)
qed (rule bucket_ok_merge)

interpretation crawlers: write_behind pair_add "(0, 0)" merge_crawler "crawler_rows :: 'k \<Rightarrow> CrawlerBucket \<Rightarrow> ('k \<times> nat \<times> nat) list" "\<lambda>_. True"
  by unfold_locales (auto simp: crawler_value merge_crawler_def pair_add_def)

interpretation country: write_behind "(+) :: nat \<Rightarrow> nat \<Rightarrow> nat" 0 merge_country country_rows "\<lambda>b. amap_wf (co_kinds b)"
proof unfold_locales
  fix a b :: CountryBucket and k and r :: "int \<times> string \<times> string \<times> string" assume ok: "amap_wf (co_kinds a)" "amap_wf (co_kinds b)"
  obtain m site cc kd where r: "r = (m, site, cc, kd)" by (cases r)
  have ok3: "amap_wf (co_kinds (merge_country a b))" using ok by (simp add: merge_country_def)
  show "cell (+) 0 (country_rows k (merge_country a b)) r = cell (+) 0 (country_rows k a) r + cell (+) 0 (country_rows k b) r"
    unfolding r country_value [OF ok(1)] country_value [OF ok(2)] country_value [OF ok3] using ok by (simp add: merge_country_def merge_kinds_at)
  show "amap_wf (co_kinds (merge_country a b))" by (rule ok3)
qed

interpretation cookies: write_behind pair_add "(0, 0)" merge_cookieIP cookie_rows "\<lambda>_. True"
proof unfold_locales
  fix a b :: CookieIPBucket and k :: cookieIPKey and r
  obtain m site ip kd where k: "k = (m, site, ip, kd)" by (cases k)
  have "ci_cnt (merge_cookieIP a b) = ci_cnt a + ci_cnt b" "ci_judged (merge_cookieIP a b) = ci_judged a + ci_judged b"
    by (simp_all add: merge_cookieIP_def Let_def)
  then show "cell pair_add (0, 0) (cookie_rows k (merge_cookieIP a b)) r = pair_add (cell pair_add (0, 0) (cookie_rows k a) r) (cell pair_add (0, 0) (cookie_rows k b) r)"
    unfolding k cookie_value by (auto simp: pair_add_def split: option.splits)
qed simp

subsection \<open>What a call counts\<close>

fun minute_adds :: "Count \<Rightarrow> kindRow \<Rightarrow> nat" where
  "minute_adds (CLine now site kind) r =
     (if r = (now div 60, site, ''total'') then 1 else 0) + (if kind \<noteq> [] \<and> r = (now div 60, site, kind) then 1 else 0)"
| "minute_adds (CShare now site kind) r = (if kind \<noteq> [] \<and> r = (now div 60, site, kind) then 1 else 0)"
| "minute_adds _ r = 0"

definition in_sketch :: "string \<Rightarrow> bool \<Rightarrow> string \<Rightarrow> bool" where
  "in_sketch kd fc bvKind \<longleftrightarrow> kd = ''ip'' \<or> kd = ''ipc'' \<and> fc \<or> kd = ''ipp'' \<and> (bvKind = ''pow'' \<or> bvKind = ''captcha'')"

fun register_adds :: "Count \<Rightarrow> int \<times> string \<times> string \<times> nat \<Rightarrow> nat" where
  "register_adds (CAddr now site ip fc bvKind) (m, s, kd, i) =
     (if ip \<noteq> [] \<and> (m, s) = (now div 60, site) \<and> in_sketch kd fc bvKind \<and> i < hll_m then Add ip emptySketch ! i else 0)"
| "register_adds _ r = 0"

definition country_of_ip :: "ReaderEnv \<Rightarrow> string \<Rightarrow> string" where
  "country_of_ip e ip = (case re_geo e of None \<Rightarrow> [] | Some g \<Rightarrow> if ip \<noteq> [] then g ip else [])"

fun country_adds :: "ReaderEnv \<Rightarrow> Count \<Rightarrow> int \<times> string \<times> string \<times> string \<Rightarrow> nat" where
  "country_adds e (CCountry now site ip kind) r =
     (if r = (now div 3600, site, country_of_ip e ip, ''total'') then 1 else 0)
     + (if kind \<noteq> [] \<and> r = (now div 3600, site, country_of_ip e ip, kind) then 1 else 0)"
| "country_adds e _ r = 0"

definition category_of :: "ReaderEnv \<Rightarrow> string \<Rightarrow> string" where
  "category_of e ua = (case re_classify e of None \<Rightarrow> [] | Some f \<Rightarrow> if ua = [] then [] else f ua)"

definition crawler_name_of :: "ReaderEnv \<Rightarrow> string \<Rightarrow> string" where
  "crawler_name_of e ua = (case re_namer e of None \<Rightarrow> [] | Some n \<Rightarrow> n ua (category_of e ua))"

fun crawler_adds :: "ReaderEnv \<Rightarrow> Count \<Rightarrow> crawlerKey \<Rightarrow> nat \<times> nat" where
  "crawler_adds e (CCrawler now ua served named ip) r =
     (if category_of e ua \<noteq> [] \<and> r = (now div 60, category_of e ua) then (1, if served then 1 else 0) else (0, 0))"
| "crawler_adds e _ r = (0, 0)"

fun detail_adds :: "ReaderEnv \<Rightarrow> Count \<Rightarrow> crawlerDetailKey \<Rightarrow> nat \<times> nat" where
  "detail_adds e (CCrawler now ua served named ip) r =
     (if category_of e ua \<noteq> [] \<and> crawler_name_of e ua \<noteq> [] \<and> r = (now div 3600, category_of e ua, crawler_name_of e ua)
      then (1, if served then 1 else 0) else (0, 0))"
| "detail_adds e _ r = (0, 0)"

fun cookie_adds :: "Count \<Rightarrow> int \<times> string \<times> nat list \<times> string \<Rightarrow> nat \<times> nat" where
  "cookie_adds (CCookie now site ip ja4 ua kind judged) (m, s, p, kd) =
     (if PackIP ip = Some p \<and> (m, s, kd) = (now div 60, site, kind) then (1, if judged then 1 else 0) else (0, 0))"
| "cookie_adds _ r = (0, 0)"

text \<open>\<open>bumpCrawler\<close>, map by map.\<close>

lemma bumpCrawler_maps:
  "lr_crawler (bumpCrawler e now ua served named ip r) =
     (if category_of e ua = [] then lr_crawler r else upd_key newCrawlerBucket (now div 60, category_of e ua) (bump_served served) (lr_crawler r))"
  "lr_detail (bumpCrawler e now ua served named ip r) =
     (if category_of e ua = [] \<or> crawler_name_of e ua = [] then lr_detail r
      else upd_key newCrawlerBucket (now div 3600, category_of e ua, crawler_name_of e ua) (bump_served served) (lr_detail r))"
  "lr_buckets (bumpCrawler e now ua served named ip r) = lr_buckets r" "lr_country (bumpCrawler e now ua served named ip r) = lr_country r"
  "lr_cookieIP (bumpCrawler e now ua served named ip r) = lr_cookieIP r"
  by (auto simp: bumpCrawler_def category_of_def crawler_name_of_def Let_def split: option.splits)

lemma aggSite_maps:
  "lr_buckets (snd (aggSite e now site r)) = lr_buckets r" "lr_crawler (snd (aggSite e now site r)) = lr_crawler r"
  "lr_detail (snd (aggSite e now site r)) = lr_detail r" "lr_country (snd (aggSite e now site r)) = lr_country r"
  "lr_cookieIP (snd (aggSite e now site r)) = lr_cookieIP r" "lr_named (snd (aggSite e now site r)) = lr_named r"
  by (simp_all add: aggSite_def Let_def)

subsection \<open>The invariant\<close>

definition stored_registers :: "(kindRow, string) amap \<Rightarrow> int \<times> string \<times> string \<times> nat \<Rightarrow> nat" where
  "stored_registers t = (\<lambda>(m, site, kd, i). if i < hll_m then read_sketch (m, site, kd) t ! i else 0)"

definition stored_cookies :: "(int \<times> string \<times> nat list \<times> string, CookieIPBucket) amap \<Rightarrow> int \<times> string \<times> nat list \<times> string \<Rightarrow> nat \<times> nat" where
  "stored_cookies t r = (ci_cnt (at_key newCookieIPBucket r t), ci_judged (at_key newCookieIPBucket r t))"

definition in_flight :: "LogSys \<Rightarrow> Batch" where
  "in_flight s = (case sy_flight s of None \<Rightarrow> emptyBatch | Some b \<Rightarrow> b)"

definition minute_inv :: "LogSys \<Rightarrow> bool" where
  "minute_inv s \<longleftrightarrow> conserved (+) 0 bucket_rows bucket_ok minute_adds (\<lambda>r. at_key 0 r (lt_minute (sy_base s))) (sy_hist s)
     (\<lambda>r. at_key 0 r (lt_minute (sy_tables s))) (ba_buckets (in_flight s)) (lr_buckets (sy_reader s))"

definition register_inv :: "LogSys \<Rightarrow> bool" where
  "register_inv s \<longleftrightarrow> conserved max 0 sketch_rows bucket_ok register_adds (stored_registers (lt_hll (sy_base s))) (sy_hist s)
     (stored_registers (lt_hll (sy_tables s))) (ba_buckets (in_flight s)) (lr_buckets (sy_reader s))"

definition crawler_inv :: "ReaderEnv \<Rightarrow> LogSys \<Rightarrow> bool" where
  "crawler_inv e s \<longleftrightarrow> conserved pair_add (0, 0) crawler_rows (\<lambda>_. True) (crawler_adds e) (\<lambda>r. at_key (0, 0) r (lt_crawler (sy_base s))) (sy_hist s)
     (\<lambda>r. at_key (0, 0) r (lt_crawler (sy_tables s))) (ba_crawler (in_flight s)) (lr_crawler (sy_reader s))"

definition detail_inv :: "ReaderEnv \<Rightarrow> LogSys \<Rightarrow> bool" where
  "detail_inv e s \<longleftrightarrow> conserved pair_add (0, 0) crawler_rows (\<lambda>_. True) (detail_adds e) (\<lambda>r. at_key (0, 0) r (lt_detail (sy_base s))) (sy_hist s)
     (\<lambda>r. at_key (0, 0) r (lt_detail (sy_tables s))) (ba_detail (in_flight s)) (lr_detail (sy_reader s))"

definition country_inv :: "ReaderEnv \<Rightarrow> LogSys \<Rightarrow> bool" where
  "country_inv e s \<longleftrightarrow> conserved (+) 0 country_rows (\<lambda>b. amap_wf (co_kinds b)) (country_adds e) (\<lambda>r. at_key 0 r (lt_country (sy_base s))) (sy_hist s)
     (\<lambda>r. at_key 0 r (lt_country (sy_tables s))) (ba_country (in_flight s)) (lr_country (sy_reader s))"

definition cookie_inv :: "LogSys \<Rightarrow> bool" where
  "cookie_inv s \<longleftrightarrow> conserved pair_add (0, 0) cookie_rows (\<lambda>_. True) cookie_adds (stored_cookies (lt_cookieIP (sy_base s))) (sy_hist s)
     (stored_cookies (lt_cookieIP (sy_tables s))) (ba_cookieIP (in_flight s)) (lr_cookieIP (sy_reader s))"

definition log_inv :: "ReaderEnv \<Rightarrow> LogSys \<Rightarrow> bool" where
  "log_inv e s \<longleftrightarrow> minute_inv s \<and> register_inv s \<and> crawler_inv e s \<and> detail_inv e s \<and> country_inv e s \<and> cookie_inv s"

lemmas inv_defs = minute_inv_def register_inv_def crawler_inv_def detail_inv_def country_inv_def cookie_inv_def

text \<open>A new bucket, and what each call does to a bucket.\<close>

lemma new_bucket_ok [simp]: "bucket_ok newBucket" "amap_wf (co_kinds newCountryBucket)"
  by (simp_all add: bucket_ok_def newBucket_def sketches_of_def newCountryBucket_def)

lemma new_bucket_value [simp]:
  "cell (+) 0 (bucket_rows k newBucket) r = 0" "cell max 0 (sketch_rows k newBucket) q = 0"
  "cell (+) 0 (country_rows k2 newCountryBucket) r2 = 0" "cell pair_add (0, 0) (crawler_rows k3 newCrawlerBucket) r3 = (0, 0)"
  "cell pair_add (0, 0) (cookie_rows k4 newCookieIPBucket) r4 = (0, 0)"
proof -
  show "cell (+) 0 (bucket_rows k newBucket) r = 0" by (simp add: bucket_rows_def newBucket_def cell_def)
  show "cell (+) 0 (country_rows k2 newCountryBucket) r2 = 0" by (simp add: country_rows_def newCountryBucket_def cell_def)
  show "cell pair_add (0, 0) (crawler_rows k3 newCrawlerBucket) r3 = (0, 0)" by (simp add: crawler_value newCrawlerBucket_def)
  show "cell pair_add (0, 0) (cookie_rows k4 newCookieIPBucket) r4 = (0, 0)"
    by (cases k4) (simp add: cookie_value newCookieIPBucket_def split: option.splits)
  obtain m site kd i where q: "q = (m, site, kd, i)" by (cases q)
  show "cell max 0 (sketch_rows k newBucket) q = 0"
    by (cases "i < hll_m") (simp_all add: q sketch_value sketch_value_out sketch_at_def newBucket_def)
qed

lemma nth_Add_max: "sketch_ok s \<Longrightarrow> i < hll_m \<Longrightarrow> Add ip s ! i = max (s ! i) (Add ip emptySketch ! i)"
  by (simp add: nth_Add sketch_ok_def emptySketch_def)

lemma add_kind_value:
  "bucket_ok b \<Longrightarrow> cell (+) 0 (bucket_rows k (b\<lparr>bk_total := bk_total b + n, bk_kinds := bump_kind kind (bk_kinds b)\<rparr>)) r =
     cell (+) 0 (bucket_rows k b) r + ((if r = (fst k, snd k, ''total'') then n else 0) + (if kind \<noteq> [] \<and> r = (fst k, snd k, kind) then 1 else 0))"
proof -
  assume ok: "bucket_ok b"
  obtain m site kd where r: "r = (m, site, kd)" by (cases r)
  have ok2: "bucket_ok (b\<lparr>bk_total := bk_total b + n, bk_kinds := bump_kind kind (bk_kinds b)\<rparr>)"
    using ok by (simp add: bucket_ok_def sketches_of_def)
  show ?thesis unfolding r bucket_value [OF ok] bucket_value [OF ok2] by (cases k) (auto simp: bump_kind_at)
qed

lemma add_kind_ok [simp]: "bucket_ok b \<Longrightarrow> bucket_ok (b\<lparr>bk_total := n, bk_kinds := bump_kind kind (bk_kinds b)\<rparr>)"
    "bucket_ok b \<Longrightarrow> bucket_ok (b\<lparr>bk_kinds := bump_kind kind (bk_kinds b)\<rparr>)"
  by (simp_all add: bucket_ok_def sketches_of_def)

lemma kinds_registers:
  "sketch_rows k (b\<lparr>bk_total := n\<rparr>) = sketch_rows k b" "sketch_rows k (b\<lparr>bk_kinds := ks\<rparr>) = sketch_rows k b"
  by (simp_all add: sketch_rows_def sketches_of_def)

abbreviation add_addr :: "string \<Rightarrow> bool \<Rightarrow> string \<Rightarrow> Bucket \<Rightarrow> Bucket" where
  "add_addr ip fc bvKind b \<equiv> b\<lparr>bk_ipAll := Add ip (bk_ipAll b), bk_ipChal := (if fc then Add ip (bk_ipChal b) else bk_ipChal b),
     bk_ipPass := (if bvKind = ''pow'' \<or> bvKind = ''captcha'' then Add ip (bk_ipPass b) else bk_ipPass b)\<rparr>"

lemma add_addr_ok: "bucket_ok b \<Longrightarrow> bucket_ok (add_addr ip fc bvKind b)"
  by (simp add: bucket_ok_def sketches_of_def)

lemma add_addr_kinds: "cell (+) 0 (bucket_rows k (add_addr ip fc bvKind b)) r = cell (+) 0 (bucket_rows k b) r"
  by (simp add: bucket_rows_def)

lemma add_addr_value:
  assumes "bucket_ok b" "ip \<noteq> []"
  shows "cell max 0 (sketch_rows (now div 60, site) (add_addr ip fc bvKind b)) r =
     max (cell max 0 (sketch_rows (now div 60, site) b) r) (register_adds (CAddr now site ip fc bvKind) r)"
proof -
  obtain m s kd i where r: "r = (m, s, kd, i)" by (cases r)
  show ?thesis
  proof (cases "i < hll_m")
    case True
    have "sketch_at kd (add_addr ip fc bvKind b) = (if in_sketch kd fc bvKind then Add ip (sketch_at kd b) else sketch_at kd b)"
      by (auto simp: sketch_at_def in_sketch_def)
    then show ?thesis using True assms(2) nth_Add_max [OF sketch_at_ok [OF assms(1)] True] by (auto simp: r sketch_value)
  qed (simp add: r sketch_value_out)
qed

lemma country_bump_value:
  "amap_wf (co_kinds b) \<Longrightarrow> cell (+) 0 (country_rows k (b\<lparr>co_total := co_total b + 1, co_kinds := bump_kind kind (co_kinds b)\<rparr>)) r =
     cell (+) 0 (country_rows k b) r + ((if r = (fst k, fst (snd k), snd (snd k), ''total'') then 1 else 0)
       + (if kind \<noteq> [] \<and> r = (fst k, fst (snd k), snd (snd k), kind) then 1 else 0))"
proof -
  assume ok: "amap_wf (co_kinds b)"
  obtain m site cc kd where r: "r = (m, site, cc, kd)" by (cases r)
  have ok2: "amap_wf (co_kinds (b\<lparr>co_total := co_total b + 1, co_kinds := bump_kind kind (co_kinds b)\<rparr>))" using ok by simp
  show ?thesis unfolding r country_value [OF ok] country_value [OF ok2] by (cases k) (auto simp: bump_kind_at)
qed

subsection \<open>The invariant under each call\<close>

text \<open>A call that leaves a map alone leaves its counter alone.\<close>

lemma run_count_other:
  "lr_buckets (bumpCountryHourly e now site ip kind r) = lr_buckets r" "lr_buckets (bumpCookieIP now site ip ja4 ua kind judged r) = lr_buckets r"
  "lr_crawler (bumpLine now site kind r) = lr_crawler r" "lr_crawler (bumpKind now site kind r) = lr_crawler r"
  "lr_crawler (bumpTrafficHLL now site ip fc bv r) = lr_crawler r" "lr_crawler (bumpCountryHourly e now site ip kind r) = lr_crawler r"
  "lr_crawler (bumpCookieIP now site ip ja4 ua kind judged r) = lr_crawler r"
  "lr_detail (bumpLine now site kind r) = lr_detail r" "lr_detail (bumpKind now site kind r) = lr_detail r"
  "lr_detail (bumpTrafficHLL now site ip fc bv r) = lr_detail r" "lr_detail (bumpCountryHourly e now site ip kind r) = lr_detail r"
  "lr_detail (bumpCookieIP now site ip ja4 ua kind judged r) = lr_detail r"
  "lr_country (bumpLine now site kind r) = lr_country r" "lr_country (bumpKind now site kind r) = lr_country r"
  "lr_country (bumpTrafficHLL now site ip fc bv r) = lr_country r" "lr_country (bumpCookieIP now site ip ja4 ua kind judged r) = lr_country r"
  "lr_cookieIP (bumpLine now site kind r) = lr_cookieIP r" "lr_cookieIP (bumpKind now site kind r) = lr_cookieIP r"
  "lr_cookieIP (bumpTrafficHLL now site ip fc bv r) = lr_cookieIP r" "lr_cookieIP (bumpCountryHourly e now site ip kind r) = lr_cookieIP r"
  by (simp_all add: bumpLine_def bumpKind_def bumpTrafficHLL_def bumpCountryHourly_def bumpCookieIP_def Let_def)

abbreviation counted_sys :: "LogSys \<Rightarrow> LogReader \<Rightarrow> Count \<Rightarrow> LogSys" where
  "counted_sys s r c \<equiv> s\<lparr>sy_reader := r, sy_hist := sy_hist s @ [c]\<rparr>"

lemma in_flight_counted [simp]: "in_flight (counted_sys s r c) = in_flight s"
  by (simp add: in_flight_def)

lemma minute_other:
  "minute_inv s \<Longrightarrow> lr_buckets r = lr_buckets (sy_reader s) \<Longrightarrow> (\<And>q. minute_adds c q = 0) \<Longrightarrow> minute_inv (counted_sys s r c)"
  unfolding minute_inv_def by (simp add: minute.conserved_other)

lemma register_other:
  "register_inv s \<Longrightarrow> lr_buckets r = lr_buckets (sy_reader s) \<Longrightarrow> (\<And>q. register_adds c q = 0) \<Longrightarrow> register_inv (counted_sys s r c)"
  unfolding register_inv_def by (simp add: registers.conserved_other)

lemma crawler_other:
  "crawler_inv e s \<Longrightarrow> lr_crawler r = lr_crawler (sy_reader s) \<Longrightarrow> (\<And>q. crawler_adds e c q = (0, 0)) \<Longrightarrow> crawler_inv e (counted_sys s r c)"
  unfolding crawler_inv_def by (simp add: crawlers.conserved_other)

lemma detail_other:
  "detail_inv e s \<Longrightarrow> lr_detail r = lr_detail (sy_reader s) \<Longrightarrow> (\<And>q. detail_adds e c q = (0, 0)) \<Longrightarrow> detail_inv e (counted_sys s r c)"
  unfolding detail_inv_def by (simp add: crawlers.conserved_other)

lemma country_other:
  "country_inv e s \<Longrightarrow> lr_country r = lr_country (sy_reader s) \<Longrightarrow> (\<And>q. country_adds e c q = 0) \<Longrightarrow> country_inv e (counted_sys s r c)"
  unfolding country_inv_def by (simp add: country.conserved_other)

lemma cookie_other:
  "cookie_inv s \<Longrightarrow> lr_cookieIP r = lr_cookieIP (sy_reader s) \<Longrightarrow> (\<And>q. cookie_adds c q = (0, 0)) \<Longrightarrow> cookie_inv (counted_sys s r c)"
  unfolding cookie_inv_def by (simp add: cookies.conserved_other)

lemma share_value:
  "bucket_ok b \<Longrightarrow> cell (+) 0 (bucket_rows k (b\<lparr>bk_kinds := bump_kind kind (bk_kinds b)\<rparr>)) r =
     cell (+) 0 (bucket_rows k b) r + (if kind \<noteq> [] \<and> r = (fst k, snd k, kind) then 1 else 0)"
  using add_kind_value [where b = b and k = k and n = 0 and kind = kind and r = r] by (cases b) simp

lemma minute_count:
  assumes "minute_inv s"
  shows "minute_inv (counted_sys s (run_count e c (sy_reader s)) c)"
proof (cases c)
  case (CLine now site kind)
  show ?thesis using assms unfolding minute_inv_def in_flight_counted CLine
    by (simp add: bumpLine_def, intro minute.conserved_bump)
      (simp_all add: add_kind_value [where n = 1, simplified])
next
  case (CShare now site kind)
  show ?thesis
  proof (cases "kind = []")
    case True
    then show ?thesis using assms unfolding CShare by (intro minute_other) (simp_all add: bumpKind_def)
  next
    case False
    then show ?thesis using assms unfolding minute_inv_def in_flight_counted CShare
      by (simp add: bumpKind_def, intro minute.conserved_bump) (simp_all add: share_value)
  qed
next
  case (CAddr now site ip fc bvKind)
  show ?thesis
  proof (cases "ip = []")
    case True
    then show ?thesis using assms unfolding CAddr by (intro minute_other) (simp_all add: bumpTrafficHLL_def)
  next
    case False
    have "conserved (+) 0 bucket_rows bucket_ok minute_adds (\<lambda>r. at_key 0 r (lt_minute (sy_base s))) (sy_hist s @ [c])
        (\<lambda>r. at_key 0 r (lt_minute (sy_tables s))) (ba_buckets (in_flight s))
        (upd_key newBucket (now div 60, site) (add_addr ip fc bvKind) (lr_buckets (sy_reader s)))"
      by (rule minute.conserved_bump) (use assms in \<open>simp_all add: minute_inv_def CAddr add_addr_ok add_addr_kinds\<close>)
    then show ?thesis using False by (simp add: minute_inv_def CAddr bumpTrafficHLL_def)
  qed
qed (use assms in \<open>auto intro: minute_other simp: run_count_other bumpCrawler_maps\<close>)

lemma register_count:
  assumes "register_inv s"
  shows "register_inv (counted_sys s (run_count e c (sy_reader s)) c)"
proof (cases c)
  case (CLine now site kind)
  have "conserved max 0 sketch_rows bucket_ok register_adds (stored_registers (lt_hll (sy_base s))) (sy_hist s @ [c])
      (stored_registers (lt_hll (sy_tables s))) (ba_buckets (in_flight s))
      (upd_key newBucket (now div 60, site) (\<lambda>b. b\<lparr>bk_total := bk_total b + 1, bk_kinds := bump_kind kind (bk_kinds b)\<rparr>) (lr_buckets (sy_reader s)))"
    by (rule registers.conserved_bump) (use assms in \<open>simp_all add: register_inv_def CLine kinds_registers\<close>)
  then show ?thesis by (simp add: register_inv_def CLine bumpLine_def)
next
  case (CShare now site kind)
  have "conserved max 0 sketch_rows bucket_ok register_adds (stored_registers (lt_hll (sy_base s))) (sy_hist s @ [c])
      (stored_registers (lt_hll (sy_tables s))) (ba_buckets (in_flight s))
      (upd_key newBucket (now div 60, site) (\<lambda>b. b\<lparr>bk_kinds := bump_kind kind (bk_kinds b)\<rparr>) (lr_buckets (sy_reader s)))"
    by (rule registers.conserved_bump) (use assms in \<open>simp_all add: register_inv_def CShare kinds_registers\<close>)
  then show ?thesis using register_other [OF assms, of "sy_reader s" c] by (cases "kind = []") (simp_all add: register_inv_def CShare bumpKind_def)
next
  case (CAddr now site ip fc bvKind)
  show ?thesis
  proof (cases "ip = []")
    case True
    then have "register_adds c q = 0" for q by (cases q) (simp add: CAddr)
    then show ?thesis using assms True unfolding CAddr by (intro register_other) (simp_all add: bumpTrafficHLL_def)
  next
    case False
    have "conserved max 0 sketch_rows bucket_ok register_adds (stored_registers (lt_hll (sy_base s))) (sy_hist s @ [c])
        (stored_registers (lt_hll (sy_tables s))) (ba_buckets (in_flight s))
        (upd_key newBucket (now div 60, site) (add_addr ip fc bvKind) (lr_buckets (sy_reader s)))"
      by (rule registers.conserved_bump) (use assms add_addr_value [OF _ False] in \<open>simp_all add: register_inv_def CAddr add_addr_ok\<close>)
    then show ?thesis using False by (simp add: register_inv_def CAddr bumpTrafficHLL_def)
  qed
qed (use assms in \<open>auto intro: register_other simp: run_count_other bumpCrawler_maps\<close>)

lemma served_value:
  "cell pair_add (0, 0) (crawler_rows k (bump_served served b)) r =
     pair_add (cell pair_add (0, 0) (crawler_rows k b) r) (if k = r then (1, if served then 1 else 0) else (0, 0))"
  by (simp add: crawler_value bump_served_def pair_add_def)

lemma crawler_count:
  assumes "crawler_inv e s"
  shows "crawler_inv e (counted_sys s (run_count e c (sy_reader s)) c)"
proof (cases c)
  case (CCrawler now ua served named ip)
  show ?thesis
  proof (cases "category_of e ua = []")
    case True
    then show ?thesis using assms unfolding CCrawler by (intro crawler_other) (simp_all add: bumpCrawler_maps)
  next
    case False
    have "conserved pair_add (0, 0) crawler_rows (\<lambda>_. True) (crawler_adds e) (\<lambda>r. at_key (0, 0) r (lt_crawler (sy_base s))) (sy_hist s @ [c])
        (\<lambda>r. at_key (0, 0) r (lt_crawler (sy_tables s))) (ba_crawler (in_flight s))
        (upd_key newCrawlerBucket (now div 60, category_of e ua) (bump_served served) (lr_crawler (sy_reader s)))"
      by (rule crawlers.conserved_bump) (use assms False in \<open>auto simp: crawler_inv_def CCrawler served_value\<close>)
    then show ?thesis using False by (simp add: crawler_inv_def CCrawler bumpCrawler_maps)
  qed
qed (use assms in \<open>auto intro: crawler_other simp: run_count_other\<close>)

lemma detail_count:
  assumes "detail_inv e s"
  shows "detail_inv e (counted_sys s (run_count e c (sy_reader s)) c)"
proof (cases c)
  case (CCrawler now ua served named ip)
  show ?thesis
  proof (cases "category_of e ua = [] \<or> crawler_name_of e ua = []")
    case True
    then show ?thesis using assms unfolding CCrawler by (intro detail_other) (auto simp: bumpCrawler_maps)
  next
    case False
    have "conserved pair_add (0, 0) crawler_rows (\<lambda>_. True) (detail_adds e) (\<lambda>r. at_key (0, 0) r (lt_detail (sy_base s))) (sy_hist s @ [c])
        (\<lambda>r. at_key (0, 0) r (lt_detail (sy_tables s))) (ba_detail (in_flight s))
        (upd_key newCrawlerBucket (now div 3600, category_of e ua, crawler_name_of e ua) (bump_served served) (lr_detail (sy_reader s)))"
      by (rule crawlers.conserved_bump) (use assms False in \<open>auto simp: detail_inv_def CCrawler served_value\<close>)
    then show ?thesis using False by (simp add: detail_inv_def CCrawler bumpCrawler_maps)
  qed
qed (use assms in \<open>auto intro: detail_other simp: run_count_other\<close>)

lemma country_count:
  assumes "country_inv e s"
  shows "country_inv e (counted_sys s (run_count e c (sy_reader s)) c)"
proof (cases c)
  case (CCountry now site ip kind)
  have "conserved (+) 0 country_rows (\<lambda>b. amap_wf (co_kinds b)) (country_adds e) (\<lambda>r. at_key 0 r (lt_country (sy_base s))) (sy_hist s @ [c])
      (\<lambda>r. at_key 0 r (lt_country (sy_tables s))) (ba_country (in_flight s))
      (upd_key newCountryBucket (now div 3600, site, country_of_ip e ip)
         (\<lambda>b. b\<lparr>co_total := co_total b + 1, co_kinds := bump_kind kind (co_kinds b)\<rparr>) (lr_country (sy_reader s)))"
    by (rule country.conserved_bump) (use assms country_bump_value in \<open>simp_all add: country_inv_def CCountry\<close>)
  then show ?thesis by (simp add: country_inv_def CCountry bumpCountryHourly_def country_of_ip_def)
qed (use assms in \<open>auto intro: country_other simp: run_count_other bumpCrawler_maps\<close>)

lemma cookie_count:
  assumes "cookie_inv s" "is_counted c (sy_reader s)"
  shows "cookie_inv (counted_sys s (run_count e c (sy_reader s)) c)"
proof (cases c)
  case (CCookie now site ip ja4 ua kind judged)
  let ?f = "\<lambda>b. b\<lparr>ci_cnt := ci_cnt b + 1, ci_judged := (if judged then ci_judged b + 1 else ci_judged b), ci_ja4 := ja4,
                ci_ua := take cookieIPUAMax ua, ci_lastSeen := now\<rparr>"
  have v: "cell pair_add (0, 0) (cookie_rows (now div 60, site, ip, kind) (?f b)) r =
      pair_add (cell pair_add (0, 0) (cookie_rows (now div 60, site, ip, kind) b) r) (cookie_adds c r)" for b r
    by (cases r) (auto simp: cookie_value CCookie pair_add_def split: option.splits)
  have "conserved pair_add (0, 0) cookie_rows (\<lambda>_. True) cookie_adds (stored_cookies (lt_cookieIP (sy_base s))) (sy_hist s @ [c])
      (stored_cookies (lt_cookieIP (sy_tables s))) (ba_cookieIP (in_flight s))
      (upd_key newCookieIPBucket (now div 60, site, ip, kind) ?f (lr_cookieIP (sy_reader s)))"
    by (rule cookies.conserved_bump) (use assms(1) v in \<open>simp_all add: cookie_inv_def\<close>)
  then show ?thesis using assms(2) by (simp add: cookie_inv_def CCookie bumpCookieIP_def)
qed (use assms in \<open>auto intro: cookie_other simp: run_count_other bumpCrawler_maps\<close>)

subsection \<open>The invariant under the flush\<close>

lemma write_one_bucket:
  assumes "bucket_ok b" "i < hll_m"
  shows "read_sketch (m, site, kd) (fold (\<lambda>(kd, s). put_sketch (fst k, snd k, kd) s) (sketches_of b) t) ! i
    = max (read_sketch (m, site, kd) t ! i) (cell max 0 (sketch_rows k b) (m, site, kd, i))"
proof -
  have ok: "sketch_ok (bk_ipAll b)" "sketch_ok (bk_ipChal b)" "sketch_ok (bk_ipPass b)"
    using assms(1) by (simp_all add: bucket_ok_def sketches_of_def)
  show ?thesis
    using assms(2) ok
    by (cases k) (simp add: sketches_of_def read_put_sketch sketch_value sketch_at_def nth_Merge max.commute)
qed

lemma write_sketches_stored:
  assumes "\<forall>kb \<in> set es. bucket_ok (snd kb)"
  shows "stored_registers (write_sketches es t) r = max (stored_registers t r) (held max 0 sketch_rows es r)"
proof -
  obtain m site kd i where r: "r = (m, site, kd, i)" by (cases r)
  show ?thesis
  proof (cases "i < hll_m")
    case True
    have "read_sketch (m, site, kd) (write_sketches es t) ! i = max (read_sketch (m, site, kd) t ! i) (held max 0 sketch_rows es (m, site, kd, i))"
      using assms
    proof (induction es arbitrary: t)
      case (Cons x es)
      then show ?case using write_one_bucket [OF _ True, of "snd x" m site kd "fst x" t]
        by (cases x) (simp add: write_sketches_def registers.held_Cons max.assoc)
    qed (simp add: write_sketches_def)
    then show ?thesis using True by (simp add: r stored_registers_def)
  next
    case False
    have "held max 0 sketch_rows es (m, site, kd, i) = 0"
      by (induction es) (use False in \<open>auto simp: registers.held_Cons sketch_value_out\<close>)
    then show ?thesis using False by (simp add: r stored_registers_def)
  qed
qed

lemma write_cookieIP_stored:
  "stored_cookies (write_cookieIP es t) r = pair_add (stored_cookies t r) (held pair_add (0, 0) cookie_rows es r)"
proof (induction es arbitrary: t)
  case (Cons x es)
  obtain minute site ip kind b where x: "x = ((minute, site, ip, kind), b)" by (cases x) auto
  show ?case
  proof (cases "PackIP ip")
    case None
    have h: "held pair_add (0, 0) cookie_rows (x # es) r = held pair_add (0, 0) cookie_rows es r"
      unfolding x cookies.held_Cons by (simp add: cookie_value None)
    have "write_cookieIP (x # es) t = write_cookieIP es t" by (simp add: x write_cookieIP_def None)
    then show ?thesis using Cons.IH h by simp
  next
    case (Some p)
    let ?t = "upd_key newCookieIPBucket (minute, site, p, kind) (\<lambda>o'. b\<lparr>ci_cnt := ci_cnt o' + ci_cnt b, ci_judged := ci_judged o' + ci_judged b\<rparr>) t"
    have "write_cookieIP (x # es) t = write_cookieIP es ?t" by (simp add: x write_cookieIP_def Some)
    moreover have "stored_cookies ?t r = pair_add (stored_cookies t r) (cell pair_add (0, 0) (cookie_rows (fst x) b) r)"
      by (auto simp: x cookie_value Some stored_cookies_def pair_add_def)
    moreover have "held pair_add (0, 0) cookie_rows (x # es) r
        = pair_add (cell pair_add (0, 0) (cookie_rows (fst x) b) r) (held pair_add (0, 0) cookie_rows es r)"
      by (simp add: x cookies.held_Cons)
    ultimately show ?thesis using Cons.IH [of ?t] by (simp add: pair_rows.assoc)
  qed
qed (simp add: write_cookieIP_def pair_add_def)

lemma inv_take:
  assumes "log_inv e s" "sy_flight s = None" "flush_take final now (sy_reader s) = (b, r)"
  shows "log_inv e (s\<lparr>sy_reader := r, sy_flight := Some b\<rparr>)"
proof -
  have b: "b = fst (flush_take final now (sy_reader s))" "r = snd (flush_take final now (sy_reader s))" by (simp_all add: assms(3))
  note inv = assms(1) [unfolded log_inv_def inv_defs in_flight_def assms(2), simplified emptyBatch_def Batch.simps option.case]
  have "conserved pair_add (0, 0) crawler_rows (\<lambda>_. True) (detail_adds e) (\<lambda>r. at_key (0, 0) r (lt_detail (sy_base s))) (sy_hist s)
      (\<lambda>r. at_key (0, 0) r (lt_detail (sy_tables s))) (lr_detail (sy_reader s)) []"
    using crawlers.conserved_take [of "detail_adds e" _ "sy_hist s" _ "lr_detail (sy_reader s)" "\<lambda>_. True"] inv by simp
  moreover have "conserved (+) 0 country_rows (\<lambda>b. amap_wf (co_kinds b)) (country_adds e) (\<lambda>r. at_key 0 r (lt_country (sy_base s))) (sy_hist s)
      (\<lambda>r. at_key 0 r (lt_country (sy_tables s))) (lr_country (sy_reader s)) []"
    using country.conserved_take [of "country_adds e" _ "sy_hist s" _ "lr_country (sy_reader s)" "\<lambda>_. True"] inv by simp
  ultimately show ?thesis
    using inv unfolding log_inv_def inv_defs
    by (simp add: b flush_take_def in_flight_def Let_def minute.conserved_take registers.conserved_take crawlers.conserved_take cookies.conserved_take)
qed

lemma inv_fail:
  assumes "log_inv e s" "sy_flight s = Some b"
  shows "log_inv e (s\<lparr>sy_reader := flush_restore b (sy_reader s), sy_flight := None\<rparr>)"
  using assms unfolding log_inv_def inv_defs
  by (simp add: flush_restore_def in_flight_def emptyBatch_def minute.conserved_fail registers.conserved_fail crawlers.conserved_fail
      country.conserved_fail cookies.conserved_fail)

lemma inv_commit:
  assumes "log_inv e s" "sy_flight s = Some b"
  shows "log_inv e (s\<lparr>sy_tables := flush_write b (sy_tables s), sy_flight := None\<rparr>)"
proof -
  have ok: "\<forall>kb \<in> set (ba_buckets b). bucket_ok (snd kb)"
    using assms by (auto simp: log_inv_def minute_inv_def conserved_def in_flight_def)
  have "conserved max 0 sketch_rows bucket_ok register_adds (stored_registers (lt_hll (sy_base s))) (sy_hist s)
      (stored_registers (lt_hll (sy_tables s))) (ba_buckets b) (lr_buckets (sy_reader s))"
    using assms by (simp add: log_inv_def register_inv_def in_flight_def)
  note registers.conserved_commit [OF this write_sketches_stored [OF ok]]
  then have "register_inv (s\<lparr>sy_tables := flush_write b (sy_tables s), sy_flight := None\<rparr>)"
    by (simp add: register_inv_def flush_write_def in_flight_def emptyBatch_def)
  moreover
  have "conserved pair_add (0, 0) cookie_rows (\<lambda>_. True) cookie_adds (stored_cookies (lt_cookieIP (sy_base s))) (sy_hist s)
      (stored_cookies (lt_cookieIP (sy_tables s))) (ba_cookieIP b) (lr_cookieIP (sy_reader s))"
    using assms by (simp add: log_inv_def cookie_inv_def in_flight_def)
  note cookies.conserved_commit [OF this write_cookieIP_stored]
  then have "cookie_inv (s\<lparr>sy_tables := flush_write b (sy_tables s), sy_flight := None\<rparr>)"
    by (simp add: cookie_inv_def flush_write_def in_flight_def emptyBatch_def)
  ultimately show ?thesis
    using assms unfolding log_inv_def minute_inv_def crawler_inv_def detail_inv_def country_inv_def
    by (simp add: flush_write_def in_flight_def emptyBatch_def all_rows_def minute.conserved_upsert crawlers.conserved_upsert country.conserved_upsert)
qed

lemma inv_step:
  assumes "log_inv e s" "log_step e s s'"
  shows "log_inv e s'"
  using assms(2)
proof cases
  case (step_site now site)
  then show ?thesis using assms(1) by (simp add: log_inv_def inv_defs in_flight_def aggSite_maps)
next
  case (step_count c)
  then show ?thesis using assms(1) minute_count register_count crawler_count detail_count country_count cookie_count by (simp add: log_inv_def)
next
  case (step_dropped c)
  then have "run_count e c (sy_reader s) = sy_reader s" by (cases c) (simp_all add: bumpCookieIP_def)
  then show ?thesis using assms(1) step_dropped(1) by simp
next
  case (step_take final now b r)
  then show ?thesis using inv_take [OF assms(1)] by simp
next
  case (step_commit b)
  then show ?thesis using inv_commit [OF assms(1)] by simp
next
  case (step_fail b)
  then show ?thesis using inv_fail [OF assms(1)] by simp
qed

interpretation log_counts: invariant_system log_start "log_step e" "log_inv e" for e
proof unfold_locales
  show "log_start s \<Longrightarrow> log_inv e s" for s
    by (simp add: log_start_def log_inv_def inv_defs in_flight_def emptyBatch_def newLogReader_def minute.conserved_init registers.conserved_init
        crawlers.conserved_init country.conserved_init cookies.conserved_init)
qed (rule inv_step)

subsection \<open>Registers and sketches\<close>

fun address_of :: "kindRow \<Rightarrow> Count \<Rightarrow> string list" where
  "address_of (m, s, kd) (CAddr now site ip fc bvKind) = (if ip \<noteq> [] \<and> (m, s) = (now div 60, site) \<and> in_sketch kd fc bvKind then [ip] else [])"
| "address_of _ _ = []"

definition addresses :: "kindRow \<Rightarrow> Count list \<Rightarrow> string list" where
  "addresses k h = concat (map (address_of k) h)"

lemma sketch_ok_sketch_of [simp]: "sketch_ok (sketch_of ks)"
proof -
  have "sketch_ok (fold Add ks s)" if "sketch_ok s" for s using that by (induction ks arbitrary: s) simp_all
  then show ?thesis by (simp add: sketch_of_def)
qed

lemma register_adds_sketch: "i < hll_m \<Longrightarrow> register_adds c (m, site, kd, i) = sketch_of (address_of (m, site, kd) c) ! i"
  by (cases c) (simp_all add: sketch_of_def)

lemma registers_of_history:
  assumes "i < hll_m"
  shows "foldr max (map (\<lambda>c. register_adds c (m, site, kd, i)) h) 0 = sketch_of (addresses (m, site, kd) h) ! i"
proof (induction h)
  case (Cons c h)
  then show ?case using assms
    by (simp add: addresses_def register_adds_sketch Merge_sketches [symmetric] nth_Merge)
qed (use assms in \<open>simp add: addresses_def sketch_of_def\<close>)

lemma held_no_bucket: "i < hll_m \<Longrightarrow> map_of es (m, site) = None \<Longrightarrow> held max 0 sketch_rows es (m, site, kd, i) = 0"
  by (induction es) (auto simp: registers.held_Cons sketch_value)



lemma pair_add_cancel: "pair_add a x = pair_add a y \<longleftrightarrow> x = y"
  by (auto simp: pair_add_def prod_eq_iff)

section \<open>Properties\<close>

text \<open>
  C19: Nothing counted is lost or counted twice. In every reachable state, whatever lines come
  in while a flush is under way and whichever flushes fail, each row of the five tables of
  counts, with what the flush under way carries for it and what the memory holds, is what the
  row was at the start and exactly what has been counted for it since.
\<close>

theorem log_counts_conserved:
  assumes "reachable log_start (log_step e) s"
  shows "at_key 0 r (lt_minute (sy_tables s)) + (held (+) 0 bucket_rows (ba_buckets (in_flight s)) r + held (+) 0 bucket_rows (lr_buckets (sy_reader s)) r)
      = at_key 0 r (lt_minute (sy_base s)) + sum_list (map (\<lambda>c. minute_adds c r) (sy_hist s))
    \<and> at_key 0 q (lt_country (sy_tables s)) + (held (+) 0 country_rows (ba_country (in_flight s)) q + held (+) 0 country_rows (lr_country (sy_reader s)) q)
      = at_key 0 q (lt_country (sy_base s)) + sum_list (map (\<lambda>c. country_adds e c q) (sy_hist s))
    \<and> pair_add (at_key (0, 0) k (lt_crawler (sy_tables s)))
        (pair_add (held pair_add (0, 0) crawler_rows (ba_crawler (in_flight s)) k) (held pair_add (0, 0) crawler_rows (lr_crawler (sy_reader s)) k))
      = pair_add (at_key (0, 0) k (lt_crawler (sy_base s))) (foldr pair_add (map (\<lambda>c. crawler_adds e c k) (sy_hist s)) (0, 0))
    \<and> pair_add (at_key (0, 0) d (lt_detail (sy_tables s)))
        (pair_add (held pair_add (0, 0) crawler_rows (ba_detail (in_flight s)) d) (held pair_add (0, 0) crawler_rows (lr_detail (sy_reader s)) d))
      = pair_add (at_key (0, 0) d (lt_detail (sy_base s))) (foldr pair_add (map (\<lambda>c. detail_adds e c d) (sy_hist s)) (0, 0))
    \<and> pair_add (stored_cookies (lt_cookieIP (sy_tables s)) p)
        (pair_add (held pair_add (0, 0) cookie_rows (ba_cookieIP (in_flight s)) p) (held pair_add (0, 0) cookie_rows (lr_cookieIP (sy_reader s)) p))
      = pair_add (stored_cookies (lt_cookieIP (sy_base s)) p) (foldr pair_add (map (\<lambda>c. cookie_adds c p) (sy_hist s)) (0, 0))"
proof -
  have inv: "log_inv e s" by (rule log_counts.reachable_inv [OF assms])
  then have "minute_inv s" "country_inv e s" "crawler_inv e s" "detail_inv e s" "cookie_inv s" by (simp_all add: log_inv_def)
  then show ?thesis unfolding inv_defs sum_list.eq_foldr
    by (intro conjI) (erule conserved_row)+
qed

text \<open>
  C21: A stored sketch is the sketch of the addresses. Once a minute's bucket has been written,
  however often its flush failed and was put back and merged before, the stored sketch is the
  one it was at the start merged with the sketch of exactly the addresses seen in that minute
  under that site and kind.
\<close>

theorem sketches_hold_every_address:
  assumes "reachable log_start (log_step e) s" "sy_flight s = None" "map_of (lr_buckets (sy_reader s)) (m, site) = None"
  shows "read_sketch (m, site, kd) (lt_hll (sy_tables s))
    = Merge (read_sketch (m, site, kd) (lt_hll (sy_base s))) (sketch_of (addresses (m, site, kd) (sy_hist s)))"
proof (rule sketch_eqI)
  fix i assume i: "i < hll_m"
  have "register_inv s" using log_counts.reachable_inv [OF assms(1)] by (simp add: log_inv_def)
  then have "max (stored_registers (lt_hll (sy_tables s)) (m, site, kd, i)) 0
      = max (stored_registers (lt_hll (sy_base s)) (m, site, kd, i)) (sketch_of (addresses (m, site, kd) (sy_hist s)) ! i)"
    unfolding registers_of_history [OF i, symmetric] register_inv_def
    using conserved_row [of max 0 sketch_rows _ _ _ _ _ _ _ "(m, site, kd, i)"] held_no_bucket [OF i assms(3), of kd] assms(2)
    by (fastforce simp: in_flight_def emptyBatch_def)
  then show "read_sketch (m, site, kd) (lt_hll (sy_tables s)) ! i
      = Merge (read_sketch (m, site, kd) (lt_hll (sy_base s))) (sketch_of (addresses (m, site, kd) (sy_hist s))) ! i"
    using i by (simp add: stored_registers_def nth_Merge)
qed simp_all

text \<open>One reader holds, row by row, what another reader and a batch hold together, the name-only claims apart.\<close>

definition adds_up :: "Batch \<Rightarrow> LogReader \<Rightarrow> LogReader \<Rightarrow> bool" where
  "adds_up b r r' \<longleftrightarrow>
     (\<forall>q. held (+) 0 bucket_rows (lr_buckets r') q = held (+) 0 bucket_rows (lr_buckets r) q + held (+) 0 bucket_rows (ba_buckets b) q)
     \<and> (\<forall>q. held max 0 sketch_rows (lr_buckets r') q = max (held max 0 sketch_rows (lr_buckets r) q) (held max 0 sketch_rows (ba_buckets b) q))
     \<and> (\<forall>q. held pair_add (0, 0) crawler_rows (lr_crawler r') q = pair_add (held pair_add (0, 0) crawler_rows (lr_crawler r) q) (held pair_add (0, 0) crawler_rows (ba_crawler b) q))
     \<and> (\<forall>q. held pair_add (0, 0) crawler_rows (lr_detail r') q = pair_add (held pair_add (0, 0) crawler_rows (lr_detail r) q) (held pair_add (0, 0) crawler_rows (ba_detail b) q))
     \<and> (\<forall>q. held (+) 0 country_rows (lr_country r') q = held (+) 0 country_rows (lr_country r) q + held (+) 0 country_rows (ba_country b) q)
     \<and> (\<forall>q. held pair_add (0, 0) cookie_rows (lr_cookieIP r') q = pair_add (held pair_add (0, 0) cookie_rows (lr_cookieIP r) q) (held pair_add (0, 0) cookie_rows (ba_cookieIP b) q))"

lemma take_adds_up:
  assumes "flush_take final now r = (b, r1)"
  shows "adds_up b r1 r" "ba_named b = lr_named r" "lr_named r1 = []"
proof -
  have b: "b = fst (flush_take final now r)" "r1 = snd (flush_take final now r)" using assms by simp_all
  have comm: "pair_add x y = pair_add y x" for x y by (simp add: pair_add_def add.commute)
  have "held (+) 0 bucket_rows (lr_buckets r) q = held (+) 0 bucket_rows (ba_buckets b) q + held (+) 0 bucket_rows (lr_buckets r1) q" for q
    unfolding b flush_take_def Let_def by simp (rule minute.held_split)
  moreover have "held max 0 sketch_rows (lr_buckets r) q = max (held max 0 sketch_rows (ba_buckets b) q) (held max 0 sketch_rows (lr_buckets r1) q)" for q
    unfolding b flush_take_def Let_def by simp (rule registers.held_split)
  moreover have "held pair_add (0, 0) crawler_rows (lr_crawler r) q = pair_add (held pair_add (0, 0) crawler_rows (ba_crawler b) q) (held pair_add (0, 0) crawler_rows (lr_crawler r1) q)" for q
    unfolding b flush_take_def Let_def by simp (rule crawlers.held_split)
  moreover have "held pair_add (0, 0) cookie_rows (lr_cookieIP r) q = pair_add (held pair_add (0, 0) cookie_rows (ba_cookieIP b) q) (held pair_add (0, 0) cookie_rows (lr_cookieIP r1) q)" for q
    unfolding b flush_take_def Let_def by simp (rule cookies.held_split)
  moreover have "ba_detail b = lr_detail r" "lr_detail r1 = []" "ba_country b = lr_country r" "lr_country r1 = []"
    unfolding b flush_take_def Let_def by simp_all
  ultimately show "adds_up b r1 r" unfolding adds_up_def by (simp add: comm add.commute max.commute)
qed (use assms in \<open>auto simp: flush_take_def Let_def\<close>)

lemma restore_adds_up:
  assumes "log_inv e s" "sy_flight s = Some b"
  shows "adds_up b (sy_reader s) (flush_restore b (sy_reader s))" "lr_named (flush_restore b (sy_reader s)) = lr_named (sy_reader s)"
  using assms unfolding adds_up_def log_inv_def inv_defs in_flight_def conserved_def
  by (simp_all add: flush_restore_def minute.put_back_held registers.put_back_held crawlers.put_back_held country.put_back_held cookies.put_back_held
      del: split_paired_All)

text \<open>
  C22: A failed flush loses the name-only claims and nothing else. Whatever flush is taken, at
  a minute's turn or at the end, whatever is counted while it is under way, and whenever it
  fails: the memory and the batch hold between them, row by row, what the memory held before
  (request kinds, registers, crawlers, their details, countries, cookies), and the failure
  adds exactly the batch to what the memory holds by then, and writes no table. Only the
  counts of requests that went through on a crawler's name alone are taken with the rest and
  not put back: afterwards the memory has the claims counted since the flush was taken.
\<close>

theorem failed_flush_loses_named_claims:
  assumes "reachable log_start (log_step e) s" "sy_flight s = None" "flush_take final now (sy_reader s) = (b, r1)"
    and "(log_step e)\<^sup>*\<^sup>* (s\<lparr>sy_reader := r1, sy_flight := Some b\<rparr>) s1" "sy_flight s1 = Some b"
  defines "s2 \<equiv> s1\<lparr>sy_reader := flush_restore b (sy_reader s1), sy_flight := None\<rparr>"
  shows "log_step e s1 s2 \<and> sy_tables s2 = sy_tables s1
    \<and> adds_up b r1 (sy_reader s) \<and> adds_up b (sy_reader s1) (sy_reader s2)
    \<and> ba_named b = lr_named (sy_reader s) \<and> lr_named r1 = [] \<and> lr_named (sy_reader s2) = lr_named (sy_reader s1)"
proof -
  have "reachable log_start (log_step e) (s\<lparr>sy_reader := r1, sy_flight := Some b\<rparr>)"
    using assms(1) by (rule reachable_step) (rule step_take [OF assms(2,3)])
  from assms(4) this have "reachable log_start (log_step e) s1"
    by (induction rule: converse_rtranclp_induct) (auto intro: reachable_step)
  then have "log_inv e s1" by (rule log_counts.reachable_inv)
  then show ?thesis
    using restore_adds_up [OF _ assms(5)] take_adds_up [OF assms(3)] step_fail [OF assms(5)] by (simp add: s2_def)
qed




text \<open>
  In monitor mode the wires part: a check that would have challenged is counted as a challenge
  served, the log line of the same request as one observed.
\<close>

lemma monitor_mode_counts_differ:
  assumes "aggSite e (lc_site ck) (ll_site p) r = (cf_site c, r)" "ll_kind p = []" "ll_fc p" "ll_observe p" "check_fc c"
  defines "k \<equiv> (lc_line ck div 60, cf_site c)"
  shows "at_key 0 ''challenge_served'' (bk_kinds (at_key newBucket k (lr_buckets (check_counts e ck c r))))
      = at_key 0 ''challenge_served'' (bk_kinds (at_key newBucket k (lr_buckets (onLine_counts e ck p r)))) + 1"
proof -
  have b: "check_bvKind c = []" using assms(5) by (auto simp: check_bvKind_def check_fc_def)
  have h: "bk_kinds (at_key newBucket k (lr_buckets (bumpTrafficHLL now site ip fc bv x))) = bk_kinds (at_key newBucket k (lr_buckets x))" for now site ip fc bv x
    by (simp add: bumpTrafficHLL_def)
  show ?thesis
    using assms(2-5) b unfolding onLine_counts_def check_counts_def assms(1) Let_def prod.case
    by (simp add: run_count_other bumpCrawler_maps h line_kind_def) (simp add: bumpLine_def k_def bump_kind_at)
qed

text \<open>
  A host past the minute's cap is filed under the other sites on the log's wire and has a bucket
  of its own on the check's: there a client that varies its host grows the map without bound.
\<close>

lemma checks_have_no_site_cap:
  assumes "re_siteKnown e = None" "lr_sitesMinute r = now div 60" "lr_sitesSeen r = Some seen" "siteCapPerMinute \<le> length seen"
    and "site \<notin> set seen" "site \<notin> {[], ''default''}" "map_of (lr_buckets r) (now div 60, site) = None" "cf_site c = site" "lc_line ck = now"
  shows "fst (aggSite e now site r) = OtherSite
    \<and> map_of (lr_buckets (check_counts e ck c r)) (now div 60, site) \<noteq> None"
proof -
  have put: "map_of (lr_buckets (bumpTrafficHLL t s ip fc bv x)) k \<noteq> None" "map_of (lr_buckets (bumpKind t s kd x)) k \<noteq> None"
    if "map_of (lr_buckets x) k \<noteq> None" for t s ip fc bv kd x k
    using that by (auto simp: bumpTrafficHLL_def bumpKind_def upd_key_def)
  have "map_of (lr_buckets (bumpLine now site kd r)) (now div 60, site) \<noteq> None" for kd by (simp add: bumpLine_def upd_key_def)
  then have "map_of (lr_buckets (check_counts e ck c r)) (now div 60, site) \<noteq> None"
    unfolding check_counts_def Let_def run_count_other assms(8,9) by (intro put) (auto intro!: put simp: bumpCrawler_maps bumpLine_def upd_key_def simp del: not_None_eq split: option.splits)
  then show ?thesis using assms by (simp add: aggSite_def Let_def)
qed

section \<open>Evaluation\<close>

definition demo_reader_env :: ReaderEnv where
  "demo_reader_env = \<lparr>re_siteKnown = None, re_geo = Some (\<lambda>_. ''JP''),
     re_classify = Some (\<lambda>ua. if ua = ''Googlebot'' then ''search'' else []), re_namer = Some (\<lambda>ua _. ua)\<rparr>"

definition no_tables :: LogTables where
  "no_tables = \<lparr>lt_minute = [], lt_hll = [], lt_crawler = [], lt_detail = [], lt_named = [], lt_country = [], lt_cookieIP = []\<rparr>"

definition demo_log :: LogSys where
  "demo_log = \<lparr>sy_reader = newLogReader, sy_flight = None, sy_tables = no_tables, sy_hist = [], sy_base = no_tables\<rparr>"

lemma demo_log_reachable: "reachable log_start (log_step demo_reader_env) demo_log"
  by (rule reachable_init) (simp add: log_start_def demo_log_def)

lemma demo_counted:
  "is_counted c (sy_reader s) \<Longrightarrow> reachable log_start (log_step e) s \<Longrightarrow>
     reachable log_start (log_step e) (counted_sys s (run_count e c (sy_reader s)) c)"
  by (erule reachable_step) (rule step_count)

theorem log_counts_conserved_witness:
  "held (+) 0 bucket_rows (lr_buckets (bumpLine 60 ''a'' ''pow'' newLogReader)) (1, ''a'', ''pow'') = 1"
  using log_counts_conserved [OF demo_counted [of "CLine 60 ''a'' ''pow''", OF _ demo_log_reachable], of "(1, ''a'', ''pow'')"]
  by (simp add: demo_log_def no_tables_def in_flight_def emptyBatch_def at_key_def)

theorem sketches_hold_every_address_witness:
  "read_sketch (1, ''a'', ''ip'') (lt_hll (flush_write (fst (flush_take True 60 (bumpTrafficHLL 60 ''a'' ''192.0.2.1'' False ''pow'' newLogReader))) no_tables))
     = sketch_of [''192.0.2.1'']"
proof -
  let ?c = "CAddr 60 ''a'' ''192.0.2.1'' False ''pow''"
  let ?s1 = "counted_sys demo_log (run_count demo_reader_env ?c (sy_reader demo_log)) ?c"
  let ?t = "flush_take True 60 (sy_reader ?s1)"
  let ?s2 = "?s1\<lparr>sy_reader := snd ?t, sy_flight := Some (fst ?t)\<rparr>"
  let ?s3 = "?s2\<lparr>sy_tables := flush_write (fst ?t) (sy_tables ?s2), sy_flight := None\<rparr>"
  have "reachable log_start (log_step demo_reader_env) ?s1" using demo_counted [of ?c, OF _ demo_log_reachable] by simp
  then have "reachable log_start (log_step demo_reader_env) ?s2"
    by (rule reachable_step) (rule step_take, simp_all add: demo_log_def)
  then have r: "reachable log_start (log_step demo_reader_env) ?s3"
    by (rule reachable_step) (rule step_commit, simp)
  have "map_of (lr_buckets (sy_reader ?s3)) (1, ''a'') = None" by (simp add: flush_take_def Let_def due_def)
  then have "read_sketch (1, ''a'', ''ip'') (lt_hll (sy_tables ?s3))
      = Merge (read_sketch (1, ''a'', ''ip'') []) (sketch_of (addresses (1, ''a'', ''ip'') [?c]))"
    using sketches_hold_every_address [OF r, of 1 "''a''" "''ip''"] by (simp add: demo_log_def no_tables_def)
  also have "\<dots> = sketch_of [''192.0.2.1'']"
  proof -
    have "read_sketch (1, ''a'', ''ip'') [] = emptySketch" by (simp add: read_sketch_def at_key_def Load_def emptySketch_def)
    moreover have "Merge emptySketch (sketch_of xs) = sketch_of xs" for xs by (rule sketch_eqI) (simp_all add: nth_Merge)
    ultimately show ?thesis by (simp add: addresses_def in_sketch_def)
  qed
  finally show ?thesis by (simp add: demo_log_def)
qed

theorem failed_flush_loses_named_claims_witness:
  "\<exists>s1 s2. log_step demo_reader_env s1 s2 \<and> sy_hist s2 = [CCrawler 60 ''Googlebot'' False True ''192.0.2.1'']
     \<and> sy_tables s2 = no_tables \<and> lr_named (sy_reader s2) = []
     \<and> map_of (ba_named (in_flight s1)) (0, ''Googlebot'', ''JP'') \<noteq> None"
proof -
  let ?c = "CCrawler 60 ''Googlebot'' False True ''192.0.2.1''"
  let ?s = "counted_sys demo_log (run_count demo_reader_env ?c (sy_reader demo_log)) ?c"
  let ?t = "flush_take True 60 (sy_reader ?s)"
  have r: "reachable log_start (log_step demo_reader_env) ?s" using demo_counted [of ?c, OF _ demo_log_reachable] by simp
  have f: "sy_flight ?s = None" by (simp add: demo_log_def)
  have "map_of (lr_named (sy_reader ?s)) (0, ''Googlebot'', ''JP'') \<noteq> None"
    by (simp add: bumpCrawler_def demo_reader_env_def Let_def upd_key_def)
  then show ?thesis
    using failed_flush_loses_named_claims [OF r f surjective_pairing [of ?t] rtranclp.rtrancl_refl] unfolding in_flight_def
    by (intro exI [of _ "?s\<lparr>sy_reader := snd ?t, sy_flight := Some (fst ?t)\<rparr>"] exI) (auto simp: demo_log_def)
qed


end
